(* ===== verification/Prelude.thy ===== *)
theory Prelude
  imports Main "HOL-Library.Word"
begin

text \<open>
  Shared vocabulary of the development: machine bytes, the outcome of a Rust
  function (a value, an error, or a panic, which aborts the process under the
  workspace's release profile), the sequencing operator that stands for the
  question-mark operator, big-endian byte strings, and the generic facts about
  lists and words the components use.

  Sizes (Rust's \<open>usize\<close>) are natural numbers; every target the workspace builds
  for has 64-bit pointers, and the places where \<open>usize\<close> arithmetic can overflow
  write the bound \<open>usize_max\<close> out.
\<close>

unbundle bit_operations_syntax

subsection \<open>Bytes and outcomes\<close>

type_synonym byte = "8 word"
type_synonym bytes = "byte list"
type_synonym u16 = "16 word"
type_synonym u32 = "32 word"
type_synonym u64 = "64 word"

abbreviation usize_max :: nat where
  "usize_max \<equiv> 18446744073709551615"

datatype ('e, 'a) res = Ok 'a | Err 'e | Panic

fun and_then :: "('e, 'a) res \<Rightarrow> ('a \<Rightarrow> ('e, 'b) res) \<Rightarrow> ('e, 'b) res" where
  "and_then (Ok a) f = f a"
| "and_then (Err e) f = Err e"
| "and_then Panic f = Panic"

fun map_err :: "('e \<Rightarrow> 'd) \<Rightarrow> ('e, 'a) res \<Rightarrow> ('d, 'a) res" where
  "map_err f (Ok a) = Ok a"
| "map_err f (Err e) = Err (f e)"
| "map_err f Panic = Panic"

definition ok_or :: "'a option \<Rightarrow> 'e \<Rightarrow> ('e, 'a) res" where
  "ok_or x e = (case x of None \<Rightarrow> Err e | Some a \<Rightarrow> Ok a)"

definition expect :: "'a option \<Rightarrow> ('e, 'a) res" where
  "expect x = (case x of None \<Rightarrow> Panic | Some a \<Rightarrow> Ok a)"

named_theorems res_simps \<open>inversion and evaluation of outcomes\<close>

lemma and_then_cong [fundef_cong]:
  assumes "m = m'" and "\<And>a. m' = Ok a \<Longrightarrow> f a = f' a"
  shows "and_then m f = and_then m' f'"
  using assms by (cases m') auto

lemma and_then_eq_Ok [res_simps]:
  "and_then m f = Ok b \<longleftrightarrow> (\<exists>a. m = Ok a \<and> f a = Ok b)"
  by (cases m) auto

lemma and_then_eq_Err [res_simps]:
  "and_then m f = Err e \<longleftrightarrow> m = Err e \<or> (\<exists>a. m = Ok a \<and> f a = Err e)"
  by (cases m) auto

lemma and_then_eq_Panic [res_simps]:
  "and_then m f = Panic \<longleftrightarrow> m = Panic \<or> (\<exists>a. m = Ok a \<and> f a = Panic)"
  by (cases m) auto

lemma map_err_eq_Ok [res_simps]: "map_err f m = Ok b \<longleftrightarrow> m = Ok b"
  by (cases m) auto

lemma map_err_eq_Panic [res_simps]: "map_err f m = Panic \<longleftrightarrow> m = Panic"
  by (cases m) auto

lemma ok_or_simps [simp]: "ok_or None e = Err e" "ok_or (Some a) e = Ok a"
  by (simp_all add: ok_or_def)

lemma ok_or_eq_Ok [res_simps]: "ok_or x e = Ok a \<longleftrightarrow> x = Some a"
  by (cases x) auto

lemma ok_or_not_Panic [simp]: "ok_or x e \<noteq> Panic"
  by (cases x) auto

lemma expect_simps [simp]: "expect None = Panic" "expect (Some a) = Ok a"
  by (simp_all add: expect_def)

lemma expect_eq_Ok [res_simps]: "expect x = Ok a \<longleftrightarrow> x = Some a"
  by (cases x) auto

text \<open>A loop that pushes the result of a fallible step for every element.\<close>

fun map_res :: "('a \<Rightarrow> ('e, 'b) res) \<Rightarrow> 'a list \<Rightarrow> ('e, 'b list) res" where
  "map_res f [] = Ok []"
| "map_res f (x # xs) = and_then (f x) (\<lambda>y. and_then (map_res f xs) (\<lambda>ys. Ok (y # ys)))"

lemma map_res_cong [fundef_cong]:
  assumes "xs = ys" and "\<And>x. x \<in> set ys \<Longrightarrow> f x = g x"
  shows "map_res f xs = map_res g ys"
proof -
  have "(\<And>x. x \<in> set zs \<Longrightarrow> f x = g x) \<Longrightarrow> map_res f zs = map_res g zs" for zs
    by (induction zs) auto
  then show ?thesis using assms by simp
qed

lemma map_res_eq_Ok:
  "map_res f xs = Ok ys \<longleftrightarrow> list_all2 (\<lambda>x y. f x = Ok y) xs ys"
  by (induction xs arbitrary: ys) (auto simp: res_simps list_all2_Cons1)

lemma map_res_Ok_length: "map_res f xs = Ok ys \<Longrightarrow> length ys = length xs"
  by (auto simp: map_res_eq_Ok dest: list_all2_lengthD)

lemma map_res_not_Panic: "(\<And>x. x \<in> set xs \<Longrightarrow> f x \<noteq> Panic) \<Longrightarrow> map_res f xs \<noteq> Panic"
  by (induction xs) (auto simp: res_simps)

lemma map_res_Ok: "(\<And>x. x \<in> set xs \<Longrightarrow> f x = Ok (g x)) \<Longrightarrow> map_res f xs = Ok (map g xs)"
  by (induction xs) auto

subsection \<open>Slices\<close>

text \<open>\<open>bytes.get(a..b)\<close>: the sub-slice, or nothing when the range is out of bounds.\<close>

definition slice :: "'a list \<Rightarrow> nat \<Rightarrow> nat \<Rightarrow> 'a list option" where
  "slice xs a b = (if a \<le> b \<and> b \<le> length xs then Some (take (b - a) (drop a xs)) else None)"

definition get_at :: "'a list \<Rightarrow> nat \<Rightarrow> 'a option" where
  "get_at xs i = (if i < length xs then Some (xs ! i) else None)"

lemma slice_Some_length: "slice xs a b = Some ys \<Longrightarrow> length ys = b - a \<and> a \<le> b \<and> b \<le> length xs"
  by (auto simp: slice_def split: if_splits)

lemma slice_append [simp]:
  "slice (ps @ xs @ ss) (length ps) (length ps + length xs) = Some xs"
  by (simp add: slice_def)

lemma slice_append' [simp]:
  "b = length ps + length xs \<Longrightarrow> slice (ps @ xs @ ss) (length ps) b = Some xs"
  by (simp add: slice_def)

lemma get_at_Cons_0 [simp]: "get_at (x # xs) 0 = Some x"
  by (simp add: get_at_def)

lemma get_at_append [simp]: "get_at (ps @ x # ss) (length ps) = Some x"
  by (simp add: get_at_def)

subsection \<open>Big-endian byte strings\<close>

primrec be_bytes :: "nat \<Rightarrow> nat \<Rightarrow> bytes" where
  "be_bytes 0 n = []"
| "be_bytes (Suc k) n = be_bytes k (n div 256) @ [word_of_nat n]"

definition be_nat :: "bytes \<Rightarrow> nat" where
  "be_nat bs = foldl (\<lambda>acc b. acc * 256 + unat b) 0 bs"

lemma length_be_bytes [simp]: "length (be_bytes k n) = k"
  by (induction k arbitrary: n) auto

lemma be_nat_Nil [simp]: "be_nat [] = 0"
  by (simp add: be_nat_def)

lemma be_nat_snoc [simp]: "be_nat (bs @ [b]) = be_nat bs * 256 + unat b"
  by (simp add: be_nat_def)

lemma unat_word8_of_nat: "unat (word_of_nat n :: byte) = n mod 256"
  by (simp add: unat_of_nat)

lemma unat_byte_less: "unat (b :: byte) < 256"
  using unsigned_less [of b] by simp

lemma be_nat_be_bytes: "be_nat (be_bytes k n) = n mod 256 ^ k"
proof (induction k arbitrary: n)
  case (Suc k)
  have "be_nat (be_bytes (Suc k) n) = (n div 256) mod 256 ^ k * 256 + n mod 256"
    by (simp add: Suc unat_word8_of_nat)
  also have "\<dots> = n mod 256 ^ Suc k"
    by (simp add: mod_mult2_eq mult.commute)
  finally show ?case .
qed simp

lemma be_nat_be_bytes_small: "n < 256 ^ k \<Longrightarrow> be_nat (be_bytes k n) = n"
  by (simp add: be_nat_be_bytes)

lemma be_bytes_be_nat: "be_bytes (length bs) (be_nat bs) = bs"
proof (induction bs rule: rev_induct)
  case (snoc b bs)
  have "(be_nat bs * 256 + unat b) div 256 = be_nat bs"
    using unat_byte_less [of b] by simp
  moreover have "(word_of_nat (be_nat bs * 256 + unat b) :: byte) = b"
  proof -
    have "unat (word_of_nat (be_nat bs * 256 + unat b) :: byte) = unat b"
      unfolding unat_word8_of_nat using unat_byte_less [of b] by simp
    then show ?thesis by (simp only: unsigned_word_eqI)
  qed
  ultimately show ?case using snoc by simp
qed simp

lemma be_nat_less: "be_nat bs < 256 ^ length bs"
proof (induction bs rule: rev_induct)
  case (snoc b bs)
  then have "be_nat bs + 1 \<le> 256 ^ length bs" by simp
  then have "(be_nat bs + 1) * 256 \<le> 256 ^ length bs * 256" by (rule mult_le_mono1)
  with unat_byte_less [of b] show ?case by (simp add: mult.commute)
qed simp

lemma be_nat_Cons: "be_nat (b # bs) = unat b * 256 ^ length bs + be_nat bs"
proof (induction bs rule: rev_induct)
  case Nil
  then show ?case by (simp add: be_nat_def)
next
  case (snoc c bs)
  have "be_nat (b # bs @ [c]) = be_nat ((b # bs) @ [c])" by simp
  also have "\<dots> = be_nat (b # bs) * 256 + unat c" by (simp only: be_nat_snoc)
  finally show ?case using snoc by (simp add: algebra_simps)
qed

lemma be_nat_inject: "length xs = length ys \<Longrightarrow> be_nat xs = be_nat ys \<Longrightarrow> xs = ys"
  by (metis be_bytes_be_nat)

lemma be_bytes_inject:
  "be_bytes k m = be_bytes k n \<Longrightarrow> m < 256 ^ k \<Longrightarrow> n < 256 ^ k \<Longrightarrow> m = n"
  by (metis be_nat_be_bytes_small)

lemma be_bytes_1: "be_bytes 1 n = [word_of_nat n]" "be_bytes (Suc 0) n = [word_of_nat n]"
  by simp_all

lemma be_bytes_2: "be_bytes 2 n = [word_of_nat (n div 256), word_of_nat n]"
  by (simp add: numeral_2_eq_2)

lemma drop_1_be_bytes: "drop 1 (be_bytes (Suc k) n) = be_bytes k n"
proof (induction k arbitrary: n)
  case (Suc k)
  have "be_bytes (Suc (Suc k)) n = be_bytes (Suc k) (n div 256) @ [word_of_nat n]" by simp
  then have "drop 1 (be_bytes (Suc (Suc k)) n) = drop 1 (be_bytes (Suc k) (n div 256)) @ [word_of_nat n]"
    by (simp del: be_bytes.simps)
  then show ?case unfolding Suc.IH by simp
qed simp

lemmas be_bytes_eval = be_bytes_1 be_bytes_2

subsection \<open>Shifted accumulators\<close>

lemma nat_push_bit_or: "b < 2 ^ n \<Longrightarrow> push_bit n a OR b = a * 2 ^ n + (b :: nat)"
proof -
  assume b: "b < 2 ^ n"
  then have "take_bit n b = b" by (simp add: take_bit_nat_eq_self)
  then have "\<not> bit b m" if "n \<le> m" for m
    using that by (metis bit_take_bit_iff leD)
  then have "push_bit n a AND b = 0"
    by (intro bit_eqI) (auto simp: bit_and_iff bit_push_bit_iff)
  then show ?thesis by (simp add: disjunctive_add_eq_or [symmetric] push_bit_eq_mult)
qed

lemma unat_push_bit_or:
  fixes a b :: "'a::len word"
  assumes "unat b < 2 ^ n"
  shows "unat (push_bit n a OR b) = (unat a * 2 ^ n + unat b) mod 2 ^ LENGTH('a)"
proof -
  have "unat (push_bit n a OR b) = take_bit LENGTH('a) (push_bit n (unat a)) OR take_bit LENGTH('a) (unat b)"
    by (simp add: unsigned_or_eq unsigned_push_bit_eq take_bit_nat_eq_self)
  also have "\<dots> = take_bit LENGTH('a) (push_bit n (unat a) OR unat b)"
    by (simp only: take_bit_or)
  also have "\<dots> = (unat a * 2 ^ n + unat b) mod 2 ^ LENGTH('a)"
    using assms by (simp add: nat_push_bit_or take_bit_eq_mod)
  finally show ?thesis .
qed

lemma unat_drop_bit: "unat (drop_bit n w) = unat w div 2 ^ n"
  unfolding unsigned_drop_bit_eq by (simp add: drop_bit_eq_div take_bit_nat_eq_self)

subsection \<open>Text\<close>

text \<open>
  A Rust \<open>String\<close> is the list of its UTF-8 bytes; an Isabelle \<open>char\<close> is one byte.
\<close>

definition str_bytes :: "string \<Rightarrow> bytes" where
  "str_bytes s = map of_char s"

definition bytes_str :: "bytes \<Rightarrow> string" where
  "bytes_str bs = map (\<lambda>b. char_of (unat b)) bs"

lemma length_str_bytes [simp]: "length (str_bytes s) = length s"
  by (simp add: str_bytes_def)

lemma str_bytes_Nil_iff [simp]: "str_bytes s = [] \<longleftrightarrow> s = []"
  by (simp add: str_bytes_def)

lemma unat_of_char: "unat (of_char c :: byte) = of_char c"
proof -
  have "(of_char c :: byte) = word_of_nat (of_char c)"
    by (simp only: of_nat_of_char)
  then show ?thesis by (simp only: unat_word8_of_nat) simp
qed

lemma bytes_str_str_bytes [simp]: "bytes_str (str_bytes s) = s"
  by (simp add: bytes_str_def str_bytes_def unat_of_char map_idI)

lemma str_bytes_bytes_str [simp]: "str_bytes (bytes_str bs) = bs"
proof -
  have "(of_char (char_of (unat b)) :: byte) = b" for b :: byte
  proof -
    have "unat (of_char (char_of (unat b)) :: byte) = unat b"
      using unat_byte_less [of b] by (simp add: unat_of_char)
    then show ?thesis by (simp only: unsigned_word_eqI)
  qed
  then show ?thesis by (simp add: bytes_str_def str_bytes_def map_idI)
qed

lemma str_bytes_inject [simp]: "str_bytes s = str_bytes t \<longleftrightarrow> s = t"
  by (metis bytes_str_str_bytes)

text \<open>
  \<open>core::str::from_utf8\<close>: the well-formed byte sequences of the Unicode standard
  (no overlong forms, no surrogates, nothing above U+10FFFF).
\<close>

definition utf8_in :: "byte \<Rightarrow> byte \<Rightarrow> byte \<Rightarrow> bool" where
  "utf8_in lo hi b \<longleftrightarrow> lo \<le> b \<and> b \<le> hi"

fun utf8_valid :: "bytes \<Rightarrow> bool" where
  "utf8_valid [] = True"
| "utf8_valid (a # bs) =
     (if a \<le> 0x7F then utf8_valid bs
      else case bs of
        b # bs1 \<Rightarrow>
          if utf8_in 0xC2 0xDF a then utf8_in 0x80 0xBF b \<and> utf8_valid bs1
          else (case bs1 of
            c # bs2 \<Rightarrow>
              if utf8_in 0xE0 0xEF a
              then utf8_in (if a = 0xE0 then 0xA0 else 0x80) (if a = 0xED then 0x9F else 0xBF) b
                \<and> utf8_in 0x80 0xBF c \<and> utf8_valid bs2
              else (case bs2 of
                d # bs3 \<Rightarrow>
                  utf8_in 0xF0 0xF4 a
                  \<and> utf8_in (if a = 0xF0 then 0x90 else 0x80) (if a = 0xF4 then 0x8F else 0xBF) b
                  \<and> utf8_in 0x80 0xBF c \<and> utf8_in 0x80 0xBF d \<and> utf8_valid bs3
              | [] \<Rightarrow> False)
          | [] \<Rightarrow> False)
      | [] \<Rightarrow> False)"

definition text_ok :: "string \<Rightarrow> bool" where
  "text_ok s \<longleftrightarrow> utf8_valid (str_bytes s)"

definition from_utf8 :: "bytes \<Rightarrow> string option" where
  "from_utf8 bs = (if utf8_valid bs then Some (bytes_str bs) else None)"

lemma from_utf8_str_bytes: "text_ok s \<Longrightarrow> from_utf8 (str_bytes s) = Some s"
  by (simp add: from_utf8_def text_ok_def)

lemma from_utf8_Some: "from_utf8 bs = Some s \<Longrightarrow> text_ok s \<and> str_bytes s = bs"
  by (auto simp: from_utf8_def text_ok_def split: if_splits)

lemma utf8_valid_ascii: "\<forall>b \<in> set bs. b \<le> 0x7F \<Longrightarrow> utf8_valid bs"
  by (induction bs) auto

subsection \<open>Interfaces: codecs and systems driven by operations\<close>

text \<open>
  A codec whose encoder may refuse a value and whose decoder may refuse an input
  (\<open>fits\<close> stands for its size limit): the decoder inverts the encoder on the
  well-formed values. Encodings then determine the value, and both sides of a
  channel agree on what was sent.
\<close>

locale res_codec =
  fixes enc :: "'a \<Rightarrow> ('e, 'b) res" and dec :: "'b \<Rightarrow> ('d, 'a) res"
    and ok :: "'a \<Rightarrow> bool" and fits :: "'b \<Rightarrow> bool"
  assumes dec_enc: "ok x \<Longrightarrow> enc x = Ok b \<Longrightarrow> fits b \<Longrightarrow> dec b = Ok x"
begin

lemma enc_determines:
  assumes "ok x" and "ok y" and "enc x = Ok b" and "enc y = Ok b" and "fits b"
  shows "x = y"
proof -
  have "dec b = Ok x" by (rule dec_enc) (rule assms)+
  moreover have "dec b = Ok y" by (rule dec_enc) (rule assms)+
  ultimately show ?thesis by simp
qed

lemma enc_differs: "ok x \<Longrightarrow> ok y \<Longrightarrow> x \<noteq> y \<Longrightarrow> enc x = Ok b \<Longrightarrow> fits b \<Longrightarrow> enc y \<noteq> Ok b"
  using enc_determines by blast

end

text \<open>A total encoder, decoded without a size limit.\<close>

locale codec =
  fixes enc :: "'a \<Rightarrow> 'b" and dec :: "'b \<Rightarrow> ('d, 'a) res" and ok :: "'a \<Rightarrow> bool"
  assumes total_dec_enc: "ok x \<Longrightarrow> dec (enc x) = Ok x"

sublocale codec \<subseteq> res_codec "\<lambda>x. Ok (enc x)" dec ok "\<lambda>_. True"
  by unfold_locales (auto simp: total_dec_enc)

context codec
begin

lemma enc_inj_on: "inj_on enc {x. ok x}"
  by (rule inj_onI) (metis enc_determines mem_Collect_eq)

end

text \<open>
  A state transformer driven by operations, with an invariant that may depend on
  the number of operations executed so far.
\<close>

locale op_system =
  fixes step :: "'s \<Rightarrow> 'op \<Rightarrow> 's" and inv :: "nat \<Rightarrow> 's \<Rightarrow> bool"
  assumes step_inv: "inv n s \<Longrightarrow> inv (Suc n) (step s op)"
begin

lemma run_inv: "inv n s \<Longrightarrow> inv (n + length ops) (foldl step s ops)"
proof (induction ops arbitrary: n s)
  case (Cons op ops)
  from Cons.IH [OF step_inv [OF Cons.prems]] show ?case by simp
qed simp

lemma run_inv_0: "inv 0 s \<Longrightarrow> inv (length ops) (foldl step s ops)"
  using run_inv [of 0] by simp

end

end
