(* ===== verification/Ber.thy ===== *)
theory Ber
  imports Prelude
begin

text \<open>
  The BER-TLV encoder and parser of the core library
  (\<open>crates/refineid-lib-core/src/ber.rs\<close>): length octets in the short form and the
  one- to four-byte long forms, one- and two-byte tags, the typed promotion and
  the iterator over the children of a constructed value.

  The encoder's buffer (\<open>BerEncoder.out\<close>) is the byte string passed to and returned
  from every \<open>push\<close> operation; the encoder's panic on a length above \<open>u32::MAX\<close> is
  the outcome \<open>Panic\<close>. Index arithmetic that the source writes with
  \<open>saturating_add\<close> after a successful bounds check is plain addition.
\<close>

subsection \<open>Encoder\<close>

abbreviation SHORT_FORM_CEILING :: nat where "SHORT_FORM_CEILING \<equiv> 0x80"
abbreviation LONG_FORM_1B :: byte where "LONG_FORM_1B \<equiv> 0x81"
abbreviation LONG_FORM_2B :: byte where "LONG_FORM_2B \<equiv> 0x82"
abbreviation LONG_FORM_3B :: byte where "LONG_FORM_3B \<equiv> 0x83"
abbreviation LONG_FORM_4B :: byte where "LONG_FORM_4B \<equiv> 0x84"
abbreviation u32_max :: nat where "u32_max \<equiv> 0xFFFFFFFF"

definition push_length :: "nat \<Rightarrow> bytes \<Rightarrow> ('e, bytes) res" where
  "push_length len out =
     (if len < SHORT_FORM_CEILING then Ok (out @ be_bytes 1 len)
      else if len \<le> 0xFF then Ok (out @ LONG_FORM_1B # be_bytes 1 len)
      else if len \<le> 0xFFFF then Ok (out @ LONG_FORM_2B # be_bytes 2 len)
      else if len \<le> 0xFFFFFF then Ok (out @ LONG_FORM_3B # drop 1 (be_bytes 4 len))
      else if len \<le> u32_max then Ok (out @ LONG_FORM_4B # be_bytes 4 len)
      else Panic)"

definition push_tlv :: "byte \<Rightarrow> bytes \<Rightarrow> bytes \<Rightarrow> ('e, bytes) res" where
  "push_tlv tag value_bytes out =
     and_then (push_length (length value_bytes) (out @ [tag])) (\<lambda>out. Ok (out @ value_bytes))"

definition push_tlv_tag2 :: "u16 \<Rightarrow> bytes \<Rightarrow> bytes \<Rightarrow> ('e, bytes) res" where
  "push_tlv_tag2 tag2 value_bytes out =
     and_then (push_length (length value_bytes) (out @ be_bytes 2 (unat tag2)))
       (\<lambda>out. Ok (out @ value_bytes))"

definition tlv :: "byte \<Rightarrow> bytes \<Rightarrow> ('e, bytes) res" where
  "tlv tag value_bytes = push_tlv tag value_bytes []"

definition tlv2 :: "u16 \<Rightarrow> bytes \<Rightarrow> ('e, bytes) res" where
  "tlv2 tag2 value_bytes = push_tlv_tag2 tag2 value_bytes []"

subsection \<open>Parser\<close>

datatype ber_error = BerEmpty | BerTruncated | UnsupportedLengthForm | UnexpectedTag u16 u16

record ber_tlv_any =
  tlv_tag :: u16
  tlv_value :: bytes
  tlv_size :: nat

record ber_tlv =
  typed_value :: bytes
  typed_size :: nat

definition ber_next :: "bytes \<Rightarrow> bool \<Rightarrow> nat \<Rightarrow> (ber_error, byte \<times> nat) res" where
  "ber_next bs label_first_byte idx =
     and_then (ok_or (get_at bs idx) (if label_first_byte \<and> idx = 0 then BerEmpty else BerTruncated))
       (\<lambda>b. Ok (b, idx + 1))"

abbreviation MULTI_BYTE_TAG_MASK :: byte where "MULTI_BYTE_TAG_MASK \<equiv> 0x1F"

definition ber_tag :: "bytes \<Rightarrow> (ber_error, u16 \<times> nat) res" where
  "ber_tag bs =
     and_then (ber_next bs True 0) (\<lambda>(first, idx).
       if first AND MULTI_BYTE_TAG_MASK = MULTI_BYTE_TAG_MASK then
         and_then (ber_next bs False idx) (\<lambda>(second, idx).
           Ok (push_bit 8 (ucast first) OR ucast second, idx))
       else Ok (ucast first, idx))"

definition ber_length :: "bytes \<Rightarrow> nat \<Rightarrow> (ber_error, nat \<times> nat) res" where
  "ber_length bs idx =
     and_then (ber_next bs False idx) (\<lambda>(len_first, idx).
       if len_first < LONG_FORM_1B then Ok (unat len_first, idx)
       else
         and_then (if len_first = LONG_FORM_1B then Ok 1
                   else if len_first = LONG_FORM_2B then Ok 2
                   else if len_first = LONG_FORM_3B then Ok 3
                   else if len_first = LONG_FORM_4B then Ok 4
                   else Err UnsupportedLengthForm) (\<lambda>nbytes.
         and_then (ok_or (slice bs idx (idx + nbytes)) BerTruncated) (\<lambda>len_bytes.
           Ok (be_nat len_bytes, idx + nbytes))))"

definition ber_parse :: "bytes \<Rightarrow> (ber_error, ber_tlv_any) res" where
  "ber_parse bs =
     and_then (ber_tag bs) (\<lambda>(tag, idx).
     and_then (ber_length bs idx) (\<lambda>(len, idx).
     and_then (if usize_max < idx + len then Err BerTruncated else Ok (idx + len)) (\<lambda>value_end.
     and_then (ok_or (slice bs idx value_end) BerTruncated) (\<lambda>val.
       Ok \<lparr>tlv_tag = tag, tlv_value = val, tlv_size = value_end\<rparr>))))"

definition ber_expect :: "u16 \<Rightarrow> ber_tlv_any \<Rightarrow> (ber_error, ber_tlv) res" where
  "ber_expect TAG t =
     (if tlv_tag t \<noteq> TAG then Err (UnexpectedTag TAG (tlv_tag t))
      else Ok \<lparr>typed_value = tlv_value t, typed_size = tlv_size t\<rparr>)"

definition ber_parse_typed :: "u16 \<Rightarrow> bytes \<Rightarrow> (ber_error, ber_tlv) res" where
  "ber_parse_typed TAG bs = and_then (ber_parse bs) (ber_expect TAG)"

subsection \<open>Iterator over children\<close>

definition ber_iter_next ::
  "bytes \<Rightarrow> (ber_error, ber_tlv_any) res option \<times> bytes" where
  "ber_iter_next remaining =
     (if remaining = [] then (None, remaining)
      else case ber_parse remaining of
        Ok t \<Rightarrow> (Some (Ok t),
          case slice remaining (tlv_size t) (length remaining) of None \<Rightarrow> [] | Some rest \<Rightarrow> rest)
      | Err e \<Rightarrow> (Some (Err e), [])
      | Panic \<Rightarrow> (Some Panic, []))"

subsection \<open>Length octets\<close>

definition length_octets :: "nat \<Rightarrow> bytes" where
  "length_octets n =
     (if n < 0x80 then be_bytes 1 n
      else if n \<le> 0xFF then LONG_FORM_1B # be_bytes 1 n
      else if n \<le> 0xFFFF then LONG_FORM_2B # be_bytes 2 n
      else if n \<le> 0xFFFFFF then LONG_FORM_3B # be_bytes 3 n
      else LONG_FORM_4B # be_bytes 4 n)"

lemma push_length_eq:
  "push_length n out = (if n \<le> u32_max then Ok (out @ length_octets n) else Panic)"
proof -
  have "drop 1 (be_bytes 4 n) = be_bytes 3 n"
    using drop_1_be_bytes [of 3 n] by simp
  then show ?thesis by (simp add: push_length_def length_octets_def)
qed

lemma push_tlv_eq:
  "push_tlv tag val out =
   (if length val \<le> u32_max then Ok (out @ tag # length_octets (length val) @ val) else Panic)"
  by (simp add: push_tlv_def push_length_eq)

lemma push_tlv_tag2_eq:
  "push_tlv_tag2 tag2 val out =
   (if length val \<le> u32_max
    then Ok (out @ be_bytes 2 (unat tag2) @ length_octets (length val) @ val) else Panic)"
  by (simp add: push_tlv_tag2_def push_length_eq)

lemma ber_next_append: "ber_next (p @ b # s) f (length p) = Ok (b, length p + 1)"
  by (simp add: ber_next_def)

lemma ber_length_octets:
  assumes "n \<le> u32_max"
  shows "ber_length (p @ length_octets n @ s) (length p) = Ok (n, length p + length (length_octets n))"
proof -
  have long: "ber_length (p @ (m # be_bytes k n) @ s) (length p) = Ok (n, length p + k + 1)"
    if "(m, k) \<in> {(LONG_FORM_1B, 1), (LONG_FORM_2B, 2), (LONG_FORM_3B, 3), (LONG_FORM_4B, 4)}"
      "n < 256 ^ k" for m k
  proof -
    have "slice ((p @ [m]) @ be_bytes k n @ s) (length (p @ [m])) (length (p @ [m]) + k)
        = Some (be_bytes k n)"
      by (rule slice_append') simp
    then have "slice (p @ m # be_bytes k n @ s) (Suc (length p)) (Suc (length p) + k) = Some (be_bytes k n)"
      by simp
    with that(1) be_nat_be_bytes_small [OF that(2)] show ?thesis
      by (auto simp: ber_length_def ber_next_append)
  qed
  show ?thesis
  proof (cases "n < 0x80")
    case True
    then have "unat (word_of_nat n :: byte) = n" by (simp add: unat_word8_of_nat)
    with True show ?thesis
      by (simp add: ber_length_def length_octets_def ber_next_append word_less_nat_alt)
  next
    case False
    with assms show ?thesis
      using long [of LONG_FORM_1B 1] long [of LONG_FORM_2B 2] long [of LONG_FORM_3B 3]
        long [of LONG_FORM_4B 4]
      by (simp add: length_octets_def)
  qed
qed

lemma length_octets_pos [simp]: "0 < length (length_octets n)" "length_octets n \<noteq> []"
  by (simp_all add: length_octets_def)

lemma length_octets_bound: "length (length_octets n) \<le> 5"
  by (simp add: length_octets_def)

subsection \<open>Parsing what the encoder wrote\<close>

definition single_tag :: "byte \<Rightarrow> bool" where
  "single_tag t \<longleftrightarrow> t AND MULTI_BYTE_TAG_MASK \<noteq> MULTI_BYTE_TAG_MASK"

definition double_tag :: "u16 \<Rightarrow> bool" where
  "double_tag t \<longleftrightarrow> \<not> single_tag (ucast (drop_bit 8 t))"

lemma ber_tag_single: "single_tag t \<Longrightarrow> ber_tag (t # s) = Ok (ucast t, 1)"
  using ber_next_append [of "[]" t s] by (simp add: ber_tag_def single_tag_def)

lemma ber_tag_double: "double_tag t \<Longrightarrow> ber_tag (be_bytes 2 (unat t) @ s) = Ok (t, 2)"
proof -
  assume t: "double_tag t"
  let ?hi = "word_of_nat (unat t div 256) :: byte" and ?lo = "word_of_nat (unat t) :: byte"
  have lt: "unat t < 65536" using unsigned_less [of t] by simp
  have hi: "ucast (drop_bit 8 t) = ?hi"
  proof -
    have "unat (ucast (drop_bit 8 t) :: byte) = unat ?hi"
      by (simp add: unsigned_ucast_eq take_bit_eq_mod unat_word8_of_nat unat_drop_bit del: unsigned_of_nat)
    then show ?thesis by (simp only: unsigned_word_eqI)
  qed
  have "unat ?hi = unat t div 256" "unat ?lo = unat t mod 256"
    unfolding unat_word8_of_nat using lt by simp_all
  moreover have "unat (ucast b :: u16) = unat b" for b :: byte
    using unat_byte_less [of b] by (simp add: unsigned_ucast_eq take_bit_nat_eq_self)
  ultimately have "unat (push_bit 8 (ucast ?hi) OR ucast ?lo :: u16) = unat t"
    using lt by (subst unat_push_bit_or) simp_all
  then have "push_bit 8 (ucast ?hi) OR ucast ?lo = t" by (simp only: unsigned_word_eqI)
  moreover have "?hi AND 0x1F = 0x1F" using t hi by (simp add: double_tag_def single_tag_def)
  ultimately show ?thesis
    using ber_next_append [of "[]" ?hi "?lo # s"] ber_next_append [of "[?hi]" ?lo s]
    by (simp add: ber_tag_def be_bytes_2)
qed

lemma ber_parse_after_tag:
  assumes tag: "ber_tag (t @ length_octets (length val) @ val @ rest) = Ok (tg, length t)"
    and "length val \<le> u32_max" and len: "length (t @ length_octets (length val) @ val @ rest) \<le> usize_max"
  shows "ber_parse (t @ length_octets (length val) @ val @ rest) =
    Ok \<lparr>tlv_tag = tg, tlv_value = val, tlv_size = length (t @ length_octets (length val) @ val)\<rparr>"
proof -
  let ?l = "length_octets (length val)"
  have "slice ((t @ ?l) @ val @ rest) (length (t @ ?l)) (length (t @ ?l) + length val) = Some val"
    by (rule slice_append)
  moreover have "length t + length ?l + length val \<le> usize_max" using len by simp
  ultimately show ?thesis
    using tag ber_length_octets [OF assms(2), of t "val @ rest"] by (simp add: ber_parse_def)
qed

lemma tlv_eq_Ok:
  "tlv t val = Ok enc \<longleftrightarrow> length val \<le> u32_max \<and> enc = t # length_octets (length val) @ val"
  by (auto simp: tlv_def push_tlv_eq)

lemma tlv2_eq_Ok:
  "tlv2 t val = Ok enc \<longleftrightarrow>
   length val \<le> u32_max \<and> enc = be_bytes 2 (unat t) @ length_octets (length val) @ val"
  by (auto simp: tlv2_def push_tlv_tag2_eq)

subsection \<open>What the parser accepts\<close>

lemma get_at_eq_Some: "get_at xs i = Some x \<longleftrightarrow> i < length xs \<and> x = xs ! i"
  by (auto simp: get_at_def)

lemma ber_next_Ok [res_simps]:
  "ber_next bs f i = Ok (b, j) \<longleftrightarrow> i < length bs \<and> b = bs ! i \<and> j = i + 1"
  by (auto simp: ber_next_def res_simps get_at_eq_Some)

lemma ber_next_not_Panic [simp]: "ber_next bs f i \<noteq> Panic"
  by (auto simp: ber_next_def res_simps)

lemma ber_tag_Ok: "ber_tag bs = Ok (t, i) \<Longrightarrow> (i = 1 \<or> i = 2) \<and> i \<le> length bs"
  by (auto simp: ber_tag_def res_simps Suc_le_eq split: if_splits)

lemma ber_length_Ok: "ber_length bs i = Ok (n, j) \<Longrightarrow> i < j \<and> j \<le> i + 5 \<and> j \<le> length bs"
  by (auto simp: ber_length_def res_simps split: if_splits dest!: slice_Some_length)

lemma ber_parse_Ok:
  assumes "ber_parse bs = Ok t"
  shows "2 \<le> tlv_size t" and "tlv_size t \<le> length bs"
    and "\<exists>hd rest. bs = hd @ tlv_value t @ rest \<and> length hd \<le> 7 \<and> tlv_size t = length (hd @ tlv_value t)"
proof -
  from assms obtain tag i n j where t: "ber_tag bs = Ok (tag, i)" and l: "ber_length bs i = Ok (n, j)"
    and v: "slice bs j (j + n) = Some (tlv_value t)" and sz: "tlv_size t = j + n"
    by (auto simp: ber_parse_def res_simps split: if_splits)
  from v have n: "j + n \<le> length bs" "tlv_value t = take n (drop j bs)"
    by (auto simp: slice_def split: if_splits)
  show "2 \<le> tlv_size t" using ber_tag_Ok [OF t] ber_length_Ok [OF l] sz by auto
  show "tlv_size t \<le> length bs" using n(1) sz by simp
  have "bs = take j bs @ take n (drop j bs) @ drop (j + n) bs"
    by (metis append_take_drop_id drop_drop add.commute)
  moreover have "length (take j bs) = j" using n(1) by simp
  moreover have "j \<le> 7" using ber_tag_Ok [OF t] ber_length_Ok [OF l] by auto
  ultimately show "\<exists>hd rest. bs = hd @ tlv_value t @ rest \<and> length hd \<le> 7
      \<and> tlv_size t = length (hd @ tlv_value t)"
    using n sz by (intro exI [of _ "take j bs"] exI [of _ "drop (j + n) bs"]) simp
qed

lemma ber_parse_not_Panic [simp]: "ber_parse bs \<noteq> Panic"
  by (auto simp: ber_parse_def ber_tag_def ber_length_def res_simps split: if_splits)

subsection \<open>Iterating over children\<close>

text \<open>The loop that drains the iterator: every item it yields, in order.\<close>

function ber_children :: "bytes \<Rightarrow> (ber_error, ber_tlv_any) res list" where
  "ber_children remaining =
     (case ber_iter_next remaining of
        (None, _) \<Rightarrow> []
      | (Some item, rest) \<Rightarrow> item # ber_children rest)"
  by pat_completeness auto

lemma ber_iter_next_shrinks:
  "ber_iter_next remaining = (Some item, rest) \<Longrightarrow> length rest < length remaining"
  using ber_parse_Ok(1) [of remaining]
  by (auto simp: ber_iter_next_def split: if_splits res.splits option.splits dest!: slice_Some_length)

termination ber_children
  by (relation "measure length") (auto dest: ber_iter_next_shrinks [OF sym])

declare ber_children.simps [simp del]

lemma tlv_parse:
  assumes "tlv t val = Ok enc" and "single_tag t" and "length (enc @ rest) \<le> usize_max"
  shows "ber_parse (enc @ rest) = Ok \<lparr>tlv_tag = ucast t, tlv_value = val, tlv_size = length enc\<rparr>"
  using assms ber_parse_after_tag [of "[t]" val rest "ucast t"] by (simp add: tlv_eq_Ok ber_tag_single)

lemma tlv2_parse:
  assumes "tlv2 t val = Ok enc" and "double_tag t" and "length (enc @ rest) \<le> usize_max"
  shows "ber_parse (enc @ rest) = Ok \<lparr>tlv_tag = t, tlv_value = val, tlv_size = length enc\<rparr>"
  using assms ber_parse_after_tag [of "be_bytes 2 (unat t)" val rest t] by (simp add: tlv2_eq_Ok ber_tag_double)

lemma ber_children_Nil: "ber_children [] = []"
  by (subst ber_children.simps) (simp add: ber_iter_next_def)

lemma ber_children_Cons:
  assumes "ber_parse bs = Ok t"
  shows "ber_children bs = Ok t # ber_children (drop (tlv_size t) bs)"
proof -
  have "bs \<noteq> []" using ber_parse_Ok(1,2) [OF assms] by auto
  then show ?thesis using assms ber_parse_Ok(2) [OF assms]
    by (subst ber_children.simps) (simp add: ber_iter_next_def slice_def)
qed

text \<open>The bytes of a TLV, and the injectivity of their concatenation.\<close>

definition tlv_bytes :: "byte \<times> bytes \<Rightarrow> bytes" where
  "tlv_bytes tv = fst tv # length_octets (length (snd tv)) @ snd tv"

definition tlv_ok :: "byte \<times> bytes \<Rightarrow> bool" where
  "tlv_ok tv \<longleftrightarrow> single_tag (fst tv) \<and> length (snd tv) \<le> u32_max"

lemma ber_children_tlv_bytes:
  assumes "tlv_ok tv" and "length (tlv_bytes tv @ rest) \<le> usize_max"
  shows "ber_children (tlv_bytes tv @ rest) =
    Ok \<lparr>tlv_tag = ucast (fst tv), tlv_value = snd tv, tlv_size = length (tlv_bytes tv)\<rparr> # ber_children rest"
proof -
  have "ber_parse (tlv_bytes tv @ rest) =
      Ok \<lparr>tlv_tag = ucast (fst tv), tlv_value = snd tv, tlv_size = length (tlv_bytes tv)\<rparr>"
    by (rule tlv_parse) (use assms in \<open>auto simp: tlv_eq_Ok tlv_bytes_def tlv_ok_def\<close>)
  then show ?thesis by (simp add: ber_children_Cons)
qed

lemma ber_children_concat:
  "list_all tlv_ok items \<Longrightarrow> length (concat (map tlv_bytes items)) \<le> usize_max \<Longrightarrow>
   ber_children (concat (map tlv_bytes items)) =
   map (\<lambda>tv. Ok \<lparr>tlv_tag = ucast (fst tv), tlv_value = snd tv, tlv_size = length (tlv_bytes tv)\<rparr>) items"
  by (induction items) (simp_all add: ber_children_Nil ber_children_tlv_bytes)

lemma ucast_byte_u16_inject: "(ucast a :: u16) = ucast b \<longleftrightarrow> a = (b :: byte)"
proof -
  have "unat (ucast c :: u16) = unat c" for c :: byte
    using unat_byte_less [of c] by (simp add: unsigned_ucast_eq take_bit_nat_eq_self)
  then show ?thesis by (metis unsigned_word_eqI)
qed

lemma tlv_concat_inject:
  assumes "list_all tlv_ok xs" and "list_all tlv_ok ys"
    and "concat (map tlv_bytes xs) = concat (map tlv_bytes ys)"
    and "length (concat (map tlv_bytes xs)) \<le> usize_max"
  shows "xs = ys"
proof -
  let ?f = "\<lambda>tv. Ok \<lparr>tlv_tag = ucast (fst tv), tlv_value = snd tv, tlv_size = length (tlv_bytes tv)\<rparr>
      :: (ber_error, ber_tlv_any) res"
  have "map ?f xs = map ?f ys"
    using ber_children_concat [OF assms(1,4)] ber_children_concat [OF assms(2)] assms(3,4) by simp
  moreover have "inj ?f" by (rule injI) (auto simp: ucast_byte_u16_inject prod_eq_iff)
  ultimately show ?thesis by (rule map_injective)
qed

subsection \<open>Properties of the TLV codec\<close>

text \<open>TLV round trip: what the encoder writes for a one-byte tag, or for a
  two-byte tag such as \<open>7F 49\<close>, parses back to the same tag and value in front of
  any following bytes, and the reported size is exactly the encoder's output.
  This covers the short form and all four long forms of the length.\<close>

theorem ber_round_trip:
  assumes "length (enc @ rest) \<le> usize_max"
    and "(tlv t1 val = Ok enc \<and> single_tag t1 \<and> tg = ucast t1) \<or> (tlv2 tg val = Ok enc \<and> double_tag tg)"
  shows "ber_parse (enc @ rest) = Ok \<lparr>tlv_tag = tg, tlv_value = val, tlv_size = length enc\<rparr>"
  using assms tlv_parse tlv2_parse by blast

theorem ber_round_trip_witness:
  "ber_parse ([0x7F, 0x49, 2, 0xAA, 0xBB] @ [1]) =
   Ok \<lparr>tlv_tag = 0x7F49, tlv_value = [0xAA, 0xBB], tlv_size = length [0x7F, 0x49, 2, 0xAA, 0xBB :: byte]\<rparr>"
  by (rule ber_round_trip)
    (simp_all add: tlv2_eq_Ok length_octets_def be_bytes_eval double_tag_def single_tag_def)

text \<open>Every TLV the parser returns lies inside its input: the value is a
  contiguous sub-slice, the header before it takes between two and seven bytes,
  and the reported size never exceeds the input, so the iterator always advances
  and stays in bounds.\<close>

theorem ber_parse_in_bounds:
  assumes "ber_parse bs = Ok t"
  shows "2 \<le> tlv_size t \<and> tlv_size t \<le> length bs
    \<and> (\<exists>hd rest. bs = hd @ tlv_value t @ rest \<and> length hd \<le> 7 \<and> tlv_size t = length (hd @ tlv_value t))"
  using ber_parse_Ok [OF assms] by blast

theorem ber_parse_in_bounds_witness:
  "ber_parse [0x30, 1, 7, 9] = Ok \<lparr>tlv_tag = 0x30, tlv_value = [7], tlv_size = 3\<rparr>
   \<and> tlv_size \<lparr>tlv_tag = 0x30, tlv_value = [7], tlv_size = 3\<rparr> \<le> length [0x30, 1, 7, 9 :: byte]"
proof -
  have p: "ber_parse [0x30, 1, 7, 9] = Ok \<lparr>tlv_tag = 0x30, tlv_value = [7], tlv_size = 3\<rparr>"
    by (simp add: ber_parse_def ber_tag_def ber_length_def ber_next_def get_at_def slice_def)
  with ber_parse_in_bounds [OF p] show ?thesis by blast
qed

text \<open>Iterating over the concatenation of encoded TLVs yields exactly those TLVs,
  in order, and then stops: the framing of a constructed value is unambiguous.\<close>

theorem ber_children_of_concat:
  assumes "list_all2 (\<lambda>(t, val) enc. tlv t val = Ok enc \<and> single_tag t) items encs"
    and "length (concat encs) \<le> usize_max"
  shows "ber_children (concat encs) =
    map2 (\<lambda>(t, val) enc. Ok \<lparr>tlv_tag = ucast t, tlv_value = val, tlv_size = length enc\<rparr>) items encs"
  using assms
proof (induction items encs rule: list_all2_induct)
  case Nil
  then show ?case by (simp add: ber_children_Nil)
next
  case (Cons item items enc encs)
  obtain t val where item: "item = (t, val)" by (cases item)
  have "ber_parse (enc @ concat encs) = Ok \<lparr>tlv_tag = ucast t, tlv_value = val, tlv_size = length enc\<rparr>"
    by (rule tlv_parse) (use Cons.hyps(1) Cons.prems item in auto)
  with Cons.IH Cons.prems item show ?case by (simp add: ber_children_Cons)
qed

theorem ber_children_of_concat_witness:
  "ber_children (concat [[0x80, 1, 7], [0x82, 0 :: byte]]) =
   [Ok \<lparr>tlv_tag = 0x80, tlv_value = [7], tlv_size = 3\<rparr>,
    Ok \<lparr>tlv_tag = 0x82, tlv_value = [], tlv_size = 2\<rparr>]"
  by (subst ber_children_of_concat [of "[(0x80, [7]), (0x82, [])]"])
    (simp_all add: tlv_eq_Ok single_tag_def length_octets_def be_bytes_eval)

text \<open>The indefinite-length marker \<open>0x80\<close> is not rejected: the parser reads it as a
  definite length of 128.\<close>

theorem ber_accepts_indefinite_marker:
  assumes "length val = 128"
  shows "ber_parse ([0x30, 0x80] @ val @ rest) = Ok \<lparr>tlv_tag = 0x30, tlv_value = val, tlv_size = 130\<rparr>"
proof -
  have "slice (0x30 # 0x80 # val @ rest) 2 130 = Some val"
    using assms by (simp add: slice_def)
  moreover have "ber_tag (0x30 # 0x80 # val @ rest) = Ok (0x30, 1)"
    by (simp add: ber_tag_single single_tag_def)
  moreover have "ber_length (0x30 # 0x80 # val @ rest) 1 = Ok (128, 2)"
    by (simp add: ber_length_def ber_next_def get_at_def)
  ultimately show ?thesis by (simp add: ber_parse_def)
qed

theorem ber_accepts_indefinite_marker_witness:
  "ber_parse ([0x30, 0x80] @ replicate 128 0 @ []) =
   Ok \<lparr>tlv_tag = 0x30, tlv_value = replicate 128 0, tlv_size = 130\<rparr>"
  by (rule ber_accepts_indefinite_marker) (rule length_replicate)

end
