(* ===== verification/Apdu.thy ===== *)
theory Apdu
  imports Prelude
begin

text \<open>
  Command and response APDUs: the validated primitives
  (\<open>apdu/primitives.rs\<close>), the status word (\<open>apdu/status_word.rs\<close>), the command
  builders of ISO 7816-4 and FINEID S1 (\<open>apdu/iso7816.rs\<close>), and the transport port
  (\<open>transport.rs\<close>), all under \<open>crates/refineid-lib-core/src/\<close>.

  A newtype with a checked constructor is the type of its content; the checked
  range is a predicate (\<open>aid_ok\<close>, \<open>sfi_ok\<close>, \<open>offset15_ok\<close>, \<open>path_ok\<close>) that the
  constructor establishes and the builders rely on. The transport an adapter
  implements is an argument: a function from its state and a command to an outcome.
\<close>

subsection \<open>Primitives\<close>

datatype aid_error = AidLengthOutOfRange nat

definition Aid_new :: "bytes \<Rightarrow> (aid_error, bytes) res" where
  "Aid_new owned =
     (if \<not> (5 \<le> length owned \<and> length owned \<le> 16) then Err (AidLengthOutOfRange (length owned))
      else Ok owned)"

definition aid_ok :: "bytes \<Rightarrow> bool" where
  "aid_ok aid \<longleftrightarrow> 5 \<le> length aid \<and> length aid \<le> 16"

datatype sfi_error = SfiOutOfRange byte

definition Sfi_new :: "byte \<Rightarrow> (sfi_error, byte) res" where
  "Sfi_new value_byte = (if value_byte = 0 \<or> 30 < value_byte then Err (SfiOutOfRange value_byte) else Ok value_byte)"

definition sfi_ok :: "byte \<Rightarrow> bool" where
  "sfi_ok sfi \<longleftrightarrow> 1 \<le> sfi \<and> sfi \<le> 30"

definition as_p1_short_form :: "byte \<Rightarrow> byte" where
  "as_p1_short_form sfi = 0x80 OR sfi"

subsection \<open>Status words\<close>

datatype status_word =
    AuthenticationBlocked
  | AuthenticationFailed
  | EndOfFile
  | FileNotFound
  | Other u16
  | PinIncorrect byte
  | ReferenceDataInvalidated
  | ReferenceDataNotFound
  | SecurityNotSatisfied
  | SmDataObjectsIncorrect
  | Success
  | WrongLength

definition from_nibble :: "byte \<Rightarrow> byte option" where
  "from_nibble n = (if 0x0F < n then None else Some n)"

definition is_exhausted :: "byte \<Rightarrow> bool" where
  "is_exhausted retries \<longleftrightarrow> retries = 0"

definition u16_from_be_bytes :: "byte \<Rightarrow> byte \<Rightarrow> u16" where
  "u16_from_be_bytes hi lo = push_bit 8 (ucast hi) OR ucast lo"

definition u16_hi :: "u16 \<Rightarrow> byte" where "u16_hi w = ucast (drop_bit 8 w)"
definition u16_lo :: "u16 \<Rightarrow> byte" where "u16_lo w = ucast w"

fun sw_as_u16 :: "status_word \<Rightarrow> u16" where
  "sw_as_u16 AuthenticationBlocked = 0x6983"
| "sw_as_u16 AuthenticationFailed = 0x6300"
| "sw_as_u16 EndOfFile = 0x6282"
| "sw_as_u16 FileNotFound = 0x6A82"
| "sw_as_u16 (Other sw) = sw"
| "sw_as_u16 (PinIncorrect retries) = u16_from_be_bytes (u16_hi 0x63C0) (u16_lo 0x63C0 OR (retries AND 0x0F))"
| "sw_as_u16 ReferenceDataInvalidated = 0x6984"
| "sw_as_u16 ReferenceDataNotFound = 0x6A88"
| "sw_as_u16 SecurityNotSatisfied = 0x6982"
| "sw_as_u16 SmDataObjectsIncorrect = 0x6988"
| "sw_as_u16 Success = 0x9000"
| "sw_as_u16 WrongLength = 0x6700"

definition sw_from_u16 :: "u16 \<Rightarrow> status_word" where
  "sw_from_u16 sw =
     (if sw = 0x9000 then Success
      else if sw = 0x6282 then EndOfFile
      else if sw = 0x6300 then AuthenticationFailed
      else if sw = 0x6700 then WrongLength
      else if sw = 0x6982 then SecurityNotSatisfied
      else if sw = 0x6983 then AuthenticationBlocked
      else if sw = 0x6984 then ReferenceDataInvalidated
      else if sw = 0x6988 then SmDataObjectsIncorrect
      else if sw = 0x6A82 then FileNotFound
      else if sw = 0x6A88 then ReferenceDataNotFound
      else if sw AND 0xFFF0 = 0x63C0 then PinIncorrect (u16_lo sw AND 0x0F)
      else Other sw)"

definition sw_from_bytes :: "byte \<Rightarrow> byte \<Rightarrow> status_word" where
  "sw_from_bytes sw1 sw2 = sw_from_u16 (u16_from_be_bytes sw1 sw2)"

definition is_success :: "status_word \<Rightarrow> bool" where
  "is_success sw \<longleftrightarrow> sw = Success"

fun pin_retries :: "status_word \<Rightarrow> byte option" where
  "pin_retries (PinIncorrect retries) = Some retries"
| "pin_retries _ = None"

subsection \<open>Commands and responses\<close>

record command_apdu =
  apdu_bytes :: bytes
  wrong_le_retry :: bool

definition CommandApdu_new :: "bytes \<Rightarrow> command_apdu" where
  "CommandApdu_new bs = \<lparr>apdu_bytes = bs, wrong_le_retry = False\<rparr>"

abbreviation SHORT_CASE_2_BYTES :: nat where "SHORT_CASE_2_BYTES \<equiv> 5"

definition allow_wrong_le_retry :: "command_apdu \<Rightarrow> command_apdu" where
  "allow_wrong_le_retry cmd = cmd\<lparr>wrong_le_retry := length (apdu_bytes cmd) = SHORT_CASE_2_BYTES\<rparr>"

definition corrected_wrong_le :: "command_apdu \<Rightarrow> byte \<Rightarrow> command_apdu option" where
  "corrected_wrong_le cmd le =
     (if \<not> wrong_le_retry cmd then None
      else if apdu_bytes cmd = [] then None
      else Some (cmd\<lparr>apdu_bytes := (apdu_bytes cmd)[length (apdu_bytes cmd) - 1 := le],
                     wrong_le_retry := False\<rparr>))"

record response_apdu =
  resp_body :: bytes
  resp_sw1 :: byte
  resp_sw2 :: byte

definition response_sw :: "response_apdu \<Rightarrow> u16" where
  "response_sw r = push_bit 8 (ucast (resp_sw1 r)) OR ucast (resp_sw2 r)"

definition status_word_of :: "response_apdu \<Rightarrow> status_word" where
  "status_word_of r = sw_from_bytes (resp_sw1 r) (resp_sw2 r)"

definition response_is_ok :: "response_apdu \<Rightarrow> bool" where
  "response_is_ok r \<longleftrightarrow> status_word_of r = Success"

datatype transport_outcome =
    Response response_apdu
  | NoCard
  | TimeoutUnknownState
  | CardReset
  | ProtocolDesync
  | ReaderRemoved

datatype transport_error_kind =
    KBackend | KNoCard | KTimeoutUnknownState | KCardReset | KProtocolDesync | KReaderRemoved

definition into_response :: "transport_outcome \<Rightarrow> (transport_outcome, response_apdu) res" where
  "into_response out = (case out of Response r \<Rightarrow> Ok r | other \<Rightarrow> Err other)"

fun outcome_kind :: "transport_outcome \<Rightarrow> transport_error_kind option" where
  "outcome_kind (Response _) = None"
| "outcome_kind NoCard = Some KNoCard"
| "outcome_kind TimeoutUnknownState = Some KTimeoutUnknownState"
| "outcome_kind CardReset = Some KCardReset"
| "outcome_kind ProtocolDesync = Some KProtocolDesync"
| "outcome_kind ReaderRemoved = Some KReaderRemoved"

datatype 'e dispatch_error = DispatchError 'e | DispatchOutcome transport_outcome

fun dispatch_kind :: "('e \<Rightarrow> transport_error_kind) \<Rightarrow> 'e dispatch_error \<Rightarrow> transport_error_kind" where
  "dispatch_kind error_kind (DispatchError e) = error_kind e"
| "dispatch_kind error_kind (DispatchOutcome out) =
     (case outcome_kind out of Some k \<Rightarrow> k | None \<Rightarrow> KBackend)"

text \<open>
  \<open>CardTransport::transmit\<close>, over the adapter's \<open>transmit_outcome\<close> (a state
  transformer on the adapter's state).
\<close>

definition transmit ::
  "('t \<Rightarrow> command_apdu \<Rightarrow> ('e, transport_outcome) res \<times> 't) \<Rightarrow> 't \<Rightarrow> bytes
   \<Rightarrow> ('e dispatch_error, response_apdu) res \<times> 't" where
  "transmit transmit_outcome t apdu =
     (case transmit_outcome t (CommandApdu_new apdu) of
        (r, t') \<Rightarrow>
          (and_then (map_err DispatchError r) (\<lambda>out. case out of
             Response resp \<Rightarrow> Ok resp
           | other \<Rightarrow> Err (DispatchOutcome other)), t'))"

subsection \<open>Command builders\<close>

text \<open>\<open>u8::try_from(len).unwrap_or(u8::MAX)\<close>.\<close>

definition lc_byte :: "nat \<Rightarrow> byte" where
  "lc_byte n = (if n \<le> 255 then word_of_nat n else 255)"

definition SelectByAidNoFci_into_apdu :: "bytes \<Rightarrow> command_apdu" where
  "SelectByAidNoFci_into_apdu aid =
     CommandApdu_new ([0x00, 0xA4, 0x04, 0x0C] @ [lc_byte (length aid)] @ aid)"

datatype apdu_class = Plain | SecureMessaging | ChainedFirst

fun class_as_byte :: "apdu_class \<Rightarrow> byte" where
  "class_as_byte Plain = 0x00"
| "class_as_byte SecureMessaging = 0x0C"
| "class_as_byte ChainedFirst = 0x10"

datatype select_occurrence = SelectFirst | SelectNext

fun occurrence_as_p2 :: "select_occurrence \<Rightarrow> byte" where
  "occurrence_as_p2 SelectFirst = 0x00"
| "occurrence_as_p2 SelectNext = 0x02"

definition SelectByAidWithFci_into_apdu ::
  "apdu_class \<Rightarrow> select_occurrence \<Rightarrow> bytes \<Rightarrow> command_apdu" where
  "SelectByAidWithFci_into_apdu cls occurrence aid =
     CommandApdu_new ([class_as_byte cls, 0xA4, 0x04, occurrence_as_p2 occurrence]
       @ [lc_byte (length aid)] @ aid @ [0x00])"

type_synonym file_id = "byte \<times> byte"

definition fid_bytes :: "file_id \<Rightarrow> bytes" where
  "fid_bytes fid = [fst fid, snd fid]"

abbreviation FID_MF :: file_id where "FID_MF \<equiv> (0x3F, 0x00)"
abbreviation FID_PKCS15_DF :: file_id where "FID_PKCS15_DF \<equiv> (0x50, 0x15)"
abbreviation FID_EF_ODF :: file_id where "FID_EF_ODF \<equiv> (0x50, 0x31)"
abbreviation FID_EF_TOKEN_INFO :: file_id where "FID_EF_TOKEN_INFO \<equiv> (0x50, 0x32)"

datatype absolute_path_error = PathEmpty | StartsWithMf

definition AbsolutePath_new :: "file_id list \<Rightarrow> (absolute_path_error, file_id list) res" where
  "AbsolutePath_new fids =
     (if fids = [] then Err PathEmpty
      else if hd fids = FID_MF then Err StartsWithMf
      else Ok fids)"

definition path_ok :: "file_id list \<Rightarrow> bool" where
  "path_ok fids \<longleftrightarrow> fids \<noteq> [] \<and> hd fids \<noteq> FID_MF"

datatype select_file_target =
    AnyByFileId "file_id option"
  | EfUnderCurrentDf file_id
  | ByName bytes
  | AbsolutePath "file_id list"

fun target_as_p1 :: "select_file_target \<Rightarrow> byte" where
  "target_as_p1 (AnyByFileId _) = 0x00"
| "target_as_p1 (EfUnderCurrentDf _) = 0x02"
| "target_as_p1 (ByName _) = 0x04"
| "target_as_p1 (AbsolutePath _) = 0x08"

fun target_data_len :: "select_file_target \<Rightarrow> nat" where
  "target_data_len (AnyByFileId None) = 0"
| "target_data_len (AnyByFileId (Some _)) = 2"
| "target_data_len (EfUnderCurrentDf _) = 2"
| "target_data_len (ByName aid) = length aid"
| "target_data_len (AbsolutePath fids) = length fids * 2"

fun append_data :: "select_file_target \<Rightarrow> bytes" where
  "append_data (AnyByFileId None) = []"
| "append_data (AnyByFileId (Some fid)) = fid_bytes fid"
| "append_data (EfUnderCurrentDf fid) = fid_bytes fid"
| "append_data (ByName aid) = aid"
| "append_data (AbsolutePath fids) = concat (map fid_bytes fids)"

datatype select_file_response_mode = RespFci | RespFcp | RespNone

fun mode_as_p2 :: "select_file_response_mode \<Rightarrow> byte" where
  "mode_as_p2 RespFci = 0x00"
| "mode_as_p2 RespFcp = 0x04"
| "mode_as_p2 RespNone = 0x0C"

definition SelectFile_into_apdu ::
  "apdu_class \<Rightarrow> select_file_target \<Rightarrow> select_file_response_mode \<Rightarrow> command_apdu" where
  "SelectFile_into_apdu cls target response_mode =
     (let data_len = target_data_len target in
      CommandApdu_new ([class_as_byte cls, 0xA4, target_as_p1 target, mode_as_p2 response_mode]
        @ (if 0 < data_len then lc_byte data_len # append_data target else [])
        @ (if response_mode = RespFci \<or> response_mode = RespFcp then [0x00] else [])))"

definition GetResponse_into_apdu :: "apdu_class \<Rightarrow> byte \<Rightarrow> command_apdu" where
  "GetResponse_into_apdu cls le =
     allow_wrong_le_retry (CommandApdu_new [class_as_byte cls, 0xC0, 0x00, 0x00, le])"

definition SelectEfNoFci_into_apdu :: "file_id \<Rightarrow> command_apdu" where
  "SelectEfNoFci_into_apdu fid = CommandApdu_new [0x00, 0xA4, 0x02, 0x0C, 0x02, fst fid, snd fid]"

datatype direct_offset_error = OffsetOutOfRange u16 u16

definition DirectOffset15_try_new :: "u16 \<Rightarrow> (direct_offset_error, u16) res" where
  "DirectOffset15_try_new offset =
     (if 0x7FFF < offset then Err (OffsetOutOfRange offset 0x7FFF) else Ok offset)"

definition offset15_ok :: "u16 \<Rightarrow> bool" where
  "offset15_ok offset \<longleftrightarrow> offset \<le> 0x7FFF"

definition offset_as_p1 :: "u16 \<Rightarrow> byte" where "offset_as_p1 offset = u16_hi offset"
definition offset_as_p2 :: "u16 \<Rightarrow> byte" where "offset_as_p2 offset = u16_lo offset"

datatype read_binary_offset = Direct u16 | BySfi byte byte

fun rb_as_p1 :: "read_binary_offset \<Rightarrow> byte" where
  "rb_as_p1 (Direct offset) = offset_as_p1 offset"
| "rb_as_p1 (BySfi sfi offset) = as_p1_short_form sfi"

fun rb_as_p2 :: "read_binary_offset \<Rightarrow> byte" where
  "rb_as_p2 (Direct offset) = offset_as_p2 offset"
| "rb_as_p2 (BySfi sfi offset) = offset"

definition ReadBinary_into_apdu :: "apdu_class \<Rightarrow> read_binary_offset \<Rightarrow> byte \<Rightarrow> command_apdu" where
  "ReadBinary_into_apdu cls offset le =
     allow_wrong_le_retry (CommandApdu_new [class_as_byte cls, 0xB0, rb_as_p1 offset, rb_as_p2 offset, le])"

definition ReadBinaryBySfi_into_apdu :: "byte \<Rightarrow> byte \<Rightarrow> byte \<Rightarrow> command_apdu" where
  "ReadBinaryBySfi_into_apdu sfi offset le =
     allow_wrong_le_retry (CommandApdu_new [0x00, 0xB0, as_p1_short_form sfi, offset, le])"

definition InternalAuthenticate_into_apdu :: "bytes \<Rightarrow> command_apdu" where
  "InternalAuthenticate_into_apdu challenge =
     CommandApdu_new ([0x00, 0x88, 0x00, 0x00, 0x08] @ challenge @ [0x00])"

definition ReadBinaryByOffset_into_apdu :: "u16 \<Rightarrow> byte \<Rightarrow> command_apdu" where
  "ReadBinaryByOffset_into_apdu offset le =
     allow_wrong_le_retry (CommandApdu_new [0x00, 0xB0, u16_hi offset AND 0x7F, u16_lo offset, le])"

text \<open>All builders of the module, so that statements can range over them.\<close>

datatype iso_command =
    SelectByAidNoFci bytes
  | SelectByAidWithFci apdu_class select_occurrence bytes
  | SelectFile apdu_class select_file_target select_file_response_mode
  | GetResponse apdu_class byte
  | SelectEfNoFci file_id
  | ReadBinary apdu_class read_binary_offset byte
  | ReadBinaryBySfi byte byte byte
  | InternalAuthenticate bytes
  | ReadBinaryByOffset u16 byte

fun into_apdu :: "iso_command \<Rightarrow> command_apdu" where
  "into_apdu (SelectByAidNoFci aid) = SelectByAidNoFci_into_apdu aid"
| "into_apdu (SelectByAidWithFci cls occ aid) = SelectByAidWithFci_into_apdu cls occ aid"
| "into_apdu (SelectFile cls target mode) = SelectFile_into_apdu cls target mode"
| "into_apdu (GetResponse cls le) = GetResponse_into_apdu cls le"
| "into_apdu (SelectEfNoFci fid) = SelectEfNoFci_into_apdu fid"
| "into_apdu (ReadBinary cls off le) = ReadBinary_into_apdu cls off le"
| "into_apdu (ReadBinaryBySfi sfi off le) = ReadBinaryBySfi_into_apdu sfi off le"
| "into_apdu (InternalAuthenticate challenge) = InternalAuthenticate_into_apdu challenge"
| "into_apdu (ReadBinaryByOffset off le) = ReadBinaryByOffset_into_apdu off le"

text \<open>What the field types guarantee of a command.\<close>

fun offset_ok :: "read_binary_offset \<Rightarrow> bool" where
  "offset_ok (Direct offset) = offset15_ok offset"
| "offset_ok (BySfi sfi _) = sfi_ok sfi"

fun target_ok :: "select_file_target \<Rightarrow> bool" where
  "target_ok (ByName aid) = aid_ok aid"
| "target_ok (AbsolutePath fids) = path_ok fids"
| "target_ok _ = True"

fun command_ok :: "iso_command \<Rightarrow> bool" where
  "command_ok (SelectByAidNoFci aid) = aid_ok aid"
| "command_ok (SelectByAidWithFci _ _ aid) = aid_ok aid"
| "command_ok (SelectFile _ target _) = target_ok target"
| "command_ok (ReadBinary _ off _) = offset_ok off"
| "command_ok (ReadBinaryBySfi sfi _ _) = sfi_ok sfi"
| "command_ok (InternalAuthenticate challenge) = (length challenge = 8)"
| "command_ok _ = True"

subsection \<open>Sixteen-bit values as byte pairs\<close>

lemma unat_u16_less: "unat (w :: u16) < 65536"
  using unsigned_less [of w] by simp

lemma unat_ucast_u16 [simp]: "unat (ucast (b :: byte) :: u16) = unat b"
  using unat_byte_less [of b] by (simp add: unsigned_ucast_eq take_bit_nat_eq_self)

lemma unat_u16_hi: "unat (u16_hi w) = unat w div 256"
  using unat_u16_less [of w]
  by (simp add: u16_hi_def unsigned_ucast_eq take_bit_eq_mod unat_drop_bit)

lemma unat_u16_lo: "unat (u16_lo w) = unat w mod 256"
  by (simp add: u16_lo_def unsigned_ucast_eq take_bit_eq_mod)

lemma unat_u16_from_be_bytes: "unat (u16_from_be_bytes hi lo) = unat hi * 256 + unat lo"
  unfolding u16_from_be_bytes_def
  using unat_byte_less [of hi] unat_byte_less [of lo] by (subst unat_push_bit_or) simp_all

lemma u16_bytes_inverse [simp]:
  "u16_from_be_bytes (u16_hi w) (u16_lo w) = w"
  "u16_hi (u16_from_be_bytes hi lo) = hi" "u16_lo (u16_from_be_bytes hi lo) = lo"
proof -
  have "unat (u16_from_be_bytes (u16_hi w) (u16_lo w)) = unat w"
    by (simp add: unat_u16_from_be_bytes unat_u16_hi unat_u16_lo)
  then show "u16_from_be_bytes (u16_hi w) (u16_lo w) = w" by (simp only: unsigned_word_eqI)
  have "unat (u16_hi (u16_from_be_bytes hi lo)) = unat hi"
    using unat_byte_less [of lo] by (simp add: unat_u16_from_be_bytes unat_u16_hi)
  then show "u16_hi (u16_from_be_bytes hi lo) = hi" by (simp only: unsigned_word_eqI)
  have "unat (u16_lo (u16_from_be_bytes hi lo)) = unat lo"
    using unat_byte_less [of lo] by (simp add: unat_u16_from_be_bytes unat_u16_lo)
  then show "u16_lo (u16_from_be_bytes hi lo) = lo" by (simp only: unsigned_word_eqI)
qed

lemma pin_counter_word:
  assumes "sw AND 0xFFF0 = 0x63C0"
  shows "u16_from_be_bytes (u16_hi 0x63C0) (u16_lo 0x63C0 OR (u16_lo sw AND 0x0F)) = sw"
proof -
  let ?x = "sw AND 0x000F"
  have mask: "(0xFFF0 :: u16) = NOT 0x000F" by simp
  have "sw = (sw AND NOT 0x000F) OR ?x" by (rule bit_word_eqI) (auto simp: bit_simps)
  with assms [unfolded mask] have sw: "sw = 0x63C0 OR ?x" by metis
  have "?x \<le> 0x000F" by (rule word_and_le1)
  then have "unat ?x < 16" by (simp add: word_le_nat_alt)
  then have "?x \<in> (word_of_nat :: nat \<Rightarrow> u16) ` set [0..<16]"
    by (intro image_eqI [of _ _ "unat ?x"]) simp_all
  moreover have "\<forall>n \<in> set [0..<16]. let w = 0x63C0 OR word_of_nat n in
      u16_from_be_bytes (u16_hi 0x63C0) (u16_lo 0x63C0 OR (u16_lo w AND 0x0F)) = w"
    by (simp add: upt_conv_Cons u16_from_be_bytes_def u16_hi_def u16_lo_def)
  ultimately show ?thesis using sw by (metis imageE)
qed

subsection \<open>Properties of APDUs and status words\<close>

text \<open>Decoding a status word loses nothing: re-encoding the decoded variant gives
  the sixteen bits back for every one of the 65536 values, including the whole
  retry-counter family \<open>63Cx\<close>, and the retry counter of a decoded word is the low
  nibble of its second byte.\<close>

theorem status_word_round_trip:
  "sw_as_u16 (sw_from_u16 sw) = sw
   \<and> (case pin_retries (sw_from_u16 sw) of
        None \<Rightarrow> sw AND 0xFFF0 \<noteq> 0x63C0
      | Some n \<Rightarrow> sw AND 0xFFF0 = 0x63C0 \<and> n = u16_lo sw AND 0x0F)"
proof
  show "sw_as_u16 (sw_from_u16 sw) = sw"
    by (simp add: sw_from_u16_def pin_counter_word)
  show "case pin_retries (sw_from_u16 sw) of
        None \<Rightarrow> sw AND 0xFFF0 \<noteq> 0x63C0
      | Some n \<Rightarrow> sw AND 0xFFF0 = 0x63C0 \<and> n = u16_lo sw AND 0x0F"
    by (simp add: sw_from_u16_def)
qed

text \<open>The two addressing modes of READ BINARY never collide: on validated offsets
  and short file identifiers the pair P1/P2 determines the request, and the high
  bit of P1 tells the modes apart.\<close>

theorem read_binary_p1p2_injective:
  assumes "offset_ok a" and "offset_ok b"
    and "rb_as_p1 a = rb_as_p1 b" and "rb_as_p2 a = rb_as_p2 b"
  shows "a = b"
proof -
  have direct: "rb_as_p1 (Direct off) < 0x80" if "offset15_ok off" for off
    using that by (simp add: offset_as_p1_def offset15_ok_def word_less_nat_alt word_le_nat_alt unat_u16_hi)
  have sfi: "0x80 \<le> as_p1_short_form s \<and> as_p1_short_form s AND 0x7F = s" if "sfi_ok s" for s
  proof -
    have "unat s \<le> 30" using that by (simp add: sfi_ok_def word_le_nat_alt)
    then have "s \<in> (word_of_nat :: nat \<Rightarrow> byte) ` set [0..<31]"
      by (intro image_eqI [of _ _ "unat s"]) simp_all
    moreover have "\<forall>n \<in> set [0..<31]. 0x80 \<le> as_p1_short_form (word_of_nat n)
        \<and> as_p1_short_form (word_of_nat n) AND 0x7F = word_of_nat n"
      by (simp add: upt_conv_Cons as_p1_short_form_def)
    ultimately show ?thesis by blast
  qed
  show ?thesis
  proof (cases a; cases b)
    fix x y assume "a = Direct x" "b = Direct y"
    then show ?thesis using assms u16_bytes_inverse(1)
      by (metis offset_as_p1_def offset_as_p2_def rb_as_p1.simps(1) rb_as_p2.simps(1))
  next
    fix x s y assume ab: "a = Direct x" "b = BySfi s y"
    then show ?thesis using assms direct [of x] sfi [of s] by (auto simp: not_le [symmetric])
  next
    fix x s y assume ab: "a = BySfi s y" "b = Direct x"
    then show ?thesis using assms direct [of x] sfi [of s] by (auto simp: not_le [symmetric])
  next
    fix s y t z assume ab: "a = BySfi s y" "b = BySfi t z"
    have "s = t" using assms sfi [of s] sfi [of t] ab by (metis rb_as_p1.simps(2) offset_ok.simps(2))
    then show ?thesis using assms(4) ab by simp
  qed
qed

theorem read_binary_p1p2_injective_witness:
  "offset_ok (Direct 0x1234) \<and> Direct 0x1234 = Direct 0x1234"
  using read_binary_p1p2_injective [of "Direct 0x1234" "Direct 0x1234"]
  by (simp add: offset15_ok_def)

text \<open>A wrong-length correction can never be replayed and never touches a command
  that carries data: among all builders only the five-byte, data-less READ BINARY
  and GET RESPONSE commands are correctable, the corrected command differs in the
  length byte only, and it cannot be corrected a second time.\<close>

theorem wrong_le_correction_once:
  assumes "corrected_wrong_le (into_apdu c) le = Some cmd"
  shows "length (apdu_bytes (into_apdu c)) = 5
    \<and> apdu_bytes (into_apdu c) ! 1 \<in> {0xB0, 0xC0}
    \<and> apdu_bytes cmd = butlast (apdu_bytes (into_apdu c)) @ [le]
    \<and> corrected_wrong_le cmd le' = None"
  using assms
  by (cases c) (auto simp: corrected_wrong_le_def CommandApdu_new_def allow_wrong_le_retry_def
      SelectByAidNoFci_into_apdu_def SelectByAidWithFci_into_apdu_def SelectFile_into_apdu_def
      GetResponse_into_apdu_def SelectEfNoFci_into_apdu_def ReadBinary_into_apdu_def
      ReadBinaryBySfi_into_apdu_def InternalAuthenticate_into_apdu_def
      ReadBinaryByOffset_into_apdu_def Let_def split: if_splits)

theorem wrong_le_correction_once_witness:
  "corrected_wrong_le (into_apdu (GetResponse Plain 0)) 7
     = Some \<lparr>apdu_bytes = [0, 0xC0, 0, 0, 7], wrong_le_retry = False\<rparr>
   \<and> corrected_wrong_le \<lparr>apdu_bytes = [0, 0xC0, 0, 0, 7], wrong_le_retry = False\<rparr> 9 = None"
proof -
  have e: "corrected_wrong_le (into_apdu (GetResponse Plain 0)) 7
     = Some \<lparr>apdu_bytes = [0, 0xC0, 0, 0, 7], wrong_le_retry = False\<rparr>"
    by (simp add: corrected_wrong_le_def CommandApdu_new_def allow_wrong_le_retry_def
        GetResponse_into_apdu_def)
  from wrong_le_correction_once [OF e, of 9] e show ?thesis by blast
qed

end
