(* ===== verification/Secure_Messaging.thy ===== *)
theory Secure_Messaging
  imports Ber Apdu
begin

text \<open>
  PACE secure messaging (\<open>crates/refineid-lib-core/src/secure_messaging.rs\<close>) over
  the AES helpers of \<open>crypto/symmetric.rs\<close> and the send-sequence counter of
  \<open>pace.rs\<close>: wrapping a plain command into protected data objects, verifying and
  decrypting a protected response, and the transport that does both around an
  inner transport.

  The block cipher, CBC mode and CMAC come from third-party crates; they are the
  fields of the parameter \<open>aes_crate\<close>, and \<open>aes_ok\<close> states what their documentation
  promises (lengths, and that CBC decryption inverts encryption). A method that
  takes \<open>&mut self\<close> returns its outcome and the new state, because the counter is
  advanced on error paths too.
\<close>

subsection \<open>Symmetric primitives\<close>

record aes_crate =
  aes_block :: "bytes \<Rightarrow> bytes \<Rightarrow> bytes"
  cbc_encrypt :: "bytes \<Rightarrow> bytes \<Rightarrow> bytes \<Rightarrow> bytes"
  cbc_decrypt :: "bytes \<Rightarrow> bytes \<Rightarrow> bytes \<Rightarrow> bytes"
  cmac_tag :: "bytes \<Rightarrow> bytes \<Rightarrow> bytes"

definition aes_ok :: "aes_crate \<Rightarrow> bool" where
  "aes_ok A \<longleftrightarrow>
     (\<forall>k iv p. 16 dvd length p \<longrightarrow> cbc_decrypt A k iv (cbc_encrypt A k iv p) = p)
   \<and> (\<forall>k iv p. 16 dvd length p \<longrightarrow> length (cbc_encrypt A k iv p) = length p)
   \<and> (\<forall>k m. length (cmac_tag A k m) = 16)"

abbreviation AES_BLOCK :: nat where "AES_BLOCK \<equiv> 16"

datatype unaligned_input = UnalignedInput nat

definition aes256_cbc_encrypt_no_padding ::
  "aes_crate \<Rightarrow> bytes \<Rightarrow> bytes \<Rightarrow> bytes \<Rightarrow> (unaligned_input, bytes) res" where
  "aes256_cbc_encrypt_no_padding A key iv plaintext =
     (if \<not> AES_BLOCK dvd length plaintext then Err (UnalignedInput (length plaintext))
      else Ok (cbc_encrypt A key iv plaintext))"

definition aes256_cbc_decrypt_no_padding ::
  "aes_crate \<Rightarrow> bytes \<Rightarrow> bytes \<Rightarrow> bytes \<Rightarrow> (unaligned_input, bytes) res" where
  "aes256_cbc_decrypt_no_padding A key iv ciphertext =
     (if \<not> AES_BLOCK dvd length ciphertext then Err (UnalignedInput (length ciphertext))
      else Ok (cbc_decrypt A key iv ciphertext))"

definition aes256_ecb_encrypt_block :: "aes_crate \<Rightarrow> bytes \<Rightarrow> bytes \<Rightarrow> bytes" where
  "aes256_ecb_encrypt_block A key block = aes_block A key block"

definition aes256_cmac_truncated :: "aes_crate \<Rightarrow> bytes \<Rightarrow> bytes \<Rightarrow> bytes" where
  "aes256_cmac_truncated A key message = take 8 (cmac_tag A key message)"

subsection \<open>Send-sequence counter\<close>

definition Ssc_INITIAL :: bytes where
  "Ssc_INITIAL = replicate 16 0"

fun inc_rev :: "bytes \<Rightarrow> bytes" where
  "inc_rev [] = []"
| "inc_rev (b # bs) = (if b = 0xFF then 0 # inc_rev bs else (b + 1) # bs)"

definition Ssc_increment :: "bytes \<Rightarrow> bytes" where
  "Ssc_increment ssc = rev (inc_rev (rev ssc))"

subsection \<open>Padding and short-form APDUs\<close>

function pad_fill :: "bytes \<Rightarrow> bytes" where
  "pad_fill out = (if AES_BLOCK dvd length out then out else pad_fill (out @ [0x00]))"
  by pat_completeness auto

lemma pad_measure: "\<not> 16 dvd n \<Longrightarrow> (16 - Suc n mod 16) mod 16 < (16 - n mod 16 :: nat) mod 16"
proof -
  assume "\<not> 16 dvd n"
  then have "n mod 16 \<noteq> 0" by (simp add: dvd_eq_mod_eq_0)
  moreover have "n mod 16 < 16" by simp
  ultimately obtain r where r: "n mod 16 = Suc r" "r < 15" by (cases "n mod 16") auto
  then show ?thesis by (cases "r = 14") (simp_all add: mod_Suc)
qed

termination pad_fill
  by (relation "measure (\<lambda>out. (16 - length out mod 16) mod 16)") (auto simp: pad_measure)

declare pad_fill.simps [simp del]

definition iso7816_4_pad :: "bytes \<Rightarrow> bytes" where
  "iso7816_4_pad d = pad_fill (d @ [0x80])"

definition iso7816_4_unpad :: "bytes \<Rightarrow> bytes" where
  "iso7816_4_unpad d =
     (let trailing_zeros = length (takeWhile (\<lambda>b. b = 0x00) (rev d));
          marker_index_from_end = trailing_zeros + 1 in
      if length d < marker_index_from_end then d
      else let marker_pos = length d - marker_index_from_end in
        case get_at d marker_pos of
          Some b \<Rightarrow> if b = 0x80 then take marker_pos d else d
        | None \<Rightarrow> d)"

definition decode_short_apdu :: "bytes \<Rightarrow> (bytes \<times> byte option) option" where
  "decode_short_apdu apdu =
     (if length apdu = 4 then Some ([], None)
      else if length apdu = 5 then map_option (\<lambda>le. ([], Some le)) (get_at apdu 4)
      else Option.bind (get_at apdu 4) (\<lambda>lc.
        let body_start = 5; body_end = body_start + unat lc in
        Option.bind (slice apdu body_start body_end) (\<lambda>d.
          if length apdu = body_end then Some (d, None)
          else if length apdu = body_end + 1 then map_option (\<lambda>le. (d, Some le)) (get_at apdu body_end)
          else None)))"

subsection \<open>The secure-messaging transport\<close>

record 't sm_transport =
  sm_inner :: 't
  k_enc :: bytes
  k_mac :: bytes
  ssc :: bytes

record pace_session =
  pace_k_enc :: bytes
  pace_k_mac :: bytes
  pace_ssc :: bytes

datatype 'e sm_error = SmTransportError 'e | SmMalformed string | MacMismatch | CommandTooLong

fun sm_error_kind :: "('e \<Rightarrow> transport_error_kind) \<Rightarrow> 'e sm_error \<Rightarrow> transport_error_kind" where
  "sm_error_kind kind (SmTransportError e) = kind e"
| "sm_error_kind kind (SmMalformed _) = KProtocolDesync"
| "sm_error_kind kind MacMismatch = KProtocolDesync"
| "sm_error_kind kind CommandTooLong = KBackend"

definition SmTransport_new :: "'t \<Rightarrow> pace_session \<Rightarrow> 't sm_transport" where
  "SmTransport_new inner session =
     \<lparr>sm_inner = inner, k_enc = pace_k_enc session, k_mac = pace_k_mac session, ssc = pace_ssc session\<rparr>"

definition replace_session :: "'t sm_transport \<Rightarrow> pace_session \<Rightarrow> 't sm_transport" where
  "replace_session sm session =
     sm\<lparr>k_enc := pace_k_enc session, k_mac := pace_k_mac session, ssc := pace_ssc session\<rparr>"

definition rekey :: "'t sm_transport \<Rightarrow> bytes \<Rightarrow> bytes \<Rightarrow> 't sm_transport" where
  "rekey sm ke km = sm\<lparr>k_enc := ke, k_mac := km, ssc := Ssc_INITIAL\<rparr>"

definition increment_ssc :: "'t sm_transport \<Rightarrow> 't sm_transport" where
  "increment_ssc sm = sm\<lparr>ssc := Ssc_increment (ssc sm)\<rparr>"

text \<open>The part of \<open>wrap\<close> after the counter has been advanced.\<close>

definition wrap_do87 :: "aes_crate \<Rightarrow> 't sm_transport \<Rightarrow> bytes \<Rightarrow> ('e sm_error, bytes) res" where
  "wrap_do87 A sm d =
     (if d = [] then Ok []
      else
        let padded = iso7816_4_pad d; iv = aes256_ecb_encrypt_block A (k_enc sm) (ssc sm) in
        and_then (map_err (\<lambda>_. SmMalformed ''SM wrap: padded plaintext not block-aligned'')
            (aes256_cbc_encrypt_no_padding A (k_enc sm) iv padded)) (\<lambda>cipher.
        tlv 0x87 (0x01 # cipher)))"

definition wrap_protected ::
  "aes_crate \<Rightarrow> 't sm_transport \<Rightarrow> bytes \<Rightarrow> bytes \<Rightarrow> byte option \<Rightarrow> ('e sm_error, bytes) res" where
  "wrap_protected A sm header d le =
     and_then (wrap_do87 A sm d) (\<lambda>do87.
     and_then (case le of None \<Rightarrow> Ok [] | Some le_byte \<Rightarrow> tlv 0x97 [le_byte]) (\<lambda>do97.
     let mac_input = iso7816_4_pad (ssc sm @ iso7816_4_pad header @ do87 @ do97);
         tag = aes256_cmac_truncated A (k_mac sm) mac_input in
     and_then (tlv 0x8E tag) (\<lambda>do_mac.
     let body_len = length do87 + length do97 + length do_mac in
     if 255 < body_len then Err CommandTooLong
     else Ok (header @ [lc_byte body_len] @ do87 @ do97 @ do_mac @ [0x00]))))"

definition wrap ::
  "aes_crate \<Rightarrow> 't sm_transport \<Rightarrow> bytes \<Rightarrow> ('e sm_error, bytes) res \<times> 't sm_transport" where
  "wrap A sm plain =
     (case slice plain 0 4 of
        None \<Rightarrow> (Err (SmMalformed ''APDU shorter than 4-byte header''), sm)
      | Some header \<Rightarrow>
          let header' = [header ! 0 OR 0x0C, header ! 1, header ! 2, header ! 3] in
          case decode_short_apdu plain of
            None \<Rightarrow> (Err (SmMalformed ''APDU does not match a short-form case''), sm)
          | Some (d, le) \<Rightarrow>
              let sm' = increment_ssc sm in (wrap_protected A sm' header' d le, sm'))"

record sm_objects =
  do87_value :: "bytes option"
  do99_value :: "bytes option"
  do_mac_value :: "bytes option"

fun collect_objects ::
  "(ber_error, ber_tlv_any) res list \<Rightarrow> sm_objects \<Rightarrow> ('e sm_error, sm_objects) res" where
  "collect_objects [] obj = Ok obj"
| "collect_objects (parsed # iter) obj =
     and_then (map_err (\<lambda>_. SmMalformed ''BER parse failed'') parsed) (\<lambda>t.
       collect_objects iter
         (if tlv_tag t = 0x87 then obj\<lparr>do87_value := Some (tlv_value t)\<rparr>
          else if tlv_tag t = 0x99 then obj\<lparr>do99_value := Some (tlv_value t)\<rparr>
          else if tlv_tag t = 0x8E then obj\<lparr>do_mac_value := Some (tlv_value t)\<rparr>
          else obj))"

definition decrypt_do87 :: "aes_crate \<Rightarrow> 't sm_transport \<Rightarrow> bytes \<Rightarrow> ('e sm_error, bytes) res" where
  "decrypt_do87 A sm v =
     (case v of
        [] \<Rightarrow> Err (SmMalformed ''DO87 empty'')
      | indicator # cipher_bytes \<Rightarrow>
          if indicator \<noteq> 0x01 then Err (SmMalformed ''DO87 missing 0x01 indicator'')
          else if \<not> AES_BLOCK dvd length cipher_bytes then Err (SmMalformed ''DO87 cipher not whole blocks'')
          else
            let iv = aes256_ecb_encrypt_block A (k_enc sm) (ssc sm) in
            and_then (map_err (\<lambda>_. SmMalformed ''DO87 cipher not whole blocks'')
                (aes256_cbc_decrypt_no_padding A (k_enc sm) iv cipher_bytes)) (\<lambda>plain.
              Ok (iso7816_4_unpad plain)))"

text \<open>The part of \<open>unwrap\<close> after the counter has been advanced.\<close>

definition unwrap_verified ::
  "aes_crate \<Rightarrow> 't sm_transport \<Rightarrow> bytes \<Rightarrow> ('e sm_error, bytes \<times> u16) res" where
  "unwrap_verified A sm response =
     and_then (collect_objects (ber_children response)
         \<lparr>do87_value = None, do99_value = None, do_mac_value = None\<rparr>) (\<lambda>obj.
     and_then (ok_or (do99_value obj) (SmMalformed ''no DO99'')) (\<lambda>do99.
     and_then (ok_or (do_mac_value obj) (SmMalformed ''no DO8E'')) (\<lambda>do_mac.
     if length do99 \<noteq> 2 then Err (SmMalformed ''DO99 not 2 bytes'')
     else if length do_mac \<noteq> 8 then Err (SmMalformed ''DO8E not 8 bytes'')
     else
       and_then (case do87_value obj of None \<Rightarrow> Ok [] | Some v \<Rightarrow> tlv 0x87 v) (\<lambda>mac87.
       and_then (tlv 0x99 do99) (\<lambda>mac99.
       let mac_input = iso7816_4_pad (ssc sm @ mac87 @ mac99);
           computed = aes256_cmac_truncated A (k_mac sm) mac_input in
       if computed \<noteq> do_mac then Err MacMismatch
       else
         and_then (case do87_value obj of None \<Rightarrow> Ok [] | Some v \<Rightarrow> decrypt_do87 A sm v) (\<lambda>body.
           Ok (body, u16_from_be_bytes (do99 ! 0) (do99 ! 1))))))))"

definition unwrap ::
  "aes_crate \<Rightarrow> 't sm_transport \<Rightarrow> bytes \<Rightarrow> ('e sm_error, bytes \<times> u16) res \<times> 't sm_transport" where
  "unwrap A sm response = (let sm' = increment_ssc sm in (unwrap_verified A sm' response, sm'))"

definition sm_transmit_outcome ::
  "aes_crate \<Rightarrow> ('t \<Rightarrow> command_apdu \<Rightarrow> ('e, transport_outcome) res \<times> 't) \<Rightarrow> 't sm_transport
   \<Rightarrow> command_apdu \<Rightarrow> ('e sm_error, transport_outcome) res \<times> 't sm_transport" where
  "sm_transmit_outcome A inner_transmit sm apdu =
     (case wrap A sm (apdu_bytes apdu) of
        (Err e, sm) \<Rightarrow> (Err e, sm)
      | (Panic, sm) \<Rightarrow> (Panic, sm)
      | (Ok wrapped, sm) \<Rightarrow>
          (case inner_transmit (sm_inner sm) (CommandApdu_new wrapped) of (raw, inner) \<Rightarrow>
            let sm = sm\<lparr>sm_inner := inner\<rparr> in
            case raw of
              Err e \<Rightarrow> (Err (SmTransportError e), sm)
            | Panic \<Rightarrow> (Panic, sm)
            | Ok (Response r) \<Rightarrow>
                if resp_body r = [] then (Ok (Response r), sm)
                else (case unwrap A sm (resp_body r) of (u, sm) \<Rightarrow>
                  (and_then u (\<lambda>(body, sw). Ok (Response
                     \<lparr>resp_body = body, resp_sw1 = u16_hi sw, resp_sw2 = u16_lo sw\<rparr>)), sm))
            | Ok other \<Rightarrow> (Ok other, sm)))"

subsection \<open>Counter arithmetic\<close>

lemma length_inc_rev [simp]: "length (inc_rev bs) = length bs"
  by (induction bs) auto

lemma length_Ssc_increment [simp]: "length (Ssc_increment s) = length s"
  by (simp add: Ssc_increment_def)

lemma unat_byte_plus_1: "b \<noteq> 0xFF \<Longrightarrow> unat (b + 1 :: byte) = unat b + 1"
proof -
  assume "b \<noteq> 0xFF"
  then have "unat b \<noteq> unat (0xFF :: byte)" by (metis unsigned_word_eqI)
  then have "unat b \<noteq> 255" by simp
  then have "unat b + 1 < 256" using unat_byte_less [of b] by simp
  then show ?thesis by (simp add: unat_word_ariths)
qed

lemma be_nat_inc_rev: "be_nat (rev (inc_rev bs)) = (be_nat (rev bs) + 1) mod 256 ^ length bs"
proof (induction bs)
  case (Cons b bs)
  let ?n = "be_nat (rev bs)"
  have lt: "?n < 256 ^ length bs" using be_nat_less [of "rev bs"] by simp
  show ?case
  proof (cases "b = 0xFF")
    case True
    have "be_nat (rev (inc_rev (b # bs))) = (?n + 1) mod 256 ^ length bs * 256"
      using True Cons by simp
    also have "\<dots> = ((?n + 1) * 256) mod (256 ^ length bs * 256)" by (simp add: mult_mod_left)
    finally have "be_nat (rev (inc_rev (b # bs))) = (?n * 256 + 255 + 1) mod 256 ^ length (b # bs)"
      by (simp add: algebra_simps)
    moreover have "unat b = 255" using True by simp
    ultimately show ?thesis by (simp only: rev.simps be_nat_snoc)
  next
    case False
    have "unat b < 255" using False unat_byte_less [of b] unat_byte_plus_1 [OF False] unat_byte_less [of "b + 1"] by simp
    then have "?n * 256 + unat b + 1 < 256 ^ length bs * 256"
      using lt mult_le_mono1 [of "?n + 1" "256 ^ length bs" 256] by simp
    with False show ?thesis by (simp add: unat_byte_plus_1 mult.commute)
  qed
qed simp

lemma be_nat_Ssc_increment: "be_nat (Ssc_increment s) = (be_nat s + 1) mod 256 ^ length s"
  using be_nat_inc_rev [of "rev s"] by (simp add: Ssc_increment_def)

subsection \<open>Padding\<close>

lemma pad_fill_eq: "\<exists>k < 16. pad_fill out = out @ replicate k 0 \<and> 16 dvd length (pad_fill out)"
proof (induction out rule: pad_fill.induct)
  case (1 out)
  show ?case
  proof (cases "16 dvd length out")
    case True
    then show ?thesis by (intro exI [of _ 0]) (simp add: pad_fill.simps)
  next
    case False
    then obtain k where k: "k < 16" "pad_fill (out @ [0]) = (out @ [0]) @ replicate k 0"
      "16 dvd length (pad_fill (out @ [0]))" using 1 by blast
    have eq: "pad_fill out = out @ replicate (Suc k) 0" using False k by (simp add: pad_fill.simps [of out])
    have "Suc k \<noteq> 16" using False k eq
      by (metis (no_types) dvd_add_left_iff dvd_refl eq length_append length_replicate k(3) pad_fill.simps)
    then show ?thesis using eq k False by (intro exI [of _ "Suc k"]) (simp add: pad_fill.simps [of out])
  qed
qed

lemma pad_eq: "\<exists>k < 16. iso7816_4_pad d = d @ 0x80 # replicate k 0"
  using pad_fill_eq [of "d @ [0x80]"] by (auto simp: iso7816_4_pad_def)

lemma pad_aligned: "16 dvd length (iso7816_4_pad d)"
  using pad_fill_eq [of "d @ [0x80]"] by (auto simp: iso7816_4_pad_def)

lemma length_pad: "length (iso7816_4_pad d) = 16 * (length d div 16 + 1)"
proof -
  obtain k where k: "k < 16" "iso7816_4_pad d = d @ 0x80 # replicate k 0" using pad_eq by blast
  then have "length (iso7816_4_pad d) = length d + 1 + k" by simp
  moreover obtain m where "length (iso7816_4_pad d) = 16 * m" using pad_aligned by (auto elim: dvdE)
  ultimately have m: "16 * m = length d + 1 + k" "length (iso7816_4_pad d) = 16 * m" by simp_all
  have "length d div 16 = m - 1" by (rule div_nat_eqI) (use m(1) k(1) in auto)
  moreover have "0 < m" using m(1) by (cases m) auto
  ultimately show ?thesis using m(2) by simp
qed

lemma unpad_pad: "iso7816_4_unpad (iso7816_4_pad d) = d"
proof -
  obtain k where k: "iso7816_4_pad d = d @ 0x80 # replicate k 0" using pad_eq by blast
  have "takeWhile (\<lambda>b. b = 0) (rev (iso7816_4_pad d)) = replicate k (0 :: byte)"
    unfolding k by (simp add: takeWhile_append takeWhile_replicate)
  then show ?thesis unfolding iso7816_4_unpad_def Let_def by (simp add: k get_at_def)
qed

subsection \<open>Short-form APDUs\<close>

lemma decode_short_apdu_case4:
  assumes "length h = 4" and "length d \<le> 255"
  shows "decode_short_apdu (h @ [lc_byte (length d)] @ d @ [le]) = Some (d, Some le)"
proof -
  have lc: "unat (lc_byte (length d)) = length d"
    using assms(2) by (simp add: lc_byte_def unat_word8_of_nat)
  have "get_at (h @ lc_byte (length d) # d @ [le]) 4 = Some (lc_byte (length d))"
    using get_at_append [of h] assms(1) by simp
  moreover have "slice ((h @ [lc_byte (length d)]) @ d @ [le]) (length (h @ [lc_byte (length d)]))
      (length (h @ [lc_byte (length d)]) + length d) = Some d" by (rule slice_append)
  moreover have "get_at ((h @ lc_byte (length d) # d) @ le # []) (length (h @ lc_byte (length d) # d)) = Some le"
    by (rule get_at_append)
  ultimately show ?thesis using assms(1) lc by (simp add: decode_short_apdu_def)
qed

lemma decode_short_apdu_case3:
  assumes "length h = 4" and "length d \<le> 255" and "d \<noteq> []"
  shows "decode_short_apdu (h @ [lc_byte (length d)] @ d) = Some (d, None)"
proof -
  have lc: "unat (lc_byte (length d)) = length d"
    using assms(2) by (simp add: lc_byte_def unat_word8_of_nat)
  have "get_at (h @ lc_byte (length d) # d) 4 = Some (lc_byte (length d))"
    using get_at_append [of h] assms(1) by simp
  moreover have "slice ((h @ [lc_byte (length d)]) @ d @ []) (length (h @ [lc_byte (length d)]))
      (length (h @ [lc_byte (length d)]) + length d) = Some d" by (rule slice_append)
  ultimately show ?thesis using assms lc by (simp add: decode_short_apdu_def)
qed

lemma decode_short_apdu_data_bound:
  "decode_short_apdu apdu = Some (d, le) \<Longrightarrow> length d \<le> 255"
  by (auto simp: decode_short_apdu_def Let_def bind_eq_Some_conv less_Suc_eq_le [symmetric] unat_byte_less
      split: if_splits dest!: slice_Some_length)

subsection \<open>What a protected command consists of\<close>

definition do87_of :: "aes_crate \<Rightarrow> 't sm_transport \<Rightarrow> bytes \<Rightarrow> bytes" where
  "do87_of A sm d =
     (if d = [] then []
      else let v = 0x01 # cbc_encrypt A (k_enc sm) (aes_block A (k_enc sm) (ssc sm)) (iso7816_4_pad d) in
        0x87 # length_octets (length v) @ v)"

definition do97_of :: "byte option \<Rightarrow> bytes" where
  "do97_of le = (case le of None \<Rightarrow> [] | Some b \<Rightarrow> [0x97, 1, b])"

definition command_mac :: "aes_crate \<Rightarrow> 't sm_transport \<Rightarrow> bytes \<Rightarrow> bytes \<Rightarrow> byte option \<Rightarrow> bytes" where
  "command_mac A sm header d le =
     take 8 (cmac_tag A (k_mac sm)
       (iso7816_4_pad (ssc sm @ iso7816_4_pad header @ do87_of A sm d @ do97_of le)))"

definition protected_body :: "aes_crate \<Rightarrow> 't sm_transport \<Rightarrow> bytes \<Rightarrow> bytes \<Rightarrow> byte option \<Rightarrow> bytes" where
  "protected_body A sm header d le =
     do87_of A sm d @ do97_of le @ [0x8E, 8] @ command_mac A sm header d le"

lemma aes_ok_lengths:
  "aes_ok A \<Longrightarrow> length (cbc_encrypt A k iv (iso7816_4_pad d)) = 16 * (length d div 16 + 1)"
  "aes_ok A \<Longrightarrow> length (take 8 (cmac_tag A k m)) = 8"
  by (simp_all add: aes_ok_def pad_aligned length_pad)

lemma wrap_do87_eq:
  assumes "aes_ok A" and "length d \<le> 255"
  shows "wrap_do87 A sm d = Ok (do87_of A sm d)"
proof -
  have "length d div 16 \<le> 15" using assms(2) by simp
  then have "16 * (length d div 16 + 1) + 1 \<le> 257" by simp
  then have "16 * (length d div 16 + 1) + 1 \<le> u32_max" by (rule order_trans) simp
  then show ?thesis using assms
    by (simp add: wrap_do87_def do87_of_def aes256_cbc_encrypt_no_padding_def aes256_ecb_encrypt_block_def
        pad_aligned Let_def tlv_def push_tlv_eq aes_ok_lengths)
qed

lemma wrap_protected_eq:
  assumes "aes_ok A" and "length d \<le> 255"
  shows "wrap_protected A sm header d le =
    (if 255 < length (protected_body A sm header d le) then Err CommandTooLong
     else Ok (header @ [lc_byte (length (protected_body A sm header d le))]
       @ protected_body A sm header d le @ [0x00]))"
proof -
  have le: "(case le of None \<Rightarrow> Ok [] | Some b \<Rightarrow> tlv 0x97 [b]) = (Ok (do97_of le) :: ('e sm_error, bytes) res)"
    by (auto simp: do97_of_def tlv_def push_tlv_eq length_octets_def be_bytes_eval split: option.splits)
  have mac: "length (command_mac A sm header d le) = 8"
    using aes_ok_lengths(2) [OF assms(1)] by (simp add: command_mac_def)
  have tlv: "tlv 0x8E (command_mac A sm header d le) = Ok ([0x8E, 8] @ command_mac A sm header d le)"
    using mac by (simp add: tlv_def push_tlv_eq length_octets_def be_bytes_eval)
  show ?thesis
    unfolding wrap_protected_def wrap_do87_eq [OF assms] le
    by (simp add: Let_def aes256_cmac_truncated_def command_mac_def [symmetric] tlv protected_body_def add.assoc)
qed

lemma length_protected_body:
  assumes "aes_ok A"
  shows "length (protected_body A sm header d le) =
    (if d = [] then 0
     else let v = 16 * (length d div 16 + 1) + 1 in 1 + length (length_octets v) + v)
    + (if le = None then 0 else 3) + 10"
  using aes_ok_lengths [OF assms]
  by (simp add: protected_body_def do87_of_def do97_of_def command_mac_def Let_def split: option.splits)

lemma protected_body_fits:
  assumes "aes_ok A" and "length d \<le> 255"
  shows "255 < length (protected_body A sm header d le) \<longleftrightarrow> (if le = None then 239 else 223) < length d"
proof (cases "d = []")
  case False
  define q where "q = length d div 16"
  have n: "q * 16 \<le> length d" "length d < q * 16 + 16"
    unfolding q_def using div_mult_mod_eq [of "length d" 16] mod_less_divisor [of 16 "length d"] by linarith+
  have "q < 16" using assms(2) n by simp
  have len: "length (protected_body A sm header d le) =
      1 + length (length_octets (16 * (q + 1) + 1)) + (16 * (q + 1) + 1) + (if le = None then 0 else 3) + 10"
    using False by (simp add: length_protected_body [OF assms(1)] q_def Let_def)
  consider "q \<le> 13" | "q = 14" | "q = 15" using \<open>q < 16\<close> by linarith
  then show ?thesis
  proof cases
    case 1
    then have "length (length_octets (16 * (q + 1) + 1)) \<le> 2" by (simp add: length_octets_def)
    then show ?thesis using 1 n len by auto
  next
    case 2
    then show ?thesis using n len by (auto simp: length_octets_def)
  next
    case 3
    then show ?thesis using n len by (auto simp: length_octets_def)
  qed
qed (simp add: length_protected_body [OF assms(1)])

text \<open>Data objects of a protected command or response as tag and value pairs.\<close>

definition obj87 :: "aes_crate \<Rightarrow> 't sm_transport \<Rightarrow> bytes \<Rightarrow> (byte \<times> bytes) list" where
  "obj87 A sm d =
     (if d = [] then []
      else [(0x87, 0x01 # cbc_encrypt A (k_enc sm) (aes_block A (k_enc sm) (ssc sm)) (iso7816_4_pad d))])"

definition obj97 :: "byte option \<Rightarrow> (byte \<times> bytes) list" where
  "obj97 le = (case le of None \<Rightarrow> [] | Some b \<Rightarrow> [(0x97, [b])])"

lemma single_tags [simp]: "single_tag 0x87" "single_tag 0x97" "single_tag 0x99" "single_tag 0x8E"
  by (simp_all add: single_tag_def)

lemma do87_tlv: "do87_of A sm d = concat (map tlv_bytes (obj87 A sm d))"
  by (simp add: do87_of_def obj87_def tlv_bytes_def Let_def)

lemma do97_tlv: "do97_of le = concat (map tlv_bytes (obj97 le))"
  by (simp add: do97_of_def obj97_def tlv_bytes_def length_octets_def be_bytes_eval split: option.splits)

lemma mac_tlv: "length m = 8 \<Longrightarrow> [0x8E, 8] @ m = tlv_bytes (0x8E, m)"
  by (simp add: tlv_bytes_def length_octets_def be_bytes_eval)

lemma obj87_ok:
  assumes "aes_ok A" and "length d \<le> 65535"
  shows "list_all tlv_ok (obj87 A sm d)" and "length (concat (map tlv_bytes (obj87 A sm d))) \<le> 70000"
proof -
  have "length d div 16 \<le> 4095" using assms(2) by simp
  then have len: "length (cbc_encrypt A k iv (iso7816_4_pad d)) \<le> 65536" for k iv
    using aes_ok_lengths(1) [OF assms(1)] by simp
  have "Suc (length (cbc_encrypt A k iv (iso7816_4_pad d))) \<le> u32_max" for k iv
    using len [of k iv] by simp
  then show "list_all tlv_ok (obj87 A sm d)" by (simp add: obj87_def tlv_ok_def)
  have "length (tlv_bytes (t, 1 # cbc_encrypt A k iv (iso7816_4_pad d))) \<le> 70000" for t k iv
    using len [of k iv] length_octets_bound [of "Suc (length (cbc_encrypt A k iv (iso7816_4_pad d)))"]
    by (simp add: tlv_bytes_def)
  then show "length (concat (map tlv_bytes (obj87 A sm d))) \<le> 70000" by (simp add: obj87_def)
qed

definition object_pairs :: "(ber_error, ber_tlv_any) res list \<Rightarrow> (ber_error, (u16 \<times> bytes) list) res" where
  "object_pairs items = map_res (\<lambda>r. and_then r (\<lambda>t. Ok (tlv_tag t, tlv_value t))) items"

lemma object_pairs_concat:
  "list_all tlv_ok items \<Longrightarrow> length (concat (map tlv_bytes items)) \<le> usize_max \<Longrightarrow>
   object_pairs (ber_children (concat (map tlv_bytes items))) = Ok (map (\<lambda>(t, v). (ucast t, v)) items)"
  by (simp add: ber_children_concat object_pairs_def map_res_eq_Ok list_all2_map1 list_all2_map2
      list_all2_same case_prod_unfold)

lemma wrap_Ok:
  assumes "aes_ok A" and "wrap A sm plain = (Ok apdu :: ('e sm_error, bytes) res, sm')"
  obtains d le h where "decode_short_apdu plain = Some (d, le)" and "slice plain 0 4 = Some h"
    and "sm' = increment_ssc sm" and "length d \<le> 255"
    and "apdu = [h ! 0 OR 0x0C, h ! 1, h ! 2, h ! 3]
      @ [lc_byte (length (protected_body A sm' [h ! 0 OR 0x0C, h ! 1, h ! 2, h ! 3] d le))]
      @ protected_body A sm' [h ! 0 OR 0x0C, h ! 1, h ! 2, h ! 3] d le @ [0x00]"
    and "length (protected_body A sm' [h ! 0 OR 0x0C, h ! 1, h ! 2, h ! 3] d le) \<le> 255"
proof -
  from assms(2) obtain h d le where h: "slice plain 0 4 = Some h" "decode_short_apdu plain = Some (d, le)"
    and sm': "sm' = increment_ssc sm"
    and w: "wrap_protected A sm' [h ! 0 OR 0x0C, h ! 1, h ! 2, h ! 3] d le = (Ok apdu :: ('e sm_error, bytes) res)"
    by (auto simp: wrap_def Let_def split: option.splits prod.splits)
  have d: "length d \<le> 255" using decode_short_apdu_data_bound [OF h(2)] .
  show ?thesis
    using that [OF h(2,1) sm' d] w unfolding wrap_protected_eq [OF assms(1) d]
    by (auto split: if_splits)
qed

lemma collect_objects_append:
  "collect_objects (map Ok ts @ rest) obj = collect_objects rest
     (foldl (\<lambda>obj t. if tlv_tag t = 0x87 then obj\<lparr>do87_value := Some (tlv_value t)\<rparr>
          else if tlv_tag t = 0x99 then obj\<lparr>do99_value := Some (tlv_value t)\<rparr>
          else if tlv_tag t = 0x8E then obj\<lparr>do_mac_value := Some (tlv_value t)\<rparr>
          else obj) obj ts)"
  by (induction ts arbitrary: obj) auto

text \<open>The protected response to \<open>body\<close> and \<open>sw\<close> under the session \<open>sm\<close>.\<close>

definition response_mac_input :: "bytes \<Rightarrow> (byte \<times> bytes) list \<Rightarrow> bytes" where
  "response_mac_input counter objs = iso7816_4_pad (counter @ concat (map tlv_bytes objs))"

definition response_objects :: "aes_crate \<Rightarrow> 't sm_transport \<Rightarrow> bytes \<Rightarrow> u16 \<Rightarrow> (byte \<times> bytes) list" where
  "response_objects A sm body sw = obj87 A sm body @ [(0x99, [u16_hi sw, u16_lo sw])]"

definition protected_response :: "aes_crate \<Rightarrow> 't sm_transport \<Rightarrow> bytes \<Rightarrow> u16 \<Rightarrow> bytes" where
  "protected_response A sm body sw =
     (let objs = response_objects A sm body sw in
      concat (map tlv_bytes (objs @ [(0x8E, take 8 (cmac_tag A (k_mac sm) (response_mac_input (ssc sm) objs)))])))"

lemma tlv_bytes_simp: "length v \<le> u32_max \<Longrightarrow> tlv t v = Ok (tlv_bytes (t, v))"
  by (simp add: tlv_def push_tlv_eq tlv_bytes_def)

lemma unwrap_verified_response:
  assumes A: "aes_ok A" and body: "length body \<le> 65535"
  shows "unwrap_verified A sm (protected_response A sm body sw) = Ok (body, sw)"
proof -
  let ?objs = "response_objects A sm body sw"
  let ?mac = "take 8 (cmac_tag A (k_mac sm) (response_mac_input (ssc sm) ?objs))"
  let ?all = "?objs @ [(0x8E, ?mac)]"
  have mac: "length ?mac = 8" using aes_ok_lengths(2) [OF A] .
  have ok: "list_all tlv_ok ?all"
    using obj87_ok(1) [OF A body] mac by (simp add: response_objects_def tlv_ok_def)
  have "length (tlv_bytes (0x99, [u16_hi sw, u16_lo sw])) \<le> 10" "length (tlv_bytes (0x8E, ?mac)) \<le> 16"
    using mac length_octets_bound by (simp_all add: tlv_bytes_def length_octets_def)
  then have len: "length (concat (map tlv_bytes ?all)) \<le> usize_max"
    using obj87_ok(2) [OF A body, of sm] by (simp add: response_objects_def)
  have children: "ber_children (protected_response A sm body sw) = map (\<lambda>tv. Ok \<lparr>tlv_tag = ucast (fst tv),
      tlv_value = snd tv, tlv_size = length (tlv_bytes tv)\<rparr>) ?all"
    unfolding protected_response_def Let_def by (rule ber_children_concat [OF ok len])
  have cipher: "Suc (length (cbc_encrypt A k iv (iso7816_4_pad body))) \<le> u32_max" for k iv
  proof -
    have "length body div 16 \<le> 4095" using body by simp
    then show ?thesis using aes_ok_lengths(1) [OF A, of k iv body] by simp
  qed
  have dec: "cbc_decrypt A k iv (cbc_encrypt A k iv (iso7816_4_pad body)) = iso7816_4_pad body"
    "16 dvd length (cbc_encrypt A k iv (iso7816_4_pad body))" for k iv
    using A pad_aligned by (simp_all add: aes_ok_def)
  have two: "tlv 0x99 [u16_hi sw, u16_lo sw] = Ok (tlv_bytes (0x99, [u16_hi sw, u16_lo sw]))"
    by (rule tlv_bytes_simp) simp
  have "length (cmac_tag A k m) = 16" for k m using A by (simp add: aes_ok_def)
  then show ?thesis
    using cipher
    unfolding unwrap_verified_def children
    by (simp add: response_objects_def obj87_def two tlv_bytes_simp aes256_cmac_truncated_def
        response_mac_input_def decrypt_do87_def dec aes256_cbc_decrypt_no_padding_def
        aes256_ecb_encrypt_block_def unpad_pad Let_def)
qed

lemma decrypt_do87_Ok:
  "decrypt_do87 A sm v = Ok body \<longleftrightarrow> (\<exists>c. v = 0x01 # c \<and> 16 dvd length c
     \<and> body = iso7816_4_unpad (cbc_decrypt A (k_enc sm) (aes_block A (k_enc sm) (ssc sm)) c))"
  by (cases v) (auto simp: decrypt_do87_def aes256_cbc_decrypt_no_padding_def aes256_ecb_encrypt_block_def Let_def)

lemma unwrap_verifiedE:
  assumes "unwrap_verified A sm response = (Ok (body, sw) :: ('e sm_error, bytes \<times> u16) res)"
  obtains obj d99 mac mac87 where
    "collect_objects (ber_children response) \<lparr>do87_value = None, do99_value = None, do_mac_value = None\<rparr>
        = (Ok obj :: ('e sm_error, sm_objects) res)"
    and "do99_value obj = Some d99" and "do_mac_value obj = Some mac" and "length d99 = 2" and "length mac = 8"
    and "sw = u16_from_be_bytes (d99 ! 0) (d99 ! 1)"
    and "(case do87_value obj of None \<Rightarrow> Ok [] | Some v \<Rightarrow> tlv 0x87 v) = (Ok mac87 :: ('e sm_error, bytes) res)"
    and "aes256_cmac_truncated A (k_mac sm) (iso7816_4_pad (ssc sm @ mac87 @ tlv_bytes (0x99, d99))) = mac"
    and "(case do87_value obj of None \<Rightarrow> Ok [] | Some v \<Rightarrow> decrypt_do87 A sm v) = (Ok body :: ('e sm_error, bytes) res)"
proof -
  from assms obtain obj d99 mac where 1:
    "collect_objects (ber_children response) \<lparr>do87_value = None, do99_value = None, do_mac_value = None\<rparr>
        = (Ok obj :: ('e sm_error, sm_objects) res)"
    "do99_value obj = Some d99" "do_mac_value obj = Some mac"
    by (auto simp: unwrap_verified_def and_then_eq_Ok ok_or_eq_Ok)
  note u = assms [unfolded unwrap_verified_def 1 and_then.simps ok_or_simps]
  from u have len: "length d99 = 2" "length mac = 8" by (auto split: if_splits)
  have t99: "tlv 0x99 d99 = (Ok (tlv_bytes (0x99, d99)) :: ('e sm_error, bytes) res)"
    using len(1) by (simp add: tlv_def push_tlv_eq tlv_bytes_def)
  from u len obtain mac87 where 2:
    "(case do87_value obj of None \<Rightarrow> Ok [] | Some v \<Rightarrow> tlv 0x87 v) = (Ok mac87 :: ('e sm_error, bytes) res)"
    by (auto simp: and_then_eq_Ok)
  note v = u [unfolded 2 t99 and_then.simps Let_def]
  from v len have "aes256_cmac_truncated A (k_mac sm) (iso7816_4_pad (ssc sm @ mac87 @ tlv_bytes (0x99, d99))) = mac"
    by (simp split: if_splits)
  moreover from v len have "(case do87_value obj of None \<Rightarrow> Ok [] | Some v \<Rightarrow> decrypt_do87 A sm v)
      = (Ok body :: ('e sm_error, bytes) res)" "sw = u16_from_be_bytes (d99 ! 0) (d99 ! 1)"
    by (auto simp: and_then_eq_Ok split: if_splits)
  ultimately show ?thesis using that 1 2 len by blast
qed

subsection \<open>Properties of secure messaging\<close>

text \<open>Padding is invertible: unpadding a padded message gives it back, whatever
  its bytes (trailing zeros and \<open>0x80\<close> included), and the padded length is the next
  whole number of blocks.\<close>

theorem pad_round_trip:
  "iso7816_4_unpad (iso7816_4_pad d) = d \<and> length (iso7816_4_pad d) = 16 * (length d div 16 + 1)"
  by (simp add: unpad_pad length_pad)

text \<open>The send-sequence counter counts: after \<open>n\<close> increments from the initial
  value it is the big-endian encoding of \<open>n\<close> modulo \<open>2 ^ 128\<close>, so no counter value
  (and no derived initialisation vector input) repeats within a session.\<close>

theorem ssc_counts: "(Ssc_increment ^^ n) Ssc_INITIAL = be_bytes 16 n"
proof -
  have len: "length ((Ssc_increment ^^ n) Ssc_INITIAL) = 16" for n
    by (induction n) (simp_all add: Ssc_INITIAL_def)
  have zero: "be_nat (replicate k 0) = 0" for k
    by (induction k) (simp_all add: be_nat_Cons)
  have "be_nat ((Ssc_increment ^^ n) Ssc_INITIAL) = n mod 256 ^ 16"
  proof (induction n)
    case 0
    then show ?case by (simp add: Ssc_INITIAL_def zero)
  next
    case (Suc n)
    then show ?case by (simp only: funpow.simps o_apply be_nat_Ssc_increment len) (simp only: mod_add_left_eq, simp)
  qed
  then have "be_nat ((Ssc_increment ^^ n) Ssc_INITIAL) = be_nat (be_bytes 16 n)"
    by (simp only: be_nat_be_bytes)
  then show ?thesis by (rule be_nat_inject [rotated]) (simp add: len)
qed

text \<open>C8. A wrapped command is complete and well-formed: it is a case-4 short APDU
  whose data field parses into exactly the expected data objects; decrypting the
  first one under the counter of this command gives the plain data field back, the
  expected length travels in the second, and the last is the truncated checksum
  over counter, header and objects. The counter has advanced by one.\<close>

theorem wrap_is_recoverable:
  assumes "aes_ok A" and "wrap A sm plain = (Ok apdu, sm')"
  shows "\<exists>d le h body c.
      decode_short_apdu plain = Some (d, le) \<and> sm' = increment_ssc sm
    \<and> take 4 apdu = h \<and> h = [plain ! 0 OR 0x0C, plain ! 1, plain ! 2, plain ! 3]
    \<and> decode_short_apdu apdu = Some (body, Some 0)
    \<and> object_pairs (ber_children body) =
        Ok ((if d = [] then [] else [(0x87, 0x01 # c)])
          @ (case le of None \<Rightarrow> [] | Some b \<Rightarrow> [(0x97, [b])])
          @ [(0x8E, command_mac A sm' h d le)])
    \<and> (d \<noteq> [] \<longrightarrow>
        iso7816_4_unpad (cbc_decrypt A (k_enc sm') (aes_block A (k_enc sm') (ssc sm')) c) = d)"
proof -
  from wrap_Ok [OF assms] obtain d le h where
    dec: "decode_short_apdu plain = Some (d, le)" and h: "slice plain 0 4 = Some h"
    and sm': "sm' = increment_ssc sm" and d: "length d \<le> 255"
    and apdu: "apdu = [h ! 0 OR 0x0C, h ! 1, h ! 2, h ! 3]
      @ [lc_byte (length (protected_body A sm' [h ! 0 OR 0x0C, h ! 1, h ! 2, h ! 3] d le))]
      @ protected_body A sm' [h ! 0 OR 0x0C, h ! 1, h ! 2, h ! 3] d le @ [0x00]"
    and fits: "length (protected_body A sm' [h ! 0 OR 0x0C, h ! 1, h ! 2, h ! 3] d le) \<le> 255"
    by metis
  define h' where "h' = [h ! 0 OR 0x0C, h ! 1, h ! 2, h ! 3]"
  define mac where "mac = command_mac A sm' h' d le"
  have mac: "length mac = 8" using aes_ok_lengths(2) [OF assms(1)] by (simp add: mac_def command_mac_def)
  have hdr: "h' = [plain ! 0 OR 0x0C, plain ! 1, plain ! 2, plain ! 3]"
    using h by (auto simp: h'_def slice_def split: if_splits)
  let ?objs = "obj87 A sm' d @ obj97 le @ [(0x8E, mac)]"
  have body: "protected_body A sm' h' d le = concat (map tlv_bytes ?objs)"
    using mac_tlv [OF mac] by (simp add: protected_body_def do87_tlv do97_tlv mac_def)
  have "list_all tlv_ok ?objs"
    using obj87_ok(1) [OF assms(1), of d sm'] d mac by (auto simp: obj97_def tlv_ok_def split: option.splits)
  then have pairs: "object_pairs (ber_children (protected_body A sm' h' d le)) = Ok (map (\<lambda>(t, v). (ucast t, v)) ?objs)"
    unfolding body by (rule object_pairs_concat) (use fits body h'_def in simp)
  have "decode_short_apdu apdu = Some (protected_body A sm' h' d le, Some 0)"
    unfolding apdu h'_def by (rule decode_short_apdu_case4) (use fits in simp_all)
  moreover have "take 4 apdu = h'" unfolding apdu h'_def by simp
  moreover have "iso7816_4_unpad (cbc_decrypt A k iv (cbc_encrypt A k iv (iso7816_4_pad d))) = d" for k iv
    using assms(1) by (simp add: aes_ok_def pad_aligned unpad_pad)
  ultimately show ?thesis
    using dec sm' hdr pairs
    by (intro exI [of _ d] exI [of _ le] exI [of _ h'] exI [of _ "protected_body A sm' h' d le"]
        exI [of _ "cbc_encrypt A (k_enc sm') (aes_block A (k_enc sm') (ssc sm')) (iso7816_4_pad d)"])
      (auto simp: obj87_def obj97_def mac_def split: option.splits)
qed

text \<open>A concrete crate for the witnesses: the identity cipher and a constant tag.\<close>

definition toy_aes :: aes_crate where
  "toy_aes = \<lparr>aes_block = (\<lambda>k b. b), cbc_encrypt = (\<lambda>k iv p. p), cbc_decrypt = (\<lambda>k iv c. c),
     cmac_tag = (\<lambda>k m. replicate 16 0xAA)\<rparr>"

definition toy_sm :: "unit sm_transport" where
  "toy_sm = \<lparr>sm_inner = (), k_enc = [], k_mac = [], ssc = Ssc_INITIAL\<rparr>"

lemma toy_aes_ok: "aes_ok toy_aes"
  by (simp add: aes_ok_def toy_aes_def)

lemma toy_wrap:
  "wrap toy_aes toy_sm [0x00, 0xB0, 0x81, 0x00, 0x04] =
   (Ok ([0x0C, 0xB0, 0x81, 0x00, 0x0D, 0x97, 0x01, 0x04, 0x8E, 0x08] @ replicate 8 0xAA @ [0x00]),
    increment_ssc toy_sm)"
proof -
  have "protected_body toy_aes (increment_ssc toy_sm) [0x0C, 0xB0, 0x81, 0x00] [] (Some 4)
      = [0x97, 0x01, 0x04, 0x8E, 0x08] @ replicate 8 0xAA"
    by (simp add: protected_body_def do87_of_def do97_of_def command_mac_def toy_aes_def)
  then show ?thesis
    by (simp add: wrap_def slice_def decode_short_apdu_def get_at_def lc_byte_def Let_def
        wrap_protected_eq [OF toy_aes_ok])
qed

theorem wrap_is_recoverable_witness:
  "\<exists>d le h body c.
      decode_short_apdu [0x00, 0xB0, 0x81, 0x00, 0x04] = Some (d, le)
    \<and> take 4 ([0x0C, 0xB0, 0x81, 0x00, 0x0D, 0x97, 0x01, 0x04, 0x8E, 0x08] @ replicate 8 0xAA @ [0x00]) = h
    \<and> decode_short_apdu ([0x0C, 0xB0, 0x81, 0x00, 0x0D, 0x97, 0x01, 0x04, 0x8E, 0x08] @ replicate 8 0xAA @ [0x00])
        = Some (body, Some 0)
    \<and> (d \<noteq> [] \<longrightarrow> iso7816_4_unpad c = d)"
  using wrap_is_recoverable [OF toy_aes_ok toy_wrap] by (simp add: toy_aes_def) blast

text \<open>C35. The size limit of a protected command is exact: wrapping a short-form command
  is refused as too long if and only if its data field has more than 239 bytes (223
  when a response length is requested). The counter is advanced in both cases, so a
  command refused by the host leaves host and card counters out of step.\<close>

theorem wrap_size_limit:
  assumes "aes_ok A" and "decode_short_apdu plain = Some (d, le)" and "4 \<le> length plain"
  shows "(fst (wrap A sm plain) = Err CommandTooLong \<longleftrightarrow> (if le = None then 239 else 223) < length d)
    \<and> ssc (snd (wrap A sm plain)) = Ssc_increment (ssc sm)"
proof -
  have d: "length d \<le> 255" using decode_short_apdu_data_bound [OF assms(2)] .
  have "slice plain 0 4 = Some (take 4 plain)" using assms(3) by (simp add: slice_def)
  then show ?thesis
    using assms(2)
    by (simp add: wrap_def Let_def wrap_protected_eq [OF assms(1) d] protected_body_fits [OF assms(1) d]
        increment_ssc_def)
qed

theorem wrap_size_limit_witness:
  "fst (wrap toy_aes toy_sm ([0x00, 0xD6, 0x00, 0x00, 0xF0] @ replicate 240 7)) = Err CommandTooLong"
proof -
  have "decode_short_apdu ([0x00, 0xD6, 0x00, 0x00] @ [lc_byte (length (replicate 240 (7 :: byte)))]
      @ replicate 240 7) = Some (replicate 240 7, None)"
    by (rule decode_short_apdu_case3) (simp_all only: length_replicate list.size, simp_all)
  moreover have "lc_byte (length (replicate 240 (7 :: byte))) = 0xF0"
    unfolding length_replicate by (simp add: lc_byte_def)
  ultimately have dec: "decode_short_apdu ([0x00, 0xD6, 0x00, 0x00, 0xF0] @ replicate 240 7)
      = Some (replicate 240 7, None)" by simp
  show ?thesis by (simp add: wrap_size_limit [THEN conjunct1, OF toy_aes_ok dec, simplified])
qed

text \<open>Unwrapping inverts protection: a response whose body and status word were
  protected under the next counter value, with the session keys, is accepted and
  gives the body and the status word back.\<close>

theorem unwrap_accepts_protected_response:
  assumes "aes_ok A" and "length body \<le> 65535"
  shows "unwrap A sm (protected_response A (increment_ssc sm) body sw)
    = (Ok (body, sw), increment_ssc sm)"
  by (simp add: unwrap_def Let_def unwrap_verified_response [OF assms])

theorem unwrap_accepts_protected_response_witness:
  "unwrap toy_aes toy_sm (protected_response toy_aes (increment_ssc toy_sm) [1, 2, 3] 0x9000)
   = (Ok ([1, 2, 3], 0x9000), increment_ssc toy_sm)"
  by (rule unwrap_accepts_protected_response) (simp_all add: toy_aes_ok)

text \<open>C6. Nothing unauthenticated is accepted: whenever unwrapping returns a body and a
  status word, the response carried a two-byte status object and an eight-byte
  checksum equal to the truncated CMAC, under the session key, of the counter that
  was just advanced and of the very objects the result is read from; the body is
  the decryption of the encrypted object, or empty when there is none.\<close>

theorem unwrap_authenticates:
  assumes "unwrap A sm response = (Ok (body, sw) :: ('e sm_error, bytes \<times> u16) res, sm')"
  shows "sm' = increment_ssc sm \<and> (\<exists>o87 d99 mac.
      collect_objects (ber_children response) \<lparr>do87_value = None, do99_value = None, do_mac_value = None\<rparr>
        = (Ok \<lparr>do87_value = o87, do99_value = Some d99, do_mac_value = Some mac\<rparr> :: ('e sm_error, sm_objects) res)
    \<and> length d99 = 2 \<and> sw = u16_from_be_bytes (d99 ! 0) (d99 ! 1) \<and> length mac = 8
    \<and> mac = take 8 (cmac_tag A (k_mac sm) (response_mac_input (ssc sm')
        ((case o87 of None \<Rightarrow> [] | Some v \<Rightarrow> [(0x87, v)]) @ [(0x99, d99)])))
    \<and> (case o87 of
          None \<Rightarrow> body = []
        | Some v \<Rightarrow> \<exists>c. v = 0x01 # c \<and> 16 dvd length c
            \<and> body = iso7816_4_unpad (cbc_decrypt A (k_enc sm) (aes_block A (k_enc sm) (ssc sm')) c)))"
proof -
  have sm': "sm' = increment_ssc sm" and u: "unwrap_verified A sm' response = (Ok (body, sw) :: ('e sm_error, _) res)"
    using assms by (auto simp: unwrap_def Let_def)
  have keys: "k_mac sm' = k_mac sm" "k_enc sm' = k_enc sm" by (simp_all add: sm' increment_ssc_def)
  from u obtain obj d99 mac mac87 where
    obj: "collect_objects (ber_children response) \<lparr>do87_value = None, do99_value = None, do_mac_value = None\<rparr>
        = (Ok obj :: ('e sm_error, sm_objects) res)"
    and vals: "do99_value obj = Some d99" "do_mac_value obj = Some mac" "length d99 = 2" "length mac = 8"
    and sw: "sw = u16_from_be_bytes (d99 ! 0) (d99 ! 1)"
    and mac87: "(case do87_value obj of None \<Rightarrow> Ok [] | Some v \<Rightarrow> tlv 0x87 v) = (Ok mac87 :: ('e sm_error, bytes) res)"
    and mac: "aes256_cmac_truncated A (k_mac sm') (iso7816_4_pad (ssc sm' @ mac87 @ tlv_bytes (0x99, d99))) = mac"
    and body: "(case do87_value obj of None \<Rightarrow> Ok [] | Some v \<Rightarrow> decrypt_do87 A sm' v) = (Ok body :: ('e sm_error, bytes) res)"
    by (rule unwrap_verifiedE)
  from mac87 mac have m: "mac = take 8 (cmac_tag A (k_mac sm) (response_mac_input (ssc sm')
        ((case do87_value obj of None \<Rightarrow> [] | Some v \<Rightarrow> [(0x87, v)]) @ [(0x99, d99)])))"
    by (auto simp: response_mac_input_def aes256_cmac_truncated_def keys tlv_eq_Ok tlv_bytes_def split: option.splits)
  from body have b: "case do87_value obj of None \<Rightarrow> body = [] | Some v \<Rightarrow> \<exists>c. v = 0x01 # c \<and> 16 dvd length c
            \<and> body = iso7816_4_unpad (cbc_decrypt A (k_enc sm) (aes_block A (k_enc sm) (ssc sm')) c)"
    by (simp add: decrypt_do87_Ok keys eq_commute [of "[]"] split: option.splits)
  have "obj = \<lparr>do87_value = do87_value obj, do99_value = Some d99, do_mac_value = Some mac\<rparr>"
    using vals by simp
  note obj' = obj [unfolded arg_cong [OF this, of Ok]]
  show ?thesis by (intro conjI exI) (rule sm' obj' vals(3) sw vals(4) m b)+
qed

lemma toy_unwrap:
  "unwrap toy_aes toy_sm (protected_response toy_aes (increment_ssc toy_sm) [1, 2, 3] 0x9000)
   = (Ok ([1, 2, 3], 0x9000), increment_ssc toy_sm)"
  by (simp add: unwrap_def Let_def unwrap_verified_response [OF toy_aes_ok])

theorem unwrap_authenticates_witness:
  "\<exists>o87 d99 mac. length d99 = 2 \<and> 0x9000 = u16_from_be_bytes (d99 ! 0) (d99 ! 1) \<and> length mac = 8
    \<and> mac = take 8 (cmac_tag toy_aes (k_mac toy_sm) (response_mac_input (ssc (increment_ssc toy_sm))
        ((case o87 of None \<Rightarrow> [] | Some v \<Rightarrow> [(0x87, v)]) @ [(0x99, d99)])))"
  using unwrap_authenticates [OF toy_unwrap] by blast

text \<open>The checksum input is unambiguous: two responses with the same checksum input
  were protected under the same counter and consist of the same data objects, so a
  checksum never covers two different readings of a response.\<close>

theorem response_mac_input_binds:
  assumes "length c1 = 16" and "length c2 = 16" and "list_all tlv_ok o1" and "list_all tlv_ok o2"
    and "length (concat (map tlv_bytes o1)) \<le> usize_max"
    and "response_mac_input c1 o1 = response_mac_input c2 o2"
  shows "c1 = c2 \<and> o1 = o2"
proof -
  have "c1 @ concat (map tlv_bytes o1) = c2 @ concat (map tlv_bytes o2)"
    using assms(6) by (metis response_mac_input_def unpad_pad)
  then have "c1 = c2" "concat (map tlv_bytes o1) = concat (map tlv_bytes o2)"
    using assms(1,2) by auto
  then show ?thesis using tlv_concat_inject [OF assms(3,4) _ assms(5)] by blast
qed

theorem response_mac_input_binds_witness:
  "Ssc_INITIAL = Ssc_INITIAL \<and> [(0x99 :: byte, [0x90, 0x00 :: byte])] = [(0x99, [0x90, 0x00])]"
  by (rule response_mac_input_binds)
    (simp_all add: Ssc_INITIAL_def tlv_ok_def tlv_bytes_def length_octets_def)

text \<open>C7. A whole protected exchange, through the transport: when the inner transport
  answers the wrapped command with a response protected under the following
  counter value, the caller receives exactly that body and status word, host and
  card have both advanced the counter by two, and the keys are untouched.\<close>

theorem sm_exchange:
  assumes A: "aes_ok A" and w: "wrap A sm (apdu_bytes cmd) = (Ok wrapped :: ('e sm_error, bytes) res, sm1)"
    and tx: "inner_transmit (sm_inner sm) (CommandApdu_new wrapped) = (Ok (Response r) :: ('e, transport_outcome) res, inner')"
    and r: "resp_body r = protected_response A (increment_ssc sm1) body sw" and body: "length body \<le> 65535"
  shows "sm_transmit_outcome A inner_transmit sm cmd =
    (Ok (Response \<lparr>resp_body = body, resp_sw1 = u16_hi sw, resp_sw2 = u16_lo sw\<rparr>),
     sm\<lparr>sm_inner := inner', ssc := Ssc_increment (Ssc_increment (ssc sm))\<rparr>)"
proof -
  have sm1: "sm1 = increment_ssc sm" using wrap_Ok [OF A w] by metis
  let ?sm = "sm1\<lparr>sm_inner := inner'\<rparr>"
  have same: "protected_response A (increment_ssc sm1) body sw = protected_response A (increment_ssc ?sm) body sw"
    by (simp add: protected_response_def response_objects_def obj87_def increment_ssc_def)
  have "protected_response A (increment_ssc ?sm) body sw \<noteq> []"
    by (simp add: protected_response_def response_objects_def Let_def tlv_bytes_def)
  moreover have "unwrap A ?sm (protected_response A (increment_ssc ?sm) body sw)
      = (Ok (body, sw) :: ('e sm_error, _) res, increment_ssc ?sm)"
    by (simp add: unwrap_def Let_def unwrap_verified_response [OF A body])
  ultimately show ?thesis
    using w tx r same sm1 by (simp add: sm_transmit_outcome_def Let_def) (simp add: increment_ssc_def)
qed

definition toy_transmit :: "unit \<Rightarrow> command_apdu \<Rightarrow> (unit, transport_outcome) res \<times> unit" where
  "toy_transmit t c = (Ok (Response
     \<lparr>resp_body = protected_response toy_aes (increment_ssc (increment_ssc toy_sm)) [7] 0x9000,
      resp_sw1 = 0x90, resp_sw2 = 0x00\<rparr>), ())"

theorem sm_exchange_witness:
  "sm_transmit_outcome toy_aes toy_transmit toy_sm (CommandApdu_new [0x00, 0xB0, 0x81, 0x00, 0x04]) =
    (Ok (Response \<lparr>resp_body = [7], resp_sw1 = u16_hi 0x9000, resp_sw2 = u16_lo 0x9000\<rparr>),
     toy_sm\<lparr>sm_inner := (), ssc := Ssc_increment (Ssc_increment (ssc toy_sm))\<rparr>)"
proof -
  let ?cmd = "CommandApdu_new [0x00, 0xB0, 0x81, 0x00, 0x04]"
  have w: "wrap toy_aes toy_sm (apdu_bytes ?cmd) =
     (Ok ([0x0C, 0xB0, 0x81, 0x00, 0x0D, 0x97, 0x01, 0x04, 0x8E, 0x08] @ replicate 8 0xAA @ [0x00])
        :: (unit sm_error, bytes) res, increment_ssc toy_sm)"
    using toy_wrap by (simp add: CommandApdu_new_def)
  show ?thesis
    by (rule sm_exchange [OF toy_aes_ok w toy_transmit_def]) simp_all
qed

subsection \<open>Command builders against the short-form decoder\<close>

fun command_data :: "iso_command \<Rightarrow> bytes" where
  "command_data (SelectByAidNoFci aid) = aid"
| "command_data (SelectByAidWithFci _ _ aid) = aid"
| "command_data (SelectFile _ target _) = append_data target"
| "command_data (SelectEfNoFci fid) = fid_bytes fid"
| "command_data (InternalAuthenticate challenge) = challenge"
| "command_data _ = []"

fun command_le :: "iso_command \<Rightarrow> byte option" where
  "command_le (SelectByAidWithFci _ _ _) = Some 0"
| "command_le (SelectFile _ _ mode) = (if mode = RespNone then None else Some 0)"
| "command_le (GetResponse _ le) = Some le"
| "command_le (ReadBinary _ _ le) = Some le"
| "command_le (ReadBinaryBySfi _ _ le) = Some le"
| "command_le (InternalAuthenticate _) = Some 0"
| "command_le (ReadBinaryByOffset _ le) = Some le"
| "command_le _ = None"

fun path_fits :: "iso_command \<Rightarrow> bool" where
  "path_fits (SelectFile _ (AbsolutePath fids) _) = (length fids \<le> 127)"
| "path_fits _ = True"

lemma length_concat_fids: "length (concat (map fid_bytes fids)) = length fids * 2"
  by (induction fids) (simp_all add: fid_bytes_def)

lemma length_append_data: "length (append_data t) = target_data_len t"
  by (cases t rule: append_data.cases) (simp_all add: fid_bytes_def length_concat_fids)

lemma decode_short_apdu_case1_2:
  "length h = 4 \<Longrightarrow> decode_short_apdu h = Some ([], None)"
  "length h = 4 \<Longrightarrow> decode_short_apdu (h @ [le]) = Some ([], Some le)"
  using get_at_append [of h le "[]"] by (simp_all add: decode_short_apdu_def)

lemma select_file_decodes:
  assumes "target_data_len target \<le> 255"
  shows "decode_short_apdu (apdu_bytes (SelectFile_into_apdu cls target mode))
    = Some (append_data target, if mode = RespNone then None else Some 0)"
proof -
  let ?h = "[class_as_byte cls, 0xA4, target_as_p1 target, mode_as_p2 mode]"
  have h: "length ?h = 4" by simp
  have d: "length (append_data target) = target_data_len target" by (rule length_append_data)
  have le: "mode \<noteq> RespNone \<longleftrightarrow> mode = RespFci \<or> mode = RespFcp" by (cases mode) auto
  show ?thesis
  proof (cases "target_data_len target = 0")
    case True
    with d have "append_data target = []" by simp
    with True decode_short_apdu_case1_2 [OF h] le show ?thesis
      by (cases mode) (simp_all add: SelectFile_into_apdu_def CommandApdu_new_def)
  next
    case False
    then have "append_data target \<noteq> []" using d by auto
    with False decode_short_apdu_case3 [OF h, of "append_data target"]
      decode_short_apdu_case4 [OF h, of "append_data target" 0] assms d le
    show ?thesis by (cases mode) (simp_all add: SelectFile_into_apdu_def CommandApdu_new_def)
  qed
qed



text \<open>The builder has no length check of its own: a validated path of 128 file
  identifiers is serialised with the length byte saturated at 255, and the decoder
  then takes the last byte of the path for a response length.\<close>

theorem long_path_is_misframed:
  assumes "length fids = 128"
  shows "decode_short_apdu (apdu_bytes (into_apdu (SelectFile cls (AbsolutePath fids) RespNone)))
    = Some (butlast (concat (map fid_bytes fids)), Some (last (concat (map fid_bytes fids))))"
proof -
  let ?d = "concat (map fid_bytes fids)"
  let ?h = "[class_as_byte cls, 0xA4, 0x08, 0x0C]"
  have len: "length ?d = 256" using assms by (simp add: length_concat_fids)
  from len have "0 < length ?d" by linarith
  then have ne: "?d \<noteq> []" by (rule length_greater_0_conv [THEN iffD1])
  have "lc_byte (length (butlast ?d)) = 255" using len by (simp add: lc_byte_def)
  moreover have "decode_short_apdu (?h @ [lc_byte (length (butlast ?d))] @ butlast ?d @ [last ?d])
      = Some (butlast ?d, Some (last ?d))"
    by (rule decode_short_apdu_case4) (use len in simp_all)
  ultimately show ?thesis using ne assms
    by (simp add: SelectFile_into_apdu_def CommandApdu_new_def lc_byte_def)
qed

theorem long_path_is_misframed_witness:
  "decode_short_apdu (apdu_bytes (into_apdu (SelectFile Plain (AbsolutePath (replicate 128 (0x50, 0x15))) RespNone)))
   = Some (butlast (concat (map fid_bytes (replicate 128 (0x50, 0x15)))),
       Some (last (concat (map fid_bytes (replicate 128 (0x50, 0x15))))))"
  by (rule long_path_is_misframed) (rule length_replicate)

end
