(* ===== verification/Decimal.thy ===== *)
theory Decimal
  imports Prelude
begin

text \<open>
  Decimal text: ASCII digits, the formatting of numbers (\<open>format!("{n}")\<close> and its zero-padded forms) and
  the value of a digit string. The facts are shared by the dates, the pairing codes, the PIN values
  and the object identifiers.
\<close>

definition is_ascii_digit :: "byte \<Rightarrow> bool" where
  "is_ascii_digit b \<longleftrightarrow> 0x30 \<le> b \<and> b \<le> 0x39"

definition digits :: "bytes \<Rightarrow> bool" where
  "digits bs \<longleftrightarrow> list_all is_ascii_digit bs"

fun decimal :: "nat \<Rightarrow> string" where
  "decimal n = (if n < 10 then [char_of (48 + n)] else decimal (n div 10) @ [char_of (48 + n mod 10)])"

declare decimal.simps [simp del]

definition padded_decimal :: "nat \<Rightarrow> nat \<Rightarrow> string" where
  "padded_decimal w n = (let d = decimal n in replicate (w - length d) CHR ''0'' @ d)"

definition digit_value :: "byte \<Rightarrow> nat" where
  "digit_value b = unat b - 48"

definition dec_value :: "bytes \<Rightarrow> nat" where
  "dec_value bs = foldl (\<lambda>acc b. acc * 10 + digit_value b) 0 bs"

subsection \<open>Digits\<close>

lemma digits_simps [simp]:
  "digits []"
  "digits (b # bs) \<longleftrightarrow> is_ascii_digit b \<and> digits bs"
  "digits (as @ bs) \<longleftrightarrow> digits as \<and> digits bs"
  by (simp_all add: digits_def)

lemma is_ascii_digit_unat: "is_ascii_digit b \<longleftrightarrow> 48 \<le> unat b \<and> unat b \<le> 57"
  by (simp add: is_ascii_digit_def word_le_nat_alt)

lemma digit_value_less: "is_ascii_digit b \<Longrightarrow> digit_value b < 10"
  by (auto simp: is_ascii_digit_unat digit_value_def)

lemma digit_value_inject:
  "is_ascii_digit a \<Longrightarrow> is_ascii_digit b \<Longrightarrow> digit_value a = digit_value b \<longleftrightarrow> a = b"
  by (auto simp: is_ascii_digit_unat digit_value_def word_unat_eq_iff)

lemma of_char_char_of: "n < 256 \<Longrightarrow> (of_char (char_of n) :: byte) = word_of_nat n"
proof -
  assume "n < 256"
  then have "(of_char (char_of n) :: nat) = n" by simp
  then show ?thesis using of_nat_of_char [of "char_of n :: char", where ?'a = byte] by simp
qed

lemma digit_char [simp]:
  assumes "k < 10"
  shows "is_ascii_digit (of_char (char_of (48 + k)))" and "digit_value (of_char (char_of (48 + k))) = k"
proof -
  have "unat (word_of_nat (48 + k) :: byte) = 48 + k" using assms by (simp add: unat_of_nat del: of_nat_add)
  then show "is_ascii_digit (of_char (char_of (48 + k)))" and "digit_value (of_char (char_of (48 + k))) = k"
    using assms by (simp_all add: of_char_char_of is_ascii_digit_unat digit_value_def del: of_nat_add)
qed

lemma zero_char [simp]: "of_char CHR ''0'' = (0x30 :: byte)"
  by (simp add: of_char_def)

lemma zero_digit [simp]: "is_ascii_digit 0x30" "digit_value 0x30 = 0"
  by (simp_all add: is_ascii_digit_def digit_value_def)

lemma str_bytes_decimal_simps [simp]:
  "str_bytes (xs @ ys) = str_bytes xs @ str_bytes ys"
  "str_bytes (replicate n c) = replicate n (of_char c)"
  by (simp_all add: str_bytes_def)

lemma digits_replicate_zero [simp]: "digits (replicate n 0x30)"
  by (induction n) simp_all

lemma digits_decimal [simp]: "digits (str_bytes (decimal n))"
proof (induction n rule: decimal.induct)
  case (1 n)
  show ?case
    by (subst decimal.simps) (use 1 in \<open>simp add: str_bytes_def [of "[_]"]\<close>)
qed

lemma digits_padded [simp]: "digits (str_bytes (padded_decimal w n))"
  by (simp add: padded_decimal_def Let_def)

subsection \<open>Value of a digit string\<close>

lemma dec_value_simps [simp]: "dec_value [] = 0" "dec_value (bs @ [b]) = dec_value bs * 10 + digit_value b"
  by (simp_all add: dec_value_def)

lemma dec_value_single [simp]: "dec_value [b] = digit_value b"
  by (simp add: dec_value_def)

lemma dec_value_append: "dec_value (as @ bs) = dec_value as * 10 ^ length bs + dec_value bs"
proof (induction bs rule: rev_induct)
  case (snoc b bs)
  have "dec_value (as @ bs @ [b]) = dec_value (as @ bs) * 10 + digit_value b"
    using dec_value_simps(2) [of "as @ bs" b] by simp
  then show ?case using snoc by (simp add: algebra_simps)
qed simp

lemma dec_value_bound: "digits bs \<Longrightarrow> dec_value bs < 10 ^ length bs"
proof (induction bs rule: rev_induct)
  case (snoc b bs)
  then have "dec_value bs < 10 ^ length bs" "digit_value b < 10" using digit_value_less by auto
  then show ?case by simp
qed simp

lemma dec_value_decimal [simp]: "dec_value (str_bytes (decimal n)) = n"
proof (induction n rule: decimal.induct)
  case (1 n)
  show ?case
    by (subst decimal.simps) (use 1 in \<open>simp add: str_bytes_def [of "[_]"]\<close>)
qed

lemma dec_value_zeros [simp]: "dec_value (replicate k 0x30 @ bs) = dec_value bs"
  by (induction bs rule: rev_induct) (simp_all flip: append_assoc, induction k, simp_all flip: replicate_append_same)

lemma dec_value_padded [simp]: "dec_value (str_bytes (padded_decimal w n)) = n"
  by (simp add: padded_decimal_def Let_def)

lemma length_decimal_le: "0 < w \<Longrightarrow> n < 10 ^ w \<Longrightarrow> length (decimal n) \<le> w"
proof (induction n arbitrary: w rule: decimal.induct)
  case (1 n)
  show ?case
  proof (cases "n < 10")
    case True
    then show ?thesis using 1 by (subst decimal.simps) simp
  next
    case False
    have "w \<noteq> 1" using 1 False by auto
    with 1 obtain v where w: "w = Suc v" and "0 < v" by (cases w) auto
    moreover have "n div 10 < 10 ^ v" using 1 w by (simp add: less_mult_imp_div_less)
    ultimately have "length (decimal (n div 10)) \<le> v" using 1 False by blast
    then show ?thesis using False w by (subst decimal.simps) simp
  qed
qed

lemma length_padded_decimal: "0 < w \<Longrightarrow> n < 10 ^ w \<Longrightarrow> length (padded_decimal w n) = w"
  using length_decimal_le [of w n] by (simp add: padded_decimal_def Let_def)

text \<open>Digit strings of one length are determined by their value.\<close>

lemma dec_value_inject:
  assumes "length as = length bs" and "digits as" and "digits bs"
  shows "dec_value as = dec_value bs \<longleftrightarrow> as = bs"
  using assms
proof (induction as arbitrary: bs rule: rev_induct)
  case (snoc a as)
  then obtain cs c where bs: "bs = cs @ [c]" by (cases bs rule: rev_cases) auto
  have "digit_value a < 10" "digit_value c < 10" using snoc.prems bs digit_value_less by auto
  then have "dec_value as * 10 + digit_value a = dec_value cs * 10 + digit_value c \<longleftrightarrow>
      dec_value as = dec_value cs \<and> digit_value a = digit_value c" by presburger
  then show ?case using snoc bs digit_value_inject by auto
qed simp

lemma padded_of_value:
  assumes "digits bs" and "bs \<noteq> []"
  shows "str_bytes (padded_decimal (length bs) (dec_value bs)) = bs"
proof -
  have "length (padded_decimal (length bs) (dec_value bs)) = length bs"
    using assms length_padded_decimal dec_value_bound by blast
  then show ?thesis
    using dec_value_inject [of "str_bytes (padded_decimal (length bs) (dec_value bs))" bs] assms by simp
qed

end
