(* ===== verification/Pin.thy ===== *)
theory Pin
  imports Decimal
begin

text \<open>
  Validated secrets: the PIN family (\<open>crates/refineid-lib-core/src/pin.rs\<close>) and the
  card access number (\<open>can.rs\<close>). A PIN is stored in twelve bytes with a length; the
  wrappers for the PUK and the two activation codes re-validate the length of their
  role. Zeroization of discarded buffers has no observable result and is not part
  of the model.
\<close>

subsection \<open>PIN bytes\<close>

datatype pin_role_error = PinEmpty | PinWrongLength nat nat | PinNonDigit

record pin_bytes =
  pin_storage :: bytes
  pin_length :: byte

abbreviation PIN_MIN_LENGTH :: nat where "PIN_MIN_LENGTH \<equiv> 4"
abbreviation PIN_MAX_LENGTH :: nat where "PIN_MAX_LENGTH \<equiv> 12"

definition validate_digits :: "bytes \<Rightarrow> nat \<Rightarrow> nat \<Rightarrow> (pin_role_error, unit) res" where
  "validate_digits bs mn mx =
     (if bs = [] then Err PinEmpty
      else if length bs < mn \<or> mx < length bs then Err (PinWrongLength mn mx)
      else if list_ex (\<lambda>b. \<not> is_ascii_digit b) bs then Err PinNonDigit
      else Ok ())"

definition PinBytes_new :: "bytes \<Rightarrow> (pin_role_error, pin_bytes) res" where
  "PinBytes_new bs =
     and_then (validate_digits bs PIN_MIN_LENGTH PIN_MAX_LENGTH) (\<lambda>_.
       if 255 < length bs then Err (PinWrongLength PIN_MIN_LENGTH PIN_MAX_LENGTH)
       else if PIN_MAX_LENGTH < length bs then Panic
       else Ok \<lparr>pin_storage = bs @ replicate (PIN_MAX_LENGTH - length bs) 0,
                pin_length = word_of_nat (length bs)\<rparr>)"

definition pin_digit_count :: "pin_bytes \<Rightarrow> nat" where
  "pin_digit_count pin = unat (pin_length pin)"

definition pin_as_bytes :: "pin_bytes \<Rightarrow> bytes" where
  "pin_as_bytes pin = take (pin_digit_count pin) (pin_storage pin)"

definition pin_validate_digits :: "pin_bytes \<Rightarrow> nat \<Rightarrow> nat \<Rightarrow> (pin_role_error, unit) res" where
  "pin_validate_digits pin mn mx = validate_digits (pin_as_bytes pin) mn mx"

subsection \<open>Roles\<close>

datatype puk = Puk pin_bytes
datatype activation_pin_seven = ActivationPinSeven pin_bytes
datatype activation_pin_eight = ActivationPinEight pin_bytes

definition Puk_new :: "pin_bytes \<Rightarrow> (pin_role_error, puk) res" where
  "Puk_new bs = and_then (pin_validate_digits bs 8 12) (\<lambda>_. Ok (Puk bs))"

definition ActivationPinSeven_new :: "pin_bytes \<Rightarrow> (pin_role_error, activation_pin_seven) res" where
  "ActivationPinSeven_new bs = and_then (pin_validate_digits bs 7 7) (\<lambda>_. Ok (ActivationPinSeven bs))"

definition ActivationPinEight_new :: "pin_bytes \<Rightarrow> (pin_role_error, activation_pin_eight) res" where
  "ActivationPinEight_new bs = and_then (pin_validate_digits bs 8 8) (\<lambda>_. Ok (ActivationPinEight bs))"

datatype activation_code = CodeSeven activation_pin_seven | CodeEight activation_pin_eight

fun activation_code_pin :: "activation_code \<Rightarrow> pin_bytes" where
  "activation_code_pin (CodeSeven (ActivationPinSeven p)) = p"
| "activation_code_pin (CodeEight (ActivationPinEight p)) = p"

fun variant_label :: "activation_code \<Rightarrow> string" where
  "variant_label (CodeSeven _) = ''ActivationPinSeven''"
| "variant_label (CodeEight _) = ''ActivationPinEight''"

subsection \<open>Card access number\<close>

datatype can_error = CanEmpty | CanWrongLength nat | CanNonDigit nat byte | CanAllZeros

abbreviation CAN_DIGITS :: nat where "CAN_DIGITS \<equiv> 6"

fun can_first_non_digit :: "nat \<Rightarrow> bytes \<Rightarrow> (can_error, unit) res" where
  "can_first_non_digit i [] = Ok ()"
| "can_first_non_digit i (b # bs) =
     (if \<not> is_ascii_digit b then Err (CanNonDigit i b) else can_first_non_digit (i + 1) bs)"

definition Can_new :: "string \<Rightarrow> (can_error, bytes) res" where
  "Can_new s =
     (let bs = str_bytes s in
      if bs = [] then Err CanEmpty
      else if length bs \<noteq> CAN_DIGITS then Err (CanWrongLength (length bs))
      else and_then (can_first_non_digit 0 bs) (\<lambda>_.
        if list_all (\<lambda>b. b = 0x30) bs then Err CanAllZeros else Ok bs))"

subsection \<open>Validation\<close>

lemma validate_digits_Ok:
  "validate_digits bs mn mx = Ok u \<longleftrightarrow> bs \<noteq> [] \<and> mn \<le> length bs \<and> length bs \<le> mx \<and> digits bs"
  by (auto simp: validate_digits_def digits_def list_ex_iff list_all_iff not_less)

lemma validate_digits_not_Panic [simp]: "validate_digits bs mn mx \<noteq> Panic"
  by (simp add: validate_digits_def)

lemma PinBytes_new_Ok:
  assumes "PinBytes_new bs = Ok pin"
  shows "4 \<le> length bs \<and> length bs \<le> 12 \<and> digits bs \<and> length (pin_storage pin) = 12
    \<and> pin_digit_count pin = length bs \<and> pin_as_bytes pin = bs"
proof -
  from assms have v: "4 \<le> length bs" "length bs \<le> 12" "digits bs"
    and pin: "pin = \<lparr>pin_storage = bs @ replicate (12 - length bs) 0, pin_length = word_of_nat (length bs)\<rparr>"
    by (auto simp: PinBytes_new_def and_then_eq_Ok validate_digits_Ok split: if_splits)
  have "unat (word_of_nat (length bs) :: byte) = length bs" using v(2) by (simp add: unat_word8_of_nat)
  with v pin show ?thesis by (simp add: pin_digit_count_def pin_as_bytes_def)
qed

lemma PinBytes_new_accepts:
  "4 \<le> length bs \<Longrightarrow> length bs \<le> 12 \<Longrightarrow> digits bs \<Longrightarrow> \<exists>pin. PinBytes_new bs = Ok pin"
proof -
  assume *: "4 \<le> length bs" "length bs \<le> 12" "digits bs"
  then have "bs \<noteq> []" by auto
  with * have "validate_digits bs 4 12 = Ok ()" by (simp add: validate_digits_Ok)
  with * show ?thesis by (simp add: PinBytes_new_def)
qed

lemma can_first_non_digit_Ok: "can_first_non_digit i bs = Ok u \<longleftrightarrow> digits bs"
  by (induction bs arbitrary: i) (auto simp: digits_def)

lemma can_first_non_digit_Err:
  "can_first_non_digit i bs = Err e \<longleftrightarrow>
   (\<exists>k < length bs. e = CanNonDigit (i + k) (bs ! k) \<and> \<not> is_ascii_digit (bs ! k) \<and> digits (take k bs))"
proof (induction bs arbitrary: i)
  case (Cons b bs)
  show ?case
  proof (cases "is_ascii_digit b")
    case True
    have "(\<exists>k < length (b # bs). e = CanNonDigit (i + k) ((b # bs) ! k) \<and> \<not> is_ascii_digit ((b # bs) ! k)
          \<and> digits (take k (b # bs)))
        \<longleftrightarrow> (\<exists>k < length bs. e = CanNonDigit (i + 1 + k) (bs ! k) \<and> \<not> is_ascii_digit (bs ! k) \<and> digits (take k bs))"
      using True unfolding length_Cons Ex_less_Suc2 by (simp add: digits_def)
    then show ?thesis using Cons True by simp
  next
    case False
    then show ?thesis unfolding length_Cons Ex_less_Suc2 by (auto simp: digits_def)
  qed
qed simp

lemma list_all_eq_replicate: "list_all (\<lambda>b. b = x) bs \<longleftrightarrow> bs = replicate (length bs) x"
  by (induction bs) auto

subsection \<open>Properties of the validated secrets\<close>

text \<open>The PIN carrier accepts exactly the codes of four to twelve ASCII digits, never
  aborts, stores them in full and hands the same digits back.\<close>

theorem pin_bytes_accepts_exactly:
  "(\<exists>pin. PinBytes_new bs = Ok pin) = (4 \<le> length bs \<and> length bs \<le> 12 \<and> digits bs)
   \<and> PinBytes_new bs \<noteq> Panic
   \<and> (case PinBytes_new bs of Ok pin \<Rightarrow> pin_as_bytes pin = bs \<and> length (pin_storage pin) = 12 | _ \<Rightarrow> True)"
proof (intro conjI)
  show "(\<exists>pin. PinBytes_new bs = Ok pin) = (4 \<le> length bs \<and> length bs \<le> 12 \<and> digits bs)"
    using PinBytes_new_Ok PinBytes_new_accepts by blast
  show "PinBytes_new bs \<noteq> Panic"
    by (auto simp: PinBytes_new_def and_then_eq_Panic validate_digits_Ok split: if_splits)
  show "case PinBytes_new bs of Ok pin \<Rightarrow> pin_as_bytes pin = bs \<and> length (pin_storage pin) = 12 | _ \<Rightarrow> True"
    using PinBytes_new_Ok [of bs] by (simp split: res.splits)
qed

text \<open>The roles partition by length as documented: on every PIN the carrier accepts,
  a PUK is exactly eight to twelve digits, the activation codes are exactly seven
  and exactly eight digits, so a seven-digit activation code is never a PUK and
  every eight-digit activation code is also a valid PUK.\<close>

theorem pin_roles_by_length:
  assumes "PinBytes_new bs = Ok pin"
  shows "(Puk_new pin = Ok (Puk pin)) = (8 \<le> length bs)
    \<and> (ActivationPinSeven_new pin = Ok (ActivationPinSeven pin)) = (length bs = 7)
    \<and> (ActivationPinEight_new pin = Ok (ActivationPinEight pin)) = (length bs = 8)"
proof -
  note * = PinBytes_new_Ok [OF assms]
  then have "bs \<noteq> []" by auto
  with * show ?thesis
    by (auto simp: Puk_new_def ActivationPinSeven_new_def ActivationPinEight_new_def
        pin_validate_digits_def and_then_eq_Ok validate_digits_Ok)
qed

theorem pin_roles_by_length_witness:
  "Puk_new \<lparr>pin_storage = str_bytes ''12345678'' @ replicate 4 0, pin_length = 8\<rparr>
     = Ok (Puk \<lparr>pin_storage = str_bytes ''12345678'' @ replicate 4 0, pin_length = 8\<rparr>)"
proof -
  have "PinBytes_new (str_bytes ''12345678'') =
      Ok \<lparr>pin_storage = str_bytes ''12345678'' @ replicate 4 0, pin_length = 8\<rparr>"
    by (simp add: PinBytes_new_def validate_digits_def str_bytes_def is_ascii_digit_def)
  from pin_roles_by_length [OF this] show ?thesis by simp
qed

text \<open>The card access number accepts exactly six ASCII digits that are not all zero,
  and a rejected character is reported with the offset and value of the first
  non-digit.\<close>

theorem can_accepts_exactly:
  "(Can_new s = Ok can) = (can = str_bytes s \<and> length s = 6 \<and> digits (str_bytes s) \<and> s \<noteq> ''000000'')
   \<and> (Can_new s = Err (CanNonDigit i b)) =
      (length s = 6 \<and> i < 6 \<and> b = str_bytes s ! i \<and> \<not> is_ascii_digit b \<and> digits (take i (str_bytes s)))"
proof (intro conjI)
  have zeros: "list_all (\<lambda>b. b = 0x30) (str_bytes s) \<longleftrightarrow> s = ''000000''" if "length s = 6"
  proof -
    have zeros: "str_bytes ''000000'' = replicate 6 0x30"
      by (simp add: str_bytes_def numeral_eq_Suc)
    have "list_all (\<lambda>b. b = 0x30) (str_bytes s) \<longleftrightarrow> str_bytes s = replicate (length (str_bytes s)) 0x30"
      by (rule list_all_eq_replicate)
    also have "\<dots> \<longleftrightarrow> str_bytes s = str_bytes ''000000''"
      using that by (simp only: zeros length_str_bytes)
    also have "\<dots> \<longleftrightarrow> s = ''000000''" by (rule str_bytes_inject)
    finally show ?thesis .
  qed
  show "(Can_new s = Ok can) = (can = str_bytes s \<and> length s = 6 \<and> digits (str_bytes s) \<and> s \<noteq> ''000000'')"
    using zeros by (auto simp: Can_new_def Let_def and_then_eq_Ok can_first_non_digit_Ok)
  show "(Can_new s = Err (CanNonDigit i b)) =
      (length s = 6 \<and> i < 6 \<and> b = str_bytes s ! i \<and> \<not> is_ascii_digit b \<and> digits (take i (str_bytes s)))"
    by (auto simp: Can_new_def Let_def and_then_eq_Err can_first_non_digit_Err)
qed

end
