(* ===== verification/Pin_Cache.thy ===== *)
theory Pin_Cache
  imports Pin Apdu
begin

text \<open>
  The PIN safety cache (\<open>crates/refineid-lib-core/src/pin_cache.rs\<close>) and the
  retry-risk floors (\<open>pin_retry_risk.rs\<close>).

  An \<open>Instant\<close> is a number of nanoseconds; every operation that reads the clock
  takes it as the argument \<open>now\<close>, as the \<open>_at\<close> functions of the source do. The HMAC
  of the third-party crate is the parameter \<open>hmac\<close>. The generation counters are
  64-bit words that wrap.

  The second half drives the cache by arbitrary sequences of operations, together
  with the tokens its clients hold, and proves what holds after any such sequence.
\<close>

subsection \<open>Data\<close>

datatype pin_slot = Pin1 | Pin2

type_synonym token_serial = string
type_synonym instant = nat
type_synonym hmac = "bytes \<Rightarrow> bytes \<Rightarrow> bytes"

abbreviation PIN1_CACHE_LIFETIME :: nat where "PIN1_CACHE_LIFETIME \<equiv> 15 * 60 * 1000000000"
abbreviation PIN1_ONE_SHOT_LIFETIME :: nat where "PIN1_ONE_SHOT_LIFETIME \<equiv> 30 * 1000000000"
abbreviation PIN2_CACHE_LIFETIME :: nat where "PIN2_CACHE_LIFETIME \<equiv> 60 * 1000000000"

datatype pin1_retention = Reusable | OneShot

fun retention_lifetime :: "pin1_retention \<Rightarrow> nat" where
  "retention_lifetime Reusable = PIN1_CACHE_LIFETIME"
| "retention_lifetime OneShot = PIN1_ONE_SHOT_LIFETIME"

datatype previously_rejected_pin = PreviouslyRejectedPin pin_slot

record cached_pin1 =
  c1_serial :: token_serial
  c1_pin :: pin_bytes
  last_successful_use :: instant
  c1_generation :: u64
  retention :: pin1_retention

record cached_pin2 =
  c2_serial :: token_serial
  c2_pin :: pin_bytes
  entered_at :: instant
  c2_generation :: u64

record pin_safety_cache =
  positive_pin1 :: "cached_pin1 option"
  positive_pin2 :: "cached_pin2 option"
  generation :: u64
  generation_pin2 :: u64
  fingerprint_key :: bytes
  rejected_pin1 :: "bytes list"
  rejected_pin2 :: "bytes list"

subsection \<open>Operations\<close>

definition PinSafetyCache_new :: "('e, bytes) res \<Rightarrow> ('e, pin_safety_cache) res" where
  "PinSafetyCache_new rng_array =
     and_then rng_array (\<lambda>key. Ok
       \<lparr>positive_pin1 = None, positive_pin2 = None, generation = 0, generation_pin2 = 0,
        fingerprint_key = key, rejected_pin1 = [], rejected_pin2 = []\<rparr>)"

fun slot_tag :: "pin_slot \<Rightarrow> byte" where
  "slot_tag Pin1 = 1"
| "slot_tag Pin2 = 2"

definition fingerprint ::
  "hmac \<Rightarrow> pin_safety_cache \<Rightarrow> token_serial \<Rightarrow> pin_slot \<Rightarrow> pin_bytes \<Rightarrow> bytes" where
  "fingerprint hmac cache serial slot pin =
     (if 255 < pin_digit_count pin then replicate 32 0
      else if 0xFFFFFFFF < length (str_bytes serial) then replicate 32 0
      else hmac (fingerprint_key cache)
        (be_bytes 4 (length (str_bytes serial)) @ str_bytes serial @ [slot_tag slot]
         @ [word_of_nat (pin_digit_count pin)] @ pin_as_bytes pin))"

fun rejected :: "pin_safety_cache \<Rightarrow> pin_slot \<Rightarrow> bytes list" where
  "rejected cache Pin1 = rejected_pin1 cache"
| "rejected cache Pin2 = rejected_pin2 cache"

definition is_rejected ::
  "hmac \<Rightarrow> pin_safety_cache \<Rightarrow> token_serial \<Rightarrow> pin_slot \<Rightarrow> pin_bytes \<Rightarrow> bool" where
  "is_rejected hmac cache serial slot pin \<longleftrightarrow>
     list_ex (\<lambda>known. known = fingerprint hmac cache serial slot pin) (rejected cache slot)"

definition clear_positive :: "pin_safety_cache \<Rightarrow> pin_safety_cache" where
  "clear_positive cache = cache\<lparr>positive_pin1 := None, generation := generation cache + 1\<rparr>"

definition clear_positive_pin2 :: "pin_safety_cache \<Rightarrow> pin_safety_cache" where
  "clear_positive_pin2 cache = cache\<lparr>positive_pin2 := None, generation_pin2 := generation_pin2 cache + 1\<rparr>"

definition record_rejected ::
  "hmac \<Rightarrow> pin_safety_cache \<Rightarrow> token_serial \<Rightarrow> pin_slot \<Rightarrow> pin_bytes \<Rightarrow> pin_safety_cache" where
  "record_rejected hmac cache serial slot pin =
     (let cache = clear_positive_pin2 (clear_positive cache);
          fp = fingerprint hmac cache serial slot pin in
      if list_ex (\<lambda>known. known = fp) (rejected cache slot) then cache
      else case slot of
        Pin1 \<Rightarrow> cache\<lparr>rejected_pin1 := rejected_pin1 cache @ [fp]\<rparr>
      | Pin2 \<Rightarrow> cache\<lparr>rejected_pin2 := rejected_pin2 cache @ [fp]\<rparr>)"

text \<open>\<open>now.checked_duration_since(t).is_some_and(|age| age < lifetime)\<close>.\<close>

definition younger_than :: "nat \<Rightarrow> instant \<Rightarrow> instant \<Rightarrow> bool" where
  "younger_than lifetime t now \<longleftrightarrow> t \<le> now \<and> now - t < lifetime"

definition store_pin1_at ::
  "hmac \<Rightarrow> pin_safety_cache \<Rightarrow> token_serial \<Rightarrow> pin_bytes \<Rightarrow> pin1_retention \<Rightarrow> instant
   \<Rightarrow> (previously_rejected_pin, unit) res \<times> pin_safety_cache" where
  "store_pin1_at hmac cache serial pin ret now =
     (if is_rejected hmac cache serial Pin1 pin then (Err (PreviouslyRejectedPin Pin1), cache)
      else
        let cache = clear_positive cache in
        (Ok (), cache\<lparr>positive_pin1 := Some \<lparr>c1_serial = serial, c1_pin = pin,
           last_successful_use = now, c1_generation = generation cache, retention = ret\<rparr>\<rparr>))"

definition store_pin1 ::
  "hmac \<Rightarrow> pin_safety_cache \<Rightarrow> token_serial \<Rightarrow> pin_bytes \<Rightarrow> instant
   \<Rightarrow> (previously_rejected_pin, unit) res \<times> pin_safety_cache" where
  "store_pin1 hmac cache serial pin now = store_pin1_at hmac cache serial pin Reusable now"

definition stage_pin1_once ::
  "hmac \<Rightarrow> pin_safety_cache \<Rightarrow> token_serial \<Rightarrow> pin_bytes \<Rightarrow> instant
   \<Rightarrow> (previously_rejected_pin, unit) res \<times> pin_safety_cache" where
  "stage_pin1_once hmac cache serial pin now = store_pin1_at hmac cache serial pin OneShot now"

definition checkout_pin1_at ::
  "pin_safety_cache \<Rightarrow> token_serial \<Rightarrow> instant \<Rightarrow> cached_pin1 option \<times> pin_safety_cache" where
  "checkout_pin1_at cache live_serial now =
     (case positive_pin1 cache of
        Some entry \<Rightarrow>
          if c1_serial entry = live_serial
             \<and> younger_than (retention_lifetime (retention entry)) (last_successful_use entry) now
          then (Some entry, cache\<lparr>positive_pin1 := None\<rparr>)
          else (None, clear_positive cache)
      | None \<Rightarrow> (None, clear_positive cache))"

definition has_positive_pin1 :: "pin_safety_cache \<Rightarrow> instant \<Rightarrow> bool \<times> pin_safety_cache" where
  "has_positive_pin1 cache now =
     (let live = (case positive_pin1 cache of
        None \<Rightarrow> False
      | Some entry \<Rightarrow> younger_than (retention_lifetime (retention entry)) (last_successful_use entry) now) in
      (live, if \<not> live then clear_positive cache else cache))"

definition store_pin2_at ::
  "hmac \<Rightarrow> pin_safety_cache \<Rightarrow> token_serial \<Rightarrow> pin_bytes \<Rightarrow> instant
   \<Rightarrow> (previously_rejected_pin, unit) res \<times> pin_safety_cache" where
  "store_pin2_at hmac cache serial pin now =
     (if is_rejected hmac cache serial Pin2 pin then (Err (PreviouslyRejectedPin Pin2), cache)
      else
        let cache = clear_positive_pin2 cache in
        (Ok (), cache\<lparr>positive_pin2 := Some \<lparr>c2_serial = serial, c2_pin = pin,
           entered_at = now, c2_generation = generation_pin2 cache\<rparr>\<rparr>))"

definition checkout_pin2_at ::
  "pin_safety_cache \<Rightarrow> token_serial \<Rightarrow> instant \<Rightarrow> cached_pin2 option \<times> pin_safety_cache" where
  "checkout_pin2_at cache live_serial now =
     (case positive_pin2 cache of
        Some entry \<Rightarrow>
          if c2_serial entry = live_serial \<and> younger_than PIN2_CACHE_LIFETIME (entered_at entry) now
          then (Some entry, cache\<lparr>positive_pin2 := None\<rparr>)
          else (None, clear_positive_pin2 cache)
      | None \<Rightarrow> (None, clear_positive_pin2 cache))"

definition has_positive_pin2 :: "pin_safety_cache \<Rightarrow> instant \<Rightarrow> bool \<times> pin_safety_cache" where
  "has_positive_pin2 cache now =
     (let live = (case positive_pin2 cache of
        None \<Rightarrow> False
      | Some entry \<Rightarrow> younger_than PIN2_CACHE_LIFETIME (entered_at entry) now) in
      (live, if \<not> live then cache\<lparr>positive_pin2 := None\<rparr> else cache))"

text \<open>The checked-out values: \<open>CheckedOutPin1\<close> and \<open>CheckedOutPin2\<close> hold one entry each.\<close>

definition restore_pin1_after_success_at ::
  "cached_pin1 \<Rightarrow> pin_safety_cache \<Rightarrow> instant \<Rightarrow> pin_safety_cache" where
  "restore_pin1_after_success_at entry cache now =
     (if retention entry = OneShot then cache
      else if generation cache \<noteq> c1_generation entry \<or> positive_pin1 cache \<noteq> None then cache
      else cache\<lparr>positive_pin1 := Some (entry\<lparr>last_successful_use := now\<rparr>)\<rparr>)"

definition restore_pin2_after_success :: "cached_pin2 \<Rightarrow> pin_safety_cache \<Rightarrow> pin_safety_cache" where
  "restore_pin2_after_success entry cache =
     (if generation_pin2 cache \<noteq> c2_generation entry \<or> positive_pin2 cache \<noteq> None then cache
      else cache\<lparr>positive_pin2 := Some entry\<rparr>)"

subsection \<open>Retry-risk floors\<close>

datatype pin_retry_risk =
    NormalOperatingConditions
  | DisturbanceDetected
  | SecurityIncidentDeclared
  | CriticalThreatLevel
  | LockdownImminent
  | DefencesFallen

definition from_retries :: "byte \<Rightarrow> pin_retry_risk option" where
  "from_retries n =
     (if n = 5 then Some NormalOperatingConditions
      else if n = 4 then Some DisturbanceDetected
      else if n = 3 then Some SecurityIncidentDeclared
      else if n = 2 then Some CriticalThreatLevel
      else if n = 1 then Some LockdownImminent
      else if n = 0 then Some DefencesFallen
      else None)"

definition permits_pkcs11 :: "pin_retry_risk \<Rightarrow> bool" where
  "permits_pkcs11 r \<longleftrightarrow> \<not> (r = CriticalThreatLevel \<or> r = LockdownImminent)"

definition permits_consumer :: "pin_retry_risk \<Rightarrow> bool" where
  "permits_consumer r \<longleftrightarrow> \<not> (r = CriticalThreatLevel \<or> r = LockdownImminent)"

definition permits_reusable_cache :: "pin_retry_risk \<Rightarrow> bool" where
  "permits_reusable_cache r \<longleftrightarrow> r = NormalOperatingConditions"

definition requires_scs_shutdown :: "pin_retry_risk \<Rightarrow> bool" where
  "requires_scs_shutdown r \<longleftrightarrow> r = CriticalThreatLevel \<or> r = LockdownImminent"

datatype pin_status = Verified | Remaining byte | NoInfo | Locked | StatusOther u16

fun pin1_status_permits_consumer_authentication :: "pin_status \<Rightarrow> bool" where
  "pin1_status_permits_consumer_authentication Verified = True"
| "pin1_status_permits_consumer_authentication (Remaining retries) =
     (case from_retries retries of Some risk \<Rightarrow> permits_consumer risk | None \<Rightarrow> False)"
| "pin1_status_permits_consumer_authentication _ = False"

fun pin1_status_permits_reusable_cache :: "pin_status \<Rightarrow> bool" where
  "pin1_status_permits_reusable_cache (Remaining retries) =
     (case from_retries retries of Some risk \<Rightarrow> permits_reusable_cache risk | None \<Rightarrow> False)"
| "pin1_status_permits_reusable_cache _ = False"

subsection \<open>The cache and its clients as a system\<close>

text \<open>
  The cache, the tokens its clients hold and the clock. An operation that names a
  held token by position does nothing when there is no such token.
\<close>

record cache_system =
  sys_cache :: pin_safety_cache
  out1 :: "cached_pin1 list"
  out2 :: "cached_pin2 list"
  clock :: instant

datatype cache_op =
    Tick nat
  | StorePin1 token_serial pin_bytes
  | StagePin1Once token_serial pin_bytes
  | StorePin2 token_serial pin_bytes
  | CheckoutPin1 token_serial
  | CheckoutPin2 token_serial
  | RestorePin1 nat
  | RestorePin2 nat
  | DropPin1 nat
  | DropPin2 nat
  | HasPositivePin1
  | HasPositivePin2
  | ClearPositive
  | ClearPositivePin2
  | RecordRejected token_serial pin_slot pin_bytes

definition remove_at :: "nat \<Rightarrow> 'a list \<Rightarrow> 'a list" where
  "remove_at i xs = take i xs @ drop (Suc i) xs"

fun exec :: "hmac \<Rightarrow> cache_system \<Rightarrow> cache_op \<Rightarrow> cache_system" where
  "exec hmac s (Tick d) = s\<lparr>clock := clock s + d\<rparr>"
| "exec hmac s (StorePin1 serial pin) =
     s\<lparr>sys_cache := snd (store_pin1 hmac (sys_cache s) serial pin (clock s))\<rparr>"
| "exec hmac s (StagePin1Once serial pin) =
     s\<lparr>sys_cache := snd (stage_pin1_once hmac (sys_cache s) serial pin (clock s))\<rparr>"
| "exec hmac s (StorePin2 serial pin) =
     s\<lparr>sys_cache := snd (store_pin2_at hmac (sys_cache s) serial pin (clock s))\<rparr>"
| "exec hmac s (CheckoutPin1 serial) =
     (case checkout_pin1_at (sys_cache s) serial (clock s) of
        (Some e, c) \<Rightarrow> s\<lparr>sys_cache := c, out1 := out1 s @ [e]\<rparr>
      | (None, c) \<Rightarrow> s\<lparr>sys_cache := c\<rparr>)"
| "exec hmac s (CheckoutPin2 serial) =
     (case checkout_pin2_at (sys_cache s) serial (clock s) of
        (Some e, c) \<Rightarrow> s\<lparr>sys_cache := c, out2 := out2 s @ [e]\<rparr>
      | (None, c) \<Rightarrow> s\<lparr>sys_cache := c\<rparr>)"
| "exec hmac s (RestorePin1 i) =
     (case get_at (out1 s) i of
        Some e \<Rightarrow> s\<lparr>sys_cache := restore_pin1_after_success_at e (sys_cache s) (clock s), out1 := remove_at i (out1 s)\<rparr>
      | None \<Rightarrow> s)"
| "exec hmac s (RestorePin2 i) =
     (case get_at (out2 s) i of
        Some e \<Rightarrow> s\<lparr>sys_cache := restore_pin2_after_success e (sys_cache s), out2 := remove_at i (out2 s)\<rparr>
      | None \<Rightarrow> s)"
| "exec hmac s (DropPin1 i) = s\<lparr>out1 := remove_at i (out1 s)\<rparr>"
| "exec hmac s (DropPin2 i) = s\<lparr>out2 := remove_at i (out2 s)\<rparr>"
| "exec hmac s HasPositivePin1 = s\<lparr>sys_cache := snd (has_positive_pin1 (sys_cache s) (clock s))\<rparr>"
| "exec hmac s HasPositivePin2 = s\<lparr>sys_cache := snd (has_positive_pin2 (sys_cache s) (clock s))\<rparr>"
| "exec hmac s ClearPositive = s\<lparr>sys_cache := clear_positive (sys_cache s)\<rparr>"
| "exec hmac s ClearPositivePin2 = s\<lparr>sys_cache := clear_positive_pin2 (sys_cache s)\<rparr>"
| "exec hmac s (RecordRejected serial slot pin) =
     s\<lparr>sys_cache := record_rejected hmac (sys_cache s) serial slot pin\<rparr>"

definition cache_init :: "bytes \<Rightarrow> cache_system" where
  "cache_init key =
     \<lparr>sys_cache = \<lparr>positive_pin1 = None, positive_pin2 = None, generation = 0, generation_pin2 = 0,
        fingerprint_key = key, rejected_pin1 = [], rejected_pin2 = []\<rparr>,
      out1 = [], out2 = [], clock = 0\<rparr>"

abbreviation run_cache :: "hmac \<Rightarrow> cache_system \<Rightarrow> cache_op list \<Rightarrow> cache_system" where
  "run_cache hmac \<equiv> foldl (exec hmac)"

lemma set_remove_at: "set (remove_at i xs) \<subseteq> set xs"
  using set_take_subset [of i xs] set_drop_subset [of "Suc i" xs] by (auto simp: remove_at_def)

lemma get_at_in_set: "get_at xs i = Some x \<Longrightarrow> x \<in> set xs"
  by (auto simp: get_at_def split: if_splits)

subsection \<open>Rejection memory only grows\<close>

named_theorems cache_defs \<open>definitions of the cache operations\<close>

lemmas [cache_defs] =
  store_pin1_def stage_pin1_once_def store_pin1_at_def store_pin2_at_def checkout_pin1_at_def
  checkout_pin2_at_def has_positive_pin1_def has_positive_pin2_def clear_positive_def
  clear_positive_pin2_def record_rejected_def restore_pin1_after_success_at_def
  restore_pin2_after_success_def

lemma exec_fingerprint_key: "fingerprint_key (sys_cache (exec hmac s op)) = fingerprint_key (sys_cache s)"
  by (cases op) (auto simp: cache_defs Let_def split: option.splits pin_slot.splits)

lemma exec_rejected_mono:
  "set (rejected (sys_cache s) slot) \<subseteq> set (rejected (sys_cache (exec hmac s op)) slot)"
  by (cases slot; cases op) (auto simp: cache_defs Let_def split: option.splits pin_slot.splits)

lemma fingerprint_cong:
  "fingerprint_key c = fingerprint_key c' \<Longrightarrow> fingerprint hmac c = fingerprint hmac c'"
  by (intro ext) (simp add: fingerprint_def)

lemma is_rejected_iff:
  "is_rejected hmac c serial slot pin \<longleftrightarrow> fingerprint hmac c serial slot pin \<in> set (rejected c slot)"
  by (auto simp: is_rejected_def list_ex_iff)

lemma exec_is_rejected:
  "is_rejected hmac (sys_cache s) serial slot pin \<Longrightarrow> is_rejected hmac (sys_cache (exec hmac s op)) serial slot pin"
  using exec_rejected_mono [of s slot hmac op] fingerprint_cong [OF exec_fingerprint_key, of hmac hmac s op]
  by (auto simp: is_rejected_iff)

lemma run_is_rejected:
  "is_rejected hmac (sys_cache s) serial slot pin \<Longrightarrow>
   is_rejected hmac (sys_cache (run_cache hmac s ops)) serial slot pin"
  by (induction ops arbitrary: s) (auto intro: exec_is_rejected)

lemma record_rejected_is_rejected: "is_rejected hmac (record_rejected hmac c serial slot pin) serial slot pin"
proof -
  have "fingerprint_key (record_rejected hmac c serial slot pin) = fingerprint_key c"
    by (auto simp: cache_defs Let_def split: pin_slot.splits)
  note fp = fingerprint_cong [OF this, of hmac]
  have "fingerprint_key (clear_positive_pin2 (clear_positive c)) = fingerprint_key c" by (simp add: cache_defs)
  note fp' = fingerprint_cong [OF this, of hmac]
  show ?thesis unfolding is_rejected_iff fp
    by (cases slot) (auto simp: record_rejected_def Let_def fp' list_ex_iff)
qed

subsection \<open>Generations\<close>

text \<open>
  What the generation counter guarantees, for either slot: \<open>gen\<close> reads the
  generation of an entry, \<open>bad\<close> says that its PIN has been rejected. The counter has
  been advanced \<open>c\<close> times; an entry of the current generation is not bad.
\<close>

definition gen_at :: "('e \<Rightarrow> u64) \<Rightarrow> ('e \<Rightarrow> bool) \<Rightarrow> nat \<Rightarrow> u64 \<Rightarrow> 'e option \<Rightarrow> 'e set \<Rightarrow> bool" where
  "gen_at gen bad c g pos outs \<longleftrightarrow> g = word_of_nat c
     \<and> (\<forall>e. pos = Some e \<longrightarrow> \<not> bad e \<and> gen e = word_of_nat c)
     \<and> (\<forall>e \<in> outs. \<exists>k \<le> c. gen e = word_of_nat k \<and> (k = c \<longrightarrow> \<not> bad e))"

definition gen_inv :: "('e \<Rightarrow> u64) \<Rightarrow> ('e \<Rightarrow> bool) \<Rightarrow> nat \<Rightarrow> u64 \<Rightarrow> 'e option \<Rightarrow> 'e set \<Rightarrow> bool" where
  "gen_inv gen bad n g pos outs \<longleftrightarrow> (\<exists>c \<le> n. gen_at gen bad c g pos outs)"

lemma gen_inv_keep:
  assumes "gen_inv gen bad n g pos outs" and "outs' \<subseteq> outs" and "pos' = pos \<or> pos' = None"
  shows "gen_inv gen bad (Suc n) g pos' outs'"
proof -
  from assms(1) obtain c where "c \<le> n" "gen_at gen bad c g pos outs" by (auto simp: gen_inv_def)
  then have "c \<le> Suc n" "gen_at gen bad c g pos' outs'" using assms(2,3) by (auto simp: gen_at_def)
  then show ?thesis by (auto simp: gen_inv_def)
qed

lemma gen_at_next:
  assumes "gen_at gen bad c g pos outs" and "\<forall>e. pos' = Some e \<longrightarrow> \<not> bad' e \<and> gen e = g + 1"
  shows "gen_at gen bad' (Suc c) (g + 1) pos' outs"
proof -
  have g: "g = word_of_nat c" and old: "\<And>e. e \<in> outs \<Longrightarrow> \<exists>k \<le> c. gen e = word_of_nat k"
    using assms(1) by (auto simp: gen_at_def)
  have g': "g + 1 = word_of_nat (Suc c)" using g by (simp add: add.commute)
  have "\<exists>k \<le> Suc c. gen e = word_of_nat k \<and> (k = Suc c \<longrightarrow> \<not> bad' e)" if e: "e \<in> outs" for e
  proof -
    obtain k where "k \<le> c" "gen e = word_of_nat k" using old [OF e] by blast
    then show ?thesis by (intro exI [of _ k]) simp
  qed
  with assms(2) g' show ?thesis by (simp only: gen_at_def) blast
qed

lemma gen_inv_clear:
  "gen_inv gen bad n g pos outs \<Longrightarrow> gen_inv gen bad' (Suc n) (g + 1) None outs"
  unfolding gen_inv_def by (metis Suc_le_mono gen_at_next option.distinct(1))

lemma gen_inv_store:
  "gen_inv gen bad n g pos outs \<Longrightarrow> \<not> bad e \<Longrightarrow> gen e = g + 1 \<Longrightarrow>
   gen_inv gen bad (Suc n) (g + 1) (Some e) outs"
  unfolding gen_inv_def by (metis Suc_le_mono gen_at_next option.inject)

lemma gen_inv_checkout:
  assumes "gen_inv gen bad n g (Some e) outs"
  shows "gen_inv gen bad (Suc n) g None (insert e outs)"
proof -
  from assms obtain c where "c \<le> n" "gen_at gen bad c g (Some e) outs" by (auto simp: gen_inv_def)
  then have "c \<le> Suc n" "gen_at gen bad c g None (insert e outs)" by (auto simp: gen_at_def)
  then show ?thesis by (auto simp: gen_inv_def)
qed

lemma word_of_nat_u64_inject:
  assumes "a < 2 ^ 64" and "b < 2 ^ 64" and "(word_of_nat a :: u64) = word_of_nat b"
  shows "a = b"
proof -
  have "unat (word_of_nat k :: u64) = k" if "k < 2 ^ 64" for k
    using that by (simp add: unat_of_nat)
  with assms show ?thesis by metis
qed

lemma gen_inv_restore:
  assumes "gen_inv gen bad n g pos outs" and "n < 2 ^ 64" and "e \<in> outs" and "gen e = g"
    and "gen e' = gen e" and "bad e' = bad e" and "outs' \<subseteq> outs"
  shows "gen_inv gen bad (Suc n) g (Some e') outs'"
proof -
  from assms(1) obtain c where c: "c \<le> n" "gen_at gen bad c g pos outs" by (auto simp: gen_inv_def)
  then obtain k where k: "k \<le> c" "gen e = word_of_nat k" "k = c \<longrightarrow> \<not> bad e" and g: "g = word_of_nat c"
    using assms(3) by (auto simp: gen_at_def)
  have "k = c" by (rule word_of_nat_u64_inject) (use assms(2,4) c(1) k(1,2) g in simp_all)
  with c k g assms have "c \<le> Suc n" "gen_at gen bad c g (Some e') outs'" by (auto simp: gen_at_def)
  then show ?thesis by (auto simp: gen_inv_def)
qed

abbreviation bad1 :: "hmac \<Rightarrow> pin_safety_cache \<Rightarrow> cached_pin1 \<Rightarrow> bool" where
  "bad1 hmac c e \<equiv> is_rejected hmac c (c1_serial e) Pin1 (c1_pin e)"

abbreviation bad2 :: "hmac \<Rightarrow> pin_safety_cache \<Rightarrow> cached_pin2 \<Rightarrow> bool" where
  "bad2 hmac c e \<equiv> is_rejected hmac c (c2_serial e) Pin2 (c2_pin e)"

definition cache_inv :: "hmac \<Rightarrow> nat \<Rightarrow> cache_system \<Rightarrow> bool" where
  "cache_inv hmac n s \<longleftrightarrow> (n < 2 ^ 64 \<longrightarrow>
     gen_inv c1_generation (bad1 hmac (sys_cache s)) n (generation (sys_cache s))
       (positive_pin1 (sys_cache s)) (set (out1 s))
   \<and> gen_inv c2_generation (bad2 hmac (sys_cache s)) n (generation_pin2 (sys_cache s))
       (positive_pin2 (sys_cache s)) (set (out2 s)))"

lemma is_rejected_cong:
  assumes "fingerprint_key c' = fingerprint_key c" and "rejected_pin1 c' = rejected_pin1 c"
    and "rejected_pin2 c' = rejected_pin2 c"
  shows "is_rejected hmac c' = is_rejected hmac c"
proof (intro ext)
  fix serial slot pin
  show "is_rejected hmac c' serial slot pin = is_rejected hmac c serial slot pin"
    using assms by (cases slot) (simp_all add: is_rejected_iff fingerprint_def)
qed

lemma is_rejected_update [simp]:
  "is_rejected hmac (c\<lparr>positive_pin1 := p\<rparr>) = is_rejected hmac c"
  "is_rejected hmac (c\<lparr>positive_pin2 := q\<rparr>) = is_rejected hmac c"
  "is_rejected hmac (c\<lparr>generation := g\<rparr>) = is_rejected hmac c"
  "is_rejected hmac (c\<lparr>generation_pin2 := h\<rparr>) = is_rejected hmac c"
  by (rule is_rejected_cong; simp)+

lemma is_rejected_clear [simp]:
  "is_rejected hmac (clear_positive c) = is_rejected hmac c"
  "is_rejected hmac (clear_positive_pin2 c) = is_rejected hmac c"
  by (simp_all add: clear_positive_def clear_positive_pin2_def)

lemma cache_inv_step1:
  assumes "gen_inv c1_generation (bad1 hmac (sys_cache s)) n (generation (sys_cache s))
       (positive_pin1 (sys_cache s)) (set (out1 s))" and "n < 2 ^ 64"
  shows "gen_inv c1_generation (bad1 hmac (sys_cache (exec hmac s op))) (Suc n) (generation (sys_cache (exec hmac s op)))
       (positive_pin1 (sys_cache (exec hmac s op))) (set (out1 (exec hmac s op)))"
proof (cases op)
  case (RestorePin1 i)
  then show ?thesis
    using gen_inv_keep [OF assms(1)] gen_inv_restore [OF assms] set_remove_at [of i "out1 s"] get_at_in_set [of "out1 s" i]
    by (auto simp: restore_pin1_after_success_at_def split: option.splits)
next
  case (CheckoutPin1 serial)
  then show ?thesis
    using gen_inv_clear [OF assms(1)] gen_inv_checkout assms(1)
    by (auto simp: checkout_pin1_at_def clear_positive_def split: option.splits)
next
  case (DropPin1 i)
  then show ?thesis using gen_inv_keep [OF assms(1)] set_remove_at [of i "out1 s"] by simp
next
  case (RecordRejected serial slot pin)
  then show ?thesis using gen_inv_clear [OF assms(1)]
    by (auto simp: cache_defs Let_def split: pin_slot.splits)
next
  case (StorePin1 serial pin)
  then show ?thesis using gen_inv_keep [OF assms(1)] gen_inv_store [OF assms(1)]
    by (auto simp: store_pin1_def store_pin1_at_def clear_positive_def Let_def)
next
  case (StagePin1Once serial pin)
  then show ?thesis using gen_inv_keep [OF assms(1)] gen_inv_store [OF assms(1)]
    by (auto simp: stage_pin1_once_def store_pin1_at_def clear_positive_def Let_def)
next
  case HasPositivePin1
  then show ?thesis using gen_inv_keep [OF assms(1)] gen_inv_clear [OF assms(1)]
    by (auto simp: has_positive_pin1_def clear_positive_def Let_def)
next
  case ClearPositive
  then show ?thesis using gen_inv_clear [OF assms(1)] by (simp add: clear_positive_def)
qed (use gen_inv_keep [OF assms(1)] in \<open>auto simp: store_pin2_at_def checkout_pin2_at_def has_positive_pin2_def
    restore_pin2_after_success_def clear_positive_pin2_def Let_def split: option.splits\<close>)

lemma cache_inv_step2:
  assumes "gen_inv c2_generation (bad2 hmac (sys_cache s)) n (generation_pin2 (sys_cache s))
       (positive_pin2 (sys_cache s)) (set (out2 s))" and "n < 2 ^ 64"
  shows "gen_inv c2_generation (bad2 hmac (sys_cache (exec hmac s op))) (Suc n) (generation_pin2 (sys_cache (exec hmac s op)))
       (positive_pin2 (sys_cache (exec hmac s op))) (set (out2 (exec hmac s op)))"
proof (cases op)
  case (RestorePin2 i)
  then show ?thesis
    using gen_inv_keep [OF assms(1)] gen_inv_restore [OF assms] set_remove_at [of i "out2 s"] get_at_in_set [of "out2 s" i]
    by (auto simp: restore_pin2_after_success_def split: option.splits)
next
  case (CheckoutPin2 serial)
  then show ?thesis
    using gen_inv_clear [OF assms(1)] gen_inv_checkout assms(1)
    by (auto simp: checkout_pin2_at_def clear_positive_pin2_def split: option.splits)
next
  case (DropPin2 i)
  then show ?thesis using gen_inv_keep [OF assms(1)] set_remove_at [of i "out2 s"] by simp
next
  case (RecordRejected serial slot pin)
  then show ?thesis using gen_inv_clear [OF assms(1)]
    by (auto simp: cache_defs Let_def split: pin_slot.splits)
next
  case (StorePin2 serial pin)
  then show ?thesis using gen_inv_keep [OF assms(1)] gen_inv_store [OF assms(1)]
    by (auto simp: store_pin2_at_def clear_positive_pin2_def Let_def)
next
  case HasPositivePin2
  then show ?thesis using gen_inv_keep [OF assms(1)]
    by (auto simp: has_positive_pin2_def Let_def)
next
  case ClearPositivePin2
  then show ?thesis using gen_inv_clear [OF assms(1)] by (simp add: clear_positive_pin2_def)
qed (use gen_inv_keep [OF assms(1)] in \<open>auto simp: store_pin1_def stage_pin1_once_def store_pin1_at_def
    checkout_pin1_at_def has_positive_pin1_def restore_pin1_after_success_at_def clear_positive_def Let_def
    split: option.splits\<close>)

interpretation cache: op_system "exec hmac" "cache_inv hmac" for hmac
proof
  fix n s op
  assume "cache_inv hmac n s"
  then show "cache_inv hmac (Suc n) (exec hmac s op)"
    using cache_inv_step1 [of hmac s n op] cache_inv_step2 [of hmac s n op] by (simp add: cache_inv_def)
qed

lemma cache_inv_init: "cache_inv hmac 0 (cache_init key)"
  by (simp add: cache_inv_def cache_init_def gen_inv_def gen_at_def)

subsection \<open>Where a cached PIN2 comes from\<close>

definition entered2 :: "hmac \<Rightarrow> bytes \<Rightarrow> cache_op list \<Rightarrow> cached_pin2 \<Rightarrow> bool" where
  "entered2 hmac key ops e \<longleftrightarrow> (\<exists>i < length ops. ops ! i = StorePin2 (c2_serial e) (c2_pin e)
     \<and> entered_at e = clock (run_cache hmac (cache_init key) (take i ops)))"

definition entries2 :: "cache_system \<Rightarrow> cached_pin2 set" where
  "entries2 s = set_option (positive_pin2 (sys_cache s)) \<union> set (out2 s)"

lemma exec_entries2:
  assumes "e \<in> entries2 (exec hmac s op)"
  shows "e \<in> entries2 s \<or> (op = StorePin2 (c2_serial e) (c2_pin e) \<and> entered_at e = clock s)"
proof (cases op)
  case (RestorePin2 i)
  then show ?thesis
    using assms set_remove_at [of i "out2 s"] get_at_in_set [of "out2 s" i]
    by (auto simp: entries2_def restore_pin2_after_success_def split: option.splits if_splits)
next
  case (DropPin2 i)
  then show ?thesis using assms set_remove_at [of i "out2 s"] by (auto simp: entries2_def)
qed (use assms in \<open>auto simp: entries2_def cache_defs Let_def split: option.splits if_splits pin_slot.splits\<close>)

lemma entered2_snoc: "entered2 hmac key ops e \<Longrightarrow> entered2 hmac key (ops @ [op]) e"
  unfolding entered2_def by (metis length_append_singleton less_SucI less_or_eq_imp_le nth_append take_append
      diff_is_0_eq take0 append_Nil2)

lemma run_entries2:
  "e \<in> entries2 (run_cache hmac (cache_init key) ops) \<Longrightarrow> entered2 hmac key ops e"
proof (induction ops rule: rev_induct)
  case Nil
  then show ?case by (simp add: entries2_def cache_init_def)
next
  case (snoc op ops)
  let ?s = "run_cache hmac (cache_init key) ops"
  from snoc.prems have "e \<in> entries2 (exec hmac ?s op)" by simp
  then consider "e \<in> entries2 ?s" | "op = StorePin2 (c2_serial e) (c2_pin e)" "entered_at e = clock ?s"
    using exec_entries2 by blast
  then show ?case
  proof cases
    case 1
    then show ?thesis using snoc.IH entered2_snoc by blast
  next
    case 2
    then show ?thesis unfolding entered2_def by (intro exI [of _ "length ops"]) simp
  qed
qed

subsection \<open>Properties of the PIN cache\<close>

text \<open>C2. A PIN the card has rejected is refused for the rest of the process: after the
  rejection has been recorded, whatever operations follow, storing or staging the
  same PIN for the same card is refused, for either slot.\<close>

theorem rejected_pin_refused_forever:
  "fst (store_pin1_at hmac (sys_cache (run_cache hmac (exec hmac s (RecordRejected serial Pin1 pin)) ops))
      serial pin ret now) = Err (PreviouslyRejectedPin Pin1)
   \<and> fst (store_pin2_at hmac (sys_cache (run_cache hmac (exec hmac s (RecordRejected serial Pin2 pin)) ops))
      serial pin now) = Err (PreviouslyRejectedPin Pin2)"
proof -
  have "is_rejected hmac (sys_cache (run_cache hmac (exec hmac s (RecordRejected serial slot pin)) ops)) serial slot pin"
    for slot by (rule run_is_rejected) (simp add: record_rejected_is_rejected)
  then show ?thesis by (simp add: store_pin1_at_def store_pin2_at_def)
qed

text \<open>C3. A rejected PIN is never served: after any sequence of fewer than \<open>2 ^ 64\<close>
  operations, interleaved with rejections while tokens are out in any way, a
  checkout hands out an entry for the requested card only, and never one whose PIN
  has been rejected for that card. The bound is where the wrapping generation
  counter could repeat.\<close>

theorem checkout_never_serves_rejected:
  assumes "length ops < 2 ^ 64"
  shows "(case fst (checkout_pin1_at (sys_cache (run_cache hmac (cache_init key) ops)) serial now) of
        None \<Rightarrow> True
      | Some e \<Rightarrow> c1_serial e = serial
          \<and> \<not> is_rejected hmac (sys_cache (run_cache hmac (cache_init key) ops)) serial Pin1 (c1_pin e))
    \<and> (case fst (checkout_pin2_at (sys_cache (run_cache hmac (cache_init key) ops)) serial now) of
        None \<Rightarrow> True
      | Some e \<Rightarrow> c2_serial e = serial
          \<and> \<not> is_rejected hmac (sys_cache (run_cache hmac (cache_init key) ops)) serial Pin2 (c2_pin e))"
proof -
  let ?c = "sys_cache (run_cache hmac (cache_init key) ops)"
  have "cache_inv hmac (length ops) (run_cache hmac (cache_init key) ops)"
    by (rule cache.run_inv_0) (rule cache_inv_init)
  then have "\<not> bad1 hmac ?c e" if "positive_pin1 ?c = Some e" for e
    using assms that by (auto simp: cache_inv_def gen_inv_def gen_at_def)
  moreover have "\<not> bad2 hmac ?c e" if "positive_pin2 ?c = Some e" for e
    using assms that \<open>cache_inv hmac _ _\<close> by (auto simp: cache_inv_def gen_inv_def gen_at_def)
  ultimately show ?thesis
    by (auto simp: checkout_pin1_at_def checkout_pin2_at_def split: option.splits)
qed

theorem checkout_never_serves_rejected_witness:
  "case fst (checkout_pin1_at (sys_cache (run_cache (\<lambda>k m. m) (cache_init [])
        [StorePin1 ''A'' \<lparr>pin_storage = [], pin_length = 0\<rparr>])) ''A'' 5) of
      None \<Rightarrow> False
    | Some e \<Rightarrow> \<not> is_rejected (\<lambda>k m. m) (sys_cache (run_cache (\<lambda>k m. m) (cache_init [])
        [StorePin1 ''A'' \<lparr>pin_storage = [], pin_length = 0\<rparr>])) ''A'' Pin1 (c1_pin e)"
  using checkout_never_serves_rejected [where ops = "[StorePin1 ''A'' \<lparr>pin_storage = [], pin_length = 0\<rparr>]"
      and hmac = "\<lambda>k m. m" and key = "[]" and serial = "''A''" and now = 5]
  by (simp add: cache_init_def cache_defs is_rejected_def younger_than_def)

text \<open>The PIN2 consent window cannot be extended: whenever PIN2 is served, after any
  history, the user entered this very PIN for this very card less than one minute
  ago; checking it out and restoring it in between does not move that moment.\<close>

theorem pin2_window_is_fixed:
  assumes "fst (checkout_pin2_at (sys_cache (run_cache hmac (cache_init key) ops)) serial now) = Some e"
  shows "\<exists>i < length ops. ops ! i = StorePin2 serial (c2_pin e)
    \<and> (let t = clock (run_cache hmac (cache_init key) (take i ops)) in t \<le> now \<and> now - t < PIN2_CACHE_LIFETIME)"
proof -
  let ?s = "run_cache hmac (cache_init key) ops"
  from assms have pos: "positive_pin2 (sys_cache ?s) = Some e" and serial: "c2_serial e = serial"
    and young: "younger_than PIN2_CACHE_LIFETIME (entered_at e) now"
    by (auto simp: checkout_pin2_at_def split: option.splits if_splits)
  have "entered2 hmac key ops e" by (rule run_entries2) (simp add: entries2_def pos)
  with serial young show ?thesis by (auto simp: entered2_def younger_than_def Let_def)
qed

theorem pin2_window_is_fixed_witness:
  "\<exists>i < length [StorePin2 ''A'' \<lparr>pin_storage = [], pin_length = 0\<rparr>].
     [StorePin2 ''A'' \<lparr>pin_storage = [], pin_length = 0\<rparr>] ! i = StorePin2 ''A'' \<lparr>pin_storage = [], pin_length = 0\<rparr>"
proof -
  have "fst (checkout_pin2_at (sys_cache (run_cache (\<lambda>k m. m) (cache_init [])
      [StorePin2 ''A'' \<lparr>pin_storage = [], pin_length = 0\<rparr>])) ''A'' 5)
    = Some \<lparr>c2_serial = ''A'', c2_pin = \<lparr>pin_storage = [], pin_length = 0\<rparr>, entered_at = 0, c2_generation = 1\<rparr>"
    by (simp add: cache_init_def cache_defs is_rejected_def younger_than_def)
  from pin2_window_is_fixed [OF this] show ?thesis by auto
qed

text \<open>The retry floor: on a live counter, ordinary authentication is refused exactly
  when one or two attempts remain or the counter is outside the documented range of
  five, so the software never spends the next-to-last or the last attempt; a
  reusable cache entry requires the full five attempts. A counter of zero is let
  through.\<close>

theorem retry_floor:
  "pin1_status_permits_consumer_authentication (Remaining n) = (n = 0 \<or> n = 3 \<or> n = 4 \<or> n = 5)
   \<and> pin1_status_permits_reusable_cache st = (st = Remaining 5)"
proof
  show "pin1_status_permits_consumer_authentication (Remaining n) = (n = 0 \<or> n = 3 \<or> n = 4 \<or> n = 5)"
    by (auto simp: from_retries_def permits_consumer_def)
  show "pin1_status_permits_reusable_cache st = (st = Remaining 5)"
    by (cases st) (auto simp: from_retries_def permits_reusable_cache_def)
qed

end
