(* ===== verification/Card_Exchange.thy ===== *)
theory Card_Exchange
  imports Apdu
begin

text \<open>
  Sequences of exchanges with a card. The components that talk to the card through the transport trait
  (\<open>transport.rs\<close>) share the sequencing of fallible steps on the transport's state, and a transport
  that keeps a log of the commands handed to it, by which statements can speak of what was sent.
\<close>

type_synonym ('t, 'e) card = "'t \<Rightarrow> command_apdu \<Rightarrow> ('e, transport_outcome) res \<times> 't"

definition tx_then :: "('e, 'a) res \<times> 't \<Rightarrow> ('a \<Rightarrow> 't \<Rightarrow> ('e, 'b) res \<times> 't) \<Rightarrow> ('e, 'b) res \<times> 't" where
  "tx_then m f = (case fst m of Ok a \<Rightarrow> f a (snd m) | Err e \<Rightarrow> (Err e, snd m) | Panic \<Rightarrow> (Panic, snd m))"

definition logged :: "('t, 'e) card \<Rightarrow> ('t \<times> bytes list, 'e) card" where
  "logged tx s apdu = (case s of (t, sent) \<Rightarrow>
     (case tx t apdu of (r, t') \<Rightarrow> (r, t', sent @ [apdu_bytes apdu])))"

lemma tx_then_simps [simp]:
  "tx_then (Ok a, t) f = f a t"
  "tx_then (Err e, t) f = (Err e, t)"
  "tx_then (Panic, t) f = (Panic, t)"
  by (simp_all add: tx_then_def)

lemma tx_then_cong [fundef_cong]:
  assumes "m = m'" and "\<And>a t. m' = (Ok a, t) \<Longrightarrow> f a t = f' a t"
  shows "tx_then m f = tx_then m' f'"
  using assms by (cases m'; cases "fst m'") (auto simp: tx_then_def)

lemma tx_then_logged [simp]:
  "tx_then (case m of (r, t') \<Rightarrow> (r, t', sent)) f = (case m of (r, t') \<Rightarrow> tx_then (r, t', sent) f)"
  by (simp split: prod.splits)

lemma transmit_logged [simp]:
  "transmit (logged tx) (t, sent) bs = (case transmit tx t bs of (r, t') \<Rightarrow> (r, t', sent @ [bs]))"
  by (simp add: transmit_def logged_def CommandApdu_new_def split: prod.splits)

lemma apdu_bytes_new [simp]: "apdu_bytes (CommandApdu_new bs) = bs"
  by (simp add: CommandApdu_new_def)

end
