(* ===== verification/Pin_Ops.thy ===== *)
theory Pin_Ops
  imports Pin_Cache Card_Exchange
begin

text \<open>
  The PIN operations on the card (\<open>crates/refineid-lib-core/src/auth.rs\<close>) and their commands
  (\<open>auth/commands.rs\<close>): verify, change, unblock, the status probes, and the resolution of the
  reference numbering.

  The trait \<open>PinOps\<close> is implemented for every card transport; the transport is the argument \<open>tx\<close>, a
  function from its state and a command to an outcome and a state. Every operation returns the
  transport's state with its result. Zeroization of the credential blocks is not modelled.
\<close>

subsection \<open>Slots and reference numberings\<close>

abbreviation PIN1_REFERENCE_PKCS15 :: byte where "PIN1_REFERENCE_PKCS15 \<equiv> 0x11"
abbreviation PIN2_REFERENCE_PKCS15 :: byte where "PIN2_REFERENCE_PKCS15 \<equiv> 0x82"
abbreviation PUK_REFERENCE_PKCS15 :: byte where "PUK_REFERENCE_PKCS15 \<equiv> 0x83"
abbreviation PIN1_REFERENCE_ORGANIZATIONAL :: byte where "PIN1_REFERENCE_ORGANIZATIONAL \<equiv> 0x03"
abbreviation PIN2_REFERENCE_ORGANIZATIONAL :: byte where "PIN2_REFERENCE_ORGANIZATIONAL \<equiv> 0x04"
abbreviation PUK_REFERENCE_ORGANIZATIONAL :: byte where "PUK_REFERENCE_ORGANIZATIONAL \<equiv> 0x12"
abbreviation PIN_PAD_BYTE :: byte where "PIN_PAD_BYTE \<equiv> 0x00"
abbreviation ORGANIZATIONAL_PIN_MIN_LENGTH :: nat where "ORGANIZATIONAL_PIN_MIN_LENGTH \<equiv> 4"
abbreviation ORGANIZATIONAL_PIN_MAX_LENGTH :: nat where "ORGANIZATIONAL_PIN_MAX_LENGTH \<equiv> 8"
abbreviation PUK_STORED_LENGTH :: nat where "PUK_STORED_LENGTH \<equiv> 12"
abbreviation PUK_MIN_LENGTH :: nat where "PUK_MIN_LENGTH \<equiv> 8"
abbreviation PUK_MAX_LENGTH :: nat where "PUK_MAX_LENGTH \<equiv> 12"

fun slot_p2_reference :: "pin_slot \<Rightarrow> byte" where
  "slot_p2_reference Pin1 = PIN1_REFERENCE_PKCS15"
| "slot_p2_reference Pin2 = PIN2_REFERENCE_PKCS15"

fun stored_length :: "pin_slot \<Rightarrow> nat" where
  "stored_length Pin1 = 12"
| "stored_length Pin2 = 12"

fun min_length :: "pin_slot \<Rightarrow> nat" where
  "min_length Pin1 = 4"
| "min_length Pin2 = 6"

datatype pin_reference_scheme = Citizen | Organizational

fun p2_reference :: "pin_reference_scheme \<Rightarrow> pin_slot \<Rightarrow> byte" where
  "p2_reference Citizen Pin1 = PIN1_REFERENCE_PKCS15"
| "p2_reference Citizen Pin2 = PIN2_REFERENCE_PKCS15"
| "p2_reference Organizational Pin1 = PIN1_REFERENCE_ORGANIZATIONAL"
| "p2_reference Organizational Pin2 = PIN2_REFERENCE_ORGANIZATIONAL"

fun puk_reference :: "pin_reference_scheme \<Rightarrow> byte" where
  "puk_reference Citizen = PUK_REFERENCE_PKCS15"
| "puk_reference Organizational = PUK_REFERENCE_ORGANIZATIONAL"

subsection \<open>Outcomes\<close>

datatype puk_status = PukRemaining byte | PukNoInfo | PukStatusLocked | PukStatusInvalidated | PukStatusOther u16

datatype usage_counter = UsageExhausted | UsageLimited byte | UsageNoLimit
datatype unblocking_counter = UnblockingExhausted | UnblockingLimited byte | UnblockingNoLimit

record credential_policy_counters =
  usage :: usage_counter
  unblocking :: unblocking_counter

datatype verify_outcome = VerifyOk | WrongPin byte | VerifyLocked | VerifyOther u16

datatype change_pin_outcome = ChangeOk | WrongCurrentPin byte | ChangeLocked | ChangeLengthError | ChangeOther u16

datatype unblock_outcome =
    UnblockOk | WrongPuk byte | PukLocked | Invalidated | UnblockLengthError | UnblockOther u16

datatype pin_policy_reason = PolicyWrongLength nat nat | PolicyNonDigit

datatype 'e auth_error = AuthTransport "'e dispatch_error" | PinPolicy pin_policy_reason

fun classify_reset_retry_sw :: "status_word \<Rightarrow> unblock_outcome" where
  "classify_reset_retry_sw Success = UnblockOk"
| "classify_reset_retry_sw (PinIncorrect retries) = WrongPuk retries"
| "classify_reset_retry_sw AuthenticationBlocked = PukLocked"
| "classify_reset_retry_sw ReferenceDataInvalidated = Invalidated"
| "classify_reset_retry_sw WrongLength = UnblockLengthError"
| "classify_reset_retry_sw other = UnblockOther (sw_as_u16 other)"

fun classify_puk_status_sw :: "status_word \<Rightarrow> puk_status" where
  "classify_puk_status_sw (PinIncorrect retries) = PukRemaining retries"
| "classify_puk_status_sw AuthenticationFailed = PukNoInfo"
| "classify_puk_status_sw AuthenticationBlocked = PukStatusLocked"
| "classify_puk_status_sw ReferenceDataInvalidated = PukStatusInvalidated"
| "classify_puk_status_sw other = PukStatusOther (sw_as_u16 other)"

fun classify_change_pin_sw :: "status_word \<Rightarrow> change_pin_outcome" where
  "classify_change_pin_sw Success = ChangeOk"
| "classify_change_pin_sw (PinIncorrect retries) = WrongCurrentPin retries"
| "classify_change_pin_sw AuthenticationBlocked = ChangeLocked"
| "classify_change_pin_sw ReferenceDataInvalidated = ChangeLocked"
| "classify_change_pin_sw WrongLength = ChangeLengthError"
| "classify_change_pin_sw other = ChangeOther (sw_as_u16 other)"

fun classify_pin_status_sw :: "status_word \<Rightarrow> pin_status" where
  "classify_pin_status_sw Success = Verified"
| "classify_pin_status_sw (PinIncorrect retries) = Remaining retries"
| "classify_pin_status_sw AuthenticationFailed = NoInfo"
| "classify_pin_status_sw AuthenticationBlocked = Locked"
| "classify_pin_status_sw ReferenceDataInvalidated = Locked"
| "classify_pin_status_sw other = StatusOther (sw_as_u16 other)"

fun classify_verify_sw :: "status_word \<Rightarrow> verify_outcome" where
  "classify_verify_sw Success = VerifyOk"
| "classify_verify_sw (PinIncorrect retries) = WrongPin retries"
| "classify_verify_sw AuthenticationBlocked = VerifyLocked"
| "classify_verify_sw ReferenceDataInvalidated = VerifyLocked"
| "classify_verify_sw other = VerifyOther (sw_as_u16 other)"

subsection \<open>Commands\<close>

text \<open>\<open>u8::try_from(len)\<close> with an unreachable error arm.\<close>

definition lc_checked :: "bytes \<Rightarrow> ('e, byte) res" where
  "lc_checked data = (if length data \<le> 255 then Ok (word_of_nat (length data)) else Panic)"

datatype verify_mode = ModeVerify | ModeUnverify

fun mode_as_p1 :: "verify_mode \<Rightarrow> byte" where
  "mode_as_p1 ModeVerify = 0x00"
| "mode_as_p1 ModeUnverify = 0xFF"

datatype verify_data = Probe | PinBlock bytes

definition Verify_into_apdu ::
  "apdu_class \<Rightarrow> verify_mode \<Rightarrow> pin_slot \<Rightarrow> pin_reference_scheme \<Rightarrow> verify_data \<Rightarrow> ('e, command_apdu) res" where
  "Verify_into_apdu cls mode slot scheme data =
     (let pin_data = (case data of Probe \<Rightarrow> [] | PinBlock bs \<Rightarrow> bs) in
      and_then (lc_checked pin_data) (\<lambda>lc.
      Ok (CommandApdu_new ([class_as_byte cls, 0x20, mode_as_p1 mode, p2_reference scheme slot, lc] @ pin_data))))"

definition VerifyPukProbe_into_apdu :: "pin_reference_scheme \<Rightarrow> command_apdu" where
  "VerifyPukProbe_into_apdu scheme =
     CommandApdu_new [class_as_byte Plain, 0x20, mode_as_p1 ModeVerify, puk_reference scheme, 0x00]"

definition VerifyPuk_into_apdu :: "pin_reference_scheme \<Rightarrow> bytes \<Rightarrow> ('e, command_apdu) res" where
  "VerifyPuk_into_apdu scheme block =
     and_then (lc_checked block) (\<lambda>lc.
     Ok (CommandApdu_new ([class_as_byte Plain, 0x20, mode_as_p1 ModeVerify, puk_reference scheme, lc] @ block)))"

definition ResetRetryCounterVerifiedPuk_into_apdu ::
  "pin_slot \<Rightarrow> pin_reference_scheme \<Rightarrow> bytes \<Rightarrow> ('e, command_apdu) res" where
  "ResetRetryCounterVerifiedPuk_into_apdu slot scheme new_block =
     and_then (lc_checked new_block) (\<lambda>lc.
     Ok (CommandApdu_new ([0x00, 0x2C, 0x02, p2_reference scheme slot, lc] @ new_block)))"

definition ChangeReferenceData_into_apdu ::
  "pin_slot \<Rightarrow> pin_reference_scheme \<Rightarrow> bytes \<Rightarrow> ('e, command_apdu) res" where
  "ChangeReferenceData_into_apdu slot scheme padded_pair =
     and_then (lc_checked padded_pair) (\<lambda>lc.
     Ok (CommandApdu_new ([0x00, 0x24, 0x00, p2_reference scheme slot, lc] @ padded_pair)))"

definition ResetRetryCounter_into_apdu ::
  "pin_slot \<Rightarrow> pin_reference_scheme \<Rightarrow> bytes \<Rightarrow> ('e, command_apdu) res" where
  "ResetRetryCounter_into_apdu slot scheme padded_pair =
     and_then (lc_checked padded_pair) (\<lambda>lc.
     Ok (CommandApdu_new ([0x00, 0x2C, 0x00, p2_reference scheme slot, lc] @ padded_pair)))"

datatype pin_info_reference = User pin_slot | PukReference

fun pin_info_as_byte :: "pin_info_reference \<Rightarrow> byte" where
  "pin_info_as_byte (User slot) = slot_p2_reference slot"
| "pin_info_as_byte PukReference = PUK_REFERENCE_PKCS15"

definition for_reference :: "pin_info_reference \<Rightarrow> command_apdu" where
  "for_reference ref = CommandApdu_new
     [0x00, 0xCB, 0x00, 0xFF, 0x05, 0xA0, 0x03, 0x83, 0x01, pin_info_as_byte ref, 0x00]"

definition GetPinInfo_into_apdu :: "pin_slot \<Rightarrow> command_apdu" where
  "GetPinInfo_into_apdu slot = for_reference (User slot)"

definition GetPukInfo_into_apdu :: command_apdu where
  "GetPukInfo_into_apdu = for_reference PukReference"

text \<open>\<open>body.windows(n).find_map(f)\<close>.\<close>

fun find_window :: "nat \<Rightarrow> (bytes \<Rightarrow> 'a option) \<Rightarrow> bytes \<Rightarrow> 'a option" where
  "find_window n f [] = None"
| "find_window n f (b # body) =
     (if length (b # body) < n then None
      else case f (take n (b # body)) of Some x \<Rightarrow> Some x | None \<Rightarrow> find_window n f body)"

fun changed_flag_window :: "bytes \<Rightarrow> bool option" where
  "changed_flag_window [t, u, len, val] =
     (if t = 0xDF \<and> u = 0x2F \<and> len = 1 then Some (val = 1) else None)"
| "changed_flag_window _ = None"

definition changed_flag_from_response_body :: "bytes \<Rightarrow> bool option" where
  "changed_flag_from_response_body body = find_window 4 changed_flag_window body"

fun try_counter_window :: "bytes \<Rightarrow> byte option" where
  "try_counter_window [t, u, len, tries, _, _, _] =
     (if t = 0xDF \<and> u = 0x21 \<and> len = 4 then from_nibble tries else None)"
| "try_counter_window _ = None"

definition try_counter_from_response_body :: "bytes \<Rightarrow> byte option" where
  "try_counter_from_response_body body = find_window 7 try_counter_window body"

definition usage_of :: "byte \<Rightarrow> usage_counter" where
  "usage_of u = (if u = 0 then UsageExhausted else if u = 0xFF then UsageNoLimit else UsageLimited u)"

definition unblocking_of :: "byte \<Rightarrow> unblocking_counter option" where
  "unblocking_of u =
     (if u = 0 then Some UnblockingExhausted
      else if u = 0xA5 then Some UnblockingNoLimit
      else if u \<le> 0x0F then Some (UnblockingLimited u)
      else None)"

fun policy_counters_window :: "bytes \<Rightarrow> credential_policy_counters option" where
  "policy_counters_window [t, u, len, _, use_byte, unblock_byte, _] =
     (if t = 0xDF \<and> u = 0x21 \<and> len = 4
      then map_option (\<lambda>ub. \<lparr>usage = usage_of use_byte, unblocking = ub\<rparr>) (unblocking_of unblock_byte)
      else None)"
| "policy_counters_window _ = None"

definition policy_counters_from_response_body :: "bytes \<Rightarrow> credential_policy_counters option" where
  "policy_counters_from_response_body body = find_window 7 policy_counters_window body"

subsection \<open>Local policy\<close>

definition validate_ascii :: "bytes \<Rightarrow> nat \<Rightarrow> nat \<Rightarrow> ('e auth_error, unit) res" where
  "validate_ascii ascii minimum stored =
     (if length ascii < minimum \<or> stored < length ascii then Err (PinPolicy (PolicyWrongLength minimum stored))
      else if list_ex (\<lambda>b. \<not> is_ascii_digit b) ascii then Err (PinPolicy PolicyNonDigit)
      else Ok ())"

definition credential_block :: "pin_reference_scheme \<Rightarrow> nat \<Rightarrow> nat \<Rightarrow> bytes \<Rightarrow> ('e auth_error, bytes) res" where
  "credential_block scheme minimum stored ascii =
     (case scheme of
        Citizen \<Rightarrow>
          and_then (validate_ascii ascii minimum stored) (\<lambda>_.
          Ok (ascii @ replicate (stored - length ascii) PIN_PAD_BYTE))
      | Organizational \<Rightarrow>
          and_then (validate_ascii ascii minimum ORGANIZATIONAL_PIN_MAX_LENGTH) (\<lambda>_. Ok ascii))"

subsection \<open>Operations\<close>

definition dispatch :: "('t, 'e) card \<Rightarrow> command_apdu \<Rightarrow> 't \<Rightarrow> ('e auth_error, response_apdu) res \<times> 't" where
  "dispatch tx apdu t = (case transmit tx t (apdu_bytes apdu) of (r, t') \<Rightarrow> (map_err AuthTransport r, t'))"

definition verify_pin_with_scheme ::
  "('t, 'e) card \<Rightarrow> pin_slot \<Rightarrow> pin_reference_scheme \<Rightarrow> pin_bytes \<Rightarrow> 't \<Rightarrow> ('e auth_error, verify_outcome) res \<times> 't" where
  "verify_pin_with_scheme tx slot scheme pin t =
     tx_then (credential_block scheme (min_length slot) (stored_length slot) (pin_as_bytes pin), t) (\<lambda>block t.
     tx_then (Verify_into_apdu Plain ModeVerify slot scheme (PinBlock block), t) (\<lambda>apdu t.
     tx_then (dispatch tx apdu t) (\<lambda>r t.
     (Ok (classify_verify_sw (status_word_of r)), t))))"

definition verify_pin ::
  "('t, 'e) card \<Rightarrow> pin_slot \<Rightarrow> pin_bytes \<Rightarrow> 't \<Rightarrow> ('e auth_error, verify_outcome) res \<times> 't" where
  "verify_pin tx slot pin t = verify_pin_with_scheme tx slot Citizen pin t"

definition verify_pin1 :: "('t, 'e) card \<Rightarrow> pin_bytes \<Rightarrow> 't \<Rightarrow> ('e auth_error, verify_outcome) res \<times> 't" where
  "verify_pin1 tx pin t = verify_pin tx Pin1 pin t"

definition change_pin_with_scheme ::
  "('t, 'e) card \<Rightarrow> pin_slot \<Rightarrow> pin_reference_scheme \<Rightarrow> pin_bytes \<Rightarrow> pin_bytes \<Rightarrow> 't \<Rightarrow>
   ('e auth_error, change_pin_outcome) res \<times> 't" where
  "change_pin_with_scheme tx slot scheme current_pin new_pin t =
     (let stored = stored_length slot; minimum = min_length slot in
      tx_then (credential_block scheme minimum stored (pin_as_bytes current_pin), t) (\<lambda>current_block t.
      tx_then (credential_block scheme minimum stored (pin_as_bytes new_pin), t) (\<lambda>new_block t.
      tx_then (ChangeReferenceData_into_apdu slot scheme (current_block @ new_block), t) (\<lambda>apdu t.
      tx_then (dispatch tx apdu t) (\<lambda>r t.
      (Ok (classify_change_pin_sw (status_word_of r)), t))))))"

definition change_pin ::
  "('t, 'e) card \<Rightarrow> pin_slot \<Rightarrow> pin_bytes \<Rightarrow> pin_bytes \<Rightarrow> 't \<Rightarrow> ('e auth_error, change_pin_outcome) res \<times> 't" where
  "change_pin tx slot current_pin new_pin t = change_pin_with_scheme tx slot Citizen current_pin new_pin t"

definition change_pin1 ::
  "('t, 'e) card \<Rightarrow> pin_bytes \<Rightarrow> pin_bytes \<Rightarrow> 't \<Rightarrow> ('e auth_error, change_pin_outcome) res \<times> 't" where
  "change_pin1 tx current_pin new_pin t = change_pin tx Pin1 current_pin new_pin t"

definition reset_citizen ::
  "('t, 'e) card \<Rightarrow> pin_slot \<Rightarrow> bytes \<Rightarrow> bytes \<Rightarrow> 't \<Rightarrow> ('e auth_error, unblock_outcome) res \<times> 't" where
  "reset_citizen tx slot puk_ascii new_ascii t =
     (let target_min = min_length slot; target_stored = stored_length slot in
      tx_then (validate_ascii puk_ascii PUK_MIN_LENGTH PUK_MAX_LENGTH, t) (\<lambda>_ t.
      tx_then (validate_ascii new_ascii target_min target_stored, t) (\<lambda>_ t.
      let padded = puk_ascii @ replicate (PUK_STORED_LENGTH - length puk_ascii) PIN_PAD_BYTE @
            new_ascii @ replicate (target_stored - length new_ascii) PIN_PAD_BYTE in
      tx_then (ResetRetryCounter_into_apdu slot Citizen padded, t) (\<lambda>apdu t.
      tx_then (dispatch tx apdu t) (\<lambda>r t.
      (Ok (classify_reset_retry_sw (status_word_of r)), t))))))"

definition reset_organizational ::
  "('t, 'e) card \<Rightarrow> pin_slot \<Rightarrow> bytes \<Rightarrow> bytes \<Rightarrow> 't \<Rightarrow> ('e auth_error, unblock_outcome) res \<times> 't" where
  "reset_organizational tx slot puk_ascii new_ascii t =
     tx_then (credential_block Organizational ORGANIZATIONAL_PIN_MIN_LENGTH ORGANIZATIONAL_PIN_MAX_LENGTH
       puk_ascii, t) (\<lambda>code_block t.
     tx_then (credential_block Organizational (min_length slot) ORGANIZATIONAL_PIN_MAX_LENGTH
       new_ascii, t) (\<lambda>new_block t.
     tx_then (VerifyPuk_into_apdu Organizational code_block, t) (\<lambda>verify t.
     tx_then (dispatch tx verify t) (\<lambda>verified t.
     case classify_verify_sw (status_word_of verified) of
       WrongPin retries_left \<Rightarrow> (Ok (WrongPuk retries_left), t)
     | VerifyLocked \<Rightarrow> (Ok PukLocked, t)
     | VerifyOther sw \<Rightarrow> (Ok (UnblockOther sw), t)
     | VerifyOk \<Rightarrow>
         tx_then (ResetRetryCounterVerifiedPuk_into_apdu slot Organizational new_block, t) (\<lambda>reset t.
         tx_then (dispatch tx reset t) (\<lambda>r t.
         (Ok (classify_reset_retry_sw (status_word_of r)), t)))))))"

definition reset_retry_counter_with_scheme ::
  "('t, 'e) card \<Rightarrow> pin_slot \<Rightarrow> pin_reference_scheme \<Rightarrow> pin_bytes \<Rightarrow> pin_bytes \<Rightarrow> 't \<Rightarrow>
   ('e auth_error, unblock_outcome) res \<times> 't" where
  "reset_retry_counter_with_scheme tx slot scheme puk new_pin t =
     (case scheme of
        Citizen \<Rightarrow> reset_citizen tx slot (pin_as_bytes puk) (pin_as_bytes new_pin) t
      | Organizational \<Rightarrow> reset_organizational tx slot (pin_as_bytes puk) (pin_as_bytes new_pin) t)"

definition reset_retry_counter ::
  "('t, 'e) card \<Rightarrow> pin_slot \<Rightarrow> pin_bytes \<Rightarrow> pin_bytes \<Rightarrow> 't \<Rightarrow> ('e auth_error, unblock_outcome) res \<times> 't" where
  "reset_retry_counter tx slot puk new_pin t = reset_retry_counter_with_scheme tx slot Citizen puk new_pin t"

definition unblock_pin1 ::
  "('t, 'e) card \<Rightarrow> pin_bytes \<Rightarrow> pin_bytes \<Rightarrow> 't \<Rightarrow> ('e auth_error, unblock_outcome) res \<times> 't" where
  "unblock_pin1 tx puk new_pin t = reset_retry_counter tx Pin1 puk new_pin t"

text \<open>The status probes.\<close>

definition pin_status_with_scheme ::
  "('t, 'e) card \<Rightarrow> pin_slot \<Rightarrow> pin_reference_scheme \<Rightarrow> 't \<Rightarrow> ('e auth_error, pin_status) res \<times> 't" where
  "pin_status_with_scheme tx slot scheme t =
     tx_then (Verify_into_apdu Plain ModeVerify slot scheme Probe, t) (\<lambda>apdu t.
     tx_then (dispatch tx apdu t) (\<lambda>r t.
     (Ok (classify_pin_status_sw (status_word_of r)), t)))"

definition pin_status_of :: "('t, 'e) card \<Rightarrow> pin_slot \<Rightarrow> 't \<Rightarrow> ('e auth_error, pin_status) res \<times> 't" where
  "pin_status_of tx slot t = pin_status_with_scheme tx slot Citizen t"

definition reference_probe_sw ::
  "('t, 'e) card \<Rightarrow> pin_reference_scheme \<Rightarrow> 't \<Rightarrow> ('e auth_error, status_word) res \<times> 't" where
  "reference_probe_sw tx scheme t =
     tx_then (Verify_into_apdu Plain ModeVerify Pin1 scheme Probe, t) (\<lambda>apdu t.
     tx_then (dispatch tx apdu t) (\<lambda>r t. (Ok (status_word_of r), t)))"

definition resolve_pin_reference_scheme ::
  "('t, 'e) card \<Rightarrow> 't \<Rightarrow> ('e auth_error, pin_reference_scheme) res \<times> 't" where
  "resolve_pin_reference_scheme tx t =
     tx_then (reference_probe_sw tx Citizen t) (\<lambda>citizen t.
     if citizen \<noteq> ReferenceDataNotFound then (Ok Citizen, t)
     else
       tx_then (reference_probe_sw tx Organizational t) (\<lambda>organizational t.
       (Ok (case classify_pin_status_sw organizational of
              StatusOther _ \<Rightarrow> Citizen
            | _ \<Rightarrow> Organizational), t)))"

definition puk_status_of :: "('t, 'e) card \<Rightarrow> 't \<Rightarrow> ('e auth_error, puk_status) res \<times> 't" where
  "puk_status_of tx t =
     tx_then (dispatch tx GetPukInfo_into_apdu t) (\<lambda>r t.
     if response_is_ok r
     then (Ok (case try_counter_from_response_body (resp_body r) of
                 None \<Rightarrow> PukNoInfo | Some tries \<Rightarrow> PukRemaining tries), t)
     else (Ok (classify_puk_status_sw (status_word_of r)), t))"

definition puk_status_with_scheme ::
  "('t, 'e) card \<Rightarrow> pin_reference_scheme \<Rightarrow> 't \<Rightarrow> ('e auth_error, puk_status) res \<times> 't" where
  "puk_status_with_scheme tx scheme t =
     (case scheme of
        Citizen \<Rightarrow> puk_status_of tx t
      | Organizational \<Rightarrow>
          tx_then (dispatch tx (VerifyPukProbe_into_apdu scheme) t) (\<lambda>r t.
          (Ok (case classify_pin_status_sw (status_word_of r) of
                 Remaining retries \<Rightarrow> PukRemaining retries
               | Verified \<Rightarrow> PukNoInfo
               | NoInfo \<Rightarrow> PukNoInfo
               | Locked \<Rightarrow> PukStatusLocked
               | StatusOther sw \<Rightarrow> PukStatusOther sw), t)))"

text \<open>The four \<open>GET DATA\<close> queries return \<open>None\<close> for every status word but success.\<close>

definition query_info :: "('t, 'e) card \<Rightarrow> command_apdu \<Rightarrow> (bytes \<Rightarrow> 'a option) \<Rightarrow> 't \<Rightarrow> ('e auth_error, 'a option) res \<times> 't" where
  "query_info tx apdu parse t =
     tx_then (dispatch tx apdu t) (\<lambda>r t.
     if \<not> response_is_ok r then (Ok None, t) else (Ok (parse (resp_body r)), t))"

definition pin_policy_counters ::
  "('t, 'e) card \<Rightarrow> pin_slot \<Rightarrow> 't \<Rightarrow> ('e auth_error, credential_policy_counters option) res \<times> 't" where
  "pin_policy_counters tx slot t = query_info tx (GetPinInfo_into_apdu slot) policy_counters_from_response_body t"

definition puk_policy_counters ::
  "('t, 'e) card \<Rightarrow> 't \<Rightarrow> ('e auth_error, credential_policy_counters option) res \<times> 't" where
  "puk_policy_counters tx t = query_info tx GetPukInfo_into_apdu policy_counters_from_response_body t"

definition pin_changed_flag :: "('t, 'e) card \<Rightarrow> pin_slot \<Rightarrow> 't \<Rightarrow> ('e auth_error, bool option) res \<times> 't" where
  "pin_changed_flag tx slot t = query_info tx (GetPinInfo_into_apdu slot) changed_flag_from_response_body t"

subsection \<open>Transport plumbing\<close>

lemma dispatch_logged [simp]:
  "dispatch (logged tx) apdu (t, sent) =
     (case dispatch tx apdu t of (r, t') \<Rightarrow> (r, t', sent @ [apdu_bytes apdu]))"
  by (simp add: dispatch_def split: prod.splits)

text \<open>What the last dispatch of an operation contributes: its answer is classified, a transport failure
  is handed on.\<close>

definition answered :: "('s \<Rightarrow> 'o) \<Rightarrow> ('e, 's) res \<Rightarrow> ('e, 'o) res" where
  "answered classify r = and_then r (\<lambda>a. Ok (classify a))"

lemma tx_then_answered:
  "tx_then (dispatch tx apdu t) (\<lambda>r t. (Ok (f r), t)) =
     (case dispatch tx apdu t of (r, t') \<Rightarrow> (answered f r, t'))"
  by (cases "dispatch tx apdu t"; cases "fst (dispatch tx apdu t)")
    (auto simp: answered_def)

lemma tx_then_answered_pair:
  "tx_then (r, t) (\<lambda>r t. (Ok (f r), t)) = (answered f r, t)"
  by (cases r) (auto simp: answered_def)

subsection \<open>Credential blocks\<close>

definition stored_limit :: "pin_reference_scheme \<Rightarrow> nat \<Rightarrow> nat" where
  "stored_limit scheme stored = (case scheme of Citizen \<Rightarrow> stored | Organizational \<Rightarrow> ORGANIZATIONAL_PIN_MAX_LENGTH)"

text \<open>The check of a credential, and the padded block of one that passes.\<close>

definition acceptable :: "bytes \<Rightarrow> nat \<Rightarrow> nat \<Rightarrow> bool" where
  "acceptable ascii lo hi \<longleftrightarrow> lo \<le> length ascii \<and> length ascii \<le> hi \<and> digits ascii"

definition policy_error :: "bytes \<Rightarrow> nat \<Rightarrow> nat \<Rightarrow> pin_policy_reason" where
  "policy_error ascii lo hi =
     (if lo \<le> length ascii \<and> length ascii \<le> hi then PolicyNonDigit else PolicyWrongLength lo hi)"

definition padded :: "pin_reference_scheme \<Rightarrow> nat \<Rightarrow> bytes \<Rightarrow> bytes" where
  "padded scheme stored ascii =
     (case scheme of Citizen \<Rightarrow> ascii @ replicate (stored - length ascii) PIN_PAD_BYTE | Organizational \<Rightarrow> ascii)"

lemma validate_ascii_exact:
  "validate_ascii ascii lo hi =
     (if acceptable ascii lo hi then Ok () else Err (PinPolicy (policy_error ascii lo hi)))"
  by (auto simp: validate_ascii_def acceptable_def policy_error_def digits_def list_ex_iff list_all_iff not_less)

lemma credential_block_exact:
  "credential_block scheme lo stored ascii =
     (if acceptable ascii lo (stored_limit scheme stored) then Ok (padded scheme stored ascii)
      else Err (PinPolicy (policy_error ascii lo (stored_limit scheme stored))))"
  by (cases scheme) (simp_all add: credential_block_def validate_ascii_exact stored_limit_def padded_def)

lemma length_padded:
  "acceptable ascii lo (stored_limit scheme stored) \<Longrightarrow> length (padded scheme stored ascii) \<le> max stored 8"
  by (cases scheme) (auto simp: padded_def acceptable_def stored_limit_def)

lemma lc_checked_Ok: "length data \<le> 255 \<Longrightarrow> lc_checked data = Ok (word_of_nat (length data))"
  by (simp add: lc_checked_def)

lemma digit_not_pad: "digits ascii \<Longrightarrow> PIN_PAD_BYTE \<notin> set ascii"
  by (auto simp: digits_def list_all_iff is_ascii_digit_def word_le_nat_alt)

text \<open>Padding is undone by cutting at the first pad byte, which no digit equals.\<close>

lemma padded_undo: "digits ascii \<Longrightarrow> takeWhile (\<lambda>b. b \<noteq> PIN_PAD_BYTE) (padded scheme stored ascii) = ascii"
proof (cases scheme)
  case Citizen
  assume "digits ascii"
  then have all: "\<forall>b \<in> set ascii. b \<noteq> PIN_PAD_BYTE" using digit_not_pad by auto
  have "takeWhile (\<lambda>b. b \<noteq> PIN_PAD_BYTE) (ascii @ replicate n PIN_PAD_BYTE) = ascii" for n
    using all by (cases n) (simp_all add: takeWhile_append2)
  then show ?thesis using Citizen by (simp add: padded_def)
next
  case Organizational
  assume "digits ascii"
  then show ?thesis using Organizational digit_not_pad [of ascii]
    by (auto simp: padded_def takeWhile_eq_all_conv)
qed

subsection \<open>Searching a response body\<close>

lemma find_window_Some:
  "find_window n f body = Some x \<longleftrightarrow>
   (\<exists>i. i + n \<le> length body \<and> i < length body \<and> f (take n (drop i body)) = Some x
      \<and> (\<forall>j < i. f (take n (drop j body)) = None))"
proof (induction body)
  case (Cons b body)
  show ?case
  proof (cases "length (b # body) < n")
    case False
    show ?thesis
    proof (cases "f (take n (b # body))")
      case None
      have "find_window n f (b # body) = Some x \<longleftrightarrow>
        (\<exists>i. Suc i + n \<le> length (b # body) \<and> Suc i < length (b # body)
          \<and> f (take n (drop (Suc i) (b # body))) = Some x
          \<and> (\<forall>j < Suc i. f (take n (drop j (b # body))) = None))"
        using Cons.IH None False by (simp add: All_less_Suc2)
      then show ?thesis using None by (metis (no_types, lifting) drop0 not0_implies_Suc option.distinct(1))
    next
      case (Some y)
      then have "find_window n f (b # body) = Some x \<longleftrightarrow> x = y" using False by auto
      moreover have "(\<exists>i. i + n \<le> length (b # body) \<and> i < length (b # body)
          \<and> f (take n (drop i (b # body))) = Some x
          \<and> (\<forall>j < i. f (take n (drop j (b # body))) = None)) \<longleftrightarrow> x = y"
        using Some False by (metis (no_types, lifting) add_0 drop0 gr_zeroI length_greater_0_conv
            list.distinct(1) not_less option.distinct(1) option.inject less_nat_zero_code)
      ultimately show ?thesis by simp
    qed
  qed auto
qed simp

subsection \<open>Status words\<close>

lemma status_word_of_sw: "status_word_of r = sw_from_u16 (response_sw r)"
  by (simp add: status_word_of_def sw_from_bytes_def response_sw_def u16_from_be_bytes_def)

definition credential_present :: "u16 \<Rightarrow> bool" where
  "credential_present sw \<longleftrightarrow> sw \<in> {0x9000, 0x6300, 0x6983, 0x6984} \<or> sw AND 0xFFF0 = 0x63C0"

lemma reference_not_found_iff: "sw_from_u16 sw = ReferenceDataNotFound \<longleftrightarrow> sw = 0x6A88"
  by (auto simp: sw_from_u16_def)

lemma pin_status_recognised:
  "(case classify_pin_status_sw (sw_from_u16 sw) of StatusOther _ \<Rightarrow> Citizen | _ \<Rightarrow> Organizational)
   = (if credential_present sw then Organizational else Citizen)"
  by (auto simp: sw_from_u16_def credential_present_def)

lemma verify_sw_exact:
  "(classify_verify_sw (sw_from_u16 sw) = VerifyOk) = (sw = 0x9000)"
  "(classify_verify_sw (sw_from_u16 sw) = VerifyLocked) = (sw = 0x6983 \<or> sw = 0x6984)"
  "(classify_verify_sw (sw_from_u16 sw) = WrongPin n) = (sw AND 0xFFF0 = 0x63C0 \<and> n = u16_lo sw AND 0x0F)"
  by (auto simp: sw_from_u16_def)

subsection \<open>What the operations send\<close>

definition command_bytes :: "byte \<Rightarrow> byte \<Rightarrow> byte \<Rightarrow> bytes \<Rightarrow> bytes" where
  "command_bytes ins p1 p2 data = [0x00, ins, p1, p2, word_of_nat (length data)] @ data"

text \<open>One command, its answer classified, the command logged.\<close>

definition exchanged ::
  "('t, 'e) card \<Rightarrow> bytes \<Rightarrow> (status_word \<Rightarrow> 'o) \<Rightarrow> 't \<times> bytes list \<Rightarrow> ('e auth_error, 'o) res \<times> 't \<times> bytes list" where
  "exchanged tx cmd classify s = (case dispatch tx (CommandApdu_new cmd) (fst s) of
     (r, t') \<Rightarrow> (answered (classify \<circ> status_word_of) r, t', snd s @ [cmd]))"

lemma dispatch_exchanged:
  "tx_then (dispatch (logged tx) (CommandApdu_new cmd) (t, sent)) (\<lambda>r s. (Ok (classify (status_word_of r)), s))
     = exchanged tx cmd classify (t, sent)"
proof -
  obtain r t' where "dispatch tx (CommandApdu_new cmd) t = (r, t')" by fastforce
  then show ?thesis
    by (cases r) (simp_all add: exchanged_def answered_def CommandApdu_new_def)
qed

lemmas exchange_simps = command_bytes_def lc_checked_Ok validate_ascii_exact credential_block_exact
  stored_limit_def padded_def acceptable_def

lemma verify_apdu_exact:
  "length block \<le> 255 \<Longrightarrow>
   Verify_into_apdu Plain ModeVerify slot scheme (PinBlock block)
     = Ok (CommandApdu_new (command_bytes 0x20 0x00 (p2_reference scheme slot) block))"
  by (simp add: Verify_into_apdu_def lc_checked_Ok command_bytes_def)

lemma probe_apdu_exact:
  "Verify_into_apdu Plain ModeVerify slot scheme Probe
     = Ok (CommandApdu_new (command_bytes 0x20 0x00 (p2_reference scheme slot) []))"
  by (simp add: Verify_into_apdu_def lc_checked_Ok command_bytes_def)

lemma change_apdu_exact:
  "length pair \<le> 255 \<Longrightarrow>
   ChangeReferenceData_into_apdu slot scheme pair
     = Ok (CommandApdu_new (command_bytes 0x24 0x00 (p2_reference scheme slot) pair))"
  by (simp add: ChangeReferenceData_into_apdu_def lc_checked_Ok command_bytes_def)

lemma reset_apdu_exact:
  "length pair \<le> 255 \<Longrightarrow>
   ResetRetryCounter_into_apdu slot scheme pair
     = Ok (CommandApdu_new (command_bytes 0x2C 0x00 (p2_reference scheme slot) pair))"
  by (simp add: ResetRetryCounter_into_apdu_def lc_checked_Ok command_bytes_def)

lemma reset_verified_apdu_exact:
  "length block \<le> 255 \<Longrightarrow>
   ResetRetryCounterVerifiedPuk_into_apdu slot scheme block
     = Ok (CommandApdu_new (command_bytes 0x2C 0x02 (p2_reference scheme slot) block))"
  by (simp add: ResetRetryCounterVerifiedPuk_into_apdu_def lc_checked_Ok command_bytes_def)

lemma verify_puk_apdu_exact:
  "length block \<le> 255 \<Longrightarrow>
   VerifyPuk_into_apdu scheme block = Ok (CommandApdu_new (command_bytes 0x20 0x00 (puk_reference scheme) block))"
  by (simp add: VerifyPuk_into_apdu_def lc_checked_Ok command_bytes_def)

lemma stored_length_12 [simp]: "stored_length slot = 12"
  by (cases slot) simp_all

lemma padded_fits:
  "acceptable ascii lo (stored_limit scheme 12) \<Longrightarrow> length (padded scheme 12 ascii) \<le> 12"
  using length_padded [of ascii lo scheme 12] by simp

lemma padded_pair_fits:
  assumes "acceptable a lo (stored_limit scheme 12)" and "acceptable b lo' (stored_limit scheme 12)"
  shows "length (padded scheme 12 a @ padded scheme 12 b) \<le> 255"
  using padded_fits [OF assms(1)] padded_fits [OF assms(2)] by simp

lemma stored_limit_Citizen [simp]: "stored_limit Citizen n = n"
  by (simp add: stored_limit_def)

text \<open>C13. Verifying and changing a PIN: a credential that breaks the slot's length rule or has a
  character other than a digit gives the policy error and nothing is sent, whatever the transport; any
  other credential is sent in exactly one command, padded to twelve bytes under the citizen numbering
  and unpadded under the organizational one, and the outcome is the classified answer of the card or the
  transport's failure.\<close>

theorem verify_and_change_send_exactly:
  "verify_pin_with_scheme (logged tx) slot scheme pin (t, sent) =
     (let ds = pin_as_bytes pin; lo = min_length slot; hi = stored_limit scheme 12 in
      if acceptable ds lo hi
      then exchanged tx (command_bytes 0x20 0x00 (p2_reference scheme slot) (padded scheme 12 ds))
             classify_verify_sw (t, sent)
      else (Err (PinPolicy (policy_error ds lo hi)), t, sent))
   \<and> change_pin_with_scheme (logged tx) slot scheme old new (t, sent) =
     (let os = pin_as_bytes old; ns = pin_as_bytes new; lo = min_length slot; hi = stored_limit scheme 12 in
      if \<not> acceptable os lo hi then (Err (PinPolicy (policy_error os lo hi)), t, sent)
      else if \<not> acceptable ns lo hi then (Err (PinPolicy (policy_error ns lo hi)), t, sent)
      else exchanged tx (command_bytes 0x24 0x00 (p2_reference scheme slot)
             (padded scheme 12 os @ padded scheme 12 ns)) classify_change_pin_sw (t, sent))"
proof (intro conjI)
  show "verify_pin_with_scheme (logged tx) slot scheme pin (t, sent) =
     (let ds = pin_as_bytes pin; lo = min_length slot; hi = stored_limit scheme 12 in
      if acceptable ds lo hi
      then exchanged tx (command_bytes 0x20 0x00 (p2_reference scheme slot) (padded scheme 12 ds))
             classify_verify_sw (t, sent)
      else (Err (PinPolicy (policy_error ds lo hi)), t, sent))"
    by (cases "acceptable (pin_as_bytes pin) (min_length slot) (stored_limit scheme 12)")
      (simp_all add: verify_pin_with_scheme_def credential_block_exact dispatch_exchanged
        verify_apdu_exact [OF order_trans [OF padded_fits]] Let_def del: dispatch_logged)
  show "change_pin_with_scheme (logged tx) slot scheme old new (t, sent) =
     (let os = pin_as_bytes old; ns = pin_as_bytes new; lo = min_length slot; hi = stored_limit scheme 12 in
      if \<not> acceptable os lo hi then (Err (PinPolicy (policy_error os lo hi)), t, sent)
      else if \<not> acceptable ns lo hi then (Err (PinPolicy (policy_error ns lo hi)), t, sent)
      else exchanged tx (command_bytes 0x24 0x00 (p2_reference scheme slot)
             (padded scheme 12 os @ padded scheme 12 ns)) classify_change_pin_sw (t, sent))"
    by (cases "acceptable (pin_as_bytes old) (min_length slot) (stored_limit scheme 12)";
        cases "acceptable (pin_as_bytes new) (min_length slot) (stored_limit scheme 12)")
      (simp_all add: change_pin_with_scheme_def credential_block_exact dispatch_exchanged
        change_apdu_exact [OF padded_pair_fits] Let_def del: dispatch_logged)
qed


subsection \<open>Status queries\<close>

text \<open>The queries of the trait that carry no credential.\<close>

datatype status_query =
    QPinStatus pin_slot pin_reference_scheme
  | QResolveScheme
  | QPukStatus pin_reference_scheme
  | QPinCounters pin_slot
  | QPukCounters
  | QChangedFlag pin_slot

fun query_commands :: "('t, 'e) card \<Rightarrow> status_query \<Rightarrow> 't \<Rightarrow> bytes list" where
  "query_commands tx (QPinStatus slot scheme) t = snd (snd (pin_status_with_scheme (logged tx) slot scheme (t, [])))"
| "query_commands tx QResolveScheme t = snd (snd (resolve_pin_reference_scheme (logged tx) (t, [])))"
| "query_commands tx (QPukStatus scheme) t = snd (snd (puk_status_with_scheme (logged tx) scheme (t, [])))"
| "query_commands tx (QPinCounters slot) t = snd (snd (pin_policy_counters (logged tx) slot (t, [])))"
| "query_commands tx QPukCounters t = snd (snd (puk_policy_counters (logged tx) (t, [])))"
| "query_commands tx (QChangedFlag slot) t = snd (snd (pin_changed_flag (logged tx) slot (t, [])))"

text \<open>A command that cannot cost an attempt: \<open>VERIFY\<close> without data, or \<open>GET DATA\<close>.\<close>

definition spends_no_attempt :: "bytes \<Rightarrow> bool" where
  "spends_no_attempt cmd \<longleftrightarrow>
     (length cmd = 5 \<and> cmd ! 1 = 0x20 \<and> cmd ! 4 = 0) \<or> (5 \<le> length cmd \<and> cmd ! 1 = 0xCB)"

lemma single_command:
  assumes "\<And>r s. snd (f r s) = s"
  shows "snd (snd (tx_then (dispatch (logged tx) apdu (t, sent)) f)) = sent @ [apdu_bytes apdu]"
proof -
  obtain r t' where "dispatch tx apdu t = (r, t')" by fastforce
  then show ?thesis using assms by (cases r) simp_all
qed

lemma query_info_commands: "snd (snd (query_info (logged tx) apdu parse (t, sent))) = sent @ [apdu_bytes apdu]"
  unfolding query_info_def by (rule single_command) simp

lemma reference_probe_exact:
  "reference_probe_sw tx scheme t =
     (case dispatch tx (CommandApdu_new (command_bytes 0x20 0x00 (p2_reference scheme Pin1) [])) t of
        (r, t') \<Rightarrow> (answered status_word_of r, t'))"
  by (simp add: reference_probe_sw_def probe_apdu_exact tx_then_answered)

lemma resolve_commands:
  "snd (snd (resolve_pin_reference_scheme (logged tx) (t, []))) \<in>
     {[command_bytes 0x20 0x00 0x11 []], [command_bytes 0x20 0x00 0x11 [], command_bytes 0x20 0x00 0x03 []]}"
proof -
  have b: "apdu_bytes (CommandApdu_new bs) = bs" for bs by (simp add: CommandApdu_new_def)
  obtain r t1 where d: "dispatch tx (CommandApdu_new (command_bytes 0x20 0x00 0x11 [])) t = (r, t1)" by fastforce
  obtain r' t2 where d': "dispatch tx (CommandApdu_new (command_bytes 0x20 0x00 0x03 [])) t1 = (r', t2)" by fastforce
  show ?thesis using d d'
    by (cases r; cases r') (simp_all add: resolve_pin_reference_scheme_def reference_probe_exact answered_def b)
qed

text \<open>C15. Asking for the state of a credential never costs an attempt: whatever the card answers, the
  status queries send one command, the resolution of the numbering at most two, and every command is a
  \<open>VERIFY\<close> without data or a \<open>GET DATA\<close>.\<close>

theorem status_queries_spend_no_attempt:
  "list_all spends_no_attempt (query_commands tx q t)
   \<and> length (query_commands tx q t) \<in> (if q = QResolveScheme then {1, 2} else {1})"
proof -
  have b: "apdu_bytes (CommandApdu_new bs) = bs" for bs by (simp add: CommandApdu_new_def)
  have info: "spends_no_attempt (apdu_bytes (for_reference ref))" for ref
    by (simp add: spends_no_attempt_def for_reference_def b)
  have probe: "spends_no_attempt (command_bytes 0x20 p1 p2 [])" for p1 p2
    by (simp add: spends_no_attempt_def command_bytes_def)
  have puk: "spends_no_attempt (apdu_bytes (VerifyPukProbe_into_apdu scheme))" for scheme
    by (simp add: spends_no_attempt_def VerifyPukProbe_into_apdu_def b)
  show ?thesis
  proof (cases q)
    case (QPinStatus slot scheme)
    then show ?thesis
      by (simp add: pin_status_with_scheme_def probe_apdu_exact single_command b probe del: dispatch_logged)
  next
    case QResolveScheme
    then show ?thesis using resolve_commands [of tx t] probe by auto
  next
    case (QPukStatus scheme)
    then show ?thesis
      by (cases scheme) (simp_all add: puk_status_with_scheme_def puk_status_of_def single_command info puk
          GetPukInfo_into_apdu_def del: dispatch_logged)
  qed (simp_all add: pin_policy_counters_def puk_policy_counters_def pin_changed_flag_def query_info_commands
      GetPinInfo_into_apdu_def GetPukInfo_into_apdu_def info)
qed

text \<open>The numbering is resolved from the status words alone: it is organizational exactly if the
  citizen reference is unknown to the card (6A88) and the organizational one answers with the state of a
  credential (9000, 6300, 63Cx, 6983 or 6984); a transport failure of either probe is handed on.\<close>

theorem resolve_scheme_exact:
  "resolve_pin_reference_scheme tx t =
     (case dispatch tx (CommandApdu_new [0x00, 0x20, 0x00, 0x11, 0x00]) t of
        (Ok r, t1) \<Rightarrow>
          if response_sw r \<noteq> 0x6A88 then (Ok Citizen, t1)
          else (case dispatch tx (CommandApdu_new [0x00, 0x20, 0x00, 0x03, 0x00]) t1 of
                  (Ok r', t2) \<Rightarrow> (Ok (if credential_present (response_sw r') then Organizational else Citizen), t2)
                | (Err e, t2) \<Rightarrow> (Err e, t2)
                | (Panic, t2) \<Rightarrow> (Panic, t2))
      | (Err e, t1) \<Rightarrow> (Err e, t1)
      | (Panic, t1) \<Rightarrow> (Panic, t1))"
  by (simp add: resolve_pin_reference_scheme_def reference_probe_exact answered_def command_bytes_def
      status_word_of_sw reference_not_found_iff pin_status_recognised split: prod.splits res.splits)

text \<open>The block sent to the card determines the credential: two credentials accepted for the same
  slot and numbering with the same block are equal.\<close>

theorem credential_block_lossless:
  assumes "credential_block scheme lo stored a = Ok block" and "credential_block scheme lo stored b = Ok block"
  shows "a = b \<and> length block \<le> max stored 8 \<and> (scheme = Citizen \<longrightarrow> length block = stored)"
proof -
  have ok: "digits a" "padded scheme stored a = block" "digits b" "padded scheme stored b = block"
    "acceptable a lo (stored_limit scheme stored)"
    using assms by (auto simp: credential_block_exact acceptable_def split: if_splits)
  have "a = b" using ok padded_undo by metis
  moreover have "scheme = Citizen \<longrightarrow> length block = stored"
    using ok(2,5) by (auto simp: padded_def acceptable_def stored_limit_def)
  ultimately show ?thesis using length_padded [OF ok(5)] ok(2) by simp
qed

theorem credential_block_lossless_witness:
  "credential_block Citizen 4 12 (str_bytes ''1234'') =
     (Ok ([0x31, 0x32, 0x33, 0x34, 0, 0, 0, 0, 0, 0, 0, 0]) :: (unit auth_error, bytes) res)
   \<and> length [0x31, 0x32, 0x33, 0x34, 0, 0, 0, 0, 0, 0, 0, 0 :: byte] = 12"
proof -
  have block: "credential_block Citizen 4 12 (str_bytes ''1234'') =
     (Ok ([0x31, 0x32, 0x33, 0x34, 0, 0, 0, 0, 0, 0, 0, 0]) :: (unit auth_error, bytes) res)"
    by code_simp
  from credential_block_lossless [OF block block] block show ?thesis by simp
qed

end
