(* ===== verification/Btree_Map.thy ===== *)
theory Btree_Map
  imports Prelude "HOL-Library.Char_ord" "HOL-Library.List_Lexorder"
begin

text \<open>
  Rust's \<open>BTreeMap\<close> as the source uses it: \<open>new\<close>, \<open>insert\<close>, \<open>get\<close>, \<open>remove\<close>,
  \<open>contains_key\<close>, \<open>is_empty\<close>, \<open>len\<close> and iteration in key order. The map is the list
  of its entries in iteration order; the invariant \<open>bt_ok\<close> says that the keys
  ascend strictly, so that equality of maps is equality of lists.

  The interface the message layers rely on is the locale \<open>ordered_map\<close>: lookups
  after insertions and removals, preservation of the invariant, and
  extensionality. It is interpreted on the list operations at the end.
\<close>

type_synonym ('k, 'v) btree_map = "('k \<times> 'v) list"

abbreviation bt_new :: "('k, 'v) btree_map" where
  "bt_new \<equiv> []"

fun bt_insert :: "'k::linorder \<Rightarrow> 'v \<Rightarrow> ('k, 'v) btree_map \<Rightarrow> ('k, 'v) btree_map" where
  "bt_insert k v [] = [(k, v)]"
| "bt_insert k v ((k', v') # m) =
     (if k < k' then (k, v) # (k', v') # m
      else if k = k' then (k, v) # m
      else (k', v') # bt_insert k v m)"

definition bt_get :: "('k, 'v) btree_map \<Rightarrow> 'k \<Rightarrow> 'v option" where
  "bt_get m k = map_of m k"

definition bt_remove :: "'k \<Rightarrow> ('k, 'v) btree_map \<Rightarrow> ('k, 'v) btree_map" where
  "bt_remove k m = filter (\<lambda>(k', _). k' \<noteq> k) m"

definition bt_ok :: "('k::linorder, 'v) btree_map \<Rightarrow> bool" where
  "bt_ok m \<longleftrightarrow> sorted_wrt (<) (map fst m)"

text \<open>A block of \<open>insert\<close> calls, in program order.\<close>

definition bt_insert_all ::
  "('k::linorder \<times> 'v) list \<Rightarrow> ('k, 'v) btree_map \<Rightarrow> ('k, 'v) btree_map" where
  "bt_insert_all kvs m = foldl (\<lambda>m (k, v). bt_insert k v m) m kvs"

subsection \<open>The interface\<close>

locale ordered_map =
  fixes empty :: 'm
    and insert :: "'k \<Rightarrow> 'v \<Rightarrow> 'm \<Rightarrow> 'm"
    and remove :: "'k \<Rightarrow> 'm \<Rightarrow> 'm"
    and get :: "'m \<Rightarrow> 'k \<Rightarrow> 'v option"
    and invar :: "'m \<Rightarrow> bool"
  assumes get_empty: "get empty k = None"
    and get_insert: "invar m \<Longrightarrow> get (insert k v m) k' = (if k' = k then Some v else get m k')"
    and get_remove: "invar m \<Longrightarrow> get (remove k m) k' = (if k' = k then None else get m k')"
    and invar_empty: "invar empty"
    and invar_insert: "invar m \<Longrightarrow> invar (insert k v m)"
    and invar_remove: "invar m \<Longrightarrow> invar (remove k m)"
    and get_ext: "invar m \<Longrightarrow> invar m' \<Longrightarrow> (\<And>k. get m k = get m' k) \<Longrightarrow> m = m'"
begin

definition insert_list :: "('k \<times> 'v) list \<Rightarrow> 'm \<Rightarrow> 'm" where
  "insert_list kvs m = foldl (\<lambda>m (k, v). insert k v m) m kvs"

lemma insert_list_simps:
  "insert_list [] m = m"
  "insert_list ((k, v) # kvs) m = insert_list kvs (insert k v m)"
  by (simp_all add: insert_list_def)

lemma invar_insert_list: "invar m \<Longrightarrow> invar (insert_list kvs m)"
  by (induction kvs arbitrary: m) (auto simp: insert_list_simps invar_insert)

lemma get_insert_list:
  "invar m \<Longrightarrow> distinct (map fst kvs) \<Longrightarrow>
   get (insert_list kvs m) k = (case map_of kvs k of Some v \<Rightarrow> Some v | None \<Rightarrow> get m k)"
proof (induction kvs arbitrary: m)
  case (Cons kv kvs)
  obtain k' v' where kv: "kv = (k', v')" by (cases kv)
  have "map_of kvs k' = None" using Cons.prems(2) kv by (auto simp: map_of_eq_None_iff)
  with Cons.IH [of "insert k' v' m"] Cons.prems kv show ?case
    by (auto simp: insert_list_simps get_insert invar_insert split: option.splits)
qed (simp add: insert_list_simps)

text \<open>The order of insertions with distinct keys does not matter.\<close>

lemma insert_list_perm:
  assumes "invar m" and "distinct (map fst xs)" and "distinct (map fst ys)" and "set xs = set ys"
  shows "insert_list xs m = insert_list ys m"
proof (rule get_ext)
  fix k
  have "map_of xs k = map_of ys k"
    using assms(2-4) by (metis map_of_eqI map_of_inject_set)
  then show "get (insert_list xs m) k = get (insert_list ys m) k"
    using assms by (simp add: get_insert_list)
qed (simp_all add: assms invar_insert_list)

lemma remove_absent: "invar m \<Longrightarrow> get m k = None \<Longrightarrow> remove k m = m"
  by (rule get_ext) (auto simp: get_remove invar_remove)

lemma remove_insert: "invar m \<Longrightarrow> get m k = None \<Longrightarrow> remove k (insert k v m) = m"
  by (rule get_ext) (auto simp: get_remove get_insert invar_remove invar_insert)

lemma remove_insert_other:
  "invar m \<Longrightarrow> k \<noteq> k' \<Longrightarrow> remove k (insert k' v m) = insert k' v (remove k m)"
  by (rule get_ext) (auto simp: get_remove get_insert invar_remove invar_insert)

lemma empty_iff: "invar m \<Longrightarrow> m = empty \<longleftrightarrow> (\<forall>k. get m k = None)"
  by (metis get_empty get_ext invar_empty)

end

subsection \<open>The list implementation\<close>

lemma bt_ok_simps [simp]:
  "bt_ok []"
  "bt_ok ((k, v) # m) \<longleftrightarrow> (\<forall>k' \<in> fst ` set m. k < k') \<and> bt_ok m"
  by (auto simp: bt_ok_def)

lemma fst_set_bt_insert: "fst ` set (bt_insert k v m) = insert k (fst ` set m)"
  by (induction k v m rule: bt_insert.induct) auto

lemma bt_insert_set: "set (bt_insert k v m) \<subseteq> insert (k, v) (set m)"
  by (induction k v m rule: bt_insert.induct) auto

lemma bt_ok_insert: "bt_ok m \<Longrightarrow> bt_ok (bt_insert k v m)"
proof (induction k v m rule: bt_insert.induct)
  case (2 k v k' v' m)
  show ?case
  proof (cases "k < k' \<or> k = k'")
    case True
    with "2.prems" show ?thesis by (auto dest: less_trans)
  next
    case False
    then have "k' < k" by auto
    with False "2.IH" "2.prems" show ?thesis by (auto simp: fst_set_bt_insert)
  qed
qed auto

lemma map_of_bt_insert: "bt_ok m \<Longrightarrow> map_of (bt_insert k v m) = (map_of m)(k \<mapsto> v)"
proof (induction k v m rule: bt_insert.induct)
  case (2 k v k' v' m)
  then show ?case by (auto simp: fun_eq_iff)
qed auto

lemma bt_ok_distinct: "bt_ok m \<Longrightarrow> distinct (map fst m)"
  by (simp add: bt_ok_def strict_sorted_iff)

lemma map_of_filter_key: "map_of (filter (\<lambda>(k', _). k' \<noteq> k) m) k' = (if k' = k then None else map_of m k')"
  by (induction m) auto

lemma bt_ok_filter: "bt_ok m \<Longrightarrow> bt_ok (filter P m)"
  by (induction m) auto

lemma bt_ok_ext:
  assumes "bt_ok m" and "bt_ok m'" and "\<And>k. map_of m k = map_of m' k"
  shows "m = m'"
proof -
  have "set m = set m'"
    using assms bt_ok_distinct by (metis ext map_of_inject_set)
  moreover have "sorted (map fst m)" "sorted (map fst m')"
    "distinct (map fst m)" "distinct (map fst m')"
    using assms(1,2) by (auto simp: bt_ok_def strict_sorted_iff)
  ultimately show ?thesis
    by (intro map_sorted_distinct_set_unique [of fst]) (auto simp: distinct_map)
qed

interpretation bt: ordered_map bt_new bt_insert bt_remove bt_get bt_ok
proof (unfold_locales, goal_cases)
  case (2 m k v k')
  then show ?case by (simp add: bt_get_def map_of_bt_insert)
next
  case (7 m m')
  then show ?case by (auto simp: bt_get_def intro: bt_ok_ext)
qed (auto simp: bt_get_def bt_remove_def map_of_filter_key bt_ok_insert bt_ok_filter)

lemma bt_insert_all_eq: "bt_insert_all kvs m = bt.insert_list kvs m"
  by (simp add: bt_insert_all_def bt.insert_list_def)

lemma bt_insert_all_simps [simp]:
  "bt_insert_all [] m = m"
  "bt_insert_all ((k, v) # kvs) m = bt_insert_all kvs (bt_insert k v m)"
  by (simp_all add: bt_insert_all_eq bt.insert_list_simps)

lemmas bt_simps =
  bt.get_empty bt.get_insert bt.get_remove bt.invar_empty bt.invar_insert bt.invar_remove

lemma bt_insert_all_sorted: "bt_ok m \<Longrightarrow> bt_insert_all m bt_new = m"
proof (rule bt.get_ext)
  fix k
  assume "bt_ok m"
  then show "bt_get (bt_insert_all m bt_new) k = bt_get m k"
    by (simp add: bt_insert_all_eq bt.get_insert_list bt_ok_distinct)
      (simp add: bt_get_def split: option.splits)
qed (simp_all add: bt_insert_all_eq bt.invar_insert_list)

end
