(* ===== verification/Rapp_Wire.thy ===== *)
theory Rapp_Wire
  imports Btree_Map "HOL-Library.Product_Lexorder"
begin

text \<open>
  The deterministic CBOR codec of the remote-card protocol
  (\<open>crates/refineid-lib-core/src/rapp/wire.rs\<close>): the value type, the canonical
  encoder, the decoder with its nesting, size and canonicality checks.

  A function that in Rust appends to an output vector returns the appended
  bytes here; the decoder's cursor (\<open>bytes\<close>, \<open>offset\<close>) is passed explicitly. A
  panic is an outcome of its own: the release profile sets \<open>overflow-checks\<close>, so
  the unchecked product \<open>count * 2\<close> in the map branch aborts when it exceeds
  \<open>usize\<close>.

  The main results are the round trip (whatever a well-formed value encodes to
  decodes to the same value), injectivity of the encoder, canonicity of accepted
  inputs, and the exact condition under which the decoder aborts.
\<close>

subsection \<open>Limits, errors and values\<close>

abbreviation MAX_NESTING_DEPTH :: nat where "MAX_NESTING_DEPTH \<equiv> 8"
abbreviation MAX_TEXT_SIZE :: nat where "MAX_TEXT_SIZE \<equiv> 4096"
abbreviation MAX_FRAME_PLAINTEXT :: nat where "MAX_FRAME_PLAINTEXT \<equiv> 65519"

datatype wire_error =
    Truncated
  | TrailingData
  | NestingTooDeep
  | TextTooLong nat
  | OversizedPlaintext nat
  | InvalidUtf8
  | NonCanonical
  | ForbiddenCborType
  | NonTextMapKey
  | DuplicateMapKey
  | IntegerOverflow
  | CollectionTooLarge nat
  | MissingField string
  | WrongType string
  | UnknownField
  | UnsupportedVersion
  | UnknownMessageType
  | WireWrongLength string nat nat
  | InvalidValue string
  | CriticalExtensionMissing

datatype wire_value =
    Unsigned u64
  | Negative u64  \<comment> \<open>an \<open>i64\<close>, in two's complement\<close>
  | Bytes bytes
  | Text string
  | Array "wire_value list"
  | Map "(string \<times> wire_value) list"
  | Boolean bool
  | Null

type_synonym wire_map = "(string, wire_value) btree_map"
type_synonym 'a wres = "(wire_error, 'a) res"

datatype major_type = MUnsigned | MNegative | MBytes | MText | MArray | MMap | MSimple

fun major_code :: "major_type \<Rightarrow> byte" where
  "major_code MUnsigned = 0"
| "major_code MNegative = 1"
| "major_code MBytes = 2"
| "major_code MText = 3"
| "major_code MArray = 4"
| "major_code MMap = 5"
| "major_code MSimple = 7"

abbreviation MAJOR_SHIFT :: nat where "MAJOR_SHIFT \<equiv> 5"
abbreviation ADD_INFO_MASK :: byte where "ADD_INFO_MASK \<equiv> 0x1F"
abbreviation ARG_ONE_BYTE :: byte where "ARG_ONE_BYTE \<equiv> 24"
abbreviation ARG_TWO_BYTES :: byte where "ARG_TWO_BYTES \<equiv> 25"
abbreviation ARG_FOUR_BYTES :: byte where "ARG_FOUR_BYTES \<equiv> 26"
abbreviation ARG_EIGHT_BYTES :: byte where "ARG_EIGHT_BYTES \<equiv> 27"
abbreviation SIMPLE_FALSE :: byte where "SIMPLE_FALSE \<equiv> 20"
abbreviation SIMPLE_TRUE :: byte where "SIMPLE_TRUE \<equiv> 21"
abbreviation SIMPLE_NULL :: byte where "SIMPLE_NULL \<equiv> 22"

subsection \<open>Encoder\<close>

definition encode_header :: "major_type \<Rightarrow> u64 \<Rightarrow> bytes" where
  "encode_header major val =
     (let prefix = push_bit MAJOR_SHIFT (major_code major); n = unat val in
      if n < 24 then [prefix OR word_of_nat n]
      else if n \<le> 0xFF then (prefix OR ARG_ONE_BYTE) # be_bytes 1 n
      else if n \<le> 0xFFFF then (prefix OR ARG_TWO_BYTES) # be_bytes 2 n
      else if n \<le> 0xFFFFFFFF then (prefix OR ARG_FOUR_BYTES) # be_bytes 4 n
      else (prefix OR ARG_EIGHT_BYTES) # be_bytes 8 n)"

text \<open>The \<open>Text\<close> arm of \<open>encode_into\<close>, which the \<open>Map\<close> arm also runs on the keys.\<close>

definition encode_text :: "string \<Rightarrow> nat \<Rightarrow> bytes wres" where
  "encode_text s depth =
     (if MAX_NESTING_DEPTH < depth then Err NestingTooDeep
      else if MAX_TEXT_SIZE < length (str_bytes s) then Err (TextTooLong (length (str_bytes s)))
      else Ok (encode_header MText (word_of_nat (length (str_bytes s))) @ str_bytes s))"

text \<open>Canonical key order: by encoded length, then bytewise.\<close>

definition canonical_order :: "(bytes \<times> 'v) list \<Rightarrow> (bytes \<times> 'v) list" where
  "canonical_order entries = sort_key (\<lambda>(k, _). (length k, k)) entries"

function encode_into :: "wire_value \<Rightarrow> nat \<Rightarrow> bytes wres" where
  "encode_into val depth =
     (if MAX_NESTING_DEPTH < depth then Err NestingTooDeep
      else case val of
        Unsigned n \<Rightarrow> Ok (encode_header MUnsigned n)
      | Negative i \<Rightarrow>
          if 0 \<le> sint i then Err (InvalidValue ''negative'')
          else Ok (encode_header MNegative (NOT i))
      | Bytes bs \<Rightarrow> Ok (encode_header MBytes (word_of_nat (length bs)) @ bs)
      | Text s \<Rightarrow> encode_text s depth
      | Array items \<Rightarrow>
          and_then (map_res (\<lambda>item. encode_into item (depth + 1)) items) (\<lambda>parts.
          Ok (encode_header MArray (word_of_nat (length items)) @ concat parts))
      | Map entries \<Rightarrow>
          and_then (map_res (\<lambda>(k, v).
              and_then (encode_text k (depth + 1)) (\<lambda>kb. Ok (kb, v))) entries) (\<lambda>encoded.
          and_then (map_res (\<lambda>(kb, v).
              and_then (encode_into v (depth + 1)) (\<lambda>vb. Ok (kb @ vb)))
              (canonical_order encoded)) (\<lambda>parts.
          Ok (encode_header MMap (word_of_nat (length entries)) @ concat parts)))
      | Boolean b \<Rightarrow>
          Ok [push_bit MAJOR_SHIFT (major_code MSimple) OR (if b then SIMPLE_TRUE else SIMPLE_FALSE)]
      | Null \<Rightarrow> Ok [push_bit MAJOR_SHIFT (major_code MSimple) OR SIMPLE_NULL])"
  by pat_completeness auto
termination
  by (relation "measure (\<lambda>(v, depth). 9 - depth)") auto

declare encode_into.simps [simp del]

definition encode :: "wire_value \<Rightarrow> bytes wres" where
  "encode v = encode_into v 0"

subsection \<open>Decoder\<close>

definition dec_byte :: "bytes \<Rightarrow> nat \<Rightarrow> (byte \<times> nat) wres" where
  "dec_byte bs off = (if off < length bs then Ok (bs ! off, off + 1) else Err Truncated)"

definition dec_take :: "bytes \<Rightarrow> nat \<Rightarrow> nat \<Rightarrow> (bytes \<times> nat) wres" where
  "dec_take bs off count =
     (if usize_max < off + count then Err IntegerOverflow
      else if off + count \<le> length bs then Ok (take count (drop off bs), off + count)
      else Err Truncated)"

definition decode_argument :: "bytes \<Rightarrow> byte \<Rightarrow> nat \<Rightarrow> (u64 \<times> nat) wres" where
  "decode_argument bs add_info off =
     (if unat add_info \<le> 23 then Ok (ucast add_info, off)
      else if add_info = ARG_ONE_BYTE then
        and_then (dec_byte bs off) (\<lambda>(b, off). Ok (ucast b, off))
      else if add_info = ARG_TWO_BYTES then
        and_then (dec_take bs off 2) (\<lambda>(arg, off). Ok (word_of_nat (be_nat arg), off))
      else if add_info = ARG_FOUR_BYTES then
        and_then (dec_take bs off 4) (\<lambda>(arg, off). Ok (word_of_nat (be_nat arg), off))
      else if add_info = ARG_EIGHT_BYTES then
        and_then (dec_take bs off 8) (\<lambda>(arg, off). Ok (word_of_nat (be_nat arg), off))
      else Err ForbiddenCborType)"

text \<open>The two counted loops, over the decoder of one element.\<close>

fun decode_items :: "(nat \<Rightarrow> (wire_value \<times> nat) wres) \<Rightarrow> nat \<Rightarrow> nat \<Rightarrow> (wire_value list \<times> nat) wres" where
  "decode_items dec 0 off = Ok ([], off)"
| "decode_items dec (Suc count) off =
     and_then (dec off) (\<lambda>(item, off).
     and_then (decode_items dec count off) (\<lambda>(items, off). Ok (item # items, off)))"

fun decode_entries ::
  "(nat \<Rightarrow> (wire_value \<times> nat) wres) \<Rightarrow> nat \<Rightarrow> nat \<Rightarrow> wire_map \<Rightarrow> (wire_map \<times> nat) wres" where
  "decode_entries dec 0 off m = Ok (m, off)"
| "decode_entries dec (Suc count) off m =
     and_then (dec off) (\<lambda>(k, off).
       case k of
         Text key \<Rightarrow>
           and_then (dec off) (\<lambda>(val, off).
             if bt_get m key \<noteq> None then Err DuplicateMapKey
             else decode_entries dec count off (bt_insert key val m))
       | _ \<Rightarrow> Err NonTextMapKey)"

lemma decode_items_cong [fundef_cong]:
  assumes "\<And>p. dec p = dec' p" and "n = n'" and "off = off'"
  shows "decode_items dec n off = decode_items dec' n' off'"
  using assms by (metis ext)

lemma decode_entries_cong [fundef_cong]:
  assumes "\<And>p. dec p = dec' p" and "n = n'" and "off = off'" and "m = m'"
  shows "decode_entries dec n off m = decode_entries dec' n' off' m'"
  using assms by (metis ext)

function decode_value :: "bytes \<Rightarrow> nat \<Rightarrow> nat \<Rightarrow> (wire_value \<times> nat) wres" where
  "decode_value bs depth off =
     (if MAX_NESTING_DEPTH < depth then Err NestingTooDeep
      else and_then (dec_byte bs off) (\<lambda>(initial, off).
        let major = drop_bit MAJOR_SHIFT initial; add_info = initial AND ADD_INFO_MASK in
        if major = 0 then
          and_then (decode_argument bs add_info off) (\<lambda>(val, off). Ok (Unsigned val, off))
        else if major = 1 then
          and_then (decode_argument bs add_info off) (\<lambda>(raw, off).
            if 0x7FFFFFFFFFFFFFFF < unat raw then Err IntegerOverflow
            else Ok (Negative (- 1 - raw), off))
        else if major = 2 then
          and_then (decode_argument bs add_info off) (\<lambda>(len, off).
          and_then (dec_take bs off (unat len)) (\<lambda>(body, off). Ok (Bytes body, off)))
        else if major = 3 then
          and_then (decode_argument bs add_info off) (\<lambda>(len, off).
            if MAX_TEXT_SIZE < unat len then Err (TextTooLong (unat len))
            else and_then (dec_take bs off (unat len)) (\<lambda>(body, off).
              case from_utf8 body of None \<Rightarrow> Err InvalidUtf8 | Some s \<Rightarrow> Ok (Text s, off)))
        else if major = 4 then
          and_then (decode_argument bs add_info off) (\<lambda>(count, off).
            if length bs - off < unat count then Err (CollectionTooLarge (unat count))
            else and_then (decode_items (\<lambda>off. decode_value bs (depth + 1) off) (unat count) off)
              (\<lambda>(items, off). Ok (Array items, off)))
        else if major = 5 then
          and_then (decode_argument bs add_info off) (\<lambda>(count, off).
            if usize_max < unat count * 2 then Panic
            else if length bs - off < unat count * 2 then Err (CollectionTooLarge (unat count))
            else and_then (decode_entries (\<lambda>off. decode_value bs (depth + 1) off) (unat count) off bt_new)
              (\<lambda>(m, off). Ok (Map m, off)))
        else if major = 7 then
          (if add_info = SIMPLE_FALSE then Ok (Boolean False, off)
           else if add_info = SIMPLE_TRUE then Ok (Boolean True, off)
           else if add_info = SIMPLE_NULL then Ok (Null, off)
           else Err ForbiddenCborType)
        else Err ForbiddenCborType))"
  by pat_completeness auto
termination
  by (relation "measure (\<lambda>(bs, depth, off). 9 - depth)") auto

declare decode_value.simps [simp del]

definition decode_deterministic_cbor :: "bytes \<Rightarrow> wire_value wres" where
  "decode_deterministic_cbor bs =
     (if MAX_FRAME_PLAINTEXT < length bs then Err (OversizedPlaintext (length bs))
      else and_then (decode_value bs 0 0) (\<lambda>(val, off).
        if off \<noteq> length bs then Err TrailingData
        else and_then (encode val) (\<lambda>re_encoded.
          if re_encoded \<noteq> bs then Err NonCanonical else Ok val)))"

subsection \<open>Headers\<close>

lemma small_byte_cases:
  fixes a :: byte
  assumes "a \<le> 31"
  shows "a \<in> set (map word_of_nat [0..<32])"
proof -
  have "unat a < 32" using assms by (simp add: word_le_nat_alt)
  then have "word_of_nat (unat a) \<in> (word_of_nat :: nat \<Rightarrow> byte) ` set [0..<32]"
    by (intro imageI) simp
  then show ?thesis by simp
qed

lemma header_bits:
  fixes a :: byte
  assumes "a \<le> 31"
  shows "drop_bit 5 (push_bit 5 (major_code mt) OR a) = major_code mt"
    and "(push_bit 5 (major_code mt) OR a) AND 0x1F = a"
proof -
  have "\<forall>a \<in> set (map (word_of_nat :: nat \<Rightarrow> byte) [0..<32]).
      drop_bit 5 (push_bit 5 (major_code mt) OR a) = major_code mt
      \<and> (push_bit 5 (major_code mt) OR a) AND 0x1F = a"
    by (cases mt) (simp_all add: upt_conv_Cons)
  with small_byte_cases [OF assms]
  show "drop_bit 5 (push_bit 5 (major_code mt) OR a) = major_code mt"
    and "(push_bit 5 (major_code mt) OR a) AND 0x1F = a" by blast+
qed

lemma encode_header_not_Nil [simp]: "encode_header mt v \<noteq> []"
  by (simp add: encode_header_def Let_def)

lemma encode_text_not_Nil: "encode_text k depth = Ok kb \<Longrightarrow> kb \<noteq> []"
  by (auto simp: encode_text_def split: if_splits)

lemma encode_into_not_Nil: "encode_into v depth = Ok ebs \<Longrightarrow> ebs \<noteq> []"
  by (cases v; subst (asm) encode_into.simps)
    (auto simp: res_simps dest: encode_text_not_Nil split: if_splits)

text \<open>
  A header placed anywhere in the input is read back as its major type and
  argument.
\<close>

lemma dec_byte_append [simp]: "dec_byte (p @ b # s) (length p) = Ok (b, length p + 1)"
  by (simp add: dec_byte_def)

lemma dec_take_append:
  "length (p @ xs @ s) \<le> usize_max \<Longrightarrow>
   dec_take (p @ xs @ s) (length p) (length xs) = Ok (xs, length p + length xs)"
  by (simp add: dec_take_def)

lemma dec_take_append':
  "length (p @ xs @ s) \<le> usize_max \<Longrightarrow> off = length p \<Longrightarrow> n = length xs \<Longrightarrow>
   dec_take (p @ xs @ s) off n = Ok (xs, length p + length xs)"
  using dec_take_append by simp

lemma unat_u64_of_nat: "n \<le> usize_max \<Longrightarrow> unat (word_of_nat n :: u64) = n"
  by (simp add: unat_of_nat)

lemma decode_argument_bytes:
  assumes k: "(info, k) \<in> {(ARG_TWO_BYTES, 2), (ARG_FOUR_BYTES, 4), (ARG_EIGHT_BYTES, 8)}"
    and len: "length (p @ be_bytes k (unat v) @ s) \<le> usize_max"
    and v: "unat v < 256 ^ k"
  shows "decode_argument (p @ be_bytes k (unat v) @ s) info (length p) = Ok (v, length p + k)"
proof -
  have "dec_take (p @ be_bytes k (unat v) @ s) (length p) k = Ok (be_bytes k (unat v), length p + k)"
    using dec_take_append [OF len] by simp
  moreover have "word_of_nat (be_nat (be_bytes k (unat v))) = v"
    by (simp add: be_nat_be_bytes_small [OF v])
  ultimately show ?thesis using k by (auto simp: decode_argument_def)
qed

lemma ucast_byte_u64:
  assumes "unat b = unat v"
  shows "ucast (b :: byte) = (v :: u64)"
proof -
  have "unat b < 2 ^ LENGTH(64)" using unat_byte_less [of b] by simp
  then have "unat (ucast b :: u64) = unat v"
    using assms by (simp add: unsigned_ucast_eq take_bit_nat_eq_self)
  then show ?thesis by (simp only: unsigned_word_eqI)
qed

lemma decode_header:
  assumes len: "length (p @ encode_header mt v @ s) \<le> usize_max"
  shows "\<exists>h. dec_byte (p @ encode_header mt v @ s) (length p) = Ok (h, length p + 1)
    \<and> drop_bit 5 h = major_code mt
    \<and> decode_argument (p @ encode_header mt v @ s) (h AND 0x1F) (length p + 1)
        = Ok (v, length p + length (encode_header mt v))"
proof -
  let ?pre = "push_bit 5 (major_code mt) :: byte"
  have long: ?thesis
    if info: "(info, k) \<in> {(ARG_TWO_BYTES, 2), (ARG_FOUR_BYTES, 4), (ARG_EIGHT_BYTES, 8)}"
      and hd: "encode_header mt v = (?pre OR info) # be_bytes k (unat v)"
      and v: "unat v < 256 ^ k" for info k
  proof -
    have "info \<le> 31" using info by auto
    note bits = header_bits [OF this, of mt]
    have "decode_argument ((p @ [?pre OR info]) @ be_bytes k (unat v) @ s) info (length (p @ [?pre OR info]))
        = Ok (v, length (p @ [?pre OR info]) + k)"
      by (rule decode_argument_bytes [OF info _ v]) (use len hd in simp)
    then show ?thesis using hd bits by simp
  qed
  consider "unat v < 24" | "24 \<le> unat v" "unat v \<le> 0xFF" | "0xFF < unat v" "unat v \<le> 0xFFFF"
    | "0xFFFF < unat v" "unat v \<le> 0xFFFFFFFF" | "0xFFFFFFFF < unat v"
    by linarith
  then show ?thesis
  proof cases
    case 1
    let ?a = "word_of_nat (unat v) :: byte"
    have u: "unat ?a = unat v" using 1 by (simp only: unat_word8_of_nat) simp
    then have "?a \<le> 31" using 1 by (simp add: word_le_nat_alt)
    note bits = header_bits [OF this, of mt]
    note v = ucast_byte_u64 [OF u]
    show ?thesis using 1 bits u v
      by (simp add: encode_header_def Let_def decode_argument_def)
  next
    case 2
    let ?b = "word_of_nat (unat v) :: byte"
    have u: "unat ?b = unat v" using 2 by (simp only: unat_word8_of_nat) simp
    note v = ucast_byte_u64 [OF u]
    have "dec_byte ((p @ [?pre OR 24]) @ ?b # s) (length (p @ [?pre OR 24])) = Ok (?b, length p + 2)"
      by (simp only: dec_byte_append) simp
    then show ?thesis using 2 header_bits [of 24 mt] v
      by (simp add: encode_header_def Let_def decode_argument_def)
  next
    case 3
    then show ?thesis by (intro long [of ARG_TWO_BYTES 2]) (simp_all add: encode_header_def Let_def)
  next
    case 4
    then show ?thesis by (intro long [of ARG_FOUR_BYTES 4]) (simp_all add: encode_header_def Let_def)
  next
    case 5
    have "unat v < 256 ^ 8" using unsigned_less [of v] by simp
    with 5 show ?thesis by (intro long [of ARG_EIGHT_BYTES 8]) (simp_all add: encode_header_def Let_def)
  qed
qed

subsection \<open>Well-formed values\<close>

text \<open>
  What the Rust types guarantee of a \<open>WireValue\<close>: texts are valid UTF-8 and maps
  are \<open>BTreeMap\<close>s.
\<close>

fun wire_ok :: "wire_value \<Rightarrow> bool" where
  "wire_ok (Text s) = text_ok s"
| "wire_ok (Array items) = list_all wire_ok items"
| "wire_ok (Map entries) = (bt_ok entries \<and> list_all (\<lambda>e. text_ok (fst e) \<and> wire_ok (snd e)) entries)"
| "wire_ok _ = True"

lemma decode_items_append:
  assumes "list_all2 (\<lambda>v ebs. \<forall>p s. bs = p @ ebs @ s \<longrightarrow>
      dec (length p) = Ok (v, length p + length ebs)) vs parts"
    and "bs = p @ concat parts @ s"
  shows "decode_items dec (length vs) (length p) = Ok (vs, length p + length (concat parts))"
  using assms
proof (induction vs parts arbitrary: p rule: list_all2_induct)
  case (Cons v vs ebs parts)
  from Cons.prems have "dec (length p) = Ok (v, length p + length ebs)"
    using Cons.hyps(1) by simp
  moreover have "decode_items dec (length vs) (length (p @ ebs)) = Ok (vs, length (p @ ebs) + length (concat parts))"
    by (rule Cons.IH) (use Cons.prems in simp)
  ultimately show ?case by simp
qed simp

lemma decode_entries_append:
  assumes "list_all2 (\<lambda>kv ebs. \<exists>kb vb. ebs = kb @ vb
      \<and> (\<forall>p s. bs = p @ kb @ s \<longrightarrow> dec (length p) = Ok (Text (fst kv), length p + length kb))
      \<and> (\<forall>p s. bs = p @ vb @ s \<longrightarrow> dec (length p) = Ok (snd kv, length p + length vb))) kvs parts"
    and "bs = p @ concat parts @ s"
    and "bt_ok m" and "distinct (map fst kvs)" and "\<forall>k \<in> fst ` set kvs. bt_get m k = None"
  shows "decode_entries dec (length kvs) (length p) m
    = Ok (bt_insert_all kvs m, length p + length (concat parts))"
  using assms
proof (induction kvs parts arbitrary: p m rule: list_all2_induct)
  case (Cons kv kvs ebs parts)
  obtain k v where kv: "kv = (k, v)" by (cases kv)
  obtain kb vb where e: "ebs = kb @ vb"
    and kd: "\<And>p s. bs = p @ kb @ s \<Longrightarrow> dec (length p) = Ok (Text k, length p + length kb)"
    and vd: "\<And>p s. bs = p @ vb @ s \<Longrightarrow> dec (length p) = Ok (v, length p + length vb)"
    using Cons.hyps(1) kv by auto
  have "dec (length p) = Ok (Text k, length p + length kb)"
    by (rule kd) (use Cons.prems(1) e in simp)
  moreover have "dec (length (p @ kb)) = Ok (v, length (p @ kb) + length vb)"
    by (rule vd) (use Cons.prems(1) e in simp)
  moreover have "decode_entries dec (length kvs) (length (p @ kb @ vb)) (bt_insert k v m)
      = Ok (bt_insert_all kvs (bt_insert k v m), length (p @ kb @ vb) + length (concat parts))"
  proof (rule Cons.IH)
    show "bs = (p @ kb @ vb) @ concat parts @ s" using Cons.prems(1) e by simp
    show "bt_ok (bt_insert k v m)" using Cons.prems(2) by (simp add: bt_simps)
    show "distinct (map fst kvs)" using Cons.prems(3) by simp
    show "\<forall>k'\<in>fst ` set kvs. bt_get (bt_insert k v m) k' = None"
      using Cons.prems(2-4) kv by (force simp: bt_simps)
  qed
  moreover have "bt_get m k = None" using Cons.prems(4) kv by simp
  ultimately show ?case using kv e by (simp add: add.assoc)
qed simp

lemma decode_encode_text:
  assumes enc: "encode_text t depth = Ok kb" and t: "text_ok t"
    and len: "length (p @ kb @ s) \<le> usize_max"
  shows "decode_value (p @ kb @ s) depth (length p) = Ok (Text t, length p + length kb)"
proof -
  let ?hd = "encode_header MText (word_of_nat (length t))"
  from enc have kb: "kb = ?hd @ str_bytes t" and small: "length t \<le> MAX_TEXT_SIZE"
    and d: "depth \<le> MAX_NESTING_DEPTH"
    by (auto simp: encode_text_def split: if_splits)
  have bs: "p @ kb @ s = p @ ?hd @ (str_bytes t @ s)" using kb by simp
  obtain h where h: "dec_byte (p @ kb @ s) (length p) = Ok (h, length p + 1)" "drop_bit 5 h = major_code MText"
    "decode_argument (p @ kb @ s) (h AND 0x1F) (length p + 1) = Ok (word_of_nat (length t), length p + length ?hd)"
    using decode_header [of p MText "word_of_nat (length t)" "str_bytes t @ s"] len bs by auto
  have take: "dec_take ((p @ ?hd) @ str_bytes t @ s) (length (p @ ?hd)) (length (str_bytes t))
      = Ok (str_bytes t, length (p @ ?hd) + length (str_bytes t))"
    by (rule dec_take_append) (use len bs in simp)
  show ?thesis
    using h d small take t kb
    by (subst decode_value.simps)
      (simp add: Let_def unat_u64_of_nat from_utf8_def text_ok_def)
qed

subsection \<open>The round trip\<close>

lemma insort_key_map: "insort_key f (g x) (map g xs) = map g (insort_key (\<lambda>y. f (g y)) x xs)"
  by (induction xs) auto

lemma sort_key_map: "sort_key f (map g xs) = map g (sort_key (\<lambda>y. f (g y)) xs)"
  by (induction xs) (auto simp: insort_key_map)

lemma sort_key_distinct_fst: "distinct (map fst (sort_key f xs)) \<longleftrightarrow> distinct (map fst xs)"
  by (simp add: distinct_map)

text \<open>The bytes of a text item, and the order the \<open>Map\<close> arm visits the entries in.\<close>

definition text_item :: "string \<Rightarrow> bytes" where
  "text_item s = encode_header MText (word_of_nat (length s)) @ str_bytes s"

definition key_order :: "(string \<times> 'v) list \<Rightarrow> (string \<times> 'v) list" where
  "key_order m = sort_key (\<lambda>(k, _). (length (text_item k), text_item k)) m"

lemma encode_text_eq_Ok:
  "encode_text t depth = Ok kb \<longleftrightarrow>
   kb = text_item t \<and> length t \<le> MAX_TEXT_SIZE \<and> depth \<le> MAX_NESTING_DEPTH"
  by (auto simp: encode_text_def text_item_def)

lemma set_key_order [simp]: "set (key_order m) = set m"
  by (simp add: key_order_def)

lemma length_key_order [simp]: "length (key_order m) = length m"
  by (simp add: key_order_def)

lemma distinct_key_order: "bt_ok m \<Longrightarrow> distinct (map fst (key_order m))"
  by (simp add: key_order_def sort_key_distinct_fst bt_ok_distinct)

lemma insert_key_order: "bt_ok m \<Longrightarrow> bt_insert_all (key_order m) bt_new = m"
  by (metis bt.insert_list_perm bt.invar_empty bt_insert_all_eq bt_insert_all_sorted
      bt_ok_distinct distinct_key_order set_key_order)

lemma encoded_keys:
  "map_res (\<lambda>(k, v). and_then (encode_text k depth) (\<lambda>kb. Ok (kb, v))) m = Ok encoded \<longleftrightarrow>
   encoded = map (\<lambda>(k, v). (text_item k, v)) m
   \<and> (\<forall>e \<in> set m. length (fst e) \<le> MAX_TEXT_SIZE \<and> depth \<le> MAX_NESTING_DEPTH)"
  by (induction m arbitrary: encoded) (auto simp: res_simps encode_text_eq_Ok)

lemma canonical_order_keys:
  "canonical_order (map (\<lambda>(k, v). (text_item k, v)) m) = map (\<lambda>(k, v). (text_item k, v)) (key_order m)"
  by (simp add: canonical_order_def key_order_def sort_key_map case_prod_unfold)

lemma list_all2_conj_left:
  "list_all2 (\<lambda>x y. P x \<and> Q x y) xs ys \<longleftrightarrow> (\<forall>x \<in> set xs. P x) \<and> list_all2 Q xs ys"
  by (induction xs arbitrary: ys) (auto simp: list_all2_Cons1)

text \<open>The two collection arms of the encoder, in terms of the elements' encodings.\<close>

lemma encode_into_Array:
  "encode_into (Array items) depth = Ok ebs \<longleftrightarrow> depth \<le> MAX_NESTING_DEPTH \<and>
   (\<exists>parts. list_all2 (\<lambda>v b. encode_into v (depth + 1) = Ok b) items parts
      \<and> ebs = encode_header MArray (word_of_nat (length items)) @ concat parts)"
  by (subst encode_into.simps) (auto simp: res_simps map_res_eq_Ok)

lemma encode_into_Map:
  "encode_into (Map m) depth = Ok ebs \<longleftrightarrow> depth \<le> MAX_NESTING_DEPTH \<and>
   (\<exists>parts. list_all2 (\<lambda>(k, v) b. \<exists>vb. encode_text k (depth + 1) = Ok (text_item k)
        \<and> encode_into v (depth + 1) = Ok vb \<and> b = text_item k @ vb) (key_order m) parts
      \<and> ebs = encode_header MMap (word_of_nat (length m)) @ concat parts)" (is "?l \<longleftrightarrow> ?r")
proof -
  let ?keys = "map_res (\<lambda>(k, v). and_then (encode_text k (depth + 1)) (\<lambda>kb. Ok (kb, v))) m"
  let ?vals = "\<lambda>encoded. map_res (\<lambda>(kb, v).
      and_then (encode_into v (depth + 1)) (\<lambda>vb. Ok (kb @ vb))) (canonical_order encoded)"
  have vals: "?vals (map (\<lambda>(k, v). (text_item k, v)) m) = Ok parts \<longleftrightarrow>
      list_all2 (\<lambda>(k, v) b. \<exists>vb. encode_into v (depth + 1) = Ok vb \<and> b = text_item k @ vb)
        (key_order m) parts" for parts
    unfolding canonical_order_keys map_res_eq_Ok list_all2_map1
    by (intro arg_cong [where f = "\<lambda>P. list_all2 P (key_order m) parts"])
      (auto simp: and_then_eq_Ok fun_eq_iff)
  have "?l \<longleftrightarrow> depth \<le> MAX_NESTING_DEPTH \<and> (\<exists>encoded parts. ?keys = Ok encoded \<and> ?vals encoded = Ok parts
      \<and> ebs = encode_header MMap (word_of_nat (length m)) @ concat parts)"
    by (subst encode_into.simps) (auto simp: and_then_eq_Ok)
  also have "\<dots> \<longleftrightarrow> depth \<le> MAX_NESTING_DEPTH \<and> (\<exists>parts.
      ((\<forall>e \<in> set (key_order m). length (fst e) \<le> MAX_TEXT_SIZE \<and> depth + 1 \<le> MAX_NESTING_DEPTH)
       \<and> list_all2 (\<lambda>(k, v) b. \<exists>vb. encode_into v (depth + 1) = Ok vb \<and> b = text_item k @ vb)
        (key_order m) parts)
      \<and> ebs = encode_header MMap (word_of_nat (length m)) @ concat parts)"
    unfolding encoded_keys vals [symmetric] set_key_order by blast
  also have "\<dots> \<longleftrightarrow> ?r"
    unfolding list_all2_conj_left [symmetric] encode_text_eq_Ok by (simp add: case_prod_unfold conj_assoc)
  finally show ?thesis .
qed

lemma length_le_concat:
  "list_all2 P xs parts \<Longrightarrow> (\<And>x b. P x b \<Longrightarrow> c \<le> length b) \<Longrightarrow> c * length xs \<le> length (concat parts)"
proof (induction rule: list_all2_induct)
  case (Cons x xs b parts)
  from Cons.hyps(1) have "c \<le> length b" by (rule Cons.prems)
  moreover have "c * length xs \<le> length (concat parts)" by (rule Cons.IH) (rule Cons.prems)
  ultimately show ?case by simp
qed simp

lemma encode_into_length_pos: "encode_into v depth = Ok b \<Longrightarrow> 1 \<le> length b"
  by (auto simp: Suc_le_eq dest: encode_into_not_Nil)

lemma text_item_length_pos: "1 \<le> length (text_item k)"
  by (simp add: text_item_def Suc_le_eq)

lemma entry_length: "encode_into v depth = Ok vb \<Longrightarrow> 2 \<le> length (text_item k @ vb)"
  using add_mono [OF text_item_length_pos [of k] encode_into_length_pos] by fastforce

lemma unat_NOT_negative:
  fixes i :: "64 word"
  assumes "sint i < 0"
  shows "unat (NOT i) \<le> 0x7FFFFFFFFFFFFFFF"
proof -
  have lo: "- (2 ^ 63) \<le> sint i" using sint_greater_eq [of i] by simp
  have "take_bit 64 (sint (NOT i)) = take_bit 64 (NOT (sint i))"
    by (simp add: signed_not_eq take_bit_signed_take_bit)
  then have "uint (NOT i) = take_bit 64 (- sint i - 1)"
    by (simp add: uint_sint not_int_def)
  also have "\<dots> = - sint i - 1" using assms lo by (simp add: take_bit_int_eq_self)
  finally have "uint (NOT i) < 0x8000000000000000" using lo by simp
  then show ?thesis unfolding uint_nat by linarith
qed

lemma sint_negative_of_small:
  assumes a: "unat (raw :: 64 word) \<le> 0x7FFFFFFFFFFFFFFF"
  shows "sint (- 1 - raw) < 0"
proof -
  have "int (unat raw) < 0x8000000000000000" using a by linarith
  then have hi: "uint raw < 2 ^ 63" unfolding uint_nat by simp
  have lo: "0 \<le> uint raw" by simp
  have lo': "- (2 ^ 63) \<le> uint raw" by (rule order_trans [OF _ lo]) simp
  have "sint raw = uint raw" using signed_take_bit_int_eq_self [OF lo' hi] by (simp add: sint_uint)
  then have "sint (NOT raw) = signed_take_bit 64 (- uint raw - 1)"
    by (simp add: signed_not_eq not_int_def)
  also have "\<dots> = - uint raw - 1"
  proof (rule signed_take_bit_int_eq_self)
    show "- (2 ^ 64) \<le> - uint raw - 1" using hi by simp
    have "- uint raw - 1 < 0" using lo by linarith
    then show "- uint raw - 1 < 2 ^ 64" by (rule less_trans) simp
  qed
  finally have "sint (NOT raw) < 0" using lo by linarith
  moreover have "- 1 - raw = NOT raw" by (simp add: not_eq_complement algebra_simps)
  ultimately show ?thesis by simp
qed

text \<open>The scalar arms of the decoder after a header.\<close>

lemma decode_encode_scalar:
  assumes "encode_into v depth = Ok ebs" and "length (p @ ebs @ s) \<le> usize_max"
    and "v = Unsigned n \<or> v = Negative i \<or> v = Bytes bs \<or> v = Boolean b \<or> v = Null"
  shows "decode_value (p @ ebs @ s) depth (length p) = Ok (v, length p + length ebs)"
  using assms(3)
proof (elim disjE)
  assume v: "v = Unsigned n"
  then show ?thesis
    using assms decode_header [of p MUnsigned n s]
    by (subst decode_value.simps, subst (asm) encode_into.simps) (auto split: if_splits)
next
  assume v: "v = Negative i"
  then have neg: "sint i < 0" and ebs: "ebs = encode_header MNegative (NOT i)"
    and d: "depth \<le> MAX_NESTING_DEPTH"
    using assms(1) by (subst (asm) encode_into.simps; auto split: if_splits)+
  have "- 1 - NOT i = i" by (simp add: not_eq_complement)
  with unat_NOT_negative [OF neg] show ?thesis
    using assms(2) decode_header [of p MNegative "NOT i" s] ebs d v
    by (subst decode_value.simps) auto
next
  assume v: "v = Bytes bs"
  let ?hd = "encode_header MBytes (word_of_nat (length bs))"
  have ebs: "ebs = ?hd @ bs" and d: "depth \<le> MAX_NESTING_DEPTH"
    using assms(1) v by (subst (asm) encode_into.simps; auto split: if_splits)+
  have "dec_take ((p @ ?hd) @ bs @ s) (length (p @ ?hd)) (length bs)
      = Ok (bs, length (p @ ?hd) + length bs)"
    by (rule dec_take_append) (use assms(2) ebs in simp)
  moreover have "length bs \<le> usize_max" using assms(2) ebs by simp
  ultimately show ?thesis
    using decode_header [of p MBytes "word_of_nat (length bs)" "bs @ s"] assms(2) ebs d v
    by (subst decode_value.simps) (auto simp: unat_u64_of_nat)
next
  assume v: "v = Boolean b"
  then show ?thesis
    using assms header_bits [of 20 MSimple] header_bits [of 21 MSimple]
    by (subst decode_value.simps, subst (asm) encode_into.simps) (auto split: if_splits)
next
  assume v: "v = Null"
  then show ?thesis
    using assms header_bits [of 22 MSimple]
    by (subst decode_value.simps, subst (asm) encode_into.simps) (auto split: if_splits)
qed

text \<open>
  The collection arms, given that the elements decode one level deeper wherever
  their encodings stand in the input.
\<close>

lemma decode_encode_Array:
  assumes enc: "encode_into (Array items) depth = Ok ebs" and ok: "wire_ok (Array items)"
    and len: "length bs \<le> usize_max" and bs: "bs = p @ ebs @ s"
    and IH: "\<And>w b q r. encode_into w (depth + 1) = Ok b \<Longrightarrow> wire_ok w \<Longrightarrow> bs = q @ b @ r \<Longrightarrow>
      decode_value bs (depth + 1) (length q) = Ok (w, length q + length b)"
  shows "decode_value bs depth (length p) = Ok (Array items, length p + length ebs)"
proof -
  let ?hd = "encode_header MArray (word_of_nat (length items))"
  obtain parts where d: "depth \<le> MAX_NESTING_DEPTH"
    and parts: "list_all2 (\<lambda>v b. encode_into v (depth + 1) = Ok b) items parts"
    and ebs: "ebs = ?hd @ concat parts"
    using enc by (auto simp: encode_into_Array)
  have le: "1 * length items \<le> length (concat parts)"
    by (rule length_le_concat [OF parts]) (rule encode_into_length_pos)
  have "list_all2 (\<lambda>v b. \<forall>q r. bs = q @ b @ r \<longrightarrow>
      decode_value bs (depth + 1) (length q) = Ok (v, length q + length b)) items parts"
    using parts ok IH by (auto intro: list.rel_mono_strong simp: list_all_iff)
  from decode_items_append [OF this, of "p @ ?hd" s]
  have "decode_items (decode_value bs (depth + 1)) (length items) (length (p @ ?hd))
      = Ok (items, length (p @ ?hd) + length (concat parts))"
    using bs ebs by simp
  moreover have "length items \<le> usize_max" using le len bs ebs by simp
  ultimately show ?thesis
    using decode_header [of p MArray "word_of_nat (length items)" "concat parts @ s"] len bs ebs d le
    by (subst decode_value.simps) (auto simp: unat_u64_of_nat)
qed

lemma decode_encode_Map:
  assumes enc: "encode_into (Map m) depth = Ok ebs" and ok: "wire_ok (Map m)"
    and len: "length bs \<le> usize_max" and bs: "bs = p @ ebs @ s"
    and IH: "\<And>w b q r. encode_into w (depth + 1) = Ok b \<Longrightarrow> wire_ok w \<Longrightarrow> bs = q @ b @ r \<Longrightarrow>
      decode_value bs (depth + 1) (length q) = Ok (w, length q + length b)"
  shows "decode_value bs depth (length p) = Ok (Map m, length p + length ebs)"
proof -
  let ?hd = "encode_header MMap (word_of_nat (length m))"
  let ?part = "\<lambda>(k, v) b. \<exists>vb. encode_text k (depth + 1) = Ok (text_item k)
      \<and> encode_into v (depth + 1) = Ok vb \<and> b = text_item k @ vb"
  obtain parts where d: "depth \<le> MAX_NESTING_DEPTH"
    and parts: "list_all2 ?part (key_order m) parts" and ebs: "ebs = ?hd @ concat parts"
    using enc by (auto simp: encode_into_Map)
  have m: "bt_ok m" "\<And>e. e \<in> set m \<Longrightarrow> text_ok (fst e) \<and> wire_ok (snd e)"
    using ok by (auto simp: list_all_iff)
  have "list_all2 (\<lambda>kv b. \<exists>kb vb. b = kb @ vb
      \<and> (\<forall>q r. bs = q @ kb @ r \<longrightarrow> decode_value bs (depth + 1) (length q) = Ok (Text (fst kv), length q + length kb))
      \<and> (\<forall>q r. bs = q @ vb @ r \<longrightarrow> decode_value bs (depth + 1) (length q) = Ok (snd kv, length q + length vb)))
      (key_order m) parts"
    using parts
  proof (rule list.rel_mono_strong, goal_cases)
    case (1 kv b)
    then have kv: "text_ok (fst kv)" "wire_ok (snd kv)" using m(2) by auto
    from 1(3) obtain vb where "encode_text (fst kv) (depth + 1) = Ok (text_item (fst kv))"
      "encode_into (snd kv) (depth + 1) = Ok vb" "b = text_item (fst kv) @ vb"
      by (auto simp: case_prod_unfold)
    with kv len show ?case by (metis IH decode_encode_text)
  qed
  from decode_entries_append [OF this, of "p @ ?hd" s bt_new]
  have "decode_entries (decode_value bs (depth + 1)) (length m) (length (p @ ?hd)) bt_new
      = Ok (m, length (p @ ?hd) + length (concat parts))"
    using bs ebs m(1) by (simp add: distinct_key_order insert_key_order bt_simps)
  moreover have "2 * length (key_order m) \<le> length (concat parts)"
    by (rule length_le_concat [OF parts])
      (auto simp: entry_length simp del: length_append)
  ultimately show ?thesis
    using decode_header [of p MMap "word_of_nat (length m)" "concat parts @ s"] len bs ebs d
    by (subst decode_value.simps) (auto simp: unat_u64_of_nat)
qed

lemma decode_encode_into:
  "encode_into v depth = Ok ebs \<Longrightarrow> wire_ok v \<Longrightarrow> length (p @ ebs @ s) \<le> usize_max \<Longrightarrow>
   decode_value (p @ ebs @ s) depth (length p) = Ok (v, length p + length ebs)"
proof (induction "9 - depth" arbitrary: v ebs depth p s)
  case 0
  then show ?case by (subst (asm) encode_into.simps) simp
next
  case (Suc n)
  let ?bs = "p @ ebs @ s"
  have IH: "decode_value ?bs (depth + 1) (length q) = Ok (w, length q + length b)"
    if "encode_into w (depth + 1) = Ok b" "wire_ok w" "?bs = q @ b @ r" for w b q r
  proof -
    have "n = 9 - (depth + 1)" using Suc.hyps(2) by simp
    with that Suc.hyps(1) [of "depth + 1" w b q r] Suc.prems(3) show ?thesis by simp
  qed
  show ?case
  proof (cases v)
    case (Text t)
    then have "encode_text t depth = Ok ebs"
      using Suc.prems(1) by (subst (asm) encode_into.simps) (auto split: if_splits)
    then show ?thesis using decode_encode_text Suc.prems(2,3) Text by simp
  next
    case (Array items)
    then show ?thesis using decode_encode_Array [OF _ _ Suc.prems(3) refl IH] Suc.prems(1,2) by simp
  next
    case (Map m)
    then show ?thesis using decode_encode_Map [OF _ _ Suc.prems(3) refl IH] Suc.prems(1,2) by simp
  qed (use Suc.prems in \<open>auto intro: decode_encode_scalar\<close>)
qed

lemma decode_encode_top:
  "encode v = Ok bs \<Longrightarrow> wire_ok v \<Longrightarrow> length (bs @ s) \<le> usize_max \<Longrightarrow>
   decode_value (bs @ s) 0 0 = Ok (v, length bs)"
  using decode_encode_into [of v 0 bs "[]" s] by (simp add: encode_def)

subsection \<open>What the decoder accepts\<close>

lemma dec_byte_Ok [res_simps]:
  "dec_byte bs off = Ok (b, off') \<longleftrightarrow> off < length bs \<and> b = bs ! off \<and> off' = off + 1"
  by (auto simp: dec_byte_def)

lemma dec_take_Ok [res_simps]:
  "dec_take bs off n = Ok (xs, off') \<longleftrightarrow>
   off + n \<le> usize_max \<and> off + n \<le> length bs \<and> xs = take n (drop off bs) \<and> off' = off + n"
  by (auto simp: dec_take_def)

lemma decode_argument_Ok:
  "decode_argument bs info off = Ok (v, off') \<Longrightarrow> off \<le> length bs \<Longrightarrow> off \<le> off' \<and> off' \<le> length bs"
  by (auto simp: decode_argument_def res_simps split: if_splits)

definition dec_sound :: "bytes \<Rightarrow> (nat \<Rightarrow> (wire_value \<times> nat) wres) \<Rightarrow> bool" where
  "dec_sound bs dec \<longleftrightarrow>
   (\<forall>off v off'. dec off = Ok (v, off') \<longrightarrow> wire_ok v \<and> off < off' \<and> off' \<le> length bs)"

lemma decode_items_Ok:
  "decode_items dec n off = Ok (vs, off') \<Longrightarrow> dec_sound bs dec \<Longrightarrow> off \<le> length bs \<Longrightarrow>
   list_all wire_ok vs \<and> off \<le> off' \<and> off' \<le> length bs"
proof (induction n arbitrary: off vs)
  case (Suc n)
  then show ?case by (fastforce simp: res_simps dec_sound_def)
qed simp

lemma decode_entries_SucE:
  assumes "decode_entries dec (Suc n) off m = Ok (m', off')"
  obtains k off1 v off2 where "dec off = Ok (Text k, off1)" "dec off1 = Ok (v, off2)"
    "decode_entries dec n off2 (bt_insert k v m) = Ok (m', off')"
proof -
  from assms obtain key off1 where "dec off = Ok (key, off1)"
    by (auto simp: res_simps simp del: split_paired_Ex)
  with assms that show ?thesis by (cases key) (auto simp: res_simps split: if_splits)
qed

lemma decode_entries_Ok:
  "decode_entries dec n off m = Ok (m', off') \<Longrightarrow> dec_sound bs dec \<Longrightarrow> off \<le> length bs \<Longrightarrow>
   wire_ok (Map m) \<Longrightarrow> wire_ok (Map m') \<and> off \<le> off' \<and> off' \<le> length bs"
proof (induction n arbitrary: off m)
  case (Suc n)
  from Suc.prems(1) obtain k off1 v off2 where
    k: "dec off = Ok (Text k, off1)" and v: "dec off1 = Ok (v, off2)"
    and rest: "decode_entries dec n off2 (bt_insert k v m) = Ok (m', off')"
    by (rule decode_entries_SucE)
  have kok: "text_ok k" "off < off1" "off1 \<le> length bs" and vok: "wire_ok v" "off1 < off2" "off2 \<le> length bs"
    using k v Suc.prems(2) by (fastforce simp: dec_sound_def)+
  have "wire_ok (Map (bt_insert k v m))"
    using Suc.prems(4) kok(1) vok(1)
    by (auto simp: bt_simps list_all_iff dest!: bt_insert_set [THEN subsetD])
  with Suc.IH [OF rest Suc.prems(2) vok(3)] kok vok show ?case by simp
qed simp

lemma decode_value_sound: "dec_sound bs (decode_value bs depth)"
proof (induction "9 - depth" arbitrary: depth)
  case 0
  then show ?case by (auto simp: dec_sound_def decode_value.simps)
next
  case (Suc n)
  have "dec_sound bs (decode_value bs (depth + 1))"
    by (rule Suc.hyps(1)) (use Suc.hyps(2) in simp)
  then have IH: "dec_sound bs (decode_value bs (Suc depth))" by simp
  show ?case unfolding dec_sound_def
  proof (intro allI impI)
    fix off v off'
    assume "decode_value bs depth off = Ok (v, off')"
    then show "wire_ok v \<and> off < off' \<and> off' \<le> length bs"
      by (subst (asm) decode_value.simps)
        (auto simp: res_simps Let_def from_utf8_Some split: if_splits option.splits
          dest!: decode_argument_Ok decode_items_Ok [OF _ IH] decode_entries_Ok [OF _ IH])
  qed
qed

lemma encode_text_not_Panic [simp]: "encode_text t depth \<noteq> Panic"
  by (simp add: encode_text_def)

lemma encode_into_not_Panic: "encode_into v depth \<noteq> Panic"
proof (induction "9 - depth" arbitrary: v depth)
  case 0
  then show ?case by (subst encode_into.simps) simp
next
  case (Suc n)
  have IH: "encode_into w (Suc depth) \<noteq> Panic" for w
    by (rule Suc.hyps(1)) (use Suc.hyps(2) in simp)
  show ?case
    by (subst encode_into.simps)
      (auto simp: res_simps IH split: wire_value.splits intro!: map_res_not_Panic dest!: map_res_not_Panic [THEN notE, rotated])
qed

subsection \<open>When the decoder aborts\<close>

text \<open>A map header whose count does not fit in half of \<open>usize\<close>.\<close>

definition huge_map_header :: "bytes \<Rightarrow> nat \<Rightarrow> bool" where
  "huge_map_header bs i \<longleftrightarrow> i + 9 \<le> length bs \<and> bs ! i = 0xBB \<and> 0x80 \<le> bs ! (i + 1)"

lemma decode_items_Panic:
  "decode_items dec n off = Panic \<Longrightarrow> \<exists>off. dec off = Panic"
  by (induction n arbitrary: off) (auto simp: res_simps)

lemma decode_entries_Panic:
  "decode_entries dec n off m = Panic \<Longrightarrow> \<exists>off. dec off = Panic"
proof (induction n arbitrary: off m)
  case (Suc n)
  show ?case
  proof (cases "dec off")
    case (Ok kv)
    with Suc show ?thesis by (cases "fst kv") (auto simp: res_simps case_prod_unfold split: if_splits)
  qed (use Suc in auto)
qed simp

lemma header_byte:
  fixes h :: byte
  assumes "drop_bit 5 h = a" and "h AND 0x1F = b"
  shows "h = push_bit 5 a + b"
proof -
  have "take_bit 5 h = h AND 0x1F" by (simp add: take_bit_eq_mask mask_eq_exp_minus_1)
  with bits_ident [of 5 h] assms show ?thesis by simp
qed

lemma decode_argument_huge:
  assumes "decode_argument bs info off = Ok (n, off')" and "usize_max < unat n * 2"
  shows "info = 27 \<and> off + 8 \<le> length bs \<and> 0x80 \<le> bs ! off"
proof -
  have small: "\<not> usize_max < unat (word_of_nat (be_nat xs) :: u64) * 2" if "length xs \<le> 4" for xs
  proof -
    have "be_nat xs < 256 ^ 4"
      by (rule less_le_trans [OF be_nat_less]) (use that in \<open>intro power_increasing, simp_all\<close>)
    then have "unat (word_of_nat (be_nat xs) :: u64) < 4294967296" by (simp add: unat_of_nat)
    then show ?thesis by linarith
  qed
  have byte: "\<not> usize_max < unat (ucast b :: u64) * 2" for b :: byte
  proof -
    have "unat (ucast b :: u64) = unat b"
      using unat_byte_less [of b] by (simp add: unsigned_ucast_eq take_bit_nat_eq_self)
    then show ?thesis using unat_byte_less [of b] by linarith
  qed
  from assms small byte have info: "info = 27" and le: "off + 8 \<le> length bs"
    and n: "n = word_of_nat (be_nat (take 8 (drop off bs)))"
    by (auto simp: decode_argument_def res_simps split: if_splits)
  let ?t = "take 7 (drop (Suc off) bs)"
  have "take 8 (drop off bs) = bs ! off # ?t"
    using le by (simp add: Cons_nth_drop_Suc [symmetric])
  then have "be_nat (take 8 (drop off bs)) = unat (bs ! off) * 256 ^ 7 + be_nat ?t"
    using le by (simp add: be_nat_Cons)
  moreover have "be_nat ?t < 256 ^ 7" using be_nat_less [of ?t] le by simp
  moreover have "unat n \<le> be_nat (take 8 (drop off bs))" using n by (simp add: unat_of_nat)
  ultimately have "128 \<le> unat (bs ! off)" using assms(2) by simp
  then show ?thesis using info le by (simp add: word_le_nat_alt)
qed

lemma decode_value_Panic: "decode_value bs depth off = Panic \<Longrightarrow> \<exists>i. huge_map_header bs i"
proof (induction "9 - depth" arbitrary: depth off)
  case 0
  then show ?case by (simp add: decode_value.simps)
next
  case (Suc n)
  have IH: "\<exists>i. huge_map_header bs i" if "decode_value bs (Suc depth) off = Panic" for off
    by (rule Suc.hyps(1) [OF _ that]) (use Suc.hyps(2) in simp)
  have arg: "decode_argument bs info off \<noteq> Panic" for info off
    by (simp add: decode_argument_def res_simps dec_byte_def dec_take_def)
  have huge: "huge_map_header bs off"
    if "drop_bit 5 (bs ! off) = 5" "decode_argument bs (bs ! off AND 0x1F) (Suc off) = Ok (a, b)"
      "usize_max < unat a * 2" for a b
  proof -
    from decode_argument_huge [OF that(2,3)] have *: "bs ! off AND 0x1F = 27" "Suc off + 8 \<le> length bs"
      "0x80 \<le> bs ! Suc off" by auto
    from header_byte [OF that(1) *(1)] have "bs ! off = 0xBB" by simp
    with * show ?thesis by (simp add: huge_map_header_def)
  qed
  from Suc.prems show ?case
    by (subst (asm) decode_value.simps)
      (auto simp: res_simps arg Let_def dec_byte_def dec_take_def split: if_splits option.splits
        dest: huge decode_items_Panic decode_entries_Panic IH)
qed

text \<open>The decoder accepts exactly the canonical encodings.\<close>

lemma decode_deterministic_iff:
  "decode_deterministic_cbor bs = Ok v \<longleftrightarrow>
   wire_ok v \<and> encode v = Ok bs \<and> length bs \<le> MAX_FRAME_PLAINTEXT"
proof
  assume "decode_deterministic_cbor bs = Ok v"
  then obtain off where "decode_value bs 0 0 = Ok (v, off)" "encode v = Ok bs"
      "length bs \<le> MAX_FRAME_PLAINTEXT"
    by (auto simp: decode_deterministic_cbor_def res_simps split: if_splits)
  with decode_value_sound [of bs 0]
  show "wire_ok v \<and> encode v = Ok bs \<and> length bs \<le> MAX_FRAME_PLAINTEXT"
    by (auto simp: dec_sound_def)
next
  assume *: "wire_ok v \<and> encode v = Ok bs \<and> length bs \<le> MAX_FRAME_PLAINTEXT"
  then have "decode_value bs 0 0 = Ok (v, length bs)"
    using decode_encode_top [of v bs "[]"] by simp
  with * show "decode_deterministic_cbor bs = Ok v"
    by (simp add: decode_deterministic_cbor_def)
qed

interpretation cbor: res_codec encode decode_deterministic_cbor wire_ok "\<lambda>bs. length bs \<le> MAX_FRAME_PLAINTEXT"
  by unfold_locales (simp add: decode_deterministic_iff)

subsection \<open>Properties of the codec\<close>

text \<open>C1. The decoder accepts exactly the canonical encodings: it returns \<open>v\<close> on an
  input if and only if \<open>v\<close> is a well-formed value whose encoding is that input and
  the input fits in a frame. This is the encode/decode round trip and the
  canonicity of every accepted input at once, over all value types, nesting
  depths and header widths.\<close>

theorem decode_iff_canonical_encoding:
  "decode_deterministic_cbor bs = Ok v \<longleftrightarrow>
   wire_ok v \<and> encode v = Ok bs \<and> length bs \<le> MAX_FRAME_PLAINTEXT"
  by (rule decode_deterministic_iff)

text \<open>The encoder is injective on well-formed values: two different values never
  share an encoding, and no encoding is a proper prefix of another, so a
  concatenation of values is uniquely decodable.\<close>

theorem encode_prefix_free:
  assumes "encode v = Ok bs" and "encode w = Ok cs" and "wire_ok v" and "wire_ok w"
    and "cs = bs @ s" and "length cs \<le> usize_max"
  shows "v = w \<and> s = []"
proof -
  have "decode_value cs 0 0 = Ok (w, length cs)"
    using decode_encode_top [of w cs "[]"] assms by simp
  moreover have "decode_value cs 0 0 = Ok (v, length bs)"
    using decode_encode_top [of v bs s] assms by simp
  ultimately show ?thesis using assms(5) by simp
qed

theorem encode_prefix_free_witness:
  "encode (Array [Unsigned 300, Text ''a'']) = Ok [0x82, 0x19, 0x01, 0x2C, 0x61, 0x61]
   \<and> Array [Unsigned 300, Text ''a''] = Array [Unsigned 300, Text ''a'']"
proof -
  have enc: "encode (Array [Unsigned 300, Text ''a'']) = Ok [0x82, 0x19, 0x01, 0x2C, 0x61, 0x61]"
    by (simp add: encode_def encode_into.simps encode_text_def encode_header_def str_bytes_def
        be_bytes_eval)
  moreover have "wire_ok (Array [Unsigned 300, Text ''a''])"
    by (simp add: text_ok_def str_bytes_def)
  ultimately show ?thesis
    using encode_prefix_free [of "Array [Unsigned 300, Text ''a'']" _ "Array [Unsigned 300, Text ''a'']" _ "[]"]
    by simp
qed

text \<open>The decoder aborts the process only on an input that contains the byte
  \<open>0xBB\<close> (a map header with an eight-byte count) followed by a count of at least
  \<open>2 ^ 63\<close>; every other input, however malformed, ends in a value or an error.\<close>

theorem decode_panics_only_on_huge_map:
  assumes "decode_deterministic_cbor bs = Panic"
  shows "\<exists>i. huge_map_header bs i"
proof -
  have "decode_value bs 0 0 = Panic"
    using assms encode_into_not_Panic [of _ 0]
    by (auto simp: decode_deterministic_cbor_def encode_def res_simps split: if_splits)
  then show ?thesis by (rule decode_value_Panic)
qed

theorem decode_panics_only_on_huge_map_witness:
  "\<exists>i. huge_map_header [0xBB, 0x80, 0, 0, 0, 0, 0, 0, 0] i"
  by (rule decode_panics_only_on_huge_map)
    (simp add: decode_deterministic_cbor_def decode_value.simps dec_byte_def decode_argument_def
      dec_take_def be_nat_def)


end
