(* ===== verification/Wire_Limits.thy ===== *)
theory Wire_Limits
  imports Rapp_Wire "HOL-Library.Multiset"
begin

text \<open>
  When the canonical encoder of \<open>Rapp_Wire\<close> succeeds, and how long its output is: the
  nesting and text limits of \<open>rapp/wire.rs\<close> as an executable predicate, and a size bound.
  The schema theories use them to show that their messages can be encoded.
\<close>

fun encodable :: "nat \<Rightarrow> wire_value \<Rightarrow> bool" where
  "encodable d (Negative i) \<longleftrightarrow> d \<le> MAX_NESTING_DEPTH \<and> sint i < 0"
| "encodable d (Text s) \<longleftrightarrow> d \<le> MAX_NESTING_DEPTH \<and> length s \<le> MAX_TEXT_SIZE"
| "encodable d (Array items) \<longleftrightarrow> d \<le> MAX_NESTING_DEPTH \<and> list_all (\<lambda>v. encodable (d + 1) v) items"
| "encodable d (Map m) \<longleftrightarrow> d \<le> MAX_NESTING_DEPTH \<and>
     list_all (\<lambda>e. d + 1 \<le> MAX_NESTING_DEPTH \<and> length (fst e) \<le> MAX_TEXT_SIZE \<and> encodable (d + 1) (snd e)) m"
| "encodable d _ \<longleftrightarrow> d \<le> MAX_NESTING_DEPTH"

definition header_size :: "nat \<Rightarrow> nat" where
  "header_size n = (if n < 24 then 1 else if n \<le> 0xFF then 2 else if n \<le> 0xFFFF then 3
     else if n \<le> 0xFFFFFFFF then 5 else 9)"

fun wire_size :: "wire_value \<Rightarrow> nat" where
  "wire_size (Unsigned n) = header_size (unat n)"
| "wire_size (Negative i) = header_size (unat (NOT i))"
| "wire_size (Bytes b) = header_size (length b) + length b"
| "wire_size (Text s) = header_size (length s) + length s"
| "wire_size (Array items) = header_size (length items) + sum_list (map wire_size items)"
| "wire_size (Map m) = header_size (length m) +
     sum_list (map (\<lambda>e. header_size (length (fst e)) + length (fst e) + wire_size (snd e)) m)"
| "wire_size (Boolean _) = 1"
| "wire_size Null = 1"

lemma length_encode_header: "length (encode_header mt w) = header_size (unat w)"
  by (simp add: encode_header_def header_size_def Let_def)

lemma header_size_mono: "m \<le> n \<Longrightarrow> header_size m \<le> header_size n"
  by (auto simp: header_size_def)

lemma length_encode_header_of_nat:
  "length (encode_header mt (word_of_nat n)) \<le> header_size n"
  by (simp add: length_encode_header unat_of_nat header_size_mono)

lemma ex_list_all2: "(\<exists>ys. list_all2 P xs ys) \<longleftrightarrow> (\<forall>x \<in> set xs. \<exists>y. P x y)"
  by (induction xs) (auto simp: list_all2_Cons1)

lemma encode_into_scalar:
  "(\<exists>b. encode_into (Unsigned n) d = Ok b) \<longleftrightarrow> d \<le> MAX_NESTING_DEPTH"
  "(\<exists>b. encode_into (Negative i) d = Ok b) \<longleftrightarrow> d \<le> MAX_NESTING_DEPTH \<and> sint i < 0"
  "(\<exists>b. encode_into (Bytes bs) d = Ok b) \<longleftrightarrow> d \<le> MAX_NESTING_DEPTH"
  "(\<exists>b. encode_into (Text s) d = Ok b) \<longleftrightarrow> d \<le> MAX_NESTING_DEPTH \<and> length s \<le> MAX_TEXT_SIZE"
  "(\<exists>b. encode_into (Boolean t) d = Ok b) \<longleftrightarrow> d \<le> MAX_NESTING_DEPTH"
  "(\<exists>b. encode_into Null d = Ok b) \<longleftrightarrow> d \<le> MAX_NESTING_DEPTH"
  by (auto simp: encode_into.simps encode_text_def)

lemma encode_into_Ok_iff: "(\<exists>b. encode_into v d = Ok b) \<longleftrightarrow> encodable d v"
proof (induction d v rule: encodable.induct)
  case (3 d items)
  have "(\<exists>b. encode_into (Array items) d = Ok b) \<longleftrightarrow> d \<le> MAX_NESTING_DEPTH \<and>
      (\<exists>parts. list_all2 (\<lambda>v b. encode_into v (d + 1) = Ok b) items parts)"
    by (auto simp only: encode_into_Array)
  also have "\<dots> \<longleftrightarrow> encodable d (Array items)"
    using 3 by (simp add: ex_list_all2 list_all_iff)
  finally show ?case .
next
  case (4 d m)
  let ?P = "\<lambda>(k, v) b. \<exists>vb. encode_text k (d + 1) = Ok (text_item k)
        \<and> encode_into v (d + 1) = Ok vb \<and> b = text_item k @ vb"
  have "(\<exists>b. encode_into (Map m) d = Ok b) \<longleftrightarrow> d \<le> MAX_NESTING_DEPTH \<and> (\<exists>parts. list_all2 ?P (key_order m) parts)"
    by (auto simp only: encode_into_Map)
  also have "\<dots> \<longleftrightarrow> d \<le> MAX_NESTING_DEPTH \<and> (\<forall>e \<in> set m. \<exists>b. ?P e b)"
    by (simp only: ex_list_all2 set_key_order)
  also have "\<dots> \<longleftrightarrow> encodable d (Map m)"
    using 4 by (fastforce simp: list_all_iff encode_text_eq_Ok)
  finally show ?case .
qed (simp_all add: encode_into_scalar)


text \<open>The size bound.\<close>

lemma concat_length_bound:
  "list_all2 (\<lambda>x b. length b \<le> f x) xs bs \<Longrightarrow> length (concat bs) \<le> sum_list (map f xs)"
  by (induction rule: list_all2_induct) auto

lemma length_text_item: "length (text_item k) \<le> header_size (length k) + length k"
  by (simp add: text_item_def length_encode_header_of_nat)

lemma sum_list_key_order: "sum_list (map f (key_order m)) = sum_list (map f m)" for f :: "_ \<Rightarrow> nat"
proof -
  have "mset (map f (key_order m)) = mset (map f m)" by (simp add: key_order_def)
  then show ?thesis by (simp only: sum_mset_sum_list [symmetric])
qed

lemma encode_into_size: "encode_into v d = Ok b \<Longrightarrow> length b \<le> wire_size v"
proof (induction d v arbitrary: b rule: encodable.induct)
  case (3 d items)
  from 3(2) obtain parts where
    parts: "list_all2 (\<lambda>v b. encode_into v (d + 1) = Ok b) items parts"
      "b = encode_header MArray (word_of_nat (length items)) @ concat parts"
    by (auto simp: encode_into_Array)
  have "list_all2 (\<lambda>v b. length b \<le> wire_size v) items parts"
    using parts(1) by (rule list.rel_mono_strong) (use 3(1) in auto)
  from concat_length_bound [OF this] show ?case
    using parts(2) length_encode_header_of_nat [of MArray "length items"] by simp
next
  case (4 d m)
  from 4(2) obtain parts where
    parts: "list_all2 (\<lambda>(k, v) b. \<exists>vb. encode_text k (d + 1) = Ok (text_item k)
        \<and> encode_into v (d + 1) = Ok vb \<and> b = text_item k @ vb) (key_order m) parts"
      "b = encode_header MMap (word_of_nat (length m)) @ concat parts"
    by (auto simp: encode_into_Map)
  let ?f = "\<lambda>e. header_size (length (fst e)) + length (fst e) + wire_size (snd e)"
  have "list_all2 (\<lambda>e b. length b \<le> ?f e) (key_order m) parts"
    using parts(1) by (rule list.rel_mono_strong)
      (use 4(1) length_text_item in \<open>auto intro!: add_mono\<close>)
  from concat_length_bound [OF this] show ?case
    using parts(2) length_encode_header_of_nat [of MMap "length m"] 
    by (simp add: sum_list_key_order)
qed (auto simp: encode_into.simps encode_text_def length_encode_header unat_of_nat
    intro!: header_size_mono split: if_splits)

lemma encode_fits: 
  assumes "encodable 0 v" and "wire_size v \<le> n"
  obtains b where "encode v = Ok b" and "length b \<le> n"
  using assms encode_into_Ok_iff [of v 0] encode_into_size unfolding encode_def
  by (metis order_trans)

text \<open>The encoder succeeds exactly on the values within the limits: nesting at most eight levels,
  texts and keys of at most 4096 bytes, negative integers that are negative.\<close>

theorem encode_succeeds_within_limits: "(\<exists>bs. encode v = Ok bs) \<longleftrightarrow> encodable 0 v"
  by (simp add: encode_def encode_into_Ok_iff)

end
