(* ===== verification/Rapp_Envelope.thy ===== *)
theory Rapp_Envelope
  imports Wire_Limits
begin

text \<open>
  The common message envelope of the remote-card protocol and the sequence guard
  (\<open>crates/refineid-lib-core/src/rapp/envelope.rs\<close>).

  The envelope is encoded as a map with a fixed set of keys; the decoder removes
  every known key and refuses what is left over. Both are modelled on the
  \<open>BTreeMap\<close> interface of \<open>Btree_Map\<close>, so the schema proofs use its laws only.
\<close>

subsection \<open>Message types\<close>

datatype message_type =
    PairingHello
  | PairingConfirm
  | PairingAbort
  | SessionReady
  | SessionClose
  | LivenessPing
  | LivenessPong
  | OperationRequest
  | OperationPrepared
  | OperationCommit
  | OperationCancel
  | OperationResult
  | OperationResultAck
  | OperationStatusRequest
  | OperationStatus
  | ErrorMessage

fun mt_as_str :: "message_type \<Rightarrow> string" where
  "mt_as_str PairingHello = ''pairing.hello''"
| "mt_as_str PairingConfirm = ''pairing.confirm''"
| "mt_as_str PairingAbort = ''pairing.abort''"
| "mt_as_str SessionReady = ''session.ready''"
| "mt_as_str SessionClose = ''session.close''"
| "mt_as_str LivenessPing = ''liveness.ping''"
| "mt_as_str LivenessPong = ''liveness.pong''"
| "mt_as_str OperationRequest = ''operation.request''"
| "mt_as_str OperationPrepared = ''operation.prepared''"
| "mt_as_str OperationCommit = ''operation.commit''"
| "mt_as_str OperationCancel = ''operation.cancel''"
| "mt_as_str OperationResult = ''operation.result''"
| "mt_as_str OperationResultAck = ''operation.result_ack''"
| "mt_as_str OperationStatusRequest = ''operation.status_request''"
| "mt_as_str OperationStatus = ''operation.status''"
| "mt_as_str ErrorMessage = ''error''"

definition mt_from_str :: "string \<Rightarrow> message_type option" where
  "mt_from_str s =
     (if s = ''pairing.hello'' then Some PairingHello
      else if s = ''pairing.confirm'' then Some PairingConfirm
      else if s = ''pairing.abort'' then Some PairingAbort
      else if s = ''session.ready'' then Some SessionReady
      else if s = ''session.close'' then Some SessionClose
      else if s = ''liveness.ping'' then Some LivenessPing
      else if s = ''liveness.pong'' then Some LivenessPong
      else if s = ''operation.request'' then Some OperationRequest
      else if s = ''operation.prepared'' then Some OperationPrepared
      else if s = ''operation.commit'' then Some OperationCommit
      else if s = ''operation.cancel'' then Some OperationCancel
      else if s = ''operation.result'' then Some OperationResult
      else if s = ''operation.result_ack'' then Some OperationResultAck
      else if s = ''operation.status_request'' then Some OperationStatusRequest
      else if s = ''operation.status'' then Some OperationStatus
      else if s = ''error'' then Some ErrorMessage
      else None)"

subsection \<open>Envelopes\<close>

abbreviation WIRE_VERSION :: "u64 \<times> u64" where "WIRE_VERSION \<equiv> (26, 9)"

record rapp_envelope =
  version :: "u64 \<times> u64"
  msg_type :: message_type
  session_id :: bytes
  sequence :: u64
  body :: wire_map
  critical :: "string list"
  extensions :: wire_map

definition RappEnvelope_new :: "message_type \<Rightarrow> bytes \<Rightarrow> u64 \<Rightarrow> wire_map \<Rightarrow> rapp_envelope" where
  "RappEnvelope_new mt sid sq bd =
     \<lparr>version = WIRE_VERSION, msg_type = mt, session_id = sid, sequence = sq, body = bd,
      critical = [], extensions = bt_new\<rparr>"

definition envelope_map :: "rapp_envelope \<Rightarrow> wire_map" where
  "envelope_map e =
     (let map0 = bt_insert ''version'' (Array [Unsigned (fst (version e)), Unsigned (snd (version e))]) bt_new;
          map1 = bt_insert ''type'' (Text (mt_as_str (msg_type e))) map0;
          map2 = bt_insert ''session_id'' (Bytes (session_id e)) map1;
          map3 = bt_insert ''sequence'' (Unsigned (sequence e)) map2;
          map4 = bt_insert ''body'' (Map (body e)) map3;
          map5 = (if critical e \<noteq> [] then bt_insert ''critical'' (Array (map Text (critical e))) map4 else map4);
          map6 = (if extensions e \<noteq> [] then bt_insert ''extensions'' (Map (extensions e)) map5 else map5) in
      map6)"

definition envelope_encode :: "rapp_envelope \<Rightarrow> bytes wres" where
  "envelope_encode e = encode (Map (envelope_map e))"

text \<open>\<open>map.remove(k).ok_or(MissingField)\<close>.\<close>

definition take_field :: "string \<Rightarrow> wire_map \<Rightarrow> (wire_value \<times> wire_map) wres" where
  "take_field k m = and_then (ok_or (bt_get m k) (MissingField k)) (\<lambda>v. Ok (v, bt_remove k m))"

definition decode_version :: "wire_value \<Rightarrow> (u64 \<times> u64) wres" where
  "decode_version v =
     (case v of
        Array [Unsigned maj, Unsigned mn] \<Rightarrow> Ok (maj, mn)
      | _ \<Rightarrow> Err (WrongType ''version''))"

definition decode_id16 :: "string \<Rightarrow> wire_value \<Rightarrow> bytes wres" where
  "decode_id16 field v =
     (case v of
        Bytes b \<Rightarrow> if length b = 16 then Ok b else Err (WireWrongLength field 16 (length b))
      | _ \<Rightarrow> Err (WrongType field))"

definition decode_critical :: "wire_value option \<Rightarrow> string list wres" where
  "decode_critical v =
     (case v of
        Some (Array arr) \<Rightarrow>
          map_res (\<lambda>item. case item of Text t \<Rightarrow> Ok t | _ \<Rightarrow> Err (WrongType ''critical'')) arr
      | Some _ \<Rightarrow> Err (WrongType ''critical'')
      | None \<Rightarrow> Ok [])"

definition decode_extensions :: "wire_value option \<Rightarrow> wire_map wres" where
  "decode_extensions v =
     (case v of
        Some (Map m) \<Rightarrow> Ok m
      | Some _ \<Rightarrow> Err (WrongType ''extensions'')
      | None \<Rightarrow> Ok bt_new)"

definition envelope_from_map :: "wire_map \<Rightarrow> rapp_envelope wres" where
  "envelope_from_map m =
     and_then (take_field ''version'' m) (\<lambda>(version_val, m).
     and_then (decode_version version_val) (\<lambda>ver.
     if ver \<noteq> WIRE_VERSION then Err UnsupportedVersion
     else and_then (take_field ''type'' m) (\<lambda>(type_val, m).
     and_then (case type_val of Text t \<Rightarrow> ok_or (mt_from_str t) UnknownMessageType | _ \<Rightarrow> Err (WrongType ''type'')) (\<lambda>mt.
     and_then (take_field ''session_id'' m) (\<lambda>(session_val, m).
     and_then (decode_id16 ''session_id'' session_val) (\<lambda>sid.
     and_then (take_field ''sequence'' m) (\<lambda>(seq_val, m).
     and_then (case seq_val of Unsigned s \<Rightarrow> Ok s | _ \<Rightarrow> Err (WrongType ''sequence'')) (\<lambda>sq.
     and_then (take_field ''body'' m) (\<lambda>(body_val, m).
     and_then (case body_val of Map b \<Rightarrow> Ok b | _ \<Rightarrow> Err (WrongType ''body'')) (\<lambda>bd.
     and_then (decode_critical (bt_get m ''critical'')) (\<lambda>crit.
     let m = bt_remove ''critical'' m in
     and_then (decode_extensions (bt_get m ''extensions'')) (\<lambda>ext.
     let m = bt_remove ''extensions'' m in
     if list_ex (\<lambda>name. bt_get ext name = None) crit then Err CriticalExtensionMissing
     else if m \<noteq> [] then Err UnknownField
     else Ok \<lparr>version = ver, msg_type = mt, session_id = sid, sequence = sq, body = bd,
              critical = crit, extensions = ext\<rparr>))))))))))))"

definition envelope_decode :: "bytes \<Rightarrow> rapp_envelope wres" where
  "envelope_decode bs =
     (if MAX_FRAME_PLAINTEXT < length bs then Err (OversizedPlaintext (length bs))
      else and_then (decode_deterministic_cbor bs) (\<lambda>v. case v of
        Map m \<Rightarrow> envelope_from_map m
      | _ \<Rightarrow> Err (WrongType ''envelope'')))"

subsection \<open>Sequence guard\<close>

type_synonym sequence_guard = u64

abbreviation u64_max :: u64 where "u64_max \<equiv> 0xFFFFFFFFFFFFFFFF"

definition SequenceGuard_new :: sequence_guard where
  "SequenceGuard_new = 0"

definition advance_send :: "sequence_guard \<Rightarrow> u64 wres \<times> sequence_guard" where
  "advance_send next_sequence =
     (if next_sequence = u64_max then (Err IntegerOverflow, next_sequence)
      else (Ok next_sequence, next_sequence + 1))"

definition check_and_advance_recv :: "sequence_guard \<Rightarrow> u64 \<Rightarrow> unit wres \<times> sequence_guard" where
  "check_and_advance_recv next_sequence sq =
     (if sq \<noteq> next_sequence then (Err (InvalidValue ''sequence''), next_sequence)
      else if next_sequence = u64_max then (Err IntegerOverflow, next_sequence)
      else (Ok (), next_sequence + 1))"

definition last_seen :: "sequence_guard \<Rightarrow> u64" where
  "last_seen next_sequence = (if next_sequence = 0 then 0 else next_sequence - 1)"


subsection \<open>Schema lemmas\<close>

lemma wire_ok_Map_insert [simp]:
  "wire_ok (Map m) \<Longrightarrow> text_ok k \<Longrightarrow> wire_ok v \<Longrightarrow> wire_ok (Map (bt_insert k v m))"
  using bt_insert_set [of k v m] by (fastforce simp: bt_simps list_all_iff)

lemma wire_ok_Map_new [simp]: "wire_ok (Map bt_new)"
  by simp

lemma wire_ok_Map_get: "wire_ok (Map m) \<Longrightarrow> bt_get m k = Some v \<Longrightarrow> text_ok k \<and> wire_ok v"
  by (fastforce simp: bt_get_def list_all_iff dest: map_of_SomeD)

lemma wire_ok_Map_bt_ok: "wire_ok (Map m) \<Longrightarrow> bt_ok m"
  by simp

lemma wire_ok_Map_remove: "wire_ok (Map m) \<Longrightarrow> wire_ok (Map (bt_remove k m))"
  by (auto simp: bt_simps list_all_iff) (auto simp: bt_remove_def)

lemma bt_remove_order: "bt_remove k (bt_remove k' m) = bt_remove k' (bt_remove k m)"
  by (induction m) (auto simp: bt_remove_def)

text \<open>The text keys of the schemas are ASCII.\<close>

lemma text_ok_Nil [simp]: "text_ok []"
  by (simp add: text_ok_def str_bytes_def)

lemma text_ok_ascii [simp]: "list_all (\<lambda>c. (of_char c :: nat) < 128) s \<Longrightarrow> text_ok s"
  unfolding text_ok_def
proof (rule utf8_valid_ascii, rule ballI)
  fix b assume *: "list_all (\<lambda>c. (of_char c :: nat) < 128) s" "b \<in> set (str_bytes s)"
  then obtain c where "b = of_char c" "(of_char c :: nat) < 128"
    by (auto simp: str_bytes_def list_all_iff)
  then have "unat b < 128" using unat_of_char [of c] by simp
  then show "b \<le> 0x7F" by (simp add: word_le_nat_alt)
qed

lemma text_ok_mt [simp]: "text_ok (mt_as_str t)"
  by (rule text_ok_ascii, cases t) simp_all

lemma mt_from_str_as_str: "mt_from_str (mt_as_str t) = Some t"
  by (cases t) (simp_all add: mt_from_str_def)

lemma mt_from_str_Some: "mt_from_str s = Some t \<Longrightarrow> s = mt_as_str t"
  by (auto simp: mt_from_str_def split: if_splits)


definition env_ok :: "rapp_envelope \<Rightarrow> bool" where
  "env_ok e \<longleftrightarrow> version e = WIRE_VERSION \<and> length (session_id e) = 16 \<and>
     wire_ok (Map (body e)) \<and> wire_ok (Map (extensions e)) \<and>
     list_all (\<lambda>c. text_ok c \<and> bt_get (extensions e) c \<noteq> None) (critical e)"

lemma envelope_map_wire_ok: "env_ok e \<Longrightarrow> wire_ok (Map (envelope_map e))"
  by (auto simp: envelope_map_def env_ok_def Let_def list_all_iff simp del: wire_ok.simps(3) bt_insert.simps)

lemma envelope_map_bt_ok [simp]: "bt_ok (envelope_map e)"
  by (simp add: envelope_map_def Let_def bt_simps del: bt_insert.simps)

lemma envelope_map_get:
  "bt_get (envelope_map e) ''version'' = Some (Array [Unsigned (fst (version e)), Unsigned (snd (version e))])"
  "bt_get (envelope_map e) ''type'' = Some (Text (mt_as_str (msg_type e)))"
  "bt_get (envelope_map e) ''session_id'' = Some (Bytes (session_id e))"
  "bt_get (envelope_map e) ''sequence'' = Some (Unsigned (sequence e))"
  "bt_get (envelope_map e) ''body'' = Some (Map (body e))"
  "bt_get (envelope_map e) ''critical'' =
     (if critical e = [] then None else Some (Array (map Text (critical e))))"
  "bt_get (envelope_map e) ''extensions'' =
     (if extensions e = [] then None else Some (Map (extensions e)))"
  "k \<notin> {''version'', ''type'', ''session_id'', ''sequence'', ''body'', ''critical'', ''extensions''} \<Longrightarrow>
   bt_get (envelope_map e) k = None"
  by (auto simp: envelope_map_def Let_def bt_simps simp del: bt_insert.simps)

lemma decode_critical_map: 
  "decode_critical (if cs = [] then None else Some (Array (map Text cs))) = Ok cs"
proof -
  have "map_res (\<lambda>item. case item of Text t \<Rightarrow> Ok t | _ \<Rightarrow> Err (WrongType ''critical'')) (map Text cs) = Ok cs"
    by (induction cs) auto
  then show ?thesis by (auto simp: decode_critical_def)
qed

lemma decode_extensions_map:
  "decode_extensions (if m = [] then None else Some (Map m)) = Ok m"
  by (auto simp: decode_extensions_def)

lemma take_field_Ok [res_simps]:
  "take_field k m = Ok r \<longleftrightarrow> (\<exists>v. bt_get m k = Some v \<and> r = (v, bt_remove k m))"
  by (auto simp: take_field_def res_simps)

text \<open>What is left of the map once the seven known keys are removed.\<close>

definition env_rest :: "wire_map \<Rightarrow> wire_map" where
  "env_rest m = bt_remove ''extensions'' (bt_remove ''critical'' (bt_remove ''body''
     (bt_remove ''sequence'' (bt_remove ''session_id'' (bt_remove ''type'' (bt_remove ''version'' m))))))"


lemma decode_version_Ok [res_simps]:
  "decode_version v = Ok r \<longleftrightarrow> v = Array [Unsigned (fst r), Unsigned (snd r)]"
  by (auto simp: decode_version_def split: wire_value.splits list.splits)

lemma decode_id16_Ok [res_simps]:
  "decode_id16 field v = Ok b \<longleftrightarrow> v = Bytes b \<and> length b = 16"
  by (auto simp: decode_id16_def split: wire_value.splits if_splits)

lemma case_wire_Ok [res_simps]:
  "(case v of Text t \<Rightarrow> f t | _ \<Rightarrow> Err e) = Ok r \<longleftrightarrow> (\<exists>t. v = Text t \<and> f t = Ok r)"
  "(case v of Unsigned n \<Rightarrow> g n | _ \<Rightarrow> Err e) = Ok r \<longleftrightarrow> (\<exists>n. v = Unsigned n \<and> g n = Ok r)"
  "(case v of Map m \<Rightarrow> h m | _ \<Rightarrow> Err e) = Ok r \<longleftrightarrow> (\<exists>m. v = Map m \<and> h m = Ok r)"
  "(case v of Bytes b \<Rightarrow> k b | _ \<Rightarrow> Err e) = Ok r \<longleftrightarrow> (\<exists>b. v = Bytes b \<and> k b = Ok r)"
  "(case v of Array a \<Rightarrow> j a | _ \<Rightarrow> Err e) = Ok r \<longleftrightarrow> (\<exists>a. v = Array a \<and> j a = Ok r)"
  by (cases v; simp)+

lemma if_Err_Ok [res_simps]:
  "(if b then Err e else x) = Ok r \<longleftrightarrow> \<not> b \<and> x = Ok r"
  "(if b then x else Err e) = Ok r \<longleftrightarrow> b \<and> x = Ok r"
  by auto

lemma mt_from_str_iff: "mt_from_str s = Some t \<longleftrightarrow> s = mt_as_str t"
  using mt_from_str_Some mt_from_str_as_str by blast

lemma envelope_from_map_Ok:
  assumes "bt_ok m"
  shows "envelope_from_map m = Ok e \<longleftrightarrow>
    version e = WIRE_VERSION \<and>
    bt_get m ''version'' = Some (Array [Unsigned 26, Unsigned 9]) \<and>
    bt_get m ''type'' = Some (Text (mt_as_str (msg_type e))) \<and>
    bt_get m ''session_id'' = Some (Bytes (session_id e)) \<and> length (session_id e) = 16 \<and>
    bt_get m ''sequence'' = Some (Unsigned (sequence e)) \<and>
    bt_get m ''body'' = Some (Map (body e)) \<and>
    decode_critical (bt_get m ''critical'') = Ok (critical e) \<and>
    decode_extensions (bt_get m ''extensions'') = Ok (extensions e) \<and>
    \<not> list_ex (\<lambda>c. bt_get (extensions e) c = None) (critical e) \<and> env_rest m = []"
proof (cases e)
  case (fields ver mt sid sq bd crit ext)
  then show ?thesis using assms
    by (auto simp: envelope_from_map_def res_simps Let_def bt_simps env_rest_def mt_from_str_iff)
qed


lemma env_rest_get:
  "bt_ok m \<Longrightarrow> bt_get (env_rest m) k =
     (if k \<in> {''version'', ''type'', ''session_id'', ''sequence'', ''body'', ''critical'', ''extensions''}
      then None else bt_get m k)"
  by (auto simp: env_rest_def bt_simps)

lemma env_rest_ok: "bt_ok m \<Longrightarrow> bt_ok (env_rest m)"
  by (simp add: env_rest_def bt_simps)

lemma env_rest_Nil:
  "bt_ok m \<Longrightarrow> env_rest m = [] \<longleftrightarrow>
     (\<forall>k. k \<notin> {''version'', ''type'', ''session_id'', ''sequence'', ''body'', ''critical'', ''extensions''}
       \<longrightarrow> bt_get m k = None)"
  using bt.empty_iff [OF env_rest_ok, of m] by (auto simp: env_rest_get)

text \<open>
  The encoder leaves the two optional fields out when they are empty; the decoder
  also accepts them spelled out. These are the maps that denote the envelope.
\<close>

definition envelope_spelling :: "bool \<Rightarrow> bool \<Rightarrow> rapp_envelope \<Rightarrow> wire_map" where
  "envelope_spelling c x e =
     (let m = envelope_map e;
          m = (if c then bt_insert ''critical'' (Array (map Text (critical e))) m else m) in
      if x then bt_insert ''extensions'' (Map (extensions e)) m else m)"

lemma envelope_spelling_bt_ok [simp]: "bt_ok (envelope_spelling c x e)"
  by (simp add: envelope_spelling_def Let_def bt_simps del: bt_insert.simps)

lemma envelope_spelling_get:
  "bt_get (envelope_spelling c x e) k =
     (if k = ''critical'' then (if critical e = [] \<and> \<not> c then None else Some (Array (map Text (critical e))))
      else if k = ''extensions'' then (if extensions e = [] \<and> \<not> x then None else Some (Map (extensions e)))
      else bt_get (envelope_map e) k)"
  by (auto simp: envelope_spelling_def Let_def bt_simps envelope_map_get simp del: bt_insert.simps)

lemma envelope_spelling_wire_ok: "env_ok e \<Longrightarrow> wire_ok (Map (envelope_spelling c x e))"
  using envelope_map_wire_ok [of e]
  by (auto simp: envelope_spelling_def Let_def env_ok_def list_all_iff
      simp del: wire_ok.simps(3) bt_insert.simps)

lemma map_res_Text: "map_res (\<lambda>item. case item of Text t \<Rightarrow> Ok t | _ \<Rightarrow> Err e) xs = Ok cs \<longleftrightarrow> xs = map Text cs"
  by (induction xs arbitrary: cs) (auto simp: res_simps)

lemma decode_critical_Ok:
  "decode_critical v = Ok cs \<longleftrightarrow> v = Some (Array (map Text cs)) \<or> v = None \<and> cs = []"
  by (cases v) (auto simp: decode_critical_def res_simps map_res_Text)

lemma decode_extensions_Ok:
  "decode_extensions v = Ok m \<longleftrightarrow> v = Some (Map m) \<or> v = None \<and> m = []"
  by (cases v) (auto simp: decode_extensions_def res_simps)

lemma from_envelope_spelling: "env_ok e \<Longrightarrow> envelope_from_map (envelope_spelling c x e) = Ok e"
  by (auto simp: envelope_from_map_Ok env_rest_Nil envelope_spelling_get envelope_map_get env_ok_def
      decode_critical_Ok decode_extensions_Ok list_all_iff list_ex_iff)

lemma envelope_from_map_inv:
  assumes m: "wire_ok (Map m)" and e: "envelope_from_map m = Ok e"
  shows "env_ok e \<and> (\<exists>c x. m = envelope_spelling c x e)"
proof
  have ok: "bt_ok m" using m by simp
  note f = e [unfolded envelope_from_map_Ok [OF ok] decode_critical_Ok decode_extensions_Ok]
  have "text_ok c" if "c \<in> set (critical e)" for c
  proof -
    have "bt_get m ''critical'' = Some (Array (map Text (critical e)))" using f that by auto
    from wire_ok_Map_get [OF m this] that show ?thesis by (auto simp: list_all_iff)
  qed
  moreover have "wire_ok (Map (extensions e))"
  proof (cases "extensions e = []")
    case False
    then have "bt_get m ''extensions'' = Some (Map (extensions e))" using f by blast
    from wire_ok_Map_get [OF m this] show ?thesis by blast
  qed simp
  moreover have "bt_get m ''body'' = Some (Map (body e))" using f by blast
  note wire_ok_Map_get [OF m this]
  ultimately show "env_ok e"
    using f by (simp add: env_ok_def list_all_iff list_ex_iff del: wire_ok.simps(3))
  let ?c = "bt_get m ''critical'' \<noteq> None" and ?x = "bt_get m ''extensions'' \<noteq> None"
  have "bt_get m k = bt_get (envelope_spelling ?c ?x e) k" for k
  proof (cases "k \<in> {''version'', ''type'', ''session_id'', ''sequence'', ''body'', ''critical'', ''extensions''}")
    case True
    then have "k = ''version'' \<or> k = ''type'' \<or> k = ''session_id'' \<or> k = ''sequence'' \<or>
        k = ''body'' \<or> k = ''critical'' \<or> k = ''extensions''" by simp
    then show ?thesis
      by (elim disjE; hypsubst) (use f in \<open>auto simp: envelope_spelling_get envelope_map_get(1-7)\<close>)
  next
    case False
    moreover have "bt_get m k = None"
      using f env_rest_get [OF ok, of k] unfolding if_not_P [OF False] by (simp add: bt_simps)
    ultimately show ?thesis
      by (simp add: envelope_spelling_get envelope_map_get(8))
  qed
  then have "m = envelope_spelling ?c ?x e"
    by (rule bt.get_ext [OF ok envelope_spelling_bt_ok])
  then show "\<exists>c x. m = envelope_spelling c x e" by blast
qed

lemma envelope_decode_Ok:
  "envelope_decode bs = Ok e \<longleftrightarrow>
   env_ok e \<and> length bs \<le> MAX_FRAME_PLAINTEXT \<and>
   (\<exists>c x. encode (Map (envelope_spelling c x e)) = Ok bs)"
proof
  assume "envelope_decode bs = Ok e"
  then obtain m where m: "decode_deterministic_cbor bs = Ok (Map m)" "envelope_from_map m = Ok e"
    by (auto simp: envelope_decode_def res_simps)
  then have "wire_ok (Map m)" "encode (Map m) = Ok bs" "length bs \<le> MAX_FRAME_PLAINTEXT"
    by (simp_all only: decode_deterministic_iff)
  with envelope_from_map_inv [OF _ m(2)] show "env_ok e \<and> length bs \<le> MAX_FRAME_PLAINTEXT \<and>
      (\<exists>c x. encode (Map (envelope_spelling c x e)) = Ok bs)" by blast
next
  assume "env_ok e \<and> length bs \<le> MAX_FRAME_PLAINTEXT \<and>
      (\<exists>c x. encode (Map (envelope_spelling c x e)) = Ok bs)"
  then obtain c x where *: "env_ok e" "length bs \<le> MAX_FRAME_PLAINTEXT"
      "encode (Map (envelope_spelling c x e)) = Ok bs" by blast
  then have "decode_deterministic_cbor bs = Ok (Map (envelope_spelling c x e))"
    by (simp only: decode_deterministic_iff envelope_spelling_wire_ok)
  with * show "envelope_decode bs = Ok e"
    by (simp add: envelope_decode_def from_envelope_spelling)
qed

text \<open>A sender draws \<open>n\<close> numbers; a receiver checks a list of them, stopping at the first error.\<close>

fun send_run :: "nat \<Rightarrow> sequence_guard \<Rightarrow> (u64 list \<times> sequence_guard) wres" where
  "send_run 0 g = Ok ([], g)"
| "send_run (Suc n) g =
     (case advance_send g of (r, g') \<Rightarrow>
      and_then r (\<lambda>s. and_then (send_run n g') (\<lambda>(ss, g''). Ok (s # ss, g''))))"

fun recv_run :: "u64 list \<Rightarrow> sequence_guard \<Rightarrow> sequence_guard wres" where
  "recv_run [] g = Ok g"
| "recv_run (s # ss) g =
     (case check_and_advance_recv g s of (r, g') \<Rightarrow> and_then r (\<lambda>_. recv_run ss g'))"

lemma unat_u64_Suc: "g \<noteq> u64_max \<Longrightarrow> unat (g + 1 :: u64) = unat g + 1"
proof -
  assume "g \<noteq> u64_max"
  then have "unat g \<noteq> unat u64_max" by (metis unsigned_word_eqI)
  moreover have "unat u64_max = 2 ^ 64 - 1" by simp
  moreover have "unat g < 2 ^ 64" using unsigned_less [of g] by simp
  ultimately have "unat g + unat (1 :: u64) < 2 ^ LENGTH(64)" by simp
  then show ?thesis by (simp only: unat_add_lem) simp
qed

lemma u64_max_iff: "g = u64_max \<longleftrightarrow> unat (g :: u64) = 2 ^ 64 - 1"
proof -
  have "unat u64_max = 2 ^ 64 - 1" by simp
  then show ?thesis by (metis unsigned_word_eqI)
qed

lemma recv_run_Ok:
  "recv_run seqs g = Ok g' \<longleftrightarrow>
   unat g + length seqs < 2 ^ 64 \<and> seqs = map word_of_nat [unat g ..< unat g + length seqs] \<and>
   g' = word_of_nat (unat g + length seqs)"
proof (induction seqs arbitrary: g)
  case Nil
  have "unat g < 2 ^ 64" using unsigned_less [of g] by simp
  then show ?case by auto
next
  case (Cons s seqs)
  show ?case
  proof (cases "s = g \<and> g \<noteq> u64_max")
    case True
    then have g: "unat (g + 1) = unat g + 1" by (simp add: unat_u64_Suc)
    have "map word_of_nat [unat g ..< unat g + length (s # seqs)] =
        g # map word_of_nat [unat g + 1 ..< unat g + 1 + length seqs]"
      by (simp add: upt_conv_Cons del: upt_Suc)
    with True Cons.IH [of "g + 1"] g show ?thesis
      by (auto simp: check_and_advance_recv_def ac_simps simp del: upt_Suc)
  next
    case False
    have "unat g + length (s # seqs) < 2 ^ 64 \<Longrightarrow> g \<noteq> u64_max"
      by (auto simp: u64_max_iff)
    moreover have "s # seqs = map word_of_nat [unat g ..< unat g + length (s # seqs)] \<Longrightarrow> s = g"
      by (simp add: upt_conv_Cons del: upt_Suc)
    ultimately show ?thesis
      using False by (auto simp: check_and_advance_recv_def)
  qed
qed

lemma send_run_Ok:
  "send_run n g = Ok (seqs, g') \<longleftrightarrow>
   unat g + n < 2 ^ 64 \<and> seqs = map word_of_nat [unat g ..< unat g + n] \<and>
   g' = word_of_nat (unat g + n)"
proof (induction n arbitrary: g seqs)
  case 0
  have "unat g < 2 ^ 64" using unsigned_less [of g] by simp
  then show ?case by auto
next
  case (Suc n)
  show ?case
  proof (cases "g = u64_max")
    case True
    then show ?thesis by (simp add: advance_send_def)
  next
    case False
    then have g: "unat (g + 1) = unat g + 1" by (simp add: unat_u64_Suc)
    have "map word_of_nat [unat g ..< unat g + Suc n] =
        g # map word_of_nat [unat g + 1 ..< unat g + 1 + n]"
      by (simp add: upt_conv_Cons del: upt_Suc)
    moreover have "send_run (Suc n) g = Ok (seqs, g') \<longleftrightarrow>
        (\<exists>ss. seqs = g # ss \<and> send_run n (g + 1) = Ok (ss, g'))"
      using False by (auto simp: advance_send_def res_simps)
    ultimately show ?thesis unfolding Suc.IH [of "g + 1"] g by auto
  qed
qed

lemma distinct_u64_upto: "n < 2 ^ 64 \<Longrightarrow> distinct (map (word_of_nat :: nat \<Rightarrow> u64) [0..<n])"
  by (auto simp: distinct_map inj_on_def word_of_nat_eq_iff take_bit_eq_mod)


interpretation envelope: res_codec envelope_encode envelope_decode env_ok "\<lambda>bs. length bs \<le> MAX_FRAME_PLAINTEXT"
proof (unfold_locales, unfold envelope_decode_Ok, intro conjI exI)
  show "encode (Map (envelope_spelling False False e)) = Ok bs" if "envelope_encode e = Ok bs" for e bs
    using that by (simp add: envelope_encode_def envelope_spelling_def)
qed assumption+

subsection \<open>Properties of the envelope\<close>

text \<open>C32. The envelope decoder returns \<open>e\<close> on a frame if and only if \<open>e\<close> is well formed (the supported
  version, a 16-byte session id, well-formed body and extensions, every critical name among the
  extensions) and the frame is the canonical encoding of its map, of at most one frame in size, with
  the two optional fields left out when empty (as the encoder does) or spelled out. In particular
  the decoder inverts the encoder, and frames with missing, mistyped or unknown fields are refused.\<close>

theorem envelope_decodes_exactly:
  "envelope_decode bs = Ok e \<longleftrightarrow>
   env_ok e \<and> length bs \<le> MAX_FRAME_PLAINTEXT \<and>
   (envelope_encode e = Ok bs \<or>
    (\<exists>c x. encode (Map (envelope_spelling c x e)) = Ok bs))"
proof -
  have "envelope_encode e = encode (Map (envelope_spelling False False e))"
    by (simp add: envelope_encode_def envelope_spelling_def)
  then show ?thesis unfolding envelope_decode_Ok by metis
qed

text \<open>The sequence guard accepts exactly what it issues: a receiver that starts fresh accepts
  a list of numbers if and only if a fresh sender would issue that list, in that order; then no
  number occurs twice, and both guards agree.\<close>

theorem sequence_guard_exact:
  "recv_run seqs SequenceGuard_new = Ok g \<longleftrightarrow>
   send_run (length seqs) SequenceGuard_new = Ok (seqs, g) \<and> distinct seqs \<and>
   last_seen g = (if seqs = [] then 0 else last seqs)"
proof -
  have "last_seen (word_of_nat n) = last (map (word_of_nat :: nat \<Rightarrow> u64) [0..<n])" if "0 < n" "n < 2 ^ 64" for n
  proof -
    have "unat (word_of_nat n :: u64) = n" using that by (simp add: unat_of_nat)
    with \<open>0 < n\<close> have "(word_of_nat n :: u64) \<noteq> 0" by auto
    with \<open>0 < n\<close> show ?thesis by (simp add: last_seen_def last_map of_nat_diff)
  qed
  from this [of "length seqs"] show ?thesis
    unfolding recv_run_Ok send_run_Ok SequenceGuard_new_def
    using distinct_u64_upto [of "length seqs"] by (auto simp: last_seen_def)
qed

end
