(* ===== verification/Hex_Base64.thy ===== *)
theory Hex_Base64
  imports Prelude
begin

text \<open>
  The text encodings of the core library: lowercase hexadecimal
  (\<open>crates/refineid-lib-core/src/hex.rs\<close>) and base64 in its padded standard and its
  unpadded URL form (\<open>crates/refineid-lib-core/src/base64.rs\<close>).

  The base64 decoder shifts a \<open>u32\<close> accumulator; it is kept as a 32-bit word, and
  \<open>decode_loop_refines\<close> shows that it computes the same as an accumulator of only the
  pending bits. The round trips follow.
\<close>

subsection \<open>Hexadecimal\<close>

text \<open>The digits of the format string \<open>{byte:02x}\<close>.\<close>

definition hex_digit :: "nat \<Rightarrow> char" where
  "hex_digit n = ''0123456789abcdef'' ! n"

definition hex_encode :: "bytes \<Rightarrow> string" where
  "hex_encode bs = concat (map (\<lambda>b. [hex_digit (unat b div 16), hex_digit (unat b mod 16)]) bs)"

definition nibble :: "byte \<Rightarrow> ('e, byte) res" where
  "nibble digit =
     (if 0x30 \<le> digit \<and> digit \<le> 0x39 then Ok (digit - 0x30)
      else if 0x41 \<le> digit \<and> digit \<le> 0x46 then Ok (digit - 0x41 + 10)
      else if 0x61 \<le> digit \<and> digit \<le> 0x66 then Ok (digit - 0x61 + 10)
      else Panic)"

fun decode_pairs :: "bytes \<Rightarrow> ('e, bytes) res" where
  "decode_pairs (hi # lo # src) =
     and_then (nibble hi) (\<lambda>h. and_then (nibble lo) (\<lambda>l.
     and_then (decode_pairs src) (\<lambda>out. Ok ((push_bit 4 h OR l) # out))))"
| "decode_pairs _ = Ok []"

definition decode_const :: "nat \<Rightarrow> string \<Rightarrow> ('e, bytes) res" where
  "decode_const n hex_digits =
     (let src = str_bytes hex_digits in
      if length src \<noteq> 2 * n then Panic else decode_pairs src)"

subsection \<open>Base64\<close>

abbreviation ALPHABET :: string where
  "ALPHABET \<equiv> ''ABCDEFGHIJKLMNOPQRSTUVWXYZabcdefghijklmnopqrstuvwxyz0123456789+/''"

abbreviation ALPHABET_URL :: string where
  "ALPHABET_URL \<equiv> ''ABCDEFGHIJKLMNOPQRSTUVWXYZabcdefghijklmnopqrstuvwxyz0123456789-_''"

abbreviation QUANTUM_IN :: nat where "QUANTUM_IN \<equiv> 3"
abbreviation QUANTUM_OUT :: nat where "QUANTUM_OUT \<equiv> 4"
abbreviation BITS_PER_CHARACTER :: nat where "BITS_PER_CHARACTER \<equiv> 6"
abbreviation CHARACTER_MASK :: nat where "CHARACTER_MASK \<equiv> 0x3F"
abbreviation BITS_PER_OCTET :: nat where "BITS_PER_OCTET \<equiv> 8"

text \<open>\<open>input.chunks(QUANTUM_IN)\<close>.\<close>

fun chunks3 :: "'a list \<Rightarrow> 'a list list" where
  "chunks3 (a # b # c # xs) = [a, b, c] # chunks3 xs"
| "chunks3 [] = []"
| "chunks3 xs = [xs]"

definition pack_chunk :: "bytes \<Rightarrow> nat" where
  "pack_chunk chunk =
     foldl (\<lambda>packed index. push_bit BITS_PER_OCTET packed
        OR (case get_at chunk index of None \<Rightarrow> 0 | Some b \<Rightarrow> unat b)) 0 [0..<QUANTUM_IN]"

definition sextet :: "nat \<Rightarrow> nat \<Rightarrow> nat" where
  "sextet packed index =
     drop_bit (BITS_PER_CHARACTER * (QUANTUM_OUT - 1 - index)) packed AND CHARACTER_MASK"

definition encode_chunk :: "bytes \<Rightarrow> string" where
  "encode_chunk chunk =
     (let packed = pack_chunk chunk in
      map (\<lambda>index. if index \<le> length chunk then ALPHABET ! sextet packed index else CHR ''='')
        [0..<QUANTUM_OUT])"

definition base64_encode :: "bytes \<Rightarrow> string" where
  "base64_encode input = concat (map encode_chunk (chunks3 input))"

definition encode_url_chunk :: "bytes \<Rightarrow> string" where
  "encode_url_chunk chunk =
     (let packed = pack_chunk chunk;
          out_chars = (if length chunk = 1 then 2 else if length chunk = 2 then 3 else 4) in
      map (\<lambda>index. ALPHABET_URL ! sextet packed index) [0..<out_chars])"

definition encode_url_unpadded :: "bytes \<Rightarrow> string" where
  "encode_url_unpadded input = concat (map encode_url_chunk (chunks3 input))"

text \<open>The \<open>match\<close> on one input character: a value, nothing for \<open>=\<close>, or the error.\<close>

definition base64_value :: "byte \<Rightarrow> (string, u32 option) res" where
  "base64_value b =
     (if 0x41 \<le> b \<and> b \<le> 0x5A then Ok (Some (ucast (b - 0x41)))
      else if 0x61 \<le> b \<and> b \<le> 0x7A then Ok (Some (ucast (b - 0x61 + 26)))
      else if 0x30 \<le> b \<and> b \<le> 0x39 then Ok (Some (ucast (b - 0x30 + 52)))
      else if b = 0x2D then Ok (Some 62)
      else if b = 0x5F then Ok (Some 63)
      else if b = 0x3D then Ok None
      else Err ''invalid base64url character'')"

fun decode_loop :: "bytes \<Rightarrow> u32 \<Rightarrow> nat \<Rightarrow> bytes \<Rightarrow> (string, bytes) res" where
  "decode_loop [] buf bits out = Ok out"
| "decode_loop (b # bs) buf bits out =
     and_then (base64_value b) (\<lambda>v. case v of
       None \<Rightarrow> decode_loop bs buf bits out
     | Some val \<Rightarrow>
         let buf = push_bit 6 buf OR val; bits = bits + 6 in
         if 8 \<le> bits then decode_loop bs buf (bits - 8) (out @ [ucast (drop_bit (bits - 8) buf)])
         else decode_loop bs buf bits out)"

definition decode_url_unpadded :: "string \<Rightarrow> (string, bytes) res" where
  "decode_url_unpadded input =
     (let input_bytes = str_bytes input in
      if input_bytes = [] then Ok [] else decode_loop input_bytes 0 0 [])"

subsection \<open>Hexadecimal round trip\<close>

lemma nibble_hex_digit:
  assumes "n < 16"
  shows "nibble (of_char (hex_digit n)) = (Ok (word_of_nat n) :: ('e, byte) res)"
proof -
  have "\<forall>n \<in> set [0..<16]. nibble (of_char (hex_digit n)) = (Ok (word_of_nat n) :: ('e, byte) res)"
    by (simp add: upt_conv_Cons nibble_def hex_digit_def)
  then show ?thesis using assms by simp
qed

lemma byte_of_nibbles: "push_bit 4 (word_of_nat (unat b div 16)) OR word_of_nat (unat b mod 16) = (b :: byte)"
proof -
  have "unat (word_of_nat (unat b div 16) :: byte) = unat b div 16"
    "unat (word_of_nat (unat b mod 16) :: byte) = unat b mod 16"
    using unat_byte_less [of b] by (simp_all add: unat_word8_of_nat)
  then have "unat (push_bit 4 (word_of_nat (unat b div 16)) OR word_of_nat (unat b mod 16) :: byte) = unat b"
    using unat_byte_less [of b] by (subst unat_push_bit_or) simp_all
  then show ?thesis by (simp only: unsigned_word_eqI)
qed

lemma decode_pairs_hex_encode: "decode_pairs (str_bytes (hex_encode bs)) = Ok bs"
proof (induction bs)
  case (Cons b bs)
  have "unat b div 16 < 16" using unat_byte_less [of b] by simp
  then show ?case using Cons
    by (simp add: hex_encode_def str_bytes_def nibble_hex_digit byte_of_nibbles)
qed (simp add: hex_encode_def str_bytes_def)

lemma length_hex_encode: "length (hex_encode bs) = 2 * length bs"
  by (induction bs) (simp_all add: hex_encode_def)

subsection \<open>The accumulator of the base64 decoder\<close>

text \<open>The reference decoder: it keeps only the bits not yet written out.\<close>

fun pend_loop :: "bytes \<Rightarrow> nat \<Rightarrow> nat \<Rightarrow> bytes \<Rightarrow> (string, bytes) res" where
  "pend_loop [] pend bits out = Ok out"
| "pend_loop (b # bs) pend bits out =
     and_then (base64_value b) (\<lambda>v. case v of
       None \<Rightarrow> pend_loop bs pend bits out
     | Some val \<Rightarrow>
         let new = pend * 64 + unat val in
         if 2 \<le> bits then
           pend_loop bs (new mod 2 ^ (bits - 2)) (bits - 2) (out @ [word_of_nat (new div 2 ^ (bits - 2))])
         else pend_loop bs new (bits + 6) out)"

lemma unat_ucast_byte [simp]: "unat (ucast (b :: byte) :: u32) = unat b"
  using unat_byte_less [of b] by (simp add: unsigned_ucast_eq take_bit_nat_eq_self)

lemma base64_value_less: "base64_value b = Ok (Some v) \<Longrightarrow> unat v < 64"
  by (auto simp: base64_value_def word_le_nat_alt unat_sub unat_word_ariths split: if_splits)

lemma ucast_drop_bit_byte:
  "ucast (drop_bit k (w :: u32)) = (word_of_nat ((unat w mod 2 ^ (k + 8)) div 2 ^ k) :: byte)"
proof -
  have "(unat w mod (2 ^ k * 256)) div 2 ^ k = unat w div 2 ^ k mod 256"
    by (simp add: mod_mult2_eq)
  then have "unat (ucast (drop_bit k w) :: byte) = unat (word_of_nat ((unat w mod 2 ^ (k + 8)) div 2 ^ k) :: byte)"
    by (simp add: unsigned_ucast_eq take_bit_eq_mod unat_word8_of_nat unat_drop_bit power_add
        del: unsigned_of_nat)
  then show ?thesis by (simp only: unsigned_word_eqI)
qed

lemma decode_loop_refines:
  "bits < 8 \<Longrightarrow> decode_loop bs buf bits out = pend_loop bs (unat buf mod 2 ^ bits) bits out"
proof (induction bs arbitrary: buf bits out)
  case (Cons b bs)
  show ?case
  proof (cases "base64_value b")
    case (Ok v)
    show ?thesis
    proof (cases v)
      case (Some val)
      let ?buf = "push_bit 6 buf OR val"
      have val: "unat val < 2 ^ 6" using base64_value_less Ok Some by fastforce
      have dvd: "(2 :: nat) ^ k dvd 2 ^ 32" if "k \<le> 13" for k
        using that by (intro le_imp_power_dvd) simp
      have acc: "unat ?buf mod 2 ^ (bits + 6) = unat buf mod 2 ^ bits * 64 + unat val"
      proof -
        have "unat ?buf mod 2 ^ (bits + 6) = (unat buf * 64 + unat val) mod 2 ^ (bits + 6)"
          unfolding unat_push_bit_or [OF val] using dvd [of "bits + 6"] Cons.prems
          by (simp add: mod_mod_cancel)
        also have "\<dots> = unat buf mod 2 ^ bits * 64 + unat val"
          using val by (simp add: mod_mult2_eq power_add mult.commute [of _ 64])
        finally show ?thesis .
      qed
      show ?thesis
      proof (cases "2 \<le> bits")
        case True
        then obtain k where k: "bits = k + 2" by (metis add.commute le_Suc_ex)
        have "ucast (drop_bit k ?buf) = (word_of_nat ((unat ?buf mod 2 ^ (k + 8)) div 2 ^ k) :: byte)"
          by (rule ucast_drop_bit_byte)
        moreover have "unat ?buf mod 2 ^ k = (unat ?buf mod 2 ^ (k + 8)) mod 2 ^ k"
          by (simp add: mod_mod_cancel le_imp_power_dvd)
        moreover have "bits + 6 = k + 8" using k by simp
        note acc' = acc [unfolded this]
        ultimately show ?thesis
          using Cons.IH [of k ?buf] Cons.prems Ok Some k acc' by (simp add: Let_def)
      next
        case False
        then show ?thesis using Cons.IH [of "bits + 6" ?buf] Ok Some acc by (simp add: Let_def)
      qed
    qed (use Ok Cons in simp)
  qed (use Cons in simp_all)
qed simp

subsection \<open>Base64 round trips\<close>

lemma base64_value_alphabet:
  assumes "n < 64"
  shows "base64_value (of_char (ALPHABET_URL ! n)) = Ok (Some (word_of_nat n))"
proof -
  have "\<forall>n \<in> set [0..<64]. base64_value (of_char (ALPHABET_URL ! n)) = Ok (Some (word_of_nat n))"
    by (simp add: upt_conv_Cons base64_value_def)
  then show ?thesis using assms by simp
qed

lemma pack_chunk_eval:
  "pack_chunk [a, b, c] = unat a * 65536 + unat b * 256 + unat c"
  "pack_chunk [a, b] = unat a * 65536 + unat b * 256"
  "pack_chunk [a] = unat a * 65536"
proof -
  have or8: "push_bit 8 x OR unat y = x * 256 + unat y" for x and y :: byte
    using nat_push_bit_or [of "unat y" 8 x] unat_byte_less [of y] by simp
  have shift8: "push_bit 8 x = x * 256" for x :: nat by (simp add: push_bit_eq_mult)
  show "pack_chunk [a, b, c] = unat a * 65536 + unat b * 256 + unat c"
    by (simp add: pack_chunk_def upt_conv_Cons get_at_def or8 del: push_bit_or)
  show "pack_chunk [a, b] = unat a * 65536 + unat b * 256"
    by (simp add: pack_chunk_def upt_conv_Cons get_at_def or8 del: push_bit_or) (simp add: shift8)
  show "pack_chunk [a] = unat a * 65536"
    by (simp add: pack_chunk_def upt_conv_Cons get_at_def push_bit_eq_mult del: push_bit_or)
qed

lemma sextet_eval:
  "sextet packed 0 = packed div 262144 mod 64"
  "sextet packed 1 = packed div 4096 mod 64"
  "sextet packed 2 = packed div 64 mod 64"
  "sextet packed 3 = packed mod 64"
proof -
  have mask: "x AND 63 = x mod 64" for x :: nat
    using take_bit_eq_mask [of 6 x] by (simp add: mask_eq_exp_minus_1 take_bit_eq_mod)
  show "sextet packed 0 = packed div 262144 mod 64" "sextet packed 1 = packed div 4096 mod 64"
    "sextet packed 2 = packed div 64 mod 64" "sextet packed 3 = packed mod 64"
    by (simp_all add: sextet_def drop_bit_eq_div mask)
qed

lemma sextets_of_bytes:
  fixes a b c :: nat
  assumes "a < 256" and "b < 256" and "c < 256"
  shows "(a * 65536 + b * 256 + c) div 262144 mod 64 = a div 4"
    and "(a * 65536 + b * 256 + c) div 4096 mod 64 = (a mod 4) * 16 + b div 16"
    and "(a * 65536 + b * 256 + c) div 64 mod 64 = (b mod 16) * 4 + c div 64"
    and "(a * 65536 + b * 256 + c) mod 64 = c mod 64"
proof -
  define q r s t u v where d: "q = a div 4" "r = a mod 4" "s = b div 16" "t = b mod 16" 
    "u = c div 64" "v = c mod 64"
  then have abc: "a = 4 * q + r" "b = 16 * s + t" "c = 64 * u + v" by simp_all
  have lim: "q \<le> 63" "r \<le> 3" "s \<le> 15" "t \<le> 15" "u \<le> 3" "v \<le> 63"
    using assms by (auto simp: d)
  have N: "a * 65536 + b * 256 + c = 262144 * q + 65536 * r + 4096 * s + 256 * t + 64 * u + v"
    by (simp add: abc)
  have div1: "(a * 65536 + b * 256 + c) div 262144 = q"
    unfolding N by (rule div_nat_eqI) (use lim in simp_all)
  have div2: "(a * 65536 + b * 256 + c) div 4096 = q * 64 + (16 * r + s)"
    unfolding N by (rule div_nat_eqI) (use lim in simp_all)
  have div3: "(a * 65536 + b * 256 + c) div 64 = (64 * q + 16 * r + s) * 64 + (4 * t + u)"
    unfolding N by (rule div_nat_eqI) (use lim in simp_all)
  have div4: "a * 65536 + b * 256 + c = (4096 * q + 1024 * r + 64 * s + 4 * t + u) * 64 + v"
    by (simp add: abc)
  show "(a * 65536 + b * 256 + c) div 262144 mod 64 = a div 4"
    unfolding div1 using lim d by simp
  show "(a * 65536 + b * 256 + c) div 4096 mod 64 = (a mod 4) * 16 + b div 16"
    unfolding div2 mod_mult_self3 using lim d by simp
  show "(a * 65536 + b * 256 + c) div 64 mod 64 = (b mod 16) * 4 + c div 64"
    unfolding div3 mod_mult_self3 using lim d by simp
  show "(a * 65536 + b * 256 + c) mod 64 = c mod 64"
    unfolding div4 mod_mult_self3 using lim d by simp
qed

lemma pend_loop_sextet:
  "n < 64 \<Longrightarrow> pend_loop (of_char (ALPHABET_URL ! n) # bs) pend bits out =
   (if 2 \<le> bits then
      pend_loop bs ((pend * 64 + n) mod 2 ^ (bits - 2)) (bits - 2) (out @ [word_of_nat ((pend * 64 + n) div 2 ^ (bits - 2))])
    else pend_loop bs (pend * 64 + n) (bits + 6) out)"
proof -
  assume n: "n < 64"
  then have "unat (word_of_nat n :: u32) = n" by (simp add: unat_of_nat)
  with base64_value_alphabet [OF n] show ?thesis
    unfolding pend_loop.simps by (simp add: Let_def)
qed

declare pend_loop.simps(2) [simp del]

text \<open>Two, three or four characters of a quantum give back one, two or three bytes.\<close>

lemma pend_quantum_1:
  assumes "a < 256"
  shows "pend_loop (of_char (ALPHABET_URL ! (a div 4)) # of_char (ALPHABET_URL ! (a mod 4 * 16)) # bs) 0 0 out
    = pend_loop bs 0 4 (out @ [word_of_nat a])"
proof -
  have e: "a div 4 * 64 + a mod 4 * 16 = a * 16" using div_mult_mod_eq [of a 4] by linarith
  moreover have "a div 4 < 64" "a mod 4 * 16 < 64" using assms by simp_all
  ultimately show ?thesis by (simp add: pend_loop_sextet e)
qed

lemma pend_quantum_2:
  assumes "a < 256" and "b < 256" and "c < 4"
  shows "pend_loop (of_char (ALPHABET_URL ! (a div 4)) # of_char (ALPHABET_URL ! (a mod 4 * 16 + b div 16))
      # of_char (ALPHABET_URL ! (b mod 16 * 4 + c)) # bs) 0 0 out
    = pend_loop bs c 2 (out @ [word_of_nat a, word_of_nat b])"
proof -
  have e1: "a div 4 * 64 + (a mod 4 * 16 + b div 16) = a * 16 + b div 16"
    using div_mult_mod_eq [of a 4] by linarith
  have e2: "b div 16 * 64 + (b mod 16 * 4 + c) = b * 4 + c"
    using div_mult_mod_eq [of b 16] by linarith
  have "a mod 4 \<le> 3" "b div 16 \<le> 15" using assms by simp_all
  then have "a mod 4 * 16 + b div 16 < 64" by linarith
  moreover have "a div 4 < 64" "b mod 16 * 4 + c < 64" using assms by simp_all
  ultimately show ?thesis using assms by (simp add: pend_loop_sextet e1 e2)
qed

lemma pend_quantum_3:
  assumes "a < 256" and "b < 256" and "c < 256"
  shows "pend_loop (of_char (ALPHABET_URL ! (a div 4)) # of_char (ALPHABET_URL ! (a mod 4 * 16 + b div 16))
      # of_char (ALPHABET_URL ! (b mod 16 * 4 + c div 64)) # of_char (ALPHABET_URL ! (c mod 64)) # bs) 0 0 out
    = pend_loop bs 0 0 (out @ [word_of_nat a, word_of_nat b, word_of_nat c])"
proof -
  have "c div 64 * 64 + c mod 64 = c" "c mod 64 < 64" by simp_all
  moreover have "c div 64 < 4" using assms by simp
  ultimately show ?thesis
    by (subst pend_quantum_2 [OF assms(1,2)]) (simp_all add: pend_loop_sextet del: of_nat_add of_nat_mult)
qed

lemma upt_quantum: "[0..<4] = [0, 1, 2, 3 :: nat]" "[0..<3] = [0, 1, 2 :: nat]" "[0..<2] = [0, 1 :: nat]"
  by (simp_all add: upt_conv_Cons numeral_2_eq_2 numeral_3_eq_3)

lemma encode_url_chunk_eval:
  "encode_url_chunk [a, b, c] =
     [ALPHABET_URL ! (unat a div 4), ALPHABET_URL ! (unat a mod 4 * 16 + unat b div 16),
      ALPHABET_URL ! (unat b mod 16 * 4 + unat c div 64), ALPHABET_URL ! (unat c mod 64)]"
  "encode_url_chunk [a, b] =
     [ALPHABET_URL ! (unat a div 4), ALPHABET_URL ! (unat a mod 4 * 16 + unat b div 16),
      ALPHABET_URL ! (unat b mod 16 * 4)]"
  "encode_url_chunk [a] = [ALPHABET_URL ! (unat a div 4), ALPHABET_URL ! (unat a mod 4 * 16)]"
proof -
  note lim = unat_byte_less [of a] unat_byte_less [of b] unat_byte_less [of c]
  note s = sextets_of_bytes [OF lim] sextets_of_bytes [OF lim(1,2), of 0, simplified]
    sextets_of_bytes [OF lim(1), of 0 0, simplified]
  show "encode_url_chunk [a, b, c] =
     [ALPHABET_URL ! (unat a div 4), ALPHABET_URL ! (unat a mod 4 * 16 + unat b div 16),
      ALPHABET_URL ! (unat b mod 16 * 4 + unat c div 64), ALPHABET_URL ! (unat c mod 64)]"
    "encode_url_chunk [a, b] =
     [ALPHABET_URL ! (unat a div 4), ALPHABET_URL ! (unat a mod 4 * 16 + unat b div 16),
      ALPHABET_URL ! (unat b mod 16 * 4)]"
    "encode_url_chunk [a] = [ALPHABET_URL ! (unat a div 4), ALPHABET_URL ! (unat a mod 4 * 16)]"
    by (simp_all only: encode_url_chunk_def Let_def pack_chunk_eval list.size One_nat_def upt_quantum
        list.map sextet_eval s if_True if_False) (simp_all add: upt_quantum sextet_eval s del: One_nat_def)
qed

lemma pend_encode_url:
  "pend_loop (str_bytes (encode_url_unpadded input)) 0 0 out = Ok (out @ input)"
proof (induction input arbitrary: out rule: chunks3.induct [case_names three none one two])
  case (three a b c xs)
  have "str_bytes (encode_url_unpadded (a # b # c # xs))
      = str_bytes (encode_url_chunk [a, b, c]) @ str_bytes (encode_url_unpadded xs)"
    by (simp add: encode_url_unpadded_def str_bytes_def)
  with three show ?case
    by (simp add: encode_url_chunk_eval str_bytes_def unat_byte_less pend_quantum_3)
next
  case (one a)
  then show ?case
    by (simp add: encode_url_unpadded_def encode_url_chunk_eval str_bytes_def unat_byte_less pend_quantum_1)
next
  case (two a b)
  then show ?case
    using pend_quantum_2 [of "unat a" "unat b" 0 "[]"]
    by (simp add: encode_url_unpadded_def encode_url_chunk_eval str_bytes_def unat_byte_less)
qed (simp add: encode_url_unpadded_def str_bytes_def)

lemma decode_url_unpadded_pend: "decode_url_unpadded input = pend_loop (str_bytes input) 0 0 []"
  using decode_loop_refines [of 0 "str_bytes input" 0 "[]"]
  by (simp add: decode_url_unpadded_def Let_def) (simp add: str_bytes_def pend_loop.simps)

text \<open>The standard alphabet differs from the URL one in two characters.\<close>

definition to_url :: "char \<Rightarrow> char" where
  "to_url c = (if c = CHR ''+'' then CHR ''-'' else if c = CHR ''/'' then CHR ''_'' else c)"

lemma to_url_alphabet:
  assumes "n < 64"
  shows "to_url (ALPHABET ! n) = ALPHABET_URL ! n"
proof -
  have "\<forall>n \<in> set [0..<64]. to_url (ALPHABET ! n) = ALPHABET_URL ! n"
    by (simp add: upt_conv_Cons to_url_def)
  then show ?thesis using assms by simp
qed

lemma pend_padding: "pend_loop (0x3D # bs) pend bits out = pend_loop bs pend bits out"
  by (simp add: pend_loop.simps base64_value_def)

lemma map_to_url_encode_chunk:
  "map to_url (encode_chunk [a, b, c]) = encode_url_chunk [a, b, c]"
  "map to_url (encode_chunk [a, b]) = encode_url_chunk [a, b] @ ''=''"
  "map to_url (encode_chunk [a]) = encode_url_chunk [a] @ ''==''"
proof -
  have "sextet p 0 < 64" "sextet p (Suc 0) < 64" "sextet p 2 < 64" "sextet p 3 < 64" for p
    using sextet_eval [of p] by simp_all
  then show "map to_url (encode_chunk [a, b, c]) = encode_url_chunk [a, b, c]"
    "map to_url (encode_chunk [a, b]) = encode_url_chunk [a, b] @ ''=''"
    "map to_url (encode_chunk [a]) = encode_url_chunk [a] @ ''==''"
    by (simp_all add: encode_chunk_def encode_url_chunk_def Let_def upt_quantum to_url_alphabet)
      (simp_all add: to_url_def)
qed

lemma pend_base64_encode:
  "pend_loop (str_bytes (map to_url (base64_encode input))) 0 0 out = Ok (out @ input)"
proof (induction input arbitrary: out rule: chunks3.induct [case_names three none one two])
  case (three a b c xs)
  have "str_bytes (map to_url (base64_encode (a # b # c # xs)))
      = str_bytes (map to_url (encode_chunk [a, b, c])) @ str_bytes (map to_url (base64_encode xs))"
    by (simp add: base64_encode_def str_bytes_def)
  with three show ?case unfolding map_to_url_encode_chunk
    by (simp add: encode_url_chunk_eval str_bytes_def unat_byte_less pend_quantum_3)
next
  case (one a)
  have "str_bytes (map to_url (base64_encode [a])) = str_bytes (map to_url (encode_chunk [a]))"
    by (simp add: base64_encode_def)
  then show ?case unfolding map_to_url_encode_chunk
    by (simp add: encode_url_chunk_eval str_bytes_def unat_byte_less pend_quantum_1 pend_padding)
next
  case (two a b)
  have "str_bytes (map to_url (base64_encode [a, b])) = str_bytes (map to_url (encode_chunk [a, b]))"
    by (simp add: base64_encode_def)
  then show ?case unfolding map_to_url_encode_chunk
    using pend_quantum_2 [of "unat a" "unat b" 0 "[0x3D]"]
    by (simp add: encode_url_chunk_eval str_bytes_def unat_byte_less pend_padding)
qed (simp add: base64_encode_def str_bytes_def)

subsection \<open>The encodings as codecs\<close>

interpretation url64: codec encode_url_unpadded decode_url_unpadded "\<lambda>_. True"
  by unfold_locales (simp add: decode_url_unpadded_pend pend_encode_url)

interpretation hexa: codec hex_encode "\<lambda>s. decode_const (length s div 2) s" "\<lambda>_. True"
  by unfold_locales (simp add: decode_const_def length_hex_encode decode_pairs_hex_encode)

subsection \<open>Properties of the text encodings\<close>

text \<open>URL-safe base64 round trip: decoding the unpadded encoding of any byte
  string gives the string back, whatever its length modulo three; the wrapping
  32-bit accumulator never loses a bit that is still needed.\<close>

theorem base64_url_round_trip: "decode_url_unpadded (encode_url_unpadded input) = Ok input"
  by (simp add: url64.total_dec_enc)

text \<open>Standard base64 with padding carries the same bits: after replacing the two
  characters in which the alphabets differ, the decoder recovers the input and
  skips the padding.\<close>

theorem base64_standard_decodes: "decode_url_unpadded (map to_url (base64_encode input)) = Ok input"
  by (simp add: decode_url_unpadded_pend pend_base64_encode)

text \<open>Hexadecimal round trip: the constant decoder reads back what the encoder
  prints, and its length assertion holds.\<close>

theorem hex_round_trip: "decode_const (length bs) (hex_encode bs) = Ok bs"
  by (simp add: decode_const_def length_hex_encode decode_pairs_hex_encode)

end
