(* ===== verification/Rapp_Messages.thy ===== *)
theory Rapp_Messages
  imports Rapp_Envelope Hex_Base64 Decimal
begin

text \<open>
  The typed messages of the remote-card protocol
  (\<open>crates/refineid-lib-core/src/rapp/messages.rs\<close>): transport candidates, pairing
  offers and their \<open>rapp:\<close> URIs, the stream preamble, stored pair records, card
  operations and their results.

  SHA-256 is an argument \<open>sha256\<close> of the definitions that call it (the \<open>sha2\<close> crate);
  so are the random bytes \<open>getrandom\<close> delivers. Fixed-size arrays are byte lists, and the
  predicates \<open>offer_ok\<close>, \<open>pair_record_ok\<close> and \<open>rendezvous_ok\<close> state what their Rust types
  guarantee: the array lengths, and text that is UTF-8.
\<close>

subsection \<open>Constants\<close>

abbreviation PAIRING_SUITE :: string where "PAIRING_SUITE \<equiv> ''Noise_XXpsk3_25519_ChaChaPoly_SHA256''"
abbreviation OFFER_URI_PREFIX :: string where "OFFER_URI_PREFIX \<equiv> ''rapp:''"
abbreviation OFFER_SCHEME_NAME :: string where "OFFER_SCHEME_NAME \<equiv> ''rapp''"
abbreviation MAX_OFFER_SIZE :: nat where "MAX_OFFER_SIZE \<equiv> 1024"
abbreviation MAX_OFFER_TTL_MS :: u64 where "MAX_OFFER_TTL_MS \<equiv> 180000"
abbreviation PAIR_RECORD_FORMAT_VERSION :: u64 where "PAIR_RECORD_FORMAT_VERSION \<equiv> 2"
abbreviation PROFILE_STATUS :: string where "PROFILE_STATUS \<equiv> ''fi.refineid.card-status.v1''"
abbreviation PROFILE_AUTH :: string where "PROFILE_AUTH \<equiv> ''fi.refineid.authentication.v1''"
abbreviation PROFILE_SIGN :: string where "PROFILE_SIGN \<equiv> ''fi.refineid.document-signing.v1''"
abbreviation TRANSPORT_STREAM :: string where "TRANSPORT_STREAM \<equiv> ''fi.refineid.stream.v1''"
abbreviation TRANSPORT_BLE :: string where "TRANSPORT_BLE \<equiv> ''fi.refineid.ble.v1''"

definition OFFER_PROFILES :: "string list" where
  "OFFER_PROFILES = [''fi.refineid.card-status.v1'', ''fi.refineid.authentication.v1'',
     ''fi.refineid.document-signing.v1'']"

subsection \<open>Field accessors\<close>

text \<open>
  The \<open>match map.remove(k)\<close> blocks of the decoders: a field of the expected shape and the
  remaining map, or the error of the block's last arm.
\<close>

definition remove_bytes :: "nat \<Rightarrow> string \<Rightarrow> wire_map \<Rightarrow> (bytes \<times> wire_map) wres" where
  "remove_bytes n k m =
     (case bt_get m k of
        Some (Bytes b) \<Rightarrow> if length b = n then Ok (b, bt_remove k m) else Err (MissingField k)
      | _ \<Rightarrow> Err (MissingField k))"

definition remove_text :: "string \<Rightarrow> wire_map \<Rightarrow> (string \<times> wire_map) wres" where
  "remove_text k m =
     (case bt_get m k of Some (Text s) \<Rightarrow> Ok (s, bt_remove k m) | _ \<Rightarrow> Err (MissingField k))"

definition remove_unsigned :: "string \<Rightarrow> wire_map \<Rightarrow> (u64 \<times> wire_map) wres" where
  "remove_unsigned k m =
     (case bt_get m k of Some (Unsigned u) \<Rightarrow> Ok (u, bt_remove k m) | _ \<Rightarrow> Err (MissingField k))"

definition remove_map :: "string \<Rightarrow> wire_map \<Rightarrow> (wire_map \<times> wire_map) wres" where
  "remove_map k m =
     (case bt_get m k of Some (Map p) \<Rightarrow> Ok (p, bt_remove k m) | _ \<Rightarrow> Err (MissingField k))"

definition remove_texts :: "string \<Rightarrow> wire_map \<Rightarrow> (string list \<times> wire_map) wres" where
  "remove_texts k m =
     (case bt_get m k of
        Some (Array arr) \<Rightarrow>
          and_then (map_res (\<lambda>it. case it of Text s \<Rightarrow> Ok s | _ \<Rightarrow> Err (WrongType k)) arr) (\<lambda>res.
          Ok (res, bt_remove k m))
      | _ \<Rightarrow> Err (MissingField k))"

definition optional_text :: "string \<Rightarrow> wire_map \<Rightarrow> string option" where
  "optional_text k m = (case bt_get m k of Some (Text s) \<Rightarrow> Some s | _ \<Rightarrow> None)"

definition optional_bytes :: "string \<Rightarrow> wire_map \<Rightarrow> bytes option" where
  "optional_bytes k m = (case bt_get m k of Some (Bytes b) \<Rightarrow> Some b | _ \<Rightarrow> None)"

subsection \<open>Transport candidates\<close>

record transport_candidate =
  profile :: string
  candidate_id :: string
  parameters :: wire_map

definition new_stream :: "string \<Rightarrow> string list \<Rightarrow> transport_candidate" where
  "new_stream cid endpoints =
     \<lparr>profile = TRANSPORT_STREAM, candidate_id = cid,
      parameters = bt_insert ''endpoints'' (Array (map Text endpoints)) bt_new\<rparr>"

definition new_stream_rendezvous :: "string \<Rightarrow> transport_candidate" where
  "new_stream_rendezvous cid =
     \<lparr>profile = TRANSPORT_STREAM, candidate_id = cid, parameters = bt_new\<rparr>"

definition new_ble :: "string \<Rightarrow> string \<Rightarrow> u16 option \<Rightarrow> transport_candidate" where
  "new_ble cid service_uuid psm =
     (let params = bt_insert ''service_uuid'' (Text service_uuid) bt_new;
          params = (case psm of Some p \<Rightarrow> bt_insert ''psm'' (Unsigned (ucast p)) params | None \<Rightarrow> params) in
      \<lparr>profile = TRANSPORT_BLE, candidate_id = cid, parameters = params\<rparr>)"

definition to_wire_value :: "transport_candidate \<Rightarrow> wire_value" where
  "to_wire_value t = Map (bt_insert_all
     [(''profile'', Text (profile t)),
      (''candidate_id'', Text (candidate_id t)),
      (''parameters'', Map (parameters t))] bt_new)"

definition from_wire_value :: "wire_value \<Rightarrow> transport_candidate wres" where
  "from_wire_value v =
     (case v of
        Map m \<Rightarrow>
          (case bt_get m ''profile'' of
             Some (Text p) \<Rightarrow>
               (case bt_get m ''candidate_id'' of
                  Some (Text c) \<Rightarrow>
                    (case bt_get m ''parameters'' of
                       Some (Map ps) \<Rightarrow> Ok \<lparr>profile = p, candidate_id = c, parameters = ps\<rparr>
                     | _ \<Rightarrow> Err (MissingField ''parameters''))
                | _ \<Rightarrow> Err (MissingField ''candidate_id''))
           | _ \<Rightarrow> Err (MissingField ''profile''))
      | _ \<Rightarrow> Err (WrongType ''transport_candidate''))"

subsection \<open>Pairing offers\<close>

record pairing_offer =
  offer_id :: bytes
  pairing_secret :: bytes
  suites :: "string list"
  profiles :: "string list"
  transports :: "transport_candidate list"
  offer_ttl_ms :: u64

definition PairingOffer_generate :: "bytes \<Rightarrow> bytes \<Rightarrow> transport_candidate list \<Rightarrow> pairing_offer" where
  "PairingOffer_generate random_id random_secret ts =
     \<lparr>offer_id = random_id, pairing_secret = random_secret, suites = [PAIRING_SUITE],
      profiles = [OFFER_PROFILES ! 0, OFFER_PROFILES ! 1, OFFER_PROFILES ! 2],
      transports = ts, offer_ttl_ms = MAX_OFFER_TTL_MS\<rparr>"

text \<open>\<open>format!("{code:06}")\<close>: decimal, padded with zeros to six characters.\<close>

definition format_06 :: "u32 \<Rightarrow> string" where
  "format_06 code = padded_decimal 6 (unat code)"

definition generate_numeric ::
  "(bytes \<Rightarrow> bytes) \<Rightarrow> u32 \<Rightarrow> transport_candidate list \<Rightarrow> pairing_offer" where
  "generate_numeric sha256 code ts =
     (let code_str = format_06 code;
          secret_tag = ''refineid-rapp-pairing-secret-v1:'' @ code_str;
          offer_tag = ''refineid-rapp-offer-id-v1:'' @ code_str in
      \<lparr>offer_id = sha256 (str_bytes offer_tag), pairing_secret = sha256 (str_bytes secret_tag),
       suites = [PAIRING_SUITE],
       profiles = [OFFER_PROFILES ! 0, OFFER_PROFILES ! 1, OFFER_PROFILES ! 2],
       transports = ts, offer_ttl_ms = MAX_OFFER_TTL_MS\<rparr>)"

definition as_wire_map :: "pairing_offer \<Rightarrow> bool \<Rightarrow> wire_map" where
  "as_wire_map off include_secret =
     (let m = bt_insert ''scheme'' (Text OFFER_SCHEME_NAME) bt_new;
          m = bt_insert ''version'' (Array [Unsigned (fst WIRE_VERSION), Unsigned (snd WIRE_VERSION)]) m;
          m = bt_insert ''offer_id'' (Bytes (offer_id off)) m;
          m = (if include_secret then bt_insert ''pairing_secret'' (Bytes (pairing_secret off)) m else m);
          m = bt_insert ''suites'' (Array (map Text (suites off))) m;
          m = bt_insert ''profiles'' (Array (map Text (profiles off))) m;
          m = bt_insert ''transports'' (Array (map to_wire_value (transports off))) m in
      bt_insert ''offer_ttl_ms'' (Unsigned (offer_ttl_ms off)) m)"

definition offer_hash :: "(bytes \<Rightarrow> bytes) \<Rightarrow> pairing_offer \<Rightarrow> bytes wres" where
  "offer_hash sha256 off =
     and_then (encode (Map (as_wire_map off False))) (\<lambda>encoded. Ok (sha256 encoded))"

definition to_uri :: "pairing_offer \<Rightarrow> string wres" where
  "to_uri off =
     and_then (encode (Map (as_wire_map off True))) (\<lambda>encoded.
     if MAX_OFFER_SIZE < length encoded then Err (OversizedPlaintext (length encoded))
     else Ok (OFFER_URI_PREFIX @ encode_url_unpadded encoded))"

definition remove_transports :: "wire_map \<Rightarrow> (transport_candidate list \<times> wire_map) wres" where
  "remove_transports m =
     (case bt_get m ''transports'' of
        Some (Array arr) \<Rightarrow>
          and_then (map_res from_wire_value arr) (\<lambda>res. Ok (res, bt_remove ''transports'' m))
      | _ \<Rightarrow> Err (MissingField ''transports''))"

definition offer_from_map :: "wire_map \<Rightarrow> pairing_offer wres" where
  "offer_from_map m =
     and_then (remove_bytes 32 ''offer_id'' m) (\<lambda>(oid, m).
     and_then (remove_bytes 32 ''pairing_secret'' m) (\<lambda>(secret, m).
     and_then (remove_texts ''suites'' m) (\<lambda>(sus, m).
     and_then (remove_texts ''profiles'' m) (\<lambda>(prs, m).
     and_then (remove_transports m) (\<lambda>(trs, m).
     and_then (remove_unsigned ''offer_ttl_ms'' m) (\<lambda>(ttl, m).
     Ok \<lparr>offer_id = oid, pairing_secret = secret, suites = sus, profiles = prs,
         transports = trs, offer_ttl_ms = ttl\<rparr>))))))"

definition from_uri :: "string \<Rightarrow> pairing_offer wres" where
  "from_uri uri =
     (if take (length OFFER_URI_PREFIX) uri \<noteq> OFFER_URI_PREFIX then Err (InvalidValue ''uri_scheme'')
      else
        let b64 = drop (length OFFER_URI_PREFIX) uri in
        and_then (map_err (\<lambda>_. InvalidValue ''base64'') (decode_url_unpadded b64)) (\<lambda>bs.
        if MAX_OFFER_SIZE < length bs then Err (OversizedPlaintext (length bs))
        else and_then (decode_deterministic_cbor bs) (\<lambda>v. case v of
          Map m \<Rightarrow> offer_from_map m
        | _ \<Rightarrow> Err (WrongType ''offer''))))"

subsection \<open>Stream rendezvous\<close>

datatype stream_rendezvous = Pairing | Session bytes

abbreviation RENDEZVOUS_STREAM_DOMAIN :: string where "RENDEZVOUS_STREAM_DOMAIN \<equiv> ''RAPP-stream-v1''"

definition rendezvous_encode :: "stream_rendezvous \<Rightarrow> bytes wres" where
  "rendezvous_encode r =
     (let (purpose, token) =
        (case r of Pairing \<Rightarrow> (''pairing'', []) | Session rendezvous_token \<Rightarrow> (''session'', rendezvous_token)) in
      encode (Array [Text RENDEZVOUS_STREAM_DOMAIN, Text purpose, Bytes token]))"

definition rendezvous_from_value :: "wire_value \<Rightarrow> stream_rendezvous wres" where
  "rendezvous_from_value v =
     (case v of
       Array [Text domain, Text purpose, Bytes token] \<Rightarrow>
         if domain \<noteq> RENDEZVOUS_STREAM_DOMAIN then Err (InvalidValue ''domain'')
         else if purpose = ''pairing'' \<and> token = [] then Ok Pairing
         else if purpose = ''session'' \<and> length token = 16 then Ok (Session token)
         else Err (InvalidValue ''rendezvous_purpose'')
     | _ \<Rightarrow> Err (WrongType ''rendezvous''))"

definition rendezvous_decode :: "bytes \<Rightarrow> stream_rendezvous wres" where
  "rendezvous_decode bs = and_then (decode_deterministic_cbor bs) rendezvous_from_value"

definition name_from_bytes :: "(bytes \<Rightarrow> bytes) \<Rightarrow> bytes \<Rightarrow> string" where
  "name_from_bytes sha256 val = ''rf-'' @ hex_encode (take 8 (sha256 val))"

definition name_from_offer_uri :: "(bytes \<Rightarrow> bytes) \<Rightarrow> string \<Rightarrow> string" where
  "name_from_offer_uri sha256 uri = name_from_bytes sha256 (str_bytes uri)"

definition name_from_rendezvous_token :: "(bytes \<Rightarrow> bytes) \<Rightarrow> bytes \<Rightarrow> string" where
  "name_from_rendezvous_token sha256 token = name_from_bytes sha256 token"

subsection \<open>Pair records\<close>

record pair_record =
  pair_id :: bytes
  rendezvous_token :: bytes
  role :: string
  local_static_private :: bytes
  local_static_public :: bytes
  remote_static_public :: bytes
  grants_hash :: bytes
  granted :: "string list"  \<comment> \<open>the field \<open>profiles\<close>\<close>
  transport_profile :: string
  pr_candidate_id :: string  \<comment> \<open>the field \<open>candidate_id\<close>\<close>
  transport_parameters :: wire_map
  created_at_ms :: u64
  display_name :: "string option"
  platform :: "string option"
  cached_auth_cert :: "bytes option"

text \<open>\<open>if let Some(x) = v { map.insert(k, x) }\<close>.\<close>

definition insert_some :: "string \<Rightarrow> wire_value option \<Rightarrow> wire_map \<Rightarrow> wire_map" where
  "insert_some k v m = (case v of Some x \<Rightarrow> bt_insert k x m | None \<Rightarrow> m)"

definition pair_record_fields :: "pair_record \<Rightarrow> (string \<times> wire_value) list" where
  "pair_record_fields r =
     [(''format_version'', Unsigned PAIR_RECORD_FORMAT_VERSION),
      (''pair_id'', Bytes (pair_id r)),
      (''rendezvous_token'', Bytes (rendezvous_token r)),
      (''role'', Text (role r)),
      (''local_static_private'', Bytes (local_static_private r)),
      (''local_static_public'', Bytes (local_static_public r)),
      (''remote_static_public'', Bytes (remote_static_public r)),
      (''grants_hash'', Bytes (grants_hash r)),
      (''profiles'', Array (map Text (granted r))),
      (''transport_profile'', Text (transport_profile r)),
      (''candidate_id'', Text (pr_candidate_id r)),
      (''transport_parameters'', Map (transport_parameters r)),
      (''created_at_ms'', Unsigned (created_at_ms r))]"

definition pair_record_map :: "pair_record \<Rightarrow> wire_map" where
  "pair_record_map r =
     (let m = bt_insert_all (pair_record_fields r) bt_new;
          m = insert_some ''display_name'' (map_option Text (display_name r)) m;
          m = insert_some ''platform'' (map_option Text (platform r)) m in
      insert_some ''cached_auth_cert'' (map_option Bytes (cached_auth_cert r)) m)"

definition pair_record_encode :: "pair_record \<Rightarrow> bytes wres" where
  "pair_record_encode r = encode (Map (pair_record_map r))"

definition pair_record_from_map :: "wire_map \<Rightarrow> pair_record wres" where
  "pair_record_from_map m =
     and_then (remove_unsigned ''format_version'' m) (\<lambda>(format_version, m).
     if format_version \<noteq> PAIR_RECORD_FORMAT_VERSION then Err UnsupportedVersion
     else
     and_then (remove_bytes 16 ''pair_id'' m) (\<lambda>(pid, m).
     and_then (remove_bytes 16 ''rendezvous_token'' m) (\<lambda>(tok, m).
     and_then (remove_text ''role'' m) (\<lambda>(rl, m).
     and_then (remove_bytes 32 ''local_static_private'' m) (\<lambda>(lpriv, m).
     and_then (remove_bytes 32 ''local_static_public'' m) (\<lambda>(lpub, m).
     and_then (remove_bytes 32 ''remote_static_public'' m) (\<lambda>(rpub, m).
     and_then (remove_bytes 32 ''grants_hash'' m) (\<lambda>(gh, m).
     and_then (remove_texts ''profiles'' m) (\<lambda>(profs, m).
     and_then (remove_text ''transport_profile'' m) (\<lambda>(tp, m).
     and_then (remove_text ''candidate_id'' m) (\<lambda>(cid, m).
     and_then (remove_map ''transport_parameters'' m) (\<lambda>(tps, m).
     and_then (remove_unsigned ''created_at_ms'' m) (\<lambda>(created, m).
     let name = optional_text ''display_name'' m; m = bt_remove ''display_name'' m;
         plat = optional_text ''platform'' m; m = bt_remove ''platform'' m;
         cert = optional_bytes ''cached_auth_cert'' m in
     Ok \<lparr>pair_id = pid, rendezvous_token = tok, role = rl, local_static_private = lpriv,
         local_static_public = lpub, remote_static_public = rpub, grants_hash = gh, granted = profs,
         transport_profile = tp, pr_candidate_id = cid, transport_parameters = tps,
         created_at_ms = created, display_name = name, platform = plat,
         cached_auth_cert = cert\<rparr>)))))))))))))"

definition pair_record_decode :: "bytes \<Rightarrow> pair_record wres" where
  "pair_record_decode bs =
     and_then (decode_deterministic_cbor bs) (\<lambda>v. case v of
       Map m \<Rightarrow> pair_record_from_map m
     | _ \<Rightarrow> Err (WrongType ''pair_record''))"

subsection \<open>Operations and results\<close>

datatype result_status =
    Completed | UserDenied | CredentialRejected | Ambiguous | CardUnavailable | InternalFailure

fun rs_as_str :: "result_status \<Rightarrow> string" where
  "rs_as_str Completed = ''completed''"
| "rs_as_str UserDenied = ''user_denied''"
| "rs_as_str CredentialRejected = ''credential_rejected''"
| "rs_as_str Ambiguous = ''ambiguous''"
| "rs_as_str CardUnavailable = ''card_unavailable''"
| "rs_as_str InternalFailure = ''internal_failure''"

definition rs_from_str :: "string \<Rightarrow> result_status option" where
  "rs_from_str s =
     (if s = ''completed'' then Some Completed
      else if s = ''user_denied'' then Some UserDenied
      else if s = ''credential_rejected'' then Some CredentialRejected
      else if s = ''ambiguous'' then Some Ambiguous
      else if s = ''card_unavailable'' then Some CardUnavailable
      else if s = ''internal_failure'' then Some InternalFailure
      else None)"

datatype card_operation =
    InspectCard
  | ReadIdentity
  | ReadCertificate string
  | BrowserAuthenticate (op_origin: string) (op_key_profile: string) (op_algorithm: string) (op_digest: bytes)
  | SignDocument (op_document_name: string) (op_key_profile: string) (op_algorithm: string) (op_digest: bytes)

fun required_profile :: "card_operation \<Rightarrow> string" where
  "required_profile InspectCard = PROFILE_STATUS"
| "required_profile ReadIdentity = PROFILE_STATUS"
| "required_profile (ReadCertificate kind) = (if kind = ''signature'' then PROFILE_SIGN else PROFILE_AUTH)"
| "required_profile (BrowserAuthenticate _ _ _ _) = PROFILE_AUTH"
| "required_profile (SignDocument _ _ _ _) = PROFILE_SIGN"

fun action_name :: "card_operation \<Rightarrow> string" where
  "action_name InspectCard = ''inspect_card''"
| "action_name ReadIdentity = ''read_identity''"
| "action_name (ReadCertificate _) = ''read_certificate''"
| "action_name (BrowserAuthenticate _ _ _ _) = ''browser_authenticate''"
| "action_name (SignDocument _ _ _ _) = ''sign_document''"

fun is_consequential :: "card_operation \<Rightarrow> bool" where
  "is_consequential (BrowserAuthenticate _ _ _ _) = True"
| "is_consequential (SignDocument _ _ _ _) = True"
| "is_consequential _ = False"

fun context_map :: "card_operation \<Rightarrow> wire_map" where
  "context_map (BrowserAuthenticate origin _ _ _) = bt_insert ''origin'' (Text origin) bt_new"
| "context_map (SignDocument document_name _ _ _) = bt_insert ''document_name'' (Text document_name) bt_new"
| "context_map _ = bt_new"

definition signature_payload :: "string \<Rightarrow> string \<Rightarrow> bytes \<Rightarrow> wire_map" where
  "signature_payload key_profile algorithm digest = bt_insert_all
     [(''key_profile'', Text key_profile), (''algorithm'', Text algorithm), (''digest'', Bytes digest)] bt_new"

fun payload_map :: "card_operation \<Rightarrow> wire_map" where
  "payload_map (ReadCertificate kind) = bt_insert ''kind'' (Text kind) bt_new"
| "payload_map (BrowserAuthenticate _ key_profile algorithm digest) = signature_payload key_profile algorithm digest"
| "payload_map (SignDocument _ key_profile algorithm digest) = signature_payload key_profile algorithm digest"
| "payload_map _ = bt_new"

record card_inspection =
  pin1_factory :: bool
  pin2_factory :: bool
  pin1_attempts :: "byte option"
  pin2_attempts :: "byte option"
  puk_attempts :: "byte option"

datatype card_operation_result =
    Inspection card_inspection
  | Identity string string
  | Certificate bytes "string option"
  | Signature bytes

definition result_flag :: "string \<Rightarrow> wire_map \<Rightarrow> bool" where
  "result_flag k m = (case bt_get m k of Some (Boolean b) \<Rightarrow> b | _ \<Rightarrow> False)"

text \<open>\<open>u as u8\<close> keeps the low eight bits.\<close>

definition result_attempts :: "string \<Rightarrow> wire_map \<Rightarrow> byte option" where
  "result_attempts k m = (case bt_get m k of Some (Unsigned u) \<Rightarrow> Some (ucast u) | _ \<Rightarrow> None)"

definition from_wire_body :: "wire_map \<Rightarrow> card_operation_result wres" where
  "from_wire_body m =
     and_then (remove_text ''type'' m) (\<lambda>(typ, m).
     if typ = ''inspection'' then
       Ok (Inspection \<lparr>pin1_factory = result_flag ''pin1_factory'' m,
         pin2_factory = result_flag ''pin2_factory'' m,
         pin1_attempts = result_attempts ''pin1_attempts'' m,
         pin2_attempts = result_attempts ''pin2_attempts'' m,
         puk_attempts = result_attempts ''puk_attempts'' m\<rparr>)
     else if typ = ''identity'' then
       and_then (remove_text ''display_name'' m) (\<lambda>(name, m).
       and_then (remove_text ''person_id'' m) (\<lambda>(pid, m).
       Ok (Identity name pid)))
     else if typ = ''certificate'' then
       (case bt_get m ''der'' of
          Some (Bytes der) \<Rightarrow> Ok (Certificate der (optional_text ''card_serial'' (bt_remove ''der'' m)))
        | _ \<Rightarrow> Err (MissingField ''der''))
     else if typ = ''signature'' then
       (case (case bt_get m ''bytes'' of Some v \<Rightarrow> Some v | None \<Rightarrow> bt_get m ''signature'') of
          Some (Bytes b) \<Rightarrow> Ok (Signature b)
        | _ \<Rightarrow> Err (MissingField ''bytes''))
     else Err (InvalidValue ''result_type''))"

subsection \<open>Field accessor lemmas\<close>

lemma remove_field_Ok [res_simps]:
  "remove_bytes n k m = Ok r \<longleftrightarrow> (\<exists>b. bt_get m k = Some (Bytes b) \<and> length b = n \<and> r = (b, bt_remove k m))"
  "remove_text k m = Ok r' \<longleftrightarrow> (\<exists>s. bt_get m k = Some (Text s) \<and> r' = (s, bt_remove k m))"
  "remove_unsigned k m = Ok r'' \<longleftrightarrow> (\<exists>u. bt_get m k = Some (Unsigned u) \<and> r'' = (u, bt_remove k m))"
  "remove_map k m = Ok r''' \<longleftrightarrow> (\<exists>p. bt_get m k = Some (Map p) \<and> r''' = (p, bt_remove k m))"
  by (auto simp: remove_bytes_def remove_text_def remove_unsigned_def remove_map_def
      split: option.splits wire_value.splits if_splits)

lemma remove_texts_Ok [res_simps]:
  "remove_texts k m = Ok r \<longleftrightarrow> (\<exists>ts. bt_get m k = Some (Array (map Text ts)) \<and> r = (ts, bt_remove k m))"
  by (cases "bt_get m k") (auto simp: remove_texts_def res_simps map_res_Text split: wire_value.splits)

lemma optional_field_simps:
  "optional_text k m = Some s \<longleftrightarrow> bt_get m k = Some (Text s)"
  "optional_bytes k m = Some b \<longleftrightarrow> bt_get m k = Some (Bytes b)"
  by (auto simp: optional_text_def optional_bytes_def split: option.splits wire_value.splits)

subsection \<open>Candidates and offers\<close>

definition candidate_ok :: "transport_candidate \<Rightarrow> bool" where
  "candidate_ok t \<longleftrightarrow> text_ok (profile t) \<and> text_ok (candidate_id t) \<and> wire_ok (Map (parameters t))"

definition offer_ok :: "pairing_offer \<Rightarrow> bool" where
  "offer_ok off \<longleftrightarrow> length (offer_id off) = 32 \<and> length (pairing_secret off) = 32 \<and>
     list_all text_ok (suites off) \<and> list_all text_ok (profiles off) \<and> list_all candidate_ok (transports off)"

lemma to_wire_value_ok: "candidate_ok t \<Longrightarrow> wire_ok (to_wire_value t)"
  by (simp add: to_wire_value_def candidate_ok_def del: wire_ok.simps(3) bt_insert.simps)

lemma from_to_wire_value: "from_wire_value (to_wire_value t) = Ok t"
  by (simp add: from_wire_value_def to_wire_value_def bt_simps del: bt_insert.simps)

lemma from_wire_value_ok:
  assumes v: "wire_ok v" and t: "from_wire_value v = Ok t"
  shows "candidate_ok t"
proof -
  obtain m p c ps where "v = Map m" "bt_get m ''profile'' = Some (Text p)"
      "bt_get m ''candidate_id'' = Some (Text c)" "bt_get m ''parameters'' = Some (Map ps)"
      "t = \<lparr>profile = p, candidate_id = c, parameters = ps\<rparr>"
    using t by (auto simp: from_wire_value_def split: wire_value.splits option.splits)
  with v show ?thesis
    using wire_ok_Map_get [of m] by (force simp: candidate_ok_def simp del: wire_ok.simps(3))
qed

lemma as_wire_map_bt_ok [simp]: "bt_ok (as_wire_map off sec)"
  by (simp add: as_wire_map_def Let_def bt_simps del: bt_insert.simps)

lemma as_wire_map_get:
  "bt_get (as_wire_map off sec) ''offer_id'' = Some (Bytes (offer_id off))"
  "bt_get (as_wire_map off sec) ''pairing_secret'' = (if sec then Some (Bytes (pairing_secret off)) else None)"
  "bt_get (as_wire_map off sec) ''suites'' = Some (Array (map Text (suites off)))"
  "bt_get (as_wire_map off sec) ''profiles'' = Some (Array (map Text (profiles off)))"
  "bt_get (as_wire_map off sec) ''transports'' = Some (Array (map to_wire_value (transports off)))"
  "bt_get (as_wire_map off sec) ''offer_ttl_ms'' = Some (Unsigned (offer_ttl_ms off))"
  by (auto simp: as_wire_map_def Let_def bt_simps simp del: bt_insert.simps)

lemma wire_ok_Array_map: "wire_ok (Array (map f xs)) \<longleftrightarrow> list_all (\<lambda>x. wire_ok (f x)) xs"
  by (simp add: list_all_iff)

lemma as_wire_map_wire_ok: "offer_ok off \<Longrightarrow> wire_ok (Map (as_wire_map off sec))"
  by (auto simp: as_wire_map_def Let_def offer_ok_def list_all_iff to_wire_value_ok wire_ok_Array_map
      simp del: wire_ok.simps(3) bt_insert.simps)

lemma remove_transports_Ok [res_simps]:
  "remove_transports m = Ok r \<longleftrightarrow> (\<exists>arr ts. bt_get m ''transports'' = Some (Array arr) \<and>
     map_res from_wire_value arr = Ok ts \<and> r = (ts, bt_remove ''transports'' m))"
  by (cases "bt_get m ''transports''") (auto simp: remove_transports_def res_simps split: wire_value.splits)

lemma offer_from_map_Ok:
  assumes "bt_ok m"
  shows "offer_from_map m = Ok off \<longleftrightarrow>
    bt_get m ''offer_id'' = Some (Bytes (offer_id off)) \<and> length (offer_id off) = 32 \<and>
    bt_get m ''pairing_secret'' = Some (Bytes (pairing_secret off)) \<and> length (pairing_secret off) = 32 \<and>
    bt_get m ''suites'' = Some (Array (map Text (suites off))) \<and>
    bt_get m ''profiles'' = Some (Array (map Text (profiles off))) \<and>
    (\<exists>arr. bt_get m ''transports'' = Some (Array arr) \<and> map_res from_wire_value arr = Ok (transports off)) \<and>
    bt_get m ''offer_ttl_ms'' = Some (Unsigned (offer_ttl_ms off))"
  using assms by (cases off) (auto simp: offer_from_map_def res_simps bt_simps)

lemma map_res_from_to: "map_res from_wire_value (map to_wire_value ts) = Ok ts"
  by (induction ts) (auto simp: from_to_wire_value)

lemma offer_from_as_wire_map: "offer_ok off \<Longrightarrow> offer_from_map (as_wire_map off True) = Ok off"
  by (simp add: offer_from_map_Ok as_wire_map_get offer_ok_def map_res_from_to)

lemma from_uri_Ok:
  "from_uri uri = Ok off \<longleftrightarrow>
   (\<exists>b64 bs m. uri = OFFER_URI_PREFIX @ b64 \<and> decode_url_unpadded b64 = Ok bs \<and>
     length bs \<le> MAX_OFFER_SIZE \<and> decode_deterministic_cbor bs = Ok (Map m) \<and> offer_from_map m = Ok off)"
proof -
  have "take (length OFFER_URI_PREFIX) uri = OFFER_URI_PREFIX \<longleftrightarrow> (\<exists>b64. uri = OFFER_URI_PREFIX @ b64)"
    by (metis append_eq_conv_conj append_take_drop_id)
  then show ?thesis
    by (auto simp: from_uri_def res_simps Let_def)
qed

subsection \<open>Pair record lemmas\<close>

definition pair_record_ok :: "pair_record \<Rightarrow> bool" where
  "pair_record_ok r \<longleftrightarrow> length (pair_id r) = 16 \<and> length (rendezvous_token r) = 16 \<and>
     length (local_static_private r) = 32 \<and> length (local_static_public r) = 32 \<and>
     length (remote_static_public r) = 32 \<and> length (grants_hash r) = 32 \<and>
     text_ok (role r) \<and> list_all text_ok (granted r) \<and> text_ok (transport_profile r) \<and>
     text_ok (pr_candidate_id r) \<and> wire_ok (Map (transport_parameters r)) \<and>
     pred_option text_ok (display_name r) \<and> pred_option text_ok (platform r)"

lemma insert_some_bt_ok: "bt_ok m \<Longrightarrow> bt_ok (insert_some k v m)"
  by (simp add: insert_some_def bt_simps split: option.split)

lemma insert_some_get:
  "bt_ok m \<Longrightarrow> bt_get (insert_some k v m) k' =
     (if k' = k then (case v of Some x \<Rightarrow> Some x | None \<Rightarrow> bt_get m k) else bt_get m k')"
  by (simp add: insert_some_def bt_simps split: option.split)

lemma insert_some_wire_ok:
  "wire_ok (Map m) \<Longrightarrow> text_ok k \<Longrightarrow> pred_option wire_ok v \<Longrightarrow> wire_ok (Map (insert_some k v m))"
  by (cases v) (simp_all add: insert_some_def del: wire_ok.simps(3) bt_insert.simps)

lemma insert_all_bt_ok: "bt_ok (bt_insert_all kvs bt_new)"
  by (simp add: bt_insert_all_eq bt.invar_insert_list bt_simps)

lemma insert_all_get: "distinct (map fst kvs) \<Longrightarrow> bt_get (bt_insert_all kvs bt_new) k = map_of kvs k"
  by (simp add: bt_insert_all_eq bt.get_insert_list bt_simps split: option.split)

lemma insert_all_wire_ok:
  "list_all (\<lambda>e. text_ok (fst e) \<and> wire_ok (snd e)) kvs \<Longrightarrow> wire_ok (Map m) \<Longrightarrow>
   wire_ok (Map (bt_insert_all kvs m))"
  by (induction kvs arbitrary: m) (auto simp del: wire_ok.simps(3))

lemma pair_record_fields_distinct: "distinct (map fst (pair_record_fields r))"
  by (simp add: pair_record_fields_def)

lemma pair_record_map_bt_ok [simp]: "bt_ok (pair_record_map r)"
  by (simp add: pair_record_map_def Let_def insert_all_bt_ok insert_some_bt_ok)

lemma pair_record_map_optional:
  "bt_get (pair_record_map r) ''display_name'' = map_option Text (display_name r)"
  "bt_get (pair_record_map r) ''platform'' = map_option Text (platform r)"
  "bt_get (pair_record_map r) ''cached_auth_cert'' = map_option Bytes (cached_auth_cert r)"
  by (simp_all add: pair_record_map_def Let_def insert_some_get insert_all_get insert_all_bt_ok
      insert_some_bt_ok pair_record_fields_distinct option.case_eq_if)
    (simp_all add: pair_record_fields_def)

lemma pair_record_map_mandatory:
  "k \<notin> {''display_name'', ''platform'', ''cached_auth_cert''} \<Longrightarrow>
   bt_get (pair_record_map r) k = map_of (pair_record_fields r) k"
  by (simp add: pair_record_map_def Let_def insert_some_get insert_all_get insert_all_bt_ok
      insert_some_bt_ok pair_record_fields_distinct)

lemma pair_record_map_wire_ok:
  assumes "pair_record_ok r"
  shows "wire_ok (Map (pair_record_map r))"
proof -
  have "list_all (\<lambda>e. text_ok (fst e) \<and> wire_ok (snd e)) (pair_record_fields r)"
    using assms by (simp add: pair_record_fields_def pair_record_ok_def list_all_iff del: wire_ok.simps(3))
  then show ?thesis using assms
    by (auto simp: pair_record_map_def Let_def pair_record_ok_def option.pred_map comp_def option.pred_True
        simp del: wire_ok.simps(3) intro!: insert_some_wire_ok insert_all_wire_ok)
qed

lemma pair_record_from_map_Ok:
  assumes "bt_ok m"
  shows "pair_record_from_map m = Ok r \<longleftrightarrow>
    bt_get m ''format_version'' = Some (Unsigned PAIR_RECORD_FORMAT_VERSION) \<and>
    bt_get m ''pair_id'' = Some (Bytes (pair_id r)) \<and> length (pair_id r) = 16 \<and>
    bt_get m ''rendezvous_token'' = Some (Bytes (rendezvous_token r)) \<and> length (rendezvous_token r) = 16 \<and>
    bt_get m ''role'' = Some (Text (role r)) \<and>
    bt_get m ''local_static_private'' = Some (Bytes (local_static_private r)) \<and> length (local_static_private r) = 32 \<and>
    bt_get m ''local_static_public'' = Some (Bytes (local_static_public r)) \<and> length (local_static_public r) = 32 \<and>
    bt_get m ''remote_static_public'' = Some (Bytes (remote_static_public r)) \<and> length (remote_static_public r) = 32 \<and>
    bt_get m ''grants_hash'' = Some (Bytes (grants_hash r)) \<and> length (grants_hash r) = 32 \<and>
    bt_get m ''profiles'' = Some (Array (map Text (granted r))) \<and>
    bt_get m ''transport_profile'' = Some (Text (transport_profile r)) \<and>
    bt_get m ''candidate_id'' = Some (Text (pr_candidate_id r)) \<and>
    bt_get m ''transport_parameters'' = Some (Map (transport_parameters r)) \<and>
    bt_get m ''created_at_ms'' = Some (Unsigned (created_at_ms r)) \<and>
    display_name r = optional_text ''display_name'' m \<and> platform r = optional_text ''platform'' m \<and>
    cached_auth_cert r = optional_bytes ''cached_auth_cert'' m"
proof -
  have opt: "optional_text k (bt_remove k' m') = (if k = k' then None else optional_text k m')"
    "optional_bytes k (bt_remove k' m') = (if k = k' then None else optional_bytes k m')"
    if "bt_ok m'" for k k' m'
    using that by (simp_all add: optional_text_def optional_bytes_def bt_simps)
  show ?thesis using assms
    by (cases r) (simp add: pair_record_from_map_def res_simps bt_simps Let_def opt, fast)
qed

lemma pair_record_from_map_of: "pair_record_ok r \<Longrightarrow> pair_record_from_map (pair_record_map r) = Ok r"
  by (simp add: pair_record_from_map_Ok pair_record_map_mandatory pair_record_map_optional pair_record_ok_def
      optional_text_def optional_bytes_def option.case_eq_if option.map_sel)
    (simp add: pair_record_fields_def)

lemma pair_record_decode_ok:
  assumes "pair_record_decode bs = Ok r"
  shows "pair_record_ok r"
proof -
  from assms obtain m where "decode_deterministic_cbor bs = Ok (Map m)" and r: "pair_record_from_map m = Ok r"
    by (auto simp: pair_record_decode_def res_simps)
  then have m: "wire_ok (Map m)" by (simp only: decode_deterministic_iff)
  then have "bt_ok m" by simp
  note f = r [unfolded pair_record_from_map_Ok [OF this]]
  have utf: "text_ok s" if "bt_get m k = Some (Text s)" for k s
    using wire_ok_Map_get [OF m that] by simp
  have "list_all text_ok (granted r)"
    using wire_ok_Map_get [OF m, of "''profiles''" "Array (map Text (granted r))"] f
    by (simp add: list_all_iff del: wire_ok.simps(3))
  moreover have "wire_ok (Map (transport_parameters r))"
    using wire_ok_Map_get [OF m, of "''transport_parameters''" "Map (transport_parameters r)"] f
    by blast
  moreover have "pred_option text_ok (optional_text k m)" for k
    using utf [of k] by (auto simp: optional_text_def split: option.splits wire_value.splits)
  ultimately show ?thesis
    using f by (auto simp: pair_record_ok_def utf simp del: wire_ok.simps(3))
qed

lemma pair_record_decode_encode:
  "pair_record_ok r \<Longrightarrow> pair_record_encode r = Ok bs \<Longrightarrow> length bs \<le> MAX_FRAME_PLAINTEXT \<Longrightarrow>
   pair_record_decode bs = Ok r"
proof -
  assume r: "pair_record_ok r" and "pair_record_encode r = Ok bs" "length bs \<le> MAX_FRAME_PLAINTEXT"
  then have "decode_deterministic_cbor bs = Ok (Map (pair_record_map r))"
    by (simp only: decode_deterministic_iff pair_record_encode_def pair_record_map_wire_ok)
  then show ?thesis by (simp add: pair_record_decode_def pair_record_from_map_of [OF r])
qed

subsection \<open>Stream rendezvous lemmas\<close>

definition rendezvous_ok :: "stream_rendezvous \<Rightarrow> bool" where
  "rendezvous_ok r = (case r of Pairing \<Rightarrow> True | Session token \<Rightarrow> length token = 16)"

definition rendezvous_value :: "stream_rendezvous \<Rightarrow> wire_value" where
  "rendezvous_value r = (case r of
     Pairing \<Rightarrow> Array [Text RENDEZVOUS_STREAM_DOMAIN, Text ''pairing'', Bytes []]
   | Session token \<Rightarrow> Array [Text RENDEZVOUS_STREAM_DOMAIN, Text ''session'', Bytes token])"

lemma rendezvous_encode_value: "rendezvous_encode r = encode (rendezvous_value r)"
  by (cases r) (simp_all add: rendezvous_encode_def rendezvous_value_def)

lemma rendezvous_value_wire_ok: "wire_ok (rendezvous_value r)"
  by (cases r) (simp_all add: rendezvous_value_def)

lemma rendezvous_encodes:
  assumes "rendezvous_ok r"
  obtains bs where "rendezvous_encode r = Ok bs" and "length bs \<le> 64"
proof -
  have "encodable 0 (rendezvous_value r)" "wire_size (rendezvous_value r) \<le> 64"
    using assms by (cases r; simp add: rendezvous_value_def rendezvous_ok_def header_size_def)+
  then show thesis using encode_fits that by (metis rendezvous_encode_value)
qed

lemma rendezvous_from_value_Ok:
  "rendezvous_from_value v = Ok r \<longleftrightarrow> rendezvous_ok r \<and> v = rendezvous_value r"
proof (cases "\<exists>d p t. v = Array [Text d, Text p, Bytes t]")
  case True
  then obtain d p t where v: "v = Array [Text d, Text p, Bytes t]" by blast
  show ?thesis unfolding v
    by (cases r) (auto simp: rendezvous_from_value_def rendezvous_ok_def rendezvous_value_def)
next
  case False
  then have "rendezvous_from_value v = Err (WrongType ''rendezvous'')"
    by (auto simp: rendezvous_from_value_def split: wire_value.split list.split)
  with False show ?thesis by (cases r) (auto simp: rendezvous_value_def)
qed

lemma rendezvous_decode_Ok:
  "rendezvous_decode bs = Ok r \<longleftrightarrow> rendezvous_ok r \<and> rendezvous_encode r = Ok bs"
proof -
  have "rendezvous_decode bs = Ok r \<longleftrightarrow> rendezvous_ok r \<and> decode_deterministic_cbor bs = Ok (rendezvous_value r)"
    unfolding rendezvous_decode_def and_then_eq_Ok rendezvous_from_value_Ok by blast
  also have "\<dots> \<longleftrightarrow> rendezvous_ok r \<and> rendezvous_encode r = Ok bs \<and> length bs \<le> MAX_FRAME_PLAINTEXT"
    by (simp add: decode_deterministic_iff rendezvous_value_wire_ok rendezvous_encode_value)
  also have "\<dots> \<longleftrightarrow> rendezvous_ok r \<and> rendezvous_encode r = Ok bs"
    using rendezvous_encodes [of r] by fastforce
  finally show ?thesis .
qed

subsection \<open>Properties of the messages\<close>

lemma encode_inject:
  assumes "encode v = Ok bs" and "encode w = Ok bs" and "wire_ok v" and "wire_ok w" and "length bs \<le> usize_max"
  shows "v = w"
  using decode_encode_top [of v bs "[]"] decode_encode_top [of w bs "[]"] assms by simp

lemma to_wire_value_inject: "to_wire_value t = to_wire_value t' \<Longrightarrow> t = t'"
  by (metis from_to_wire_value res.inject(1))

lemma offer_encode_fits:
  assumes "encodable 0 (Map (as_wire_map off True))" and "wire_size (Map (as_wire_map off True)) \<le> MAX_OFFER_SIZE"
  obtains uri where "to_uri off = Ok uri"
proof -
  obtain b where "encode (Map (as_wire_map off True)) = Ok b" "length b \<le> MAX_OFFER_SIZE"
    using encode_fits [OF assms] by blast
  then have "to_uri off = Ok (OFFER_URI_PREFIX @ encode_url_unpadded b)" by (simp add: to_uri_def)
  then show thesis by (rule that)
qed

lemma from_uri_to_uri:
  assumes "offer_ok off" and "to_uri off = Ok uri"
  shows "from_uri uri = Ok off"
proof -
  from assms(2) obtain bs where bs: "encode (Map (as_wire_map off True)) = Ok bs"
      "length bs \<le> MAX_OFFER_SIZE" "uri = OFFER_URI_PREFIX @ encode_url_unpadded bs"
    by (auto simp: to_uri_def res_simps)
  have "decode_deterministic_cbor bs = Ok (Map (as_wire_map off True))"
    unfolding decode_deterministic_iff using bs(1,2) as_wire_map_wire_ok [OF assms(1)] by simp
  with bs show ?thesis
    using url64.total_dec_enc offer_from_as_wire_map [OF assms(1)] unfolding from_uri_Ok by blast
qed

interpretation offer_uri: res_codec to_uri from_uri offer_ok "\<lambda>_. True"
  by unfold_locales (rule from_uri_to_uri)

interpretation pair_file: res_codec pair_record_encode pair_record_decode pair_record_ok
  "\<lambda>bs. length bs \<le> MAX_FRAME_PLAINTEXT"
  by unfold_locales (rule pair_record_decode_encode)

interpretation preamble: res_codec rendezvous_encode rendezvous_decode rendezvous_ok "\<lambda>_. True"
  by unfold_locales (simp add: rendezvous_decode_Ok)

text \<open>A pairing offer survives the trip through its QR code: whenever an offer is rendered as a
  \<open>rapp:\<close> URI, scanning that URI gives the same offer back, secret, candidates and parameters included.\<close>

theorem offer_uri_round_trip:
  assumes "offer_ok off" and "to_uri off = Ok uri"
  shows "from_uri uri = Ok off"
  by (rule offer_uri.dec_enc [OF assms TrueI])

definition sample_offer :: pairing_offer where
  "sample_offer = PairingOffer_generate (replicate 32 1) (replicate 32 2)
     [new_stream_rendezvous ''local'', new_ble ''b1'' ''1ff9'' (Some 129)]"

lemma sample_offer_ok: "offer_ok sample_offer"
  by (simp add: sample_offer_def PairingOffer_generate_def offer_ok_def candidate_ok_def
      new_stream_rendezvous_def new_ble_def OFFER_PROFILES_def)

lemma sample_offer_encodes: "encodable 0 (Map (as_wire_map sample_offer sec))"
  "wire_size (Map (as_wire_map sample_offer sec)) \<le> MAX_OFFER_SIZE"
  by (simp_all add: sample_offer_def PairingOffer_generate_def as_wire_map_def Let_def to_wire_value_def
      new_stream_rendezvous_def new_ble_def OFFER_PROFILES_def header_size_def)

theorem offer_uri_round_trip_witness: "\<exists>uri. to_uri sample_offer = Ok uri \<and> from_uri uri = Ok sample_offer"
proof -
  obtain uri where "to_uri sample_offer = Ok uri"
    using offer_encode_fits [OF sample_offer_encodes] by blast
  then show ?thesis using offer_uri_round_trip [OF sample_offer_ok] by blast
qed

text \<open>The offer hash, which both sides mix into the handshake, binds everything in the offer but the
  secret: two offers with the same hash, whose encodings do not collide under the hash function,
  differ at most in the pairing secret; and the secret itself does not enter the hash.\<close>

theorem offer_hash_binds:
  assumes "offer_ok a" and "offer_ok b"
    and "encode (Map (as_wire_map a False)) = Ok x" and "encode (Map (as_wire_map b False)) = Ok y"
    and "length x \<le> usize_max" and "inj_on sha256 {x, y}"
  shows "offer_hash sha256 a = offer_hash sha256 b \<longleftrightarrow> a = b\<lparr>pairing_secret := pairing_secret a\<rparr>"
proof
  assume "offer_hash sha256 a = offer_hash sha256 b"
  then have "sha256 x = sha256 y" using assms(3,4) by (simp add: offer_hash_def)
  then have "x = y" by (rule inj_onD [OF assms(6)]) simp_all
  then have "y = x" by (rule sym)
  then have "Map (as_wire_map a False) = Map (as_wire_map b False)"
    using encode_inject [OF assms(3) _ as_wire_map_wire_ok [OF assms(1)] as_wire_map_wire_ok [OF assms(2)] assms(5)]
      assms(4) by blast
  then have get: "bt_get (as_wire_map a False) k = bt_get (as_wire_map b False) k" for k by simp
  have "offer_id a = offer_id b" "suites a = suites b" "profiles a = profiles b" "offer_ttl_ms a = offer_ttl_ms b"
    using get [of "''offer_id''"] get [of "''suites''"] get [of "''profiles''"] get [of "''offer_ttl_ms''"]
    by (simp_all add: as_wire_map_get inj_map_eq_map inj_def)
  moreover have "transports a = transports b"
    using get [of "''transports''"] by (simp add: as_wire_map_get inj_map_eq_map inj_def to_wire_value_inject)
  ultimately show "a = b\<lparr>pairing_secret := pairing_secret a\<rparr>"
    by (intro pairing_offer.equality) simp_all
next
  assume "a = b\<lparr>pairing_secret := pairing_secret a\<rparr>"
  moreover have "as_wire_map (b\<lparr>pairing_secret := s\<rparr>) False = as_wire_map b False" for s
    by (simp add: as_wire_map_def)
  ultimately show "offer_hash sha256 a = offer_hash sha256 b" by (metis offer_hash_def)
qed

theorem offer_hash_binds_witness:
  "offer_hash (\<lambda>x. x) sample_offer = offer_hash (\<lambda>x. x) (sample_offer\<lparr>pairing_secret := replicate 32 9\<rparr>)"
proof -
  let ?o = "sample_offer\<lparr>pairing_secret := replicate 32 9\<rparr>"
  have "as_wire_map ?o False = as_wire_map sample_offer False" by (simp add: as_wire_map_def)
  moreover obtain x where "encode (Map (as_wire_map sample_offer False)) = Ok x" "length x \<le> MAX_OFFER_SIZE"
    using encode_fits [OF sample_offer_encodes] by blast
  moreover have "offer_ok ?o" using sample_offer_ok by (simp add: offer_ok_def)
  ultimately show ?thesis
    using offer_hash_binds [OF sample_offer_ok, of ?o x x "\<lambda>x. x"] by simp
qed

text \<open>A stored pairing is read back unchanged: decoding the encoding of a pair record that fits in a
  frame gives the record, optional fields included.\<close>

theorem pair_record_round_trip:
  assumes "pair_record_ok r" and "pair_record_encode r = Ok bs" and "length bs \<le> MAX_FRAME_PLAINTEXT"
  shows "pair_record_decode bs = Ok r"
  by (rule pair_file.dec_enc [OF assms])

definition sample_pair :: pair_record where
  "sample_pair = \<lparr>pair_id = replicate 16 1, rendezvous_token = replicate 16 2, role = ''requester'',
     local_static_private = replicate 32 3, local_static_public = replicate 32 4,
     remote_static_public = replicate 32 5, grants_hash = replicate 32 6, granted = [PROFILE_AUTH],
     transport_profile = TRANSPORT_STREAM, pr_candidate_id = ''local'', transport_parameters = bt_new,
     created_at_ms = 1700000000000, display_name = Some ''phone'', platform = None,
     cached_auth_cert = Some [0x30, 0x00]\<rparr>"

lemma sample_pair_ok: "pair_record_ok sample_pair"
  by (simp add: sample_pair_def pair_record_ok_def)

lemma sample_pair_encodes: "encodable 0 (Map (pair_record_map sample_pair))"
  "wire_size (Map (pair_record_map sample_pair)) \<le> MAX_FRAME_PLAINTEXT"
  by (simp_all add: sample_pair_def pair_record_map_def pair_record_fields_def insert_some_def header_size_def)

theorem pair_record_round_trip_witness:
  "\<exists>bs. pair_record_encode sample_pair = Ok bs \<and> pair_record_decode bs = Ok sample_pair"
proof -
  obtain bs where "encode (Map (pair_record_map sample_pair)) = Ok bs" "length bs \<le> MAX_FRAME_PLAINTEXT"
    using encode_fits [OF sample_pair_encodes] by blast
  then show ?thesis
    using pair_record_round_trip [OF sample_pair_ok, of bs] by (simp add: pair_record_encode_def)
qed

text \<open>The stream preamble decoder accepts exactly the encodings of the two preambles, a session
  preamble with a token of sixteen bytes.\<close>

theorem rendezvous_decodes_exactly:
  "rendezvous_decode bs = Ok r \<longleftrightarrow> rendezvous_ok r \<and> rendezvous_encode r = Ok bs"
  by (rule rendezvous_decode_Ok)

text \<open>A retry counter reported by the remote card is cut to eight bits, so a report of 256 attempts
  and a report of none are the same inspection; flags and counters of another type are taken as
  absent.\<close>

theorem inspection_counters_wrap:
  "from_wire_body [(''pin1_attempts'', Unsigned (256 + n)), (''type'', Text ''inspection'')] =
   from_wire_body [(''pin1_attempts'', Unsigned n), (''type'', Text ''inspection'')]"
proof -
  have "(ucast (256 + n) :: byte) = ucast n"
  proof -
    have "unat (ucast (256 + n) :: byte) = unat (ucast n :: byte)"
      by (simp add: unsigned_ucast_eq take_bit_eq_mod unat_word_ariths mod_mod_cancel)
    then show ?thesis by (simp only: unsigned_word_eqI)
  qed
  then show ?thesis
    by (simp add: from_wire_body_def remove_text_def result_attempts_def result_flag_def bt_get_def bt_remove_def)
qed

end
