(* ===== verification/Rapp_Noise.thy ===== *)
theory Rapp_Noise
  imports Rapp_Messages
begin

text \<open>
  The Noise engine of the remote-card protocol
  (\<open>crates/refineid-lib-core/src/rapp/crypto.rs\<close>): cipher states, the symmetric state,
  the token interpreter of the two handshake patterns, and the split into
  transport ciphers. The main results: both handshakes go through and leave the two sides with the
  same transcript and the same two ciphers, and the channel they key delivers in order.

  The primitives come from crates outside the repository and are the fields of the record
  \<open>noise_crypto\<close>: SHA-256 (\<open>sha2\<close>), HMAC-SHA-256 (\<open>ring\<close>), ChaCha20-Poly1305
  (\<open>chacha20poly1305\<close>) and X25519 (\<open>x25519_dalek\<close>). What the code relies on is the predicate
  \<open>crypto_ok\<close>: output lengths, encryption of messages of frame size succeeding and being inverted
  by decryption, and commutativity of the Diffie-Hellman function on public keys.

  A method that mutates its receiver and may fail returns the outcome together with the state
  it leaves behind, also when it fails. Random bytes are an argument.
\<close>

subsection \<open>Primitives\<close>

record noise_crypto =
  sha256 :: "bytes \<Rightarrow> bytes"
  hmac :: "bytes \<Rightarrow> bytes \<Rightarrow> bytes"
  aead_seal :: "bytes \<Rightarrow> bytes \<Rightarrow> bytes \<Rightarrow> bytes \<Rightarrow> bytes option"
  aead_open :: "bytes \<Rightarrow> bytes \<Rightarrow> bytes \<Rightarrow> bytes \<Rightarrow> bytes option"
  x25519 :: "bytes \<Rightarrow> bytes \<Rightarrow> bytes"
  x25519_public :: "bytes \<Rightarrow> bytes"

definition crypto_ok :: "noise_crypto \<Rightarrow> bool" where
  "crypto_ok c \<longleftrightarrow>
     (\<forall>x. length (sha256 c x) = 32) \<and> (\<forall>k x. length (hmac c k x) = 32) \<and>
     (\<forall>s. length (x25519_public c s) = 32) \<and>
     (\<forall>s t. x25519 c s (x25519_public c t) = x25519 c t (x25519_public c s)) \<and>
     (\<forall>k n a p. length p \<le> 65535 \<longrightarrow> aead_seal c k n a p \<noteq> None) \<and>
     (\<forall>k n a p ct. aead_seal c k n a p = Some ct \<longrightarrow>
        length ct = length p + 16 \<and> aead_open c k n a ct = Some p)"

abbreviation SESSION_SUITE :: string where "SESSION_SUITE \<equiv> ''Noise_KK_25519_ChaChaPoly_SHA256''"
abbreviation HASH_LEN :: nat where "HASH_LEN \<equiv> 32"
abbreviation TAG_LEN :: nat where "TAG_LEN \<equiv> 16"

text \<open>Sequencing of a fallible method with the state it leaves behind.\<close>

definition st_then :: "'a wres \<times> 's \<Rightarrow> ('a \<Rightarrow> 's \<Rightarrow> 'b wres \<times> 's) \<Rightarrow> 'b wres \<times> 's" where
  "st_then m f = (case fst m of Ok a \<Rightarrow> f a (snd m) | Err e \<Rightarrow> (Err e, snd m) | Panic \<Rightarrow> (Panic, snd m))"

subsection \<open>Cipher states\<close>

record cipher_state =
  cipher_key :: "bytes option"
  counter :: u64

definition NoiseCipherState_new :: cipher_state where
  "NoiseCipherState_new = \<lparr>cipher_key = None, counter = 0\<rparr>"

definition has_key :: "cipher_state \<Rightarrow> bool" where
  "has_key cs \<longleftrightarrow> cipher_key cs \<noteq> None"

definition initialize_key :: "bytes \<Rightarrow> cipher_state \<Rightarrow> cipher_state" where
  "initialize_key k cs = cs\<lparr>cipher_key := Some k, counter := 0\<rparr>"

definition nonce :: "u64 \<Rightarrow> bytes" where
  "nonce n = replicate 4 0 @ rev (be_bytes 8 (unat n))"

definition cs_encrypt :: "noise_crypto \<Rightarrow> cipher_state \<Rightarrow> bytes \<Rightarrow> bytes \<Rightarrow> bytes wres \<times> cipher_state" where
  "cs_encrypt c cs aad plaintext =
     (case cipher_key cs of
        None \<Rightarrow> (Ok plaintext, cs)
      | Some k \<Rightarrow>
          (case aead_seal c k (nonce (counter cs)) aad plaintext of
             None \<Rightarrow> (Err (InvalidValue ''cipher''), cs)
           | Some ciphertext \<Rightarrow>
               if counter cs = u64_max then (Err IntegerOverflow, cs)
               else (Ok ciphertext, cs\<lparr>counter := counter cs + 1\<rparr>)))"

definition cs_decrypt :: "noise_crypto \<Rightarrow> cipher_state \<Rightarrow> bytes \<Rightarrow> bytes \<Rightarrow> bytes wres \<times> cipher_state" where
  "cs_decrypt c cs aad ciphertext =
     (case cipher_key cs of
        None \<Rightarrow> (Ok ciphertext, cs)
      | Some k \<Rightarrow>
          if length ciphertext < TAG_LEN then (Err Truncated, cs)
          else
            (case aead_open c k (nonce (counter cs)) aad ciphertext of
               None \<Rightarrow> (Err NonCanonical, cs)
             | Some plaintext \<Rightarrow>
                 if counter cs = u64_max then (Err IntegerOverflow, cs)
                 else (Ok plaintext, cs\<lparr>counter := counter cs + 1\<rparr>)))"

subsection \<open>Symmetric state\<close>

record symmetric_state =
  chaining_key :: bytes
  handshake_hash :: bytes
  cipher :: cipher_state

definition NoiseSymmetricState_new :: "noise_crypto \<Rightarrow> string \<Rightarrow> symmetric_state" where
  "NoiseSymmetricState_new c protocol_name =
     (let name_bytes = str_bytes protocol_name;
          h = (if length name_bytes \<le> 32 then name_bytes @ replicate (32 - length name_bytes) 0
               else sha256 c name_bytes) in
      \<lparr>chaining_key = h, handshake_hash = h, cipher = NoiseCipherState_new\<rparr>)"

fun hkdf_loop :: "noise_crypto \<Rightarrow> bytes \<Rightarrow> bytes \<Rightarrow> nat list \<Rightarrow> bytes list" where
  "hkdf_loop c temp_key prev [] = []"
| "hkdf_loop c temp_key prev (i # is) =
     (let output = hmac c temp_key (prev @ [word_of_nat i]) in output # hkdf_loop c temp_key output is)"

definition hkdf_derive :: "noise_crypto \<Rightarrow> bytes \<Rightarrow> bytes \<Rightarrow> nat \<Rightarrow> bytes list" where
  "hkdf_derive c ck material num_outputs = hkdf_loop c (hmac c ck material) [] [1..<num_outputs + 1]"

definition mix_hash :: "noise_crypto \<Rightarrow> bytes \<Rightarrow> symmetric_state \<Rightarrow> symmetric_state" where
  "mix_hash c d s = s\<lparr>handshake_hash := sha256 c (handshake_hash s @ d)\<rparr>"

definition mix_key :: "noise_crypto \<Rightarrow> bytes \<Rightarrow> symmetric_state \<Rightarrow> symmetric_state" where
  "mix_key c material s =
     (let outputs = hkdf_derive c (chaining_key s) material 2 in
      s\<lparr>chaining_key := outputs ! 0, cipher := initialize_key (outputs ! 1) (cipher s)\<rparr>)"

definition mix_key_and_hash :: "noise_crypto \<Rightarrow> bytes \<Rightarrow> symmetric_state \<Rightarrow> symmetric_state" where
  "mix_key_and_hash c material s =
     (let outputs = hkdf_derive c (chaining_key s) material 3;
          s = mix_hash c (outputs ! 1) (s\<lparr>chaining_key := outputs ! 0\<rparr>) in
      s\<lparr>cipher := initialize_key (outputs ! 2) (cipher s)\<rparr>)"

definition encrypt_and_hash :: "noise_crypto \<Rightarrow> symmetric_state \<Rightarrow> bytes \<Rightarrow> bytes wres \<times> symmetric_state" where
  "encrypt_and_hash c s plaintext =
     (case cs_encrypt c (cipher s) (handshake_hash s) plaintext of (r, cs) \<Rightarrow>
      st_then (r, s\<lparr>cipher := cs\<rparr>) (\<lambda>ciphertext s. (Ok ciphertext, mix_hash c ciphertext s)))"

definition decrypt_and_hash :: "noise_crypto \<Rightarrow> symmetric_state \<Rightarrow> bytes \<Rightarrow> bytes wres \<times> symmetric_state" where
  "decrypt_and_hash c s ciphertext =
     (case cs_decrypt c (cipher s) (handshake_hash s) ciphertext of (r, cs) \<Rightarrow>
      st_then (r, s\<lparr>cipher := cs\<rparr>) (\<lambda>plaintext s. (Ok plaintext, mix_hash c ciphertext s)))"

definition symmetric_split :: "noise_crypto \<Rightarrow> symmetric_state \<Rightarrow> bytes \<times> bytes" where
  "symmetric_split c s = (let outputs = hkdf_derive c (chaining_key s) [] 2 in (outputs ! 0, outputs ! 1))"

subsection \<open>Patterns\<close>

datatype noise_token =
    Ephemeral
  | StaticKey
  | EphemeralEphemeral
  | EphemeralStatic
  | StaticEphemeral
  | StaticStatic
  | PresharedKey

datatype noise_pattern = XxPsk3 | Kk

fun pattern_name :: "noise_pattern \<Rightarrow> string" where
  "pattern_name XxPsk3 = ''XXpsk3''"
| "pattern_name Kk = ''KK''"

fun uses_psk :: "noise_pattern \<Rightarrow> bool" where
  "uses_psk XxPsk3 = True"
| "uses_psk Kk = False"

fun message_tokens :: "noise_pattern \<Rightarrow> nat \<Rightarrow> noise_token list option" where
  "message_tokens XxPsk3 index =
     (if index = 0 then Some [Ephemeral]
      else if index = 1 then Some [Ephemeral, EphemeralEphemeral, StaticKey, EphemeralStatic]
      else if index = 2 then Some [StaticKey, StaticEphemeral, PresharedKey]
      else None)"
| "message_tokens Kk index =
     (if index = 0 then Some [Ephemeral, EphemeralStatic, StaticStatic]
      else if index = 1 then Some [Ephemeral, EphemeralEphemeral, StaticEphemeral]
      else None)"

subsection \<open>Handshake states\<close>

record handshake_state =
  symmetric :: symmetric_state
  pattern :: noise_pattern
  is_initiator :: bool
  preshared_key :: "bytes option"
  hs_static_secret :: bytes  \<comment> \<open>the field \<open>local_static_secret\<close>\<close>
  hs_static_public :: bytes  \<comment> \<open>the field \<open>local_static_public\<close>\<close>
  hs_ephemeral_secret :: "bytes option"  \<comment> \<open>the field \<open>local_ephemeral_secret\<close>\<close>
  hs_ephemeral_public :: "bytes option"  \<comment> \<open>the field \<open>local_ephemeral_public\<close>\<close>
  hs_remote_static :: "bytes option"  \<comment> \<open>the field \<open>remote_static_public\<close>\<close>
  hs_remote_ephemeral :: "bytes option"  \<comment> \<open>the field \<open>remote_ephemeral_public\<close>\<close>
  message_index :: nat

definition NoiseHandshakeState_new ::
  "noise_crypto \<Rightarrow> noise_pattern \<Rightarrow> string \<Rightarrow> bytes \<Rightarrow> bool \<Rightarrow> bytes \<Rightarrow> bytes option \<Rightarrow> bytes option \<Rightarrow>
   bytes option \<Rightarrow> handshake_state wres" where
  "NoiseHandshakeState_new c pat suite_name prologue init secret rs psk fixed_ephemeral =
     (let pub = x25519_public c secret;
          s0 = mix_hash c prologue (NoiseSymmetricState_new c suite_name) in
      and_then (if pat = Kk then
                  and_then (expect rs) (\<lambda>remote.
                  Ok (if init then mix_hash c remote (mix_hash c pub s0)
                      else mix_hash c pub (mix_hash c remote s0)))
                else Ok s0) (\<lambda>s.
      Ok \<lparr>symmetric = s, pattern = pat, is_initiator = init, preshared_key = psk,
          hs_static_secret = secret, hs_static_public = pub,
          hs_ephemeral_secret = fixed_ephemeral,
          hs_ephemeral_public = map_option (x25519_public c) fixed_ephemeral,
          hs_remote_static = rs, hs_remote_ephemeral = None, message_index = 0\<rparr>))"

definition is_complete :: "handshake_state \<Rightarrow> bool" where
  "is_complete h \<longleftrightarrow> message_tokens (pattern h) (message_index h) = None"

definition local_writes_next :: "handshake_state \<Rightarrow> bool" where
  "local_writes_next h \<longleftrightarrow> even (message_index h) = is_initiator h"

definition ensure_local_ephemeral :: "noise_crypto \<Rightarrow> bytes \<Rightarrow> handshake_state \<Rightarrow> handshake_state" where
  "ensure_local_ephemeral c rand_bytes h =
     (if hs_ephemeral_secret h = None
      then h\<lparr>hs_ephemeral_secret := Some rand_bytes,
             hs_ephemeral_public := Some (x25519_public c rand_bytes)\<rparr>
      else h)"

text \<open>The Diffie-Hellman input of a token; both interpreters contain the same four arms.\<close>

definition token_secret :: "noise_crypto \<Rightarrow> handshake_state \<Rightarrow> noise_token \<Rightarrow> bytes wres" where
  "token_secret c h tok =
     (case tok of
        EphemeralEphemeral \<Rightarrow>
          and_then (expect (hs_ephemeral_secret h)) (\<lambda>sec.
          and_then (expect (hs_remote_ephemeral h)) (\<lambda>remote_pub. Ok (x25519 c sec remote_pub)))
      | EphemeralStatic \<Rightarrow>
          if is_initiator h then
            and_then (expect (hs_ephemeral_secret h)) (\<lambda>sec.
            and_then (expect (hs_remote_static h)) (\<lambda>remote_pub. Ok (x25519 c sec remote_pub)))
          else
            and_then (expect (hs_remote_ephemeral h)) (\<lambda>remote_pub.
            Ok (x25519 c (hs_static_secret h) remote_pub))
      | StaticEphemeral \<Rightarrow>
          if is_initiator h then
            and_then (expect (hs_remote_ephemeral h)) (\<lambda>remote_pub.
            Ok (x25519 c (hs_static_secret h) remote_pub))
          else
            and_then (expect (hs_ephemeral_secret h)) (\<lambda>sec.
            and_then (expect (hs_remote_static h)) (\<lambda>remote_pub. Ok (x25519 c sec remote_pub)))
      | _ \<Rightarrow>
          and_then (expect (hs_remote_static h)) (\<lambda>remote_pub.
          Ok (x25519 c (hs_static_secret h) remote_pub)))"

definition mix_token_secret :: "noise_crypto \<Rightarrow> 'a \<Rightarrow> handshake_state \<Rightarrow> noise_token \<Rightarrow> 'a wres \<times> handshake_state" where
  "mix_token_secret c x h tok =
     (case token_secret c h tok of
        Ok ss \<Rightarrow> (Ok x, h\<lparr>symmetric := mix_key c ss (symmetric h)\<rparr>)
      | Err e \<Rightarrow> (Err e, h)
      | Panic \<Rightarrow> (Panic, h))"

definition mix_psk :: "noise_crypto \<Rightarrow> 'a \<Rightarrow> handshake_state \<Rightarrow> 'a wres \<times> handshake_state" where
  "mix_psk c x h =
     (case preshared_key h of
        None \<Rightarrow> (Panic, h)
      | Some psk \<Rightarrow> (Ok x, h\<lparr>symmetric := mix_key_and_hash c psk (symmetric h)\<rparr>))"

text \<open>Mixing of an ephemeral public key, into the hash and, with a pre-shared key, into the key.\<close>

definition mix_ephemeral :: "noise_crypto \<Rightarrow> bytes \<Rightarrow> handshake_state \<Rightarrow> handshake_state" where
  "mix_ephemeral c pub h =
     (let s = mix_hash c pub (symmetric h) in
      h\<lparr>symmetric := (if uses_psk (pattern h) then mix_key c pub s else s)\<rparr>)"

subsection \<open>Writing a message\<close>

fun write_token :: "noise_crypto \<Rightarrow> bytes \<Rightarrow> bytes \<Rightarrow> handshake_state \<Rightarrow> noise_token \<Rightarrow> bytes wres \<times> handshake_state" where
  "write_token c rand_bytes buffer h Ephemeral =
     (let h = ensure_local_ephemeral c rand_bytes h in
      case hs_ephemeral_public h of
        None \<Rightarrow> (Panic, h)
      | Some pub_bytes \<Rightarrow> (Ok (buffer @ pub_bytes), mix_ephemeral c pub_bytes h))"
| "write_token c rand_bytes buffer h StaticKey =
     (case encrypt_and_hash c (symmetric h) (hs_static_public h) of (r, s) \<Rightarrow>
      st_then (r, h\<lparr>symmetric := s\<rparr>) (\<lambda>ct h. (Ok (buffer @ ct), h)))"
| "write_token c rand_bytes buffer h PresharedKey = mix_psk c buffer h"
| "write_token c rand_bytes buffer h tok = mix_token_secret c buffer h tok"

fun write_tokens :: "noise_crypto \<Rightarrow> bytes \<Rightarrow> bytes \<Rightarrow> handshake_state \<Rightarrow> noise_token list \<Rightarrow> bytes wres \<times> handshake_state" where
  "write_tokens c rand_bytes buffer h [] = (Ok buffer, h)"
| "write_tokens c rand_bytes buffer h (tok # toks) =
     st_then (write_token c rand_bytes buffer h tok) (\<lambda>buffer h. write_tokens c rand_bytes buffer h toks)"

definition write_message :: "noise_crypto \<Rightarrow> bytes \<Rightarrow> handshake_state \<Rightarrow> bytes \<Rightarrow> bytes wres \<times> handshake_state" where
  "write_message c rand_bytes h payload =
     (if is_complete h \<or> \<not> local_writes_next h then (Err (InvalidValue ''handshake_turn''), h)
      else case message_tokens (pattern h) (message_index h) of
        None \<Rightarrow> (Err (InvalidValue ''handshake''), h)
      | Some tokens \<Rightarrow>
          st_then (write_tokens c rand_bytes [] h tokens) (\<lambda>buffer h.
          case encrypt_and_hash c (symmetric h) payload of (r, s) \<Rightarrow>
          st_then (r, h\<lparr>symmetric := s\<rparr>) (\<lambda>payload_cipher h.
          (Ok (buffer @ payload_cipher), h\<lparr>message_index := message_index h + 1\<rparr>))))"

subsection \<open>Reading a message\<close>

fun read_token :: "noise_crypto \<Rightarrow> bytes \<Rightarrow> nat \<Rightarrow> handshake_state \<Rightarrow> noise_token \<Rightarrow> nat wres \<times> handshake_state" where
  "read_token c message offset h Ephemeral =
     (if length message < offset + 32 then (Err Truncated, h)
      else
        let pub_bytes = take 32 (drop offset message) in
        (Ok (offset + 32), mix_ephemeral c pub_bytes (h\<lparr>hs_remote_ephemeral := Some pub_bytes\<rparr>)))"
| "read_token c message offset h StaticKey =
     (let len = (if has_key (cipher (symmetric h)) then 32 + TAG_LEN else 32) in
      if length message < offset + len then (Err Truncated, h)
      else
        case decrypt_and_hash c (symmetric h) (take len (drop offset message)) of (r, s) \<Rightarrow>
        st_then (r, h\<lparr>symmetric := s\<rparr>) (\<lambda>plain h.
        if length plain < 32 then (Panic, h)
        else (Ok (offset + len), h\<lparr>hs_remote_static := Some (take 32 plain)\<rparr>)))"
| "read_token c message offset h PresharedKey = mix_psk c offset h"
| "read_token c message offset h tok = mix_token_secret c offset h tok"

fun read_tokens :: "noise_crypto \<Rightarrow> bytes \<Rightarrow> nat \<Rightarrow> handshake_state \<Rightarrow> noise_token list \<Rightarrow> nat wres \<times> handshake_state" where
  "read_tokens c message offset h [] = (Ok offset, h)"
| "read_tokens c message offset h (tok # toks) =
     st_then (read_token c message offset h tok) (\<lambda>offset h. read_tokens c message offset h toks)"

definition read_message :: "noise_crypto \<Rightarrow> handshake_state \<Rightarrow> bytes \<Rightarrow> bytes wres \<times> handshake_state" where
  "read_message c h message =
     (if is_complete h \<or> local_writes_next h then (Err (InvalidValue ''handshake_turn''), h)
      else case message_tokens (pattern h) (message_index h) of
        None \<Rightarrow> (Err (InvalidValue ''handshake''), h)
      | Some tokens \<Rightarrow>
          st_then (read_tokens c message 0 h tokens) (\<lambda>offset h.
          case decrypt_and_hash c (symmetric h) (drop offset message) of (r, s) \<Rightarrow>
          st_then (r, h\<lparr>symmetric := s\<rparr>) (\<lambda>payload h.
          (Ok payload, h\<lparr>message_index := message_index h + 1\<rparr>))))"

definition handshake_split :: "noise_crypto \<Rightarrow> handshake_state \<Rightarrow> (cipher_state \<times> cipher_state) wres" where
  "handshake_split c h =
     (if \<not> is_complete h then Err (InvalidValue ''handshake_incomplete'')
      else case symmetric_split c (symmetric h) of (first, second) \<Rightarrow>
        if is_initiator h
        then Ok (initialize_key first NoiseCipherState_new, initialize_key second NoiseCipherState_new)
        else Ok (initialize_key second NoiseCipherState_new, initialize_key first NoiseCipherState_new))"

subsection \<open>Two parties in step\<close>

lemma st_then_simps [simp]:
  "st_then (Ok a, s) f = f a s"
  "st_then (Err e, s) f = (Err e, s)"
  "st_then (Panic, s) f = (Panic, s)"
  by (simp_all add: st_then_def)

lemma initialize_key_simps [simp]:
  "has_key (initialize_key k cs)" "counter (initialize_key k cs) = 0"
  by (simp_all add: has_key_def initialize_key_def)

lemma mix_simps [simp]:
  "cipher (mix_hash c d s) = cipher s"
  "counter (cipher (mix_key c d s)) = 0"
  "counter (cipher (mix_key_and_hash c d s)) = 0"
  by (simp_all add: mix_hash_def mix_key_def mix_key_and_hash_def Let_def)

lemma enc_dec_hash:
  assumes c: "crypto_ok c" and n: "unat (counter (cipher s)) < 2 ^ 64 - 1" and p: "length p \<le> 65535"
  obtains ct s' where "encrypt_and_hash c s p = (Ok ct, s')" "decrypt_and_hash c s ct = (Ok p, s')"
    "length ct = length p + (if has_key (cipher s) then TAG_LEN else 0)"
    "unat (counter (cipher s')) \<le> unat (counter (cipher s)) + 1"
proof (cases "cipher_key (cipher s)")
  case None
  then show thesis
    by (intro that [of p "mix_hash c p s"])
      (simp_all add: encrypt_and_hash_def decrypt_and_hash_def cs_encrypt_def cs_decrypt_def has_key_def)
next
  case (Some k)
  have max: "counter (cipher s) \<noteq> u64_max" using n unfolding u64_max_iff by simp
  obtain ct where ct: "aead_seal c k (nonce (counter (cipher s))) (handshake_hash s) p = Some ct"
    using c p unfolding crypto_ok_def by blast
  then have "length ct = length p + 16"
    "aead_open c k (nonce (counter (cipher s))) (handshake_hash s) ct = Some p"
    using c unfolding crypto_ok_def by blast+
  with Some max ct show thesis
    by (intro that [of ct "mix_hash c ct (s\<lparr>cipher := (cipher s)\<lparr>counter := counter (cipher s) + 1\<rparr>\<rparr>)"])
      (simp_all add: encrypt_and_hash_def decrypt_and_hash_def cs_encrypt_def cs_decrypt_def has_key_def
        unat_u64_Suc)
qed

text \<open>A party's keys are consistent, and what it holds of the other party is right.\<close>

definition keys_ok :: "noise_crypto \<Rightarrow> handshake_state \<Rightarrow> bool" where
  "keys_ok c h \<longleftrightarrow> hs_static_public h = x25519_public c (hs_static_secret h) \<and>
     hs_ephemeral_public h = map_option (x25519_public c) (hs_ephemeral_secret h)"

definition knows :: "handshake_state \<Rightarrow> handshake_state \<Rightarrow> bool" where
  "knows a b \<longleftrightarrow> hs_remote_static a \<in> {None, Some (hs_static_public b)} \<and>
     hs_remote_ephemeral a \<in> {None, hs_ephemeral_public b}"

definition in_sync :: "noise_crypto \<Rightarrow> handshake_state \<Rightarrow> handshake_state \<Rightarrow> bool" where
  "in_sync c a b \<longleftrightarrow> symmetric a = symmetric b \<and> pattern a = pattern b \<and>
     message_index a = message_index b \<and> is_initiator a \<noteq> is_initiator b \<and>
     preshared_key a = preshared_key b \<and> keys_ok c a \<and> keys_ok c b \<and> knows a b \<and> knows b a"

definition same_party :: "handshake_state \<Rightarrow> handshake_state \<Rightarrow> bool" where
  "same_party h h' \<longleftrightarrow> pattern h' = pattern h \<and> message_index h' = message_index h \<and>
     is_initiator h' = is_initiator h \<and> preshared_key h' = preshared_key h \<and>
     hs_static_public h' = hs_static_public h"

text \<open>
  Which keys a party holds: its own ephemeral key, the other's ephemeral key, the other's static
  key. A run of tokens is executable when every token finds the keys it needs on both sides.
\<close>

type_synonym key_set = "bool \<times> bool \<times> bool"

definition held :: "handshake_state \<Rightarrow> key_set" where
  "held h = (hs_ephemeral_secret h \<noteq> None, hs_remote_ephemeral h \<noteq> None, hs_remote_static h \<noteq> None)"

fun token_ready :: "bool \<Rightarrow> noise_token \<Rightarrow> key_set \<Rightarrow> bool" where
  "token_ready init EphemeralEphemeral (le, re, rs) = (le \<and> re)"
| "token_ready init EphemeralStatic (le, re, rs) = (if init then le \<and> rs else re)"
| "token_ready init StaticEphemeral (le, re, rs) = (if init then re else le \<and> rs)"
| "token_ready init StaticStatic (le, re, rs) = rs"
| "token_ready init _ _ = True"

fun token_keys :: "noise_token \<Rightarrow> key_set \<times> key_set \<Rightarrow> key_set \<times> key_set" where
  "token_keys Ephemeral ((le, re, rs), (le', re', rs')) = ((True, re, rs), (le', True, rs'))"
| "token_keys StaticKey ((le, re, rs), (le', re', rs')) = ((le, re, rs), (le', re', True))"
| "token_keys _ ks = ks"

fun tokens_ready :: "bool \<Rightarrow> noise_token list \<Rightarrow> key_set \<times> key_set \<Rightarrow> (key_set \<times> key_set) option" where
  "tokens_ready init [] ks = Some ks"
| "tokens_ready init (tok # toks) ks =
     (if token_ready init tok (fst ks) \<and> token_ready (\<not> init) tok (snd ks)
      then tokens_ready init toks (token_keys tok ks) else None)"

lemma in_sync_keys:
  assumes "in_sync c a b"
  shows "hs_ephemeral_public a = map_option (x25519_public c) (hs_ephemeral_secret a)"
    "hs_remote_static a = Some p \<Longrightarrow> p = x25519_public c (hs_static_secret b)"
    "hs_remote_ephemeral a = Some p \<Longrightarrow> \<exists>s. hs_ephemeral_secret b = Some s \<and> p = x25519_public c s"
proof -
  show "hs_ephemeral_public a = map_option (x25519_public c) (hs_ephemeral_secret a)"
    and "hs_remote_static a = Some p \<Longrightarrow> p = x25519_public c (hs_static_secret b)"
    using assms unfolding in_sync_def keys_ok_def knows_def by auto
  have "hs_remote_ephemeral a \<in> {None, map_option (x25519_public c) (hs_ephemeral_secret b)}"
    using assms unfolding in_sync_def keys_ok_def knows_def by metis
  then show "hs_remote_ephemeral a = Some p \<Longrightarrow> \<exists>s. hs_ephemeral_secret b = Some s \<and> p = x25519_public c s"
    by (cases "hs_ephemeral_secret b") auto
qed

lemma in_sync_sym: "in_sync c a b \<Longrightarrow> in_sync c b a"
  unfolding in_sync_def by auto

lemma token_secret_agrees:
  assumes c: "crypto_ok c" and sync: "in_sync c w r"
    and tok: "tok \<in> {EphemeralEphemeral, EphemeralStatic, StaticEphemeral, StaticStatic}"
    and wr: "token_ready (is_initiator w) tok (held w)" and rr: "token_ready (is_initiator r) tok (held r)"
  shows "\<exists>ss. token_secret c w tok = Ok ss \<and> token_secret c r tok = Ok ss"
proof -
  have dh: "x25519 c s (x25519_public c t) = x25519 c t (x25519_public c s)" for s t
    using c unfolding crypto_ok_def by blast
  note k = in_sync_keys [OF sync] in_sync_keys [OF in_sync_sym [OF sync]]
  have roles: "is_initiator r = (\<not> is_initiator w)" using sync unfolding in_sync_def by blast
  from tok consider "tok = EphemeralEphemeral" | "tok = EphemeralStatic" | "tok = StaticEphemeral" | "tok = StaticStatic"
    by blast
  then show ?thesis
  proof cases
    case 1
    with wr rr k(3,6) show ?thesis by (fastforce simp: token_secret_def held_def intro: dh)
  next
    case 2
    with wr rr roles k(2,3,5,6) show ?thesis
      by (cases "is_initiator w") (fastforce simp: token_secret_def held_def intro: dh)+
  next
    case 3
    with wr rr roles k(2,3,5,6) show ?thesis
      by (cases "is_initiator w") (fastforce simp: token_secret_def held_def intro: dh)+
  next
    case 4
    with wr rr k(2,5) show ?thesis by (fastforce simp: token_secret_def held_def intro: dh)
  qed
qed


text \<open>One token, written by \<open>w\<close> and read by \<open>r\<close>, keeps the two in step.\<close>

definition step_ok ::
  "noise_crypto \<Rightarrow> handshake_state \<Rightarrow> handshake_state \<Rightarrow> handshake_state \<Rightarrow> handshake_state \<Rightarrow> nat \<Rightarrow> key_set \<times> key_set \<Rightarrow> bool" where
  "step_ok c w r w' r' n ks \<longleftrightarrow> in_sync c w' r' \<and> same_party w w' \<and> same_party r r' \<and>
     (held w', held r') = ks \<and>
     unat (counter (cipher (symmetric w'))) \<le> unat (counter (cipher (symmetric w))) + n"

lemma symmetric_update_simps [simp]:
  "keys_ok c (h\<lparr>symmetric := s\<rparr>) = keys_ok c h"
  "knows (h\<lparr>symmetric := s\<rparr>) h' = knows h h'" "knows h' (h\<lparr>symmetric := s\<rparr>) = knows h' h"
  "held (h\<lparr>symmetric := s\<rparr>) = held h" "same_party h (h\<lparr>symmetric := s\<rparr>)"
  by (simp_all add: keys_ok_def knows_def held_def same_party_def)

lemma index_update_simps [simp]:
  "keys_ok c (h\<lparr>message_index := i\<rparr>) = keys_ok c h"
  "knows (h\<lparr>message_index := i\<rparr>) h' = knows h h'" "knows h' (h\<lparr>message_index := i\<rparr>) = knows h' h"
  "held (h\<lparr>message_index := i\<rparr>) = held h"
  by (simp_all add: keys_ok_def knows_def held_def)

lemma step_ok_symmetric:
  assumes "in_sync c w r" and "unat (counter (cipher s)) \<le> unat (counter (cipher (symmetric w))) + n"
  shows "step_ok c w r (w\<lparr>symmetric := s\<rparr>) (r\<lparr>symmetric := s\<rparr>) n (held w, held r)"
  using assms by (simp add: step_ok_def in_sync_def)

lemma mix_token_secret_sim:
  assumes c: "crypto_ok c" and sync: "in_sync c w r"
    and tok: "tok \<in> {EphemeralEphemeral, EphemeralStatic, StaticEphemeral, StaticStatic}"
    and wr: "token_ready (is_initiator w) tok (held w)" and rr: "token_ready (is_initiator r) tok (held r)"
  obtains w' r' where "\<And>x. mix_token_secret c x w tok = (Ok x, w')" and "\<And>y. mix_token_secret c y r tok = (Ok y, r')"
    and "step_ok c w r w' r' 1 (held w, held r)"
proof -
  obtain ss where ss: "token_secret c w tok = Ok ss" "token_secret c r tok = Ok ss"
    using token_secret_agrees [OF assms] by blast
  let ?w = "w\<lparr>symmetric := mix_key c ss (symmetric w)\<rparr>" and ?r = "r\<lparr>symmetric := mix_key c ss (symmetric r)\<rparr>"
  have "symmetric r = symmetric w" using sync by (simp add: in_sync_def)
  then have "step_ok c w r ?w ?r 1 (held w, held r)"
    using step_ok_symmetric [OF sync, of "mix_key c ss (symmetric w)" 1] by simp
  with ss show thesis by (intro that [of ?w ?r]) (simp_all add: mix_token_secret_def)
qed

lemma ephemeral_sim:
  assumes c: "crypto_ok c" and sync: "in_sync c w r"
  obtains e w' r' where "\<And>b. write_token c rnd b w Ephemeral = (Ok (b @ e), w')"
    and "\<And>p rest. read_token c (p @ e @ rest) (length p) r Ephemeral = (Ok (length p + length e), r')"
    and "step_ok c w r w' r' 1 (token_keys Ephemeral (held w, held r))"
proof -
  let ?w0 = "ensure_local_ephemeral c rnd w"
  obtain sec where sec: "hs_ephemeral_secret ?w0 = Some sec"
    by (cases "hs_ephemeral_secret w") (auto simp: ensure_local_ephemeral_def)
  have keys: "keys_ok c ?w0"
    using sync by (auto simp: in_sync_def keys_ok_def ensure_local_ephemeral_def)
  let ?e = "x25519_public c sec"
  have pub: "hs_ephemeral_public ?w0 = Some ?e" using keys sec by (simp add: keys_ok_def)
  have len: "length ?e = 32" using c by (simp add: crypto_ok_def)
  have fresh: "hs_remote_ephemeral r \<in> {None, Some ?e}"
    using sync pub by (auto simp: in_sync_def knows_def ensure_local_ephemeral_def keys_ok_def split: if_splits)
  have same: "symmetric ?w0 = symmetric w" "same_party w ?w0" "hs_static_secret ?w0 = hs_static_secret w"
    "hs_remote_static ?w0 = hs_remote_static w" "hs_remote_ephemeral ?w0 = hs_remote_ephemeral w"
    by (auto simp: ensure_local_ephemeral_def same_party_def)
  let ?w = "mix_ephemeral c ?e ?w0" and ?r = "mix_ephemeral c ?e (r\<lparr>hs_remote_ephemeral := Some ?e\<rparr>)"
  have "step_ok c w r ?w ?r 1 (token_keys Ephemeral (held w, held r))"
    using sync same keys pub sec
    by (auto simp: step_ok_def in_sync_def same_party_def held_def keys_ok_def knows_def mix_ephemeral_def Let_def)
  then show thesis
    by (intro that [of ?e ?w ?r]) (simp_all add: pub len Let_def)
qed

lemma static_sim:
  assumes c: "crypto_ok c" and sync: "in_sync c w r"
    and n: "unat (counter (cipher (symmetric w))) < 2 ^ 64 - 1"
  obtains e w' r' where "\<And>b rnd. write_token c rnd b w StaticKey = (Ok (b @ e), w')"
    and "\<And>p rest. read_token c (p @ e @ rest) (length p) r StaticKey = (Ok (length p + length e), r')"
    and "step_ok c w r w' r' 1 (token_keys StaticKey (held w, held r))"
proof -
  have len: "length (hs_static_public w) = 32"
    using c sync by (simp add: crypto_ok_def in_sync_def keys_ok_def)
  obtain ct s where ct: "encrypt_and_hash c (symmetric w) (hs_static_public w) = (Ok ct, s)"
      "decrypt_and_hash c (symmetric w) ct = (Ok (hs_static_public w), s)"
      "length ct = 32 + (if has_key (cipher (symmetric w)) then TAG_LEN else 0)"
      "unat (counter (cipher s)) \<le> unat (counter (cipher (symmetric w))) + 1"
    using enc_dec_hash [OF c n, of "hs_static_public w"] len by auto
  let ?w = "w\<lparr>symmetric := s\<rparr>" and ?r = "r\<lparr>symmetric := s, hs_remote_static := Some (hs_static_public w)\<rparr>"
  have sym: "symmetric r = symmetric w" using sync by (simp add: in_sync_def)
  have "step_ok c w r ?w ?r 1 (token_keys StaticKey (held w, held r))"
    using sync ct(4) by (auto simp: step_ok_def in_sync_def same_party_def held_def keys_ok_def knows_def)
  then show thesis
    by (intro that [of ct ?w ?r]) (simp_all add: ct sym len Let_def)
qed

lemma psk_sim:
  assumes "in_sync c w r" and "preshared_key w \<noteq> None"
  obtains w' r' where "\<And>x. mix_psk c x w = (Ok x, w')" and "\<And>y. mix_psk c y r = (Ok y, r')"
    and "step_ok c w r w' r' 1 (held w, held r)"
proof -
  obtain k where "preshared_key w = Some k" using assms(2) by blast
  moreover from this have "preshared_key r = Some k" using assms(1) by (simp add: in_sync_def)
  moreover have "symmetric r = symmetric w" using assms(1) by (simp add: in_sync_def)
  then have "step_ok c w r (w\<lparr>symmetric := mix_key_and_hash c k (symmetric w)\<rparr>)
      (r\<lparr>symmetric := mix_key_and_hash c k (symmetric r)\<rparr>) 1 (held w, held r)"
    using step_ok_symmetric [OF assms(1), of "mix_key_and_hash c k (symmetric w)" 1] by simp
  ultimately show thesis
    by (intro that [of "w\<lparr>symmetric := mix_key_and_hash c k (symmetric w)\<rparr>"
        "r\<lparr>symmetric := mix_key_and_hash c k (symmetric r)\<rparr>"]) (simp_all add: mix_psk_def)
qed


lemma token_sim:
  assumes c: "crypto_ok c" and sync: "in_sync c w r"
    and ready: "token_ready (is_initiator w) tok (held w)" "token_ready (is_initiator r) tok (held r)"
    and psk: "tok = PresharedKey \<Longrightarrow> preshared_key w \<noteq> None"
    and n: "unat (counter (cipher (symmetric w))) < 2 ^ 64 - 1"
  obtains e w' r' where "\<And>b. write_token c rnd b w tok = (Ok (b @ e), w')"
    and "\<And>p rest. read_token c (p @ e @ rest) (length p) r tok = (Ok (length p + length e), r')"
    and "step_ok c w r w' r' 1 (token_keys tok (held w, held r))"
proof -
  consider "tok = Ephemeral" | "tok = StaticKey" | "tok = PresharedKey"
    | (dh) "tok \<in> {EphemeralEphemeral, EphemeralStatic, StaticEphemeral, StaticStatic}"
    by (cases tok) auto
  then show thesis
  proof cases
    case 1
    obtain e w' r' where "\<And>b. write_token c rnd b w Ephemeral = (Ok (b @ e), w')"
      "\<And>p rest. read_token c (p @ e @ rest) (length p) r Ephemeral = (Ok (length p + length e), r')"
      "step_ok c w r w' r' 1 (token_keys Ephemeral (held w, held r))"
      using ephemeral_sim [OF c sync, where rnd = rnd] by blast
    then show thesis by (intro that [of e w' r']) (simp_all only: 1)
  next
    case 2
    obtain e w' r' where "\<And>b rnd. write_token c rnd b w StaticKey = (Ok (b @ e), w')"
      "\<And>p rest. read_token c (p @ e @ rest) (length p) r StaticKey = (Ok (length p + length e), r')"
      "step_ok c w r w' r' 1 (token_keys StaticKey (held w, held r))"
      using static_sim [OF c sync n] by blast
    then show thesis by (intro that [of e w' r']) (simp_all only: 2)
  next
    case 3
    obtain w' r' where "\<And>x. mix_psk c (x :: bytes) w = (Ok x, w')"
      "\<And>y. mix_psk c (y :: nat) r = (Ok y, r')" "step_ok c w r w' r' 1 (held w, held r)"
      using psk_sim [OF sync psk [OF 3]] by blast
    with 3 show thesis by (intro that [of "[]" w' r']) simp_all
  next
    case dh
    obtain w' r' where "\<And>x. mix_token_secret c (x :: bytes) w tok = (Ok x, w')"
      "\<And>y. mix_token_secret c (y :: nat) r tok = (Ok y, r')" "step_ok c w r w' r' 1 (held w, held r)"
      using mix_token_secret_sim [OF c sync dh ready] by blast
    with dh show thesis by (intro that [of "[]" w' r']) auto
  qed
qed


lemma same_party_trans: "same_party a b \<Longrightarrow> same_party b d \<Longrightarrow> same_party a d"
  by (simp add: same_party_def)

lemma same_party_refl: "same_party a a"
  by (simp add: same_party_def)

lemma step_ok_trans:
  "step_ok c w r w' r' m ks \<Longrightarrow> step_ok c w' r' w'' r'' n ks' \<Longrightarrow> step_ok c w r w'' r'' (m + n) ks'"
  by (auto simp: step_ok_def intro: same_party_trans)

lemma tokens_sim:
  assumes "crypto_ok c" and "in_sync c w r"
    and "tokens_ready (is_initiator w) toks (held w, held r) = Some ks"
    and "PresharedKey \<in> set toks \<Longrightarrow> preshared_key w \<noteq> None"
    and "unat (counter (cipher (symmetric w))) + length toks < 2 ^ 64 - 1"
  shows "\<exists>e w' r'. (\<forall>b. write_tokens c rnd b w toks = (Ok (b @ e), w')) \<and>
    (\<forall>p rest. read_tokens c (p @ e @ rest) (length p) r toks = (Ok (length p + length e), r')) \<and>
    step_ok c w r w' r' (length toks) ks"
  using assms(2-)
proof (induction toks arbitrary: w r)
  case Nil
  then show ?case
    by (intro exI [of _ "[]"] exI [of _ w] exI [of _ r]) (auto simp: step_ok_def same_party_refl)
next
  case (Cons tok toks)
  have roles: "is_initiator r = (\<not> is_initiator w)" using Cons.prems(1) by (simp add: in_sync_def)
  have ready: "token_ready (is_initiator w) tok (held w)" "token_ready (is_initiator r) tok (held r)"
    "tokens_ready (is_initiator w) toks (token_keys tok (held w, held r)) = Some ks"
    using Cons.prems(2) roles by (auto split: if_splits)
  have psk: "tok = PresharedKey \<Longrightarrow> preshared_key w \<noteq> None" using Cons.prems(3) by auto
  have n: "unat (counter (cipher (symmetric w))) < 2 ^ 64 - 1" using Cons.prems(4) by simp
  obtain e1 w1 r1 where 1: "\<And>b. write_token c rnd b w tok = (Ok (b @ e1), w1)"
    "\<And>p rest. read_token c (p @ e1 @ rest) (length p) r tok = (Ok (length p + length e1), r1)"
    "step_ok c w r w1 r1 1 (token_keys tok (held w, held r))"
    using token_sim [OF assms(1) Cons.prems(1) ready(1,2) psk n, of rnd] by blast
  have 2: "in_sync c w1 r1" "is_initiator w1 = is_initiator w" "preshared_key w1 = preshared_key w"
    "(held w1, held r1) = token_keys tok (held w, held r)"
    "unat (counter (cipher (symmetric w1))) \<le> unat (counter (cipher (symmetric w))) + 1"
    using 1(3) by (simp_all add: step_ok_def same_party_def)
  have "tokens_ready (is_initiator w1) toks (held w1, held r1) = Some ks"
    using ready(3) by (simp only: 2)
  moreover have "PresharedKey \<in> set toks \<Longrightarrow> preshared_key w1 \<noteq> None" using Cons.prems(3) 2(3) by simp
  moreover have "unat (counter (cipher (symmetric w1))) + length toks < 2 ^ 64 - 1"
    using Cons.prems(4) 2(5) by simp
  ultimately obtain e2 w2 r2 where 3: "\<And>b. write_tokens c rnd b w1 toks = (Ok (b @ e2), w2)"
    "\<And>p rest. read_tokens c (p @ e2 @ rest) (length p) r1 toks = (Ok (length p + length e2), r2)"
    "step_ok c w1 r1 w2 r2 (length toks) ks"
    using Cons.IH [OF 2(1)] by blast
  have "read_tokens c (p @ (e1 @ e2) @ rest) (length p) r (tok # toks) = (Ok (length p + length (e1 @ e2)), r2)" for p rest
    using 1(2) [of p "e2 @ rest"] 3(2) [of "p @ e1" rest] by simp
  moreover have "write_tokens c rnd b w (tok # toks) = (Ok (b @ e1 @ e2), w2)" for b
    using 1(1) 3(1) by simp
  ultimately show ?case using step_ok_trans [OF 1(3) 3(3)]
    by (intro exI [of _ "e1 @ e2"] exI [of _ w2] exI [of _ r2]) simp
qed

text \<open>One whole message.\<close>

lemma message_sim:
  assumes c: "crypto_ok c" and sync: "in_sync c w r" and turn: "local_writes_next w"
    and toks: "message_tokens (pattern w) (message_index w) = Some toks"
    and ready: "tokens_ready (is_initiator w) toks (held w, held r) = Some ks"
    and psk: "PresharedKey \<in> set toks \<Longrightarrow> preshared_key w \<noteq> None"
    and n: "unat (counter (cipher (symmetric w))) + length toks < 2 ^ 64 - 2"
    and len: "length payload \<le> 65535"
  obtains m w' r' where "write_message c rnd w payload = (Ok m, w')" and "read_message c r m = (Ok payload, r')"
    and "in_sync c w' r'" and "(held w', held r') = ks"
    and "same_party (w\<lparr>message_index := Suc (message_index w)\<rparr>) w'"
    and "same_party (r\<lparr>message_index := Suc (message_index r)\<rparr>) r'"
    and "unat (counter (cipher (symmetric w'))) \<le> unat (counter (cipher (symmetric w))) + length toks + 1"
proof -
  have turn_r: "\<not> local_writes_next r" "message_tokens (pattern r) (message_index r) = Some toks"
    using sync turn toks by (auto simp: in_sync_def local_writes_next_def)
  have "unat (counter (cipher (symmetric w))) + length toks < 2 ^ 64 - 1" using n by simp
  from tokens_sim [OF c sync ready psk this, of rnd] obtain e w1 r1 where
    1: "\<And>b. write_tokens c rnd b w toks = (Ok (b @ e), w1)"
    "\<And>p rest. read_tokens c (p @ e @ rest) (length p) r toks = (Ok (length p + length e), r1)"
    "step_ok c w r w1 r1 (length toks) ks" by blast
  have "unat (counter (cipher (symmetric w1))) < 2 ^ 64 - 1" using 1(3) n by (simp add: step_ok_def)
  from enc_dec_hash [OF c this len] obtain ct s where 2: "encrypt_and_hash c (symmetric w1) payload = (Ok ct, s)"
    "decrypt_and_hash c (symmetric w1) ct = (Ok payload, s)"
    "unat (counter (cipher s)) \<le> unat (counter (cipher (symmetric w1))) + 1" by blast
  let ?w = "w1\<lparr>symmetric := s, message_index := message_index w1 + 1\<rparr>"
    and ?r = "r1\<lparr>symmetric := s, message_index := message_index r1 + 1\<rparr>"
  have sym: "symmetric r1 = symmetric w1" using 1(3) by (simp add: step_ok_def in_sync_def)
  have "write_message c rnd w payload = (Ok (e @ ct), ?w)"
    using 1(1) [of "[]"] 2(1) turn toks by (simp add: write_message_def is_complete_def)
  moreover have "read_message c r (e @ ct) = (Ok payload, ?r)"
    using 1(2) [of "[]" ct] 2(2) turn_r sym by (simp add: read_message_def is_complete_def)
  moreover have "in_sync c ?w ?r"
    using 1(3) by (simp add: step_ok_def in_sync_def)
  moreover have "(held ?w, held ?r) = ks" using 1(3) by (simp add: step_ok_def)
  moreover have "same_party (w\<lparr>message_index := Suc (message_index w)\<rparr>) ?w"
    "same_party (r\<lparr>message_index := Suc (message_index r)\<rparr>) ?r"
    using 1(3) by (simp_all add: step_ok_def same_party_def)
  moreover have "unat (counter (cipher (symmetric ?w))) \<le> unat (counter (cipher (symmetric w))) + length toks + 1"
    using 1(3) 2(3) by (simp add: step_ok_def)
  ultimately show thesis by (rule that)
qed


subsection \<open>Whole handshakes\<close>

text \<open>
  The message exchange of a handshake: the two parties take turns, each with fresh random bytes and
  a payload; the payloads are returned as the readers saw them.
\<close>

fun handshake_run ::
  "noise_crypto \<Rightarrow> handshake_state \<Rightarrow> handshake_state \<Rightarrow> (bytes \<times> bytes) list \<Rightarrow>
   (bytes list \<times> handshake_state \<times> handshake_state) wres" where
  "handshake_run c w r [] = Ok ([], w, r)"
| "handshake_run c w r ((rand_bytes, payload) # turns) =
     (case write_message c rand_bytes w payload of (wm, w') \<Rightarrow>
      and_then wm (\<lambda>m.
      case read_message c r m of (rm, r') \<Rightarrow>
      and_then rm (\<lambda>got.
      and_then (handshake_run c r' w' turns) (\<lambda>(rest, w'', r''). Ok (got # rest, w'', r'')))))"

definition ready_at :: "noise_crypto \<Rightarrow> noise_pattern \<Rightarrow> nat \<Rightarrow> bool \<Rightarrow> handshake_state \<Rightarrow> handshake_state \<Rightarrow> key_set \<times> key_set \<Rightarrow> nat \<Rightarrow> bool" where
  "ready_at c pat i init w r ks n \<longleftrightarrow> in_sync c w r \<and> pattern w = pat \<and> message_index w = i \<and>
     is_initiator w = init \<and> (held w, held r) = ks \<and> unat (counter (cipher (symmetric w))) \<le> n"

lemma run_step:
  assumes c: "crypto_ok c" and at: "ready_at c pat i init w r ks n" and turn: "even i = init"
    and toks: "message_tokens pat i = Some toks" and ready: "tokens_ready init toks ks = Some (k1, k2)"
    and psk: "PresharedKey \<in> set toks \<Longrightarrow> preshared_key w \<noteq> None"
    and n: "n + length toks < 2 ^ 64 - 2" and len: "length payload \<le> 65535"
  obtains w' r' where
    "\<And>turns. handshake_run c w r ((rnd, payload) # turns) =
       and_then (handshake_run c r' w' turns) (\<lambda>(rest, x, y). Ok (payload # rest, x, y))"
    "ready_at c pat (Suc i) (\<not> init) r' w' (k2, k1) (n + length toks + 1)"
    "preshared_key r' = preshared_key w" "hs_static_public w' = hs_static_public w"
    "hs_static_public r' = hs_static_public r"
proof -
  have w: "in_sync c w r" "pattern w = pat" "message_index w = i" "is_initiator w = init"
      "(held w, held r) = ks" "unat (counter (cipher (symmetric w))) \<le> n"
    using at by (simp_all add: ready_at_def)
  have "local_writes_next w" using turn w by (simp add: local_writes_next_def)
  moreover have "unat (counter (cipher (symmetric w))) + length toks < 2 ^ 64 - 2" using n w(6) by linarith
  moreover have "message_tokens (pattern w) (message_index w) = Some toks" using toks w by simp
  moreover have "tokens_ready (is_initiator w) toks (held w, held r) = Some (k1, k2)" using ready w by simp
  ultimately obtain m w' r' where 1: "write_message c rnd w payload = (Ok m, w')" "read_message c r m = (Ok payload, r')"
    "in_sync c w' r'" "(held w', held r') = (k1, k2)"
    "same_party (w\<lparr>message_index := Suc (message_index w)\<rparr>) w'"
    "same_party (r\<lparr>message_index := Suc (message_index r)\<rparr>) r'"
    "unat (counter (cipher (symmetric w'))) \<le> unat (counter (cipher (symmetric w))) + length toks + 1"
    using message_sim [OF c w(1) _ _ _ psk _ len, where rnd = rnd] by metis
  have "ready_at c pat (Suc i) (\<not> init) r' w' (k2, k1) (n + length toks + 1)"
    using 1(3-7) w by (auto simp: ready_at_def same_party_def in_sync_def)
  then show thesis
    using 1 w(1) by (intro that [of r' w']) (auto simp: same_party_def in_sync_def)
qed

lemma split_agrees:
  assumes "in_sync c a b" and "is_complete a"
  shows "\<exists>x y. handshake_split c a = Ok (x, y) \<and> handshake_split c b = Ok (y, x)"
proof -
  have "is_complete b" "symmetric b = symmetric a" "is_initiator b = (\<not> is_initiator a)"
    using assms by (auto simp: is_complete_def in_sync_def)
  with assms(2) show ?thesis by (auto simp: handshake_split_def split: prod.splits)
qed

lemma knows_static:
  assumes "in_sync c a b" and "hs_remote_static a \<noteq> None"
  shows "hs_remote_static a = Some (hs_static_public b)"
  using assms by (auto simp: in_sync_def knows_def)

lemma handshake_agreed:
  assumes sync: "in_sync c a b" and "is_complete a" and "hs_remote_static a \<noteq> None" and "hs_remote_static b \<noteq> None"
  shows "handshake_hash (symmetric b) = handshake_hash (symmetric a) \<and>
    hs_remote_static b = Some (hs_static_public a) \<and> hs_remote_static a = Some (hs_static_public b) \<and>
    (\<exists>x y. handshake_split c b = Ok (x, y) \<and> handshake_split c a = Ok (y, x))"
  using split_agrees [OF assms(1,2)] knows_static [OF sync assms(3)] knows_static [OF in_sync_sym [OF sync] assms(4)]
    sync by (auto simp: in_sync_def)

lemma new_counter:
  assumes "NoiseHandshakeState_new c pat suite prologue init s rs psk e = Ok h"
  shows "counter (cipher (symmetric h)) = 0" "pattern h = pat" "message_index h = 0" "is_initiator h = init"
    "preshared_key h = psk" "held h = (e \<noteq> None, False, rs \<noteq> None)" "hs_static_public h = x25519_public c s"
    "keys_ok c h" "hs_remote_static h = rs" "hs_remote_ephemeral h = None"
  using assms
  by (auto simp: NoiseHandshakeState_new_def Let_def res_simps NoiseSymmetricState_new_def
      NoiseCipherState_new_def held_def keys_ok_def split: if_splits)

lemma new_in_sync:
  assumes i: "NoiseHandshakeState_new c pat suite prologue True si rsi psk ei = Ok i"
    and r: "NoiseHandshakeState_new c pat suite prologue False sr rsr psk er = Ok r"
    and "rsi \<in> {None, Some (x25519_public c sr)}" and "rsr \<in> {None, Some (x25519_public c si)}"
  shows "in_sync c i r"
proof -
  have "symmetric i = symmetric r"
    using assms by (cases pat) (auto simp: NoiseHandshakeState_new_def Let_def res_simps)
  then show ?thesis
    using assms(3,4) new_counter [OF i] new_counter [OF r] by (simp add: in_sync_def knows_def)
qed


text \<open>Running a pattern on the key sets only: which keys the two sides hold after \<open>n\<close> messages.\<close>

fun schedule :: "noise_pattern \<Rightarrow> nat \<Rightarrow> bool \<Rightarrow> key_set \<times> key_set \<Rightarrow> nat \<Rightarrow> (key_set \<times> key_set) option" where
  "schedule pat i init ks 0 = Some ks"
| "schedule pat i init ks (Suc n) =
     (case message_tokens pat i of
        None \<Rightarrow> None
      | Some toks \<Rightarrow>
          if even i = init then
            (case tokens_ready init toks ks of
               None \<Rightarrow> None
             | Some (k1, k2) \<Rightarrow> schedule pat (Suc i) (\<not> init) (k2, k1) n)
          else None)"

lemma message_tokens_bound: "message_tokens pat i = Some toks \<Longrightarrow> length toks \<le> 4"
  by (cases pat) (auto split: if_splits)

lemma message_tokens_psk: "message_tokens pat i = Some toks \<Longrightarrow> PresharedKey \<in> set toks \<Longrightarrow> uses_psk pat"
  by (cases pat) (auto split: if_splits)

lemma handshake_run_sim:
  assumes c: "crypto_ok c" and "ready_at c pat i init w r ks n"
    and "schedule pat i init ks (length turns) = Some ks'"
    and "uses_psk pat \<Longrightarrow> preshared_key w \<noteq> None"
    and "n + 5 * length turns < 2 ^ 64 - 2" and "\<forall>t \<in> set turns. length (snd t) \<le> 65535"
  shows "\<exists>w' r'. handshake_run c w r turns = Ok (map snd turns, w', r') \<and>
    in_sync c w' r' \<and> (held w', held r') = ks' \<and> pattern w' = pat \<and> message_index w' = i + length turns \<and>
    hs_static_public w' = (if even (length turns) then hs_static_public w else hs_static_public r) \<and>
    hs_static_public r' = (if even (length turns) then hs_static_public r else hs_static_public w)"
  using assms(2-)
proof (induction turns arbitrary: i init w r ks n)
  case Nil
  then show ?case by (auto simp: ready_at_def)
next
  case (Cons t turns)
  obtain rnd payload where t: "t = (rnd, payload)" by (cases t)
  from Cons.prems(2) obtain toks k1 k2 where toks: "message_tokens pat i = Some toks" and turn: "even i = init"
    and ready: "tokens_ready init toks ks = Some (k1, k2)"
    and rest: "schedule pat (Suc i) (\<not> init) (k2, k1) (length turns) = Some ks'"
    by (auto split: option.splits if_splits)
  have psk: "PresharedKey \<in> set toks \<Longrightarrow> preshared_key w \<noteq> None"
    using message_tokens_psk [OF toks] Cons.prems(3) by blast
  have n: "n + length toks < 2 ^ 64 - 2" "n + length toks + 1 + 5 * length turns < 2 ^ 64 - 2"
    using message_tokens_bound [OF toks] Cons.prems(4) by simp_all
  have len: "length payload \<le> 65535" using Cons.prems(5) t by simp
  obtain w1 r1 where 1: "\<And>turns. handshake_run c w r ((rnd, payload) # turns) =
       and_then (handshake_run c r1 w1 turns) (\<lambda>(rest, x, y). Ok (payload # rest, x, y))"
    and 2: "ready_at c pat (Suc i) (\<not> init) r1 w1 (k2, k1) (n + length toks + 1)"
    and 3: "preshared_key r1 = preshared_key w" "hs_static_public w1 = hs_static_public w"
      "hs_static_public r1 = hs_static_public r"
    by (rule run_step [OF c Cons.prems(1) turn toks ready psk n(1) len, where rnd = rnd]) (assumption, rule that)
  have "uses_psk pat \<Longrightarrow> preshared_key r1 \<noteq> None" using Cons.prems(3) 3(1) by simp
  moreover have "\<forall>t \<in> set turns. length (snd t) \<le> 65535" using Cons.prems(5) by simp
  ultimately obtain w' r' where "handshake_run c r1 w1 turns = Ok (map snd turns, w', r')" "in_sync c w' r'"
      "(held w', held r') = ks'" "pattern w' = pat" "message_index w' = Suc i + length turns"
      "hs_static_public w' = (if even (length turns) then hs_static_public r1 else hs_static_public w1)"
      "hs_static_public r' = (if even (length turns) then hs_static_public w1 else hs_static_public r1)"
    using Cons.IH [OF 2 rest _ n(2)] by blast
  with 3 show ?case
    by (intro exI [of _ w'] exI [of _ r']) (simp add: t 1 del: handshake_run.simps)
qed

text \<open>C11. Pairing handshakes agree: with the same prologue and pre-shared key, the three messages of
  \<open>Noise_XXpsk3\<close> go through, every payload arrives, both sides end with the same transcript hash (and
  so the same session, pair and rendezvous identifiers), each knows the other's static key, and the
  transport ciphers are the same two, crossed.\<close>

theorem xx_handshake_agrees:
  assumes c: "crypto_ok c"
    and i: "NoiseHandshakeState_new c XxPsk3 PAIRING_SUITE prologue True si None (Some psk) None = Ok i"
    and r: "NoiseHandshakeState_new c XxPsk3 PAIRING_SUITE prologue False sr None (Some psk) None = Ok r"
    and len: "length p1 \<le> 65535" "length p2 \<le> 65535" "length p3 \<le> 65535"
  shows "\<exists>i' r' x y. handshake_run c i r [(e1, p1), (e2, p2), (e3, p3)] = Ok ([p1, p2, p3], r', i') \<and>
    handshake_hash (symmetric i') = handshake_hash (symmetric r') \<and>
    hs_remote_static i' = Some (x25519_public c sr) \<and> hs_remote_static r' = Some (x25519_public c si) \<and>
    handshake_split c i' = Ok (x, y) \<and> handshake_split c r' = Ok (y, x)"
proof -
  let ?turns = "[(e1, p1), (e2, p2), (e3, p3)]" and ?none = "(False, False, False)" and ?all = "(True, True, True)"
  have at: "ready_at c XxPsk3 0 True i r (?none, ?none) 0"
    using new_in_sync [OF i r] new_counter [OF i] new_counter [OF r] by (simp add: ready_at_def)
  have "schedule XxPsk3 0 True (?none, ?none) (length ?turns) = Some (?all, ?all)" by simp
  from handshake_run_sim [OF c at this] obtain r' i' where
    "handshake_run c i r ?turns = Ok ([p1, p2, p3], r', i')" "in_sync c r' i'"
    "(held r', held i') = (?all, ?all)" "pattern r' = XxPsk3" "message_index r' = 3"
    "hs_static_public r' = x25519_public c sr" "hs_static_public i' = x25519_public c si"
    using new_counter [OF i] new_counter [OF r] len by (auto simp del: handshake_run.simps)
  then show ?thesis
    using handshake_agreed [of c r' i'] by (auto simp: is_complete_def held_def simp del: handshake_run.simps)
qed

text \<open>Session handshakes agree: when each side holds the other's static key from the pairing, the two
  messages of \<open>Noise_KK\<close> go through in the same way.\<close>

theorem kk_handshake_agrees:
  assumes c: "crypto_ok c"
    and i: "NoiseHandshakeState_new c Kk SESSION_SUITE prologue True si (Some (x25519_public c sr)) None None = Ok i"
    and r: "NoiseHandshakeState_new c Kk SESSION_SUITE prologue False sr (Some (x25519_public c si)) None None = Ok r"
    and len: "length p1 \<le> 65535" "length p2 \<le> 65535"
  shows "\<exists>i' r' x y. handshake_run c i r [(e1, p1), (e2, p2)] = Ok ([p1, p2], i', r') \<and>
    handshake_hash (symmetric i') = handshake_hash (symmetric r') \<and>
    handshake_split c i' = Ok (x, y) \<and> handshake_split c r' = Ok (y, x)"
proof -
  let ?turns = "[(e1, p1), (e2, p2)]" and ?pre = "(False, False, True)" and ?all = "(True, True, True)"
  have at: "ready_at c Kk 0 True i r (?pre, ?pre) 0"
    using new_in_sync [OF i r] new_counter [OF i] new_counter [OF r] by (simp add: ready_at_def)
  have "schedule Kk 0 True (?pre, ?pre) (length ?turns) = Some (?all, ?all)" by simp
  from handshake_run_sim [OF c at this] obtain i' r' where
    "handshake_run c i r ?turns = Ok ([p1, p2], i', r')" "in_sync c i' r'"
    "(held i', held r') = (?all, ?all)" "pattern i' = Kk" "message_index i' = 2"
    using new_counter [OF i] new_counter [OF r] len by (auto simp del: handshake_run.simps)
  then show ?thesis
    using handshake_agreed [OF in_sync_sym, of c i' r'] split_agrees [of c i' r']
    by (auto simp: is_complete_def in_sync_def simp del: handshake_run.simps)
qed

text \<open>A small instance of the primitives.\<close>

definition toy_public :: "bytes \<Rightarrow> bytes" where
  "toy_public s = take 32 (s @ replicate 32 0)"

definition toy_crypto :: noise_crypto where
  "toy_crypto = \<lparr>sha256 = (\<lambda>x. toy_public (rev x)), hmac = (\<lambda>k x. toy_public (x @ k)),
     aead_seal = (\<lambda>k n a p. Some (p @ take 16 (k @ replicate 16 0))),
     aead_open = (\<lambda>k n a ct. if drop (length ct - 16) ct = take 16 (k @ replicate 16 0)
        then Some (take (length ct - 16) ct) else None),
     x25519 = (\<lambda>s p. map2 (XOR) (toy_public s) p), x25519_public = toy_public\<rparr>"

lemma length_toy_public [simp]: "length (toy_public s) = 32"
  by (simp add: toy_public_def)

lemma toy_crypto_ok: "crypto_ok toy_crypto"
proof -
  have "map2 (XOR) xs ys = map2 (XOR) ys xs" for xs ys :: bytes
    by (rule nth_equalityI) (auto simp: xor.commute)
  then show ?thesis by (simp add: crypto_ok_def toy_crypto_def min_def)
qed

lemma toy_new:
  "\<exists>h. NoiseHandshakeState_new toy_crypto pat suite prologue init s (Some rs) psk e = Ok h"
  "\<exists>h. NoiseHandshakeState_new toy_crypto XxPsk3 suite prologue init s rs' psk e = Ok h"
  by (simp_all add: NoiseHandshakeState_new_def Let_def)

theorem xx_handshake_agrees_witness:
  "\<exists>i r r' i'. NoiseHandshakeState_new toy_crypto XxPsk3 PAIRING_SUITE [1] True [2] None (Some [3]) None = Ok i \<and>
     NoiseHandshakeState_new toy_crypto XxPsk3 PAIRING_SUITE [1] False [4] None (Some [3]) None = Ok r \<and>
     handshake_run toy_crypto i r [([5], []), ([6], [7]), ([8], [])] = Ok ([[], [7], []], r', i') \<and>
     hs_remote_static i' = Some (toy_public [4]) \<and> hs_remote_static r' = Some (toy_public [2])"
proof -
  obtain i r where i: "NoiseHandshakeState_new toy_crypto XxPsk3 PAIRING_SUITE [1] True [2] None (Some [3]) None = Ok i"
    and r: "NoiseHandshakeState_new toy_crypto XxPsk3 PAIRING_SUITE [1] False [4] None (Some [3]) None = Ok r"
    using toy_new(2) by metis
  have "x25519_public toy_crypto = toy_public" by (simp add: toy_crypto_def)
  with i r xx_handshake_agrees [OF toy_crypto_ok i r, of "[]" "[7]" "[]" "[5]" "[6]" "[8]"] show ?thesis
    by (auto simp del: handshake_run.simps)
qed

theorem kk_handshake_agrees_witness:
  "\<exists>i r r' i' x y. NoiseHandshakeState_new toy_crypto Kk SESSION_SUITE [1] True [2] (Some (toy_public [4])) None None = Ok i \<and>
     NoiseHandshakeState_new toy_crypto Kk SESSION_SUITE [1] False [4] (Some (toy_public [2])) None None = Ok r \<and>
     handshake_run toy_crypto i r [([5], []), ([6], [7])] = Ok ([[], [7]], i', r') \<and>
     handshake_split toy_crypto i' = Ok (x, y) \<and> handshake_split toy_crypto r' = Ok (y, x)"
proof -
  have pub: "x25519_public toy_crypto = toy_public" by (simp add: toy_crypto_def)
  obtain i r where i: "NoiseHandshakeState_new toy_crypto Kk SESSION_SUITE [1] True [2] (Some (toy_public [4])) None None = Ok i"
    and r: "NoiseHandshakeState_new toy_crypto Kk SESSION_SUITE [1] False [4] (Some (toy_public [2])) None None = Ok r"
    using toy_new(1) by metis
  with kk_handshake_agrees [OF toy_crypto_ok, unfolded pub, OF i r, of "[]" "[7]" "[5]" "[6]"] show ?thesis
    by (auto simp del: handshake_run.simps)
qed

subsection \<open>The transport channel\<close>

text \<open>Encrypting a list of plaintexts one after the other, and decrypting one after the other.\<close>

fun seal_run :: "noise_crypto \<Rightarrow> cipher_state \<Rightarrow> bytes list \<Rightarrow> (bytes list \<times> cipher_state) wres" where
  "seal_run c cs [] = Ok ([], cs)"
| "seal_run c cs (p # ps) =
     (case cs_encrypt c cs [] p of (r, cs') \<Rightarrow>
      and_then r (\<lambda>ct. and_then (seal_run c cs' ps) (\<lambda>(cts, cs''). Ok (ct # cts, cs''))))"

fun open_run :: "noise_crypto \<Rightarrow> cipher_state \<Rightarrow> bytes list \<Rightarrow> (bytes list \<times> cipher_state) wres" where
  "open_run c cs [] = Ok ([], cs)"
| "open_run c cs (ct # cts) =
     (case cs_decrypt c cs [] ct of (r, cs') \<Rightarrow>
      and_then r (\<lambda>p. and_then (open_run c cs' cts) (\<lambda>(ps, cs''). Ok (p # ps, cs''))))"

lemma seal_open:
  assumes c: "crypto_ok c" and k: "cipher_key cs = Some k" and n: "unat (counter cs) < 2 ^ 64 - 1"
    and p: "length p \<le> 65535"
  obtains ct where "cs_encrypt c cs aad p = (Ok ct, cs\<lparr>counter := counter cs + 1\<rparr>)"
    "cs_decrypt c cs aad ct = (Ok p, cs\<lparr>counter := counter cs + 1\<rparr>)"
proof -
  have max: "counter cs \<noteq> u64_max" using n unfolding u64_max_iff by simp
  obtain ct where ct: "aead_seal c k (nonce (counter cs)) aad p = Some ct"
    using c p unfolding crypto_ok_def by blast
  then have "length ct = length p + 16" "aead_open c k (nonce (counter cs)) aad ct = Some p"
    using c unfolding crypto_ok_def by blast+
  with k max ct show thesis by (intro that [of ct]) (simp_all add: cs_encrypt_def cs_decrypt_def)
qed

lemma nonce_inject: "nonce m = nonce n \<longleftrightarrow> m = n"
proof
  assume "nonce m = nonce n"
  then have "be_bytes 8 (unat m) = be_bytes 8 (unat n)" by (simp add: nonce_def)
  moreover have "unat m < 256 ^ 8" "unat n < 256 ^ 8"
    using unsigned_less [of m] unsigned_less [of n] by simp_all
  ultimately have "unat m = unat n" by (rule be_bytes_inject)
  then show "m = n" by (simp only: unsigned_word_eqI)
qed simp

text \<open>The transport channel delivers in order and never reuses a nonce: with a key set, any list of
  frame-sized messages that does not exhaust the counter is encrypted without error, a receiver in
  the same state decrypts exactly that list, both sides end in the same state, and the nonces used are
  pairwise different.\<close>

theorem channel_delivers_in_order:
  assumes "crypto_ok c" and "cipher_key cs = Some k" and "unat (counter cs) + length ps < 2 ^ 64"
    and "\<forall>p \<in> set ps. length p \<le> 65535"
  shows "\<exists>cts cs'. seal_run c cs ps = Ok (cts, cs') \<and> open_run c cs cts = Ok (ps, cs') \<and>
    unat (counter cs') = unat (counter cs) + length ps \<and>
    distinct (map (\<lambda>i. nonce (counter cs + word_of_nat i)) [0..<length ps])"
proof -
  have "\<exists>cts cs'. seal_run c cs ps = Ok (cts, cs') \<and> open_run c cs cts = Ok (ps, cs') \<and>
      unat (counter cs') = unat (counter cs) + length ps"
    using assms(2-)
  proof (induction ps arbitrary: cs)
    case (Cons p ps)
    then have n: "unat (counter cs) < 2 ^ 64 - 1" by simp
    let ?cs = "cs\<lparr>counter := counter cs + 1\<rparr>"
    have suc: "unat (counter cs + 1) = unat (counter cs) + 1"
      using n by (intro unat_u64_Suc) (auto simp: u64_max_iff)
    obtain ct where "cs_encrypt c cs [] p = (Ok ct, ?cs)" "cs_decrypt c cs [] ct = (Ok p, ?cs)"
      using seal_open [OF assms(1) Cons.prems(1) n, of p "[]"] Cons.prems(3) by auto
    moreover obtain cts cs' where "seal_run c ?cs ps = Ok (cts, cs')" "open_run c ?cs cts = Ok (ps, cs')"
        "unat (counter cs') = unat (counter ?cs) + length ps"
      using Cons.IH [of ?cs] Cons.prems suc by auto
    ultimately show ?case using suc by (intro exI [of _ "ct # cts"] exI [of _ cs']) simp
  qed simp
  moreover have "inj_on (\<lambda>i. nonce (counter cs + word_of_nat i)) {0..<length ps}"
  proof (rule inj_onI, unfold nonce_inject)
    fix i j assume ij: "i \<in> {0..<length ps}" "j \<in> {0..<length ps}"
      and "counter cs + word_of_nat i = counter cs + word_of_nat j"
    then have "unat (word_of_nat i :: u64) = unat (word_of_nat j :: u64)" by simp
    then show "i = j" using ij assms(3) by (simp add: unat_of_nat)
  qed
  ultimately show ?thesis by (simp add: distinct_map)
qed

theorem channel_delivers_in_order_witness:
  "\<exists>cts cs'. seal_run toy_crypto \<lparr>cipher_key = Some [9], counter = 0\<rparr> [[1], [2, 3]] = Ok (cts, cs') \<and>
     open_run toy_crypto \<lparr>cipher_key = Some [9], counter = 0\<rparr> cts = Ok ([[1], [2, 3]], cs')"
  using channel_delivers_in_order [OF toy_crypto_ok, of "\<lparr>cipher_key = Some [9], counter = 0\<rparr>" "[9]" "[[1], [2, 3]]"]
  by (auto simp del: seal_run.simps open_run.simps)

end
