(* ===== verification/Rapp_Derive.thy ===== *)
theory Rapp_Derive
  imports Rapp_Noise
begin

text \<open>
  The identifiers, prologues and hashes the protocol derives
  (\<open>crates/refineid-lib-core/src/rapp/crypto.rs\<close>, from line 676): session, pair and rendezvous
  identifiers, the grants hash, the two prologues and the request hash, with what the grants hash
  and the request hash bind.
\<close>

subsection \<open>Derivations\<close>

definition derive_id :: "noise_crypto \<Rightarrow> string \<Rightarrow> bytes \<Rightarrow> bytes" where
  "derive_id c id_domain h = take 16 (sha256 c (str_bytes id_domain @ h))"

definition derive_session_id :: "noise_crypto \<Rightarrow> bytes \<Rightarrow> bytes" where
  "derive_session_id c h = derive_id c ''RAPP-session-id-v1'' h"

definition derive_pair_id :: "noise_crypto \<Rightarrow> bytes \<Rightarrow> bytes" where
  "derive_pair_id c h = derive_id c ''RAPP-pair-id-v1'' h"

definition derive_rendezvous_token :: "noise_crypto \<Rightarrow> bytes \<Rightarrow> bytes" where
  "derive_rendezvous_token c h = derive_id c ''RAPP-rendezvous-v1'' h"

definition derive_grants_hash :: "noise_crypto \<Rightarrow> string list \<Rightarrow> bytes wres" where
  "derive_grants_hash c profs =
     (let unique = remdups_adj (sort profs) in
      and_then (encode (Array (map Text unique))) (\<lambda>encoded. Ok (sha256 c encoded)))"

definition pairing_prologue :: "bytes \<Rightarrow> string \<Rightarrow> bytes wres" where
  "pairing_prologue oh tp = encode (Array
     [Text ''RAPP-pairing-v1'', Array [Unsigned (fst WIRE_VERSION), Unsigned (snd WIRE_VERSION)],
      Text PAIRING_SUITE, Bytes oh, Text tp])"

definition session_prologue :: "bytes \<Rightarrow> bytes \<Rightarrow> string \<Rightarrow> bytes wres" where
  "session_prologue pid gh tp = encode (Array
     [Text ''RAPP-session-v1'', Array [Unsigned (fst WIRE_VERSION), Unsigned (snd WIRE_VERSION)],
      Text SESSION_SUITE, Bytes pid, Bytes gh, Text tp])"

definition request_value :: "bytes \<Rightarrow> bytes \<Rightarrow> string \<Rightarrow> string \<Rightarrow> wire_map \<Rightarrow> wire_map \<Rightarrow> wire_value" where
  "request_value sid op_id prof action ctx payload = Array
     [Text ''RAPP-request-v1'', Bytes sid, Bytes op_id, Text prof, Text action, Map ctx, Map payload]"

definition derive_request_hash ::
  "noise_crypto \<Rightarrow> bytes \<Rightarrow> bytes \<Rightarrow> string \<Rightarrow> string \<Rightarrow> wire_map \<Rightarrow> wire_map \<Rightarrow> bytes wres" where
  "derive_request_hash c sid op_id prof action ctx payload =
     and_then (encode (request_value sid op_id prof action ctx payload)) (\<lambda>encoded. Ok (sha256 c encoded))"

subsection \<open>What the hashes bind\<close>

definition canonical_profiles :: "string list \<Rightarrow> string list" where
  "canonical_profiles ps = remdups_adj (sort ps)"

lemma sorted_remdups_adj_distinct: "sorted xs \<Longrightarrow> distinct (remdups_adj xs)" for xs :: "string list"
  by (induction xs rule: remdups_adj.induct) (auto simp: order_antisym)

lemma canonical_profiles_eq: "canonical_profiles ps = canonical_profiles qs \<longleftrightarrow> set ps = set qs"
proof
  assume "canonical_profiles ps = canonical_profiles qs"
  then have "set (canonical_profiles ps) = set (canonical_profiles qs)" by simp
  then show "set ps = set qs" by (simp add: canonical_profiles_def)
next
  assume "set ps = set qs"
  then show "canonical_profiles ps = canonical_profiles qs"
    unfolding canonical_profiles_def
    by (intro sorted_distinct_set_unique) (simp_all add: sorted_remdups_adj sorted_remdups_adj_distinct)
qed

lemma derive_grants_hash_eq:
  "derive_grants_hash c ps = and_then (encode (Array (map Text (canonical_profiles ps)))) (\<lambda>e. Ok (sha256 c e))"
  by (simp add: derive_grants_hash_def canonical_profiles_def Let_def)

text \<open>The grants hash is a function of the set of profiles, and determines it: two profile lists that
  encode, without a hash collision between the two encodings, have the same grants hash exactly when
  they contain the same profiles; order and repetition do not matter.\<close>

theorem grants_hash_canonical:
  assumes "list_all text_ok ps" and "list_all text_ok qs"
    and "encode (Array (map Text (canonical_profiles ps))) = Ok x"
    and "encode (Array (map Text (canonical_profiles qs))) = Ok y"
    and "length x \<le> usize_max" and "inj_on (sha256 c) {x, y}"
  shows "derive_grants_hash c ps = derive_grants_hash c qs \<longleftrightarrow> set ps = set qs"
proof
  assume "derive_grants_hash c ps = derive_grants_hash c qs"
  then have "sha256 c x = sha256 c y" by (simp add: derive_grants_hash_eq assms(3,4))
  then have "x = y" by (rule inj_onD [OF assms(6)]) simp_all
  moreover have "wire_ok (Array (map Text (canonical_profiles ps)))" "wire_ok (Array (map Text (canonical_profiles qs)))"
    using assms(1,2) by (simp_all add: list_all_iff canonical_profiles_def)
  ultimately have "Array (map Text (canonical_profiles ps)) = Array (map Text (canonical_profiles qs))"
    using encode_inject [OF assms(3)] assms(4,5) by blast
  then show "set ps = set qs" by (simp add: inj_map_eq_map inj_def canonical_profiles_eq)
next
  assume "set ps = set qs"
  then have "canonical_profiles ps = canonical_profiles qs" by (simp only: canonical_profiles_eq)
  then show "derive_grants_hash c ps = derive_grants_hash c qs" by (simp only: derive_grants_hash_eq)
qed

theorem grants_hash_canonical_witness:
  "derive_grants_hash (toy_crypto\<lparr>sha256 := \<lambda>x. x\<rparr>) [PROFILE_AUTH, PROFILE_SIGN, PROFILE_AUTH] =
   derive_grants_hash (toy_crypto\<lparr>sha256 := \<lambda>x. x\<rparr>) [PROFILE_SIGN, PROFILE_AUTH]"
proof -
  let ?p = "[PROFILE_AUTH, PROFILE_SIGN, PROFILE_AUTH]" and ?q = "[PROFILE_SIGN, PROFILE_AUTH]"
  have eq: "canonical_profiles ?p = [PROFILE_AUTH, PROFILE_SIGN]" "canonical_profiles ?q = [PROFILE_AUTH, PROFILE_SIGN]"
    by (simp_all add: canonical_profiles_def)
  let ?v = "Array (map Text [PROFILE_AUTH, PROFILE_SIGN])"
  have "encodable 0 ?v" "wire_size ?v \<le> 100" by (simp_all add: header_size_def)
  then obtain x where "encode ?v = Ok x" "length x \<le> 100" using encode_fits by blast
  moreover have "set ?p = set ?q" unfolding list.set by blast
  ultimately show ?thesis
    using grants_hash_canonical [of ?p ?q x x "toy_crypto\<lparr>sha256 := \<lambda>x. x\<rparr>"] by (simp add: eq)
qed

definition operation_ok :: "card_operation \<Rightarrow> bool" where
  "operation_ok opn = (case opn of
     ReadCertificate kind \<Rightarrow> text_ok kind
   | BrowserAuthenticate origin kp alg d \<Rightarrow> text_ok origin \<and> text_ok kp \<and> text_ok alg
   | SignDocument name kp alg d \<Rightarrow> text_ok name \<and> text_ok kp \<and> text_ok alg
   | _ \<Rightarrow> True)"

definition operation_request :: "bytes \<Rightarrow> bytes \<Rightarrow> card_operation \<Rightarrow> wire_value" where
  "operation_request sid op_id opn = request_value sid op_id (required_profile opn) (action_name opn)
     (context_map opn) (payload_map opn)"

lemma operation_request_wire_ok: "operation_ok opn \<Longrightarrow> wire_ok (operation_request sid op_id opn)"
  by (cases opn) (simp_all add: operation_request_def request_value_def operation_ok_def signature_payload_def)

lemma operation_request_inject:
  "operation_request sid op_id opn = operation_request sid' op_id' opn' \<longleftrightarrow>
   sid = sid' \<and> op_id = op_id' \<and> opn = opn'"
  by (cases opn; cases opn') (auto simp: operation_request_def request_value_def signature_payload_def)

text \<open>C31. A request hash binds the whole request: two requests whose encodings do not collide under the
  hash function have the same request hash exactly when they belong to the same session and operation
  identifier and ask for the same card operation with the same parameters.\<close>

theorem request_hash_binds:
  assumes "operation_ok a" and "operation_ok b"
    and "encode (operation_request sa ia a) = Ok x" and "encode (operation_request sb ib b) = Ok y"
    and "length x \<le> usize_max" and "inj_on (sha256 c) {x, y}"
  shows "derive_request_hash c sa ia (required_profile a) (action_name a) (context_map a) (payload_map a) =
     derive_request_hash c sb ib (required_profile b) (action_name b) (context_map b) (payload_map b) \<longleftrightarrow>
     sa = sb \<and> ia = ib \<and> a = b"
proof -
  have hash: "derive_request_hash c s i (required_profile p) (action_name p) (context_map p) (payload_map p) =
      and_then (encode (operation_request s i p)) (\<lambda>e. Ok (sha256 c e))" for s i p
    by (simp add: derive_request_hash_def operation_request_def)
  have "sha256 c x = sha256 c y \<longleftrightarrow> x = y"
    using inj_on_eq_iff [OF assms(6), of x y] by simp
  moreover have "x = y \<longleftrightarrow> operation_request sa ia a = operation_request sb ib b"
  proof
    assume "x = y"
    then show "operation_request sa ia a = operation_request sb ib b"
      using encode_inject [OF assms(3)] assms(4,5) operation_request_wire_ok assms(1,2) by blast
  next
    assume "operation_request sa ia a = operation_request sb ib b"
    then show "x = y" using assms(3,4) by (metis res.inject(1))
  qed
  ultimately show ?thesis by (simp add: hash assms(3,4) operation_request_inject)
qed

theorem request_hash_binds_witness:
  "derive_request_hash (toy_crypto\<lparr>sha256 := \<lambda>x. x\<rparr>) [1] [2] PROFILE_STATUS ''inspect_card'' [] [] \<noteq>
   derive_request_hash (toy_crypto\<lparr>sha256 := \<lambda>x. x\<rparr>) [1] [3] PROFILE_STATUS ''inspect_card'' [] []"
proof -
  have fits: "encodable 0 (operation_request [1] i InspectCard)" 
    "wire_size (operation_request [1] [2] InspectCard) \<le> 100" for i
    by (simp_all add: operation_request_def request_value_def header_size_def)
  obtain x where x: "encode (operation_request [1] [2] InspectCard) = Ok x" "length x \<le> 100"
    using encode_fits [OF fits] by blast
  obtain y where y: "encode (operation_request [1] [3] InspectCard) = Ok y"
    using fits(1) encode_into_Ok_iff unfolding encode_def by blast
  show ?thesis
    using request_hash_binds [OF _ _ x(1) y, of "toy_crypto\<lparr>sha256 := \<lambda>x. x\<rparr>"] x(2)
    by (simp add: operation_ok_def)
qed

end
