(* ===== verification/Rapp_Session.thy ===== *)
theory Rapp_Session
  imports Rapp_Derive
begin

text \<open>
  Length-prefixed framing (\<open>crates/refineid-lib-core/src/rapp/transport.rs\<close>) and the two requester
  drivers, pairing and card operation (\<open>rapp/session.rs\<close>).

  The byte stream (\<open>std::io::Read + Write\<close>) is a state with the bytes that will still arrive before
  the peer closes, the bytes written so far, and the number of write and flush calls the transport
  will still accept before it fails. What a failed read or write leaves in the stream is not
  modelled: every caller gives the connection up.

  The drivers thread the stream, the two transport ciphers and the two sequence guards; these are one
  record here. Its field \<open>trace\<close> is a history variable: it records the envelopes sent and received, in
  order, and influences nothing.
\<close>

subsection \<open>Streams and frames\<close>

record stream =
  incoming :: bytes
  outgoing :: bytes
  write_budget :: nat

abbreviation MAX_STREAM_FRAME :: nat where "MAX_STREAM_FRAME \<equiv> 65535"

definition write_all :: "bytes \<Rightarrow> string \<Rightarrow> stream \<Rightarrow> unit wres \<times> stream" where
  "write_all bs field st =
     (if write_budget st = 0 then (Err (InvalidValue field), st)
      else (Ok (), st\<lparr>outgoing := outgoing st @ bs, write_budget := write_budget st - 1\<rparr>))"

definition read_exact :: "nat \<Rightarrow> stream \<Rightarrow> bytes wres \<times> stream" where
  "read_exact n st =
     (if length (incoming st) < n then (Err Truncated, st)
      else (Ok (take n (incoming st)), st\<lparr>incoming := drop n (incoming st)\<rparr>))"

definition write_frame :: "bytes \<Rightarrow> stream \<Rightarrow> unit wres \<times> stream" where
  "write_frame payload st =
     (if payload = [] \<or> MAX_STREAM_FRAME < length payload
      then (Err (OversizedPlaintext (length payload)), st)
      else
        let len = word_of_nat (length payload) :: u16 in
        st_then (write_all (be_bytes 2 (unat len)) ''transport_write'' st) (\<lambda>_ st.
        st_then (write_all payload ''transport_write'' st) (\<lambda>_ st.
        st_then (write_all [] ''transport_flush'' st) (\<lambda>_ st.
        (Ok (), st)))))"

definition read_frame :: "stream \<Rightarrow> bytes wres \<times> stream" where
  "read_frame st =
     st_then (read_exact 2 st) (\<lambda>len_bytes st.
     let len = be_nat len_bytes in
     if len = 0 \<or> MAX_STREAM_FRAME < len then (Err (InvalidValue ''frame_length''), st)
     else st_then (read_exact len st) (\<lambda>buffer st. (Ok buffer, st)))"

subsection \<open>Sessions\<close>

datatype session_event = Sent rapp_envelope | Received rapp_envelope

record session =
  stream :: stream
  send_cipher :: cipher_state
  recv_cipher :: cipher_state
  send_seq :: sequence_guard
  recv_seq :: sequence_guard
  trace :: "session_event list"

text \<open>An outcome that does not touch the state.\<close>

definition pure_st :: "'a wres \<Rightarrow> 's \<Rightarrow> 'a wres \<times> 's" where
  "pure_st r s = (r, s)"

text \<open>
  The sending block of the drivers: draw a sequence number, build the envelope, encode, encrypt, write
  the frame.
\<close>

definition send_envelope ::
  "noise_crypto \<Rightarrow> message_type \<Rightarrow> bytes \<Rightarrow> wire_map \<Rightarrow> session \<Rightarrow> unit wres \<times> session" where
  "send_envelope c mt sid bd s =
     (case advance_send (send_seq s) of (r, g) \<Rightarrow>
      st_then (r, s\<lparr>send_seq := g\<rparr>) (\<lambda>sq s.
      let env = RappEnvelope_new mt sid sq bd in
      st_then (pure_st (envelope_encode env) s) (\<lambda>plain s.
      case cs_encrypt c (send_cipher s) [] plain of (r, cs) \<Rightarrow>
      st_then (r, s\<lparr>send_cipher := cs\<rparr>) (\<lambda>ct s.
      case write_frame ct (stream s) of (r, st) \<Rightarrow>
      st_then (r, s\<lparr>stream := st\<rparr>) (\<lambda>_ s.
      (Ok (), s\<lparr>trace := trace s @ [Sent env]\<rparr>))))))"

text \<open>The receiving block: read a frame, decrypt, decode.\<close>

definition recv_envelope :: "noise_crypto \<Rightarrow> session \<Rightarrow> rapp_envelope wres \<times> session" where
  "recv_envelope c s =
     (case read_frame (stream s) of (r, st) \<Rightarrow>
      st_then (r, s\<lparr>stream := st\<rparr>) (\<lambda>ct s.
      case cs_decrypt c (recv_cipher s) [] ct of (r, cs) \<Rightarrow>
      st_then (r, s\<lparr>recv_cipher := cs\<rparr>) (\<lambda>plain s.
      st_then (pure_st (envelope_decode plain) s) (\<lambda>env s.
      (Ok env, s\<lparr>trace := trace s @ [Received env]\<rparr>)))))"

definition check_sequence :: "rapp_envelope \<Rightarrow> session \<Rightarrow> unit wres \<times> session" where
  "check_sequence env s =
     (case check_and_advance_recv (recv_seq s) (sequence env) of (r, g) \<Rightarrow> (r, s\<lparr>recv_seq := g\<rparr>))"

definition expect_type :: "rapp_envelope \<Rightarrow> message_type \<Rightarrow> string \<Rightarrow> session \<Rightarrow> unit wres \<times> session" where
  "expect_type env mt field s =
     (if msg_type env \<noteq> mt then (Err (InvalidValue field), s) else (Ok (), s))"

text \<open>The receiving block of the fixed steps: an envelope of the expected type, in sequence.\<close>

definition recv_expected :: "noise_crypto \<Rightarrow> message_type \<Rightarrow> string \<Rightarrow> session \<Rightarrow> rapp_envelope wres \<times> session" where
  "recv_expected c mt field s =
     st_then (recv_envelope c s) (\<lambda>env s.
     st_then (expect_type env mt field s) (\<lambda>_ s.
     st_then (check_sequence env s) (\<lambda>_ s.
     (Ok env, s))))"

subsection \<open>Reading operation envelopes\<close>

definition pong_body :: "bytes \<Rightarrow> u64 \<Rightarrow> wire_map" where
  "pong_body challenge seen = bt_insert_all
     [(''challenge'', Bytes challenge), (''last_received_sequence'', Unsigned seen)] bt_new"

lemma recv_envelope_shrinks:
  assumes "recv_envelope c s = (Ok env, s')"
  shows "length (incoming (stream s')) < length (incoming (stream s))"
  using assms
  by (auto simp: recv_envelope_def read_frame_def read_exact_def st_then_def pure_st_def Let_def
      split: prod.splits res.splits if_splits)

lemma check_sequence_stream: "check_sequence env s = (r, s') \<Longrightarrow> stream s' = stream s"
  by (auto simp: check_sequence_def split: prod.splits)

lemma write_frame_incoming: "write_frame p st = (r, st') \<Longrightarrow> incoming st' = incoming st"
  by (auto simp: write_frame_def write_all_def st_then_def Let_def split: if_splits)

lemma send_envelope_incoming:
  "send_envelope c mt sid bd s = (r, s') \<Longrightarrow> incoming (stream s') = incoming (stream s)"
  by (auto simp: send_envelope_def st_then_def pure_st_def Let_def
      split: prod.splits res.splits dest!: write_frame_incoming)

text \<open>
  The loop of \<open>read_operation_envelope\<close>: pings are answered, status updates skipped, and the first
  other envelope is returned. Every round consumes a frame, so the loop ends with the input.
\<close>

function read_operation_envelope :: "noise_crypto \<Rightarrow> bytes \<Rightarrow> session \<Rightarrow> rapp_envelope wres \<times> session" where
  "read_operation_envelope c sid s =
     (case recv_envelope c s of
        (Ok env, s1) \<Rightarrow>
          (case check_sequence env s1 of
             (Ok _, s2) \<Rightarrow>
               (case msg_type env of
                  LivenessPing \<Rightarrow>
                    (case bt_get (body env) ''challenge'' of
                       Some (Bytes challenge) \<Rightarrow>
                         (case send_envelope c LivenessPong sid (pong_body challenge (last_seen (recv_seq s2))) s2 of
                            (Ok _, s3) \<Rightarrow> read_operation_envelope c sid s3
                          | (Err e, s3) \<Rightarrow> (Err e, s3)
                          | (Panic, s3) \<Rightarrow> (Panic, s3))
                     | _ \<Rightarrow> (Err (MissingField ''challenge''), s2))
                | OperationStatus \<Rightarrow> read_operation_envelope c sid s2
                | _ \<Rightarrow> (Ok env, s2))
           | (Err e, s2) \<Rightarrow> (Err e, s2)
           | (Panic, s2) \<Rightarrow> (Panic, s2))
      | (Err e, s1) \<Rightarrow> (Err e, s1)
      | (Panic, s1) \<Rightarrow> (Panic, s1))"
  by pat_completeness auto

termination read_operation_envelope
proof (relation "measure (\<lambda>(c, sid, s). length (incoming (stream s)))", goal_cases)
  case (2 c sid s x s1 env xa s2 u v challenge xb s3 u')
  have "length (incoming (stream s1)) < length (incoming (stream s))"
    using 2(1,2) by (metis recv_envelope_shrinks)
  moreover have "stream s2 = stream s1" using 2(3) by (metis check_sequence_stream)
  moreover have "incoming (stream s3) = incoming (stream s2)" using 2(8) by (metis send_envelope_incoming)
  ultimately show ?case by simp
next
  case (3 c sid s x s1 env xa s2 u)
  have "length (incoming (stream s1)) < length (incoming (stream s))"
    using 3(1,2) by (metis recv_envelope_shrinks)
  moreover have "stream s2 = stream s1" using 3(3) by (metis check_sequence_stream)
  ultimately show ?case by simp
qed simp

declare read_operation_envelope.simps [simp del]

definition read_expected ::
  "noise_crypto \<Rightarrow> bytes \<Rightarrow> message_type \<Rightarrow> string \<Rightarrow> session \<Rightarrow> rapp_envelope wres \<times> session" where
  "read_expected c sid mt field s =
     st_then (read_operation_envelope c sid s) (\<lambda>env s.
     st_then (expect_type env mt field s) (\<lambda>_ s.
     (Ok env, s)))"

subsection \<open>Card operations\<close>

definition version_value :: wire_value where
  "version_value = Array [Unsigned (fst WIRE_VERSION), Unsigned (snd WIRE_VERSION)]"

definition ready_body :: "pair_record \<Rightarrow> bytes \<Rightarrow> wire_map" where
  "ready_body pair nonce_bytes = bt_insert_all
     [(''parameters'', Map (bt_insert_all
        [(''version'', version_value),
         (''suite'', Text SESSION_SUITE),
         (''transport_profile'', Text (transport_profile pair)),
         (''candidate_id'', Text (pr_candidate_id pair)),
         (''grants_hash'', Bytes (grants_hash pair))] bt_new)),
      (''nonce'', Bytes nonce_bytes)] bt_new"

definition request_body :: "bytes \<Rightarrow> bytes \<Rightarrow> card_operation \<Rightarrow> wire_map" where
  "request_body op_id req_hash opn = bt_insert_all
     [(''operation_id'', Bytes op_id),
      (''profile'', Text (required_profile opn)),
      (''action'', Text (action_name opn)),
      (''request_hash'', Bytes req_hash),
      (''expires_after_ms'', Unsigned 30000),
      (''context'', Map (context_map opn)),
      (''payload'', Map (payload_map opn))] bt_new"

text \<open>The body of \<open>operation.commit\<close> and of \<open>operation.result_ack\<close>.\<close>

definition reference_body :: "bytes \<Rightarrow> bytes \<Rightarrow> wire_map" where
  "reference_body op_id req_hash = bt_insert_all
     [(''operation_id'', Bytes op_id), (''request_hash'', Bytes req_hash)] bt_new"

definition commit_phase :: "noise_crypto \<Rightarrow> bytes \<Rightarrow> bytes \<Rightarrow> bytes \<Rightarrow> session \<Rightarrow> unit wres \<times> session" where
  "commit_phase c sid op_id req_hash s =
     st_then (read_expected c sid OperationPrepared ''operation_prepared_expected'' s) (\<lambda>_ s.
     send_envelope c OperationCommit sid (reference_body op_id req_hash) s)"

definition result_status_of :: "rapp_envelope \<Rightarrow> result_status wres" where
  "result_status_of env =
     (case bt_get (body env) ''status'' of
        Some (Text t) \<Rightarrow> ok_or (rs_from_str t) (InvalidValue ''status'')
      | _ \<Rightarrow> Err (MissingField ''status''))"

definition result_body_of :: "rapp_envelope \<Rightarrow> wire_map" where
  "result_body_of env = (case bt_get (body env) ''body'' of Some (Map m) \<Rightarrow> m | _ \<Rightarrow> bt_new)"

text \<open>The part of \<open>execute_operation_over_stream\<close> that follows the handshake.\<close>

definition run_operation ::
  "noise_crypto \<Rightarrow> bytes \<Rightarrow> bytes \<Rightarrow> bytes \<Rightarrow> pair_record \<Rightarrow> card_operation \<Rightarrow> session \<Rightarrow>
   card_operation_result wres \<times> session" where
  "run_operation c sid nonce_bytes op_id pair opn s =
     st_then (send_envelope c SessionReady sid (ready_body pair nonce_bytes) s) (\<lambda>_ s.
     st_then (recv_expected c SessionReady ''session_ready_expected'' s) (\<lambda>_ s.
     st_then (pure_st (derive_request_hash c sid op_id (required_profile opn) (action_name opn)
         (context_map opn) (payload_map opn)) s) (\<lambda>req_hash s.
     st_then (send_envelope c OperationRequest sid (request_body op_id req_hash opn) s) (\<lambda>_ s.
     st_then (if is_consequential opn then commit_phase c sid op_id req_hash s else (Ok (), s)) (\<lambda>_ s.
     st_then (read_expected c sid OperationResult ''operation_result_expected'' s) (\<lambda>res s.
     st_then (pure_st (result_status_of res) s) (\<lambda>status s.
     if status \<noteq> Completed then (Err (InvalidValue ''operation_rejected''), s)
     else
     st_then (send_envelope c OperationResultAck sid (reference_body op_id req_hash) s) (\<lambda>_ s.
     pure_st (from_wire_body (result_body_of res)) s))))))))"

text \<open>A fresh session on a stream: both guards at zero, nothing exchanged.\<close>

definition new_session :: "stream \<Rightarrow> cipher_state \<times> cipher_state \<Rightarrow> session" where
  "new_session st ciphers =
     \<lparr>stream = st, send_cipher = fst ciphers, recv_cipher = snd ciphers,
      send_seq = SequenceGuard_new, recv_seq = SequenceGuard_new, trace = []\<rparr>"

text \<open>One turn of the handshake on the stream: write a message, or read one.\<close>

definition write_turn ::
  "noise_crypto \<Rightarrow> bytes \<Rightarrow> handshake_state \<Rightarrow> stream \<Rightarrow> handshake_state wres \<times> stream" where
  "write_turn c rand_bytes h st =
     (case write_message c rand_bytes h [] of (r, h') \<Rightarrow>
      st_then (r, st) (\<lambda>m st. st_then (write_frame m st) (\<lambda>_ st. (Ok h', st))))"

definition read_turn :: "noise_crypto \<Rightarrow> handshake_state \<Rightarrow> stream \<Rightarrow> handshake_state wres \<times> stream" where
  "read_turn c h st =
     st_then (read_frame st) (\<lambda>m st.
     case read_message c h m of (r, h') \<Rightarrow> st_then (r, st) (\<lambda>_ st. (Ok h', st)))"

text \<open>Preamble, prologue and Noise KK handshake; the session identifier and the transport ciphers.\<close>

definition open_session ::
  "noise_crypto \<Rightarrow> bytes \<Rightarrow> pair_record \<Rightarrow> stream \<Rightarrow> (bytes \<times> cipher_state \<times> cipher_state) wres \<times> stream" where
  "open_session c rand_bytes pair st =
     st_then (pure_st (rendezvous_encode (Session (rendezvous_token pair))) st) (\<lambda>preamble st.
     st_then (write_frame preamble st) (\<lambda>_ st.
     st_then (pure_st (session_prologue (pair_id pair) (grants_hash pair) (transport_profile pair)) st) (\<lambda>prologue st.
     st_then (pure_st (NoiseHandshakeState_new c Kk SESSION_SUITE prologue True (local_static_private pair)
         (Some (remote_static_public pair)) None None) st) (\<lambda>h st.
     st_then (write_turn c rand_bytes h st) (\<lambda>h st.
     st_then (read_turn c h st) (\<lambda>h st.
     st_then (pure_st (handshake_split c h) st) (\<lambda>ciphers st.
     (Ok (derive_session_id c (handshake_hash (symmetric h)), ciphers), st))))))))"

definition execute_operation_over_stream ::
  "noise_crypto \<Rightarrow> bytes \<Rightarrow> bytes \<Rightarrow> bytes \<Rightarrow> pair_record \<Rightarrow> card_operation \<Rightarrow> stream \<Rightarrow>
   card_operation_result wres \<times> stream" where
  "execute_operation_over_stream c rand_bytes nonce_bytes op_id pair opn st =
     st_then (open_session c rand_bytes pair st) (\<lambda>(sid, ciphers) st.
     case run_operation c sid nonce_bytes op_id pair opn (new_session st ciphers) of (r, s) \<Rightarrow> (r, stream s))"

subsection \<open>Pairing\<close>

record pair_offer_context =
  offer :: pairing_offer
  selected_transport :: string
  selected_candidate_id :: string
  context_parameters :: wire_map  \<comment> \<open>the field \<open>transport_parameters\<close>\<close>

definition hello_body :: "pair_offer_context \<Rightarrow> bytes \<Rightarrow> string \<Rightarrow> string \<Rightarrow> wire_map" where
  "hello_body ctx oh name plat = bt_insert_all
     [(''parameters'', Map (bt_insert_all
        [(''version'', version_value),
         (''suite'', Text PAIRING_SUITE),
         (''offer_hash'', Bytes oh),
         (''transport_profile'', Text (selected_transport ctx)),
         (''candidate_id'', Text (selected_candidate_id ctx))] bt_new)),
      (''display_name'', Text name),
      (''platform'', Text plat),
      (''requested_profiles'', Array (map Text (profiles (offer ctx))))] bt_new"

fun texts_of :: "wire_value list \<Rightarrow> string list" where
  "texts_of [] = []"
| "texts_of (Text t # vs) = t # texts_of vs"
| "texts_of (v # vs) = texts_of vs"

definition granted_profiles_of :: "rapp_envelope \<Rightarrow> pairing_offer \<Rightarrow> string list" where
  "granted_profiles_of env off =
     (case bt_get (body env) ''granted_profiles'' of
        Some (Array arr) \<Rightarrow> texts_of arr
      | _ \<Rightarrow> profiles off)"

definition confirm_body :: "string list \<Rightarrow> wire_map" where
  "confirm_body granted_profiles = bt_insert ''granted_profiles'' (Array (map Text granted_profiles)) bt_new"

text \<open>Preamble, offer hash, prologue and the three messages of Noise XXpsk3.\<close>

definition open_pairing ::
  "noise_crypto \<Rightarrow> bytes \<Rightarrow> bytes \<Rightarrow> pair_offer_context \<Rightarrow> stream \<Rightarrow>
   (bytes \<times> bytes \<times> handshake_state) wres \<times> stream" where
  "open_pairing c static_bytes rand_bytes ctx st =
     st_then (pure_st (rendezvous_encode Pairing) st) (\<lambda>preamble st.
     st_then (write_frame preamble st) (\<lambda>_ st.
     st_then (pure_st (offer_hash (sha256 c) (offer ctx)) st) (\<lambda>oh st.
     st_then (pure_st (pairing_prologue oh (selected_transport ctx)) st) (\<lambda>prologue st.
     st_then (pure_st (NoiseHandshakeState_new c XxPsk3 PAIRING_SUITE prologue True static_bytes
         None (Some (pairing_secret (offer ctx))) None) st) (\<lambda>h st.
     st_then (write_turn c rand_bytes h st) (\<lambda>h st.
     st_then (read_turn c h st) (\<lambda>h st.
     st_then (write_turn c rand_bytes h st) (\<lambda>h st.
     st_then (pure_st (ok_or (hs_remote_static h) (MissingField ''remote_static'')) st) (\<lambda>remote st.
     (Ok (oh, remote, h), st))))))))))"

text \<open>The exchange of hello and confirm messages; the granted profiles and the peer's two labels.\<close>

definition run_pairing ::
  "noise_crypto \<Rightarrow> bytes \<Rightarrow> bytes \<Rightarrow> pair_offer_context \<Rightarrow> string \<Rightarrow> string \<Rightarrow> session \<Rightarrow>
   (string list \<times> string option \<times> string option) wres \<times> session" where
  "run_pairing c sid oh ctx name plat s =
     st_then (send_envelope c PairingHello sid (hello_body ctx oh name plat) s) (\<lambda>_ s.
     st_then (recv_expected c PairingHello ''pairing_hello_expected'' s) (\<lambda>hello s.
     st_then (recv_expected c PairingConfirm ''pairing_confirm_expected'' s) (\<lambda>confirm s.
     let granted_profiles = granted_profiles_of confirm (offer ctx) in
     st_then (send_envelope c PairingConfirm sid (confirm_body granted_profiles) s) (\<lambda>_ s.
     (Ok (granted_profiles, optional_text ''display_name'' (body hello), optional_text ''platform'' (body hello)), s)))))"

definition pair_requester_over_stream ::
  "noise_crypto \<Rightarrow> bytes \<Rightarrow> bytes \<Rightarrow> u64 \<Rightarrow> pair_offer_context \<Rightarrow> string \<Rightarrow> string \<Rightarrow> stream \<Rightarrow>
   pair_record wres \<times> stream" where
  "pair_requester_over_stream c static_bytes rand_bytes now_ms ctx name plat st =
     st_then (open_pairing c static_bytes rand_bytes ctx st) (\<lambda>(oh, remote, h) st.
     let hh = handshake_hash (symmetric h) in
     st_then (pure_st (handshake_split c h) st) (\<lambda>ciphers st.
     case run_pairing c (derive_session_id c hh) oh ctx name plat (new_session st ciphers) of (r, s) \<Rightarrow>
     st_then (r, stream s) (\<lambda>(granted_profiles, peer_name, peer_platform) st.
     st_then (pure_st (derive_grants_hash c granted_profiles) st) (\<lambda>gh st.
     (Ok \<lparr>pair_id = derive_pair_id c hh, rendezvous_token = derive_rendezvous_token c hh,
          role = ''requester'', local_static_private = static_bytes,
          local_static_public = x25519_public c static_bytes, remote_static_public = remote,
          grants_hash = gh, granted = granted_profiles,
          transport_profile = selected_transport ctx, pr_candidate_id = selected_candidate_id ctx,
          transport_parameters = context_parameters ctx, created_at_ms = now_ms,
          display_name = peer_name, platform = peer_platform, cached_auth_cert = None\<rparr>, st)))))"

subsection \<open>Outcomes\<close>

fun is_ok :: "'a wres \<Rightarrow> bool" where
  "is_ok (Ok _) = True"
| "is_ok _ = False"

lemma is_ok_iff: "is_ok r \<longleftrightarrow> (\<exists>a. r = Ok a)"
  by (cases r) simp_all

lemma st_then_OkE:
  assumes "st_then m f = (Ok b, s'')"
  obtains a s' where "m = (Ok a, s')" and "f a s' = (Ok b, s'')"
  using assms by (cases m; cases "fst m") (auto simp: st_then_def)

subsection \<open>Properties of frames\<close>

definition frame_bytes :: "bytes \<Rightarrow> bytes" where
  "frame_bytes p = be_bytes 2 (length p) @ p"

definition framable :: "bytes \<Rightarrow> bool" where
  "framable p \<longleftrightarrow> p \<noteq> [] \<and> length p \<le> MAX_STREAM_FRAME"

lemma write_frame_Ok:
  "write_frame p st = (Ok u, st') \<longleftrightarrow> framable p \<and> 3 \<le> write_budget st \<and>
     st' = st\<lparr>outgoing := outgoing st @ frame_bytes p, write_budget := write_budget st - 3\<rparr>"
proof (cases "framable p")
  case True
  then have "unat (word_of_nat (length p) :: u16) = length p" by (simp add: framable_def unat_of_nat)
  then show ?thesis using True
    by (auto simp: write_frame_def write_all_def framable_def frame_bytes_def Let_def st_then_def)
qed (auto simp: write_frame_def framable_def)

lemma read_frame_Ok:
  "read_frame rd = (Ok p, rd') \<longleftrightarrow> framable p \<and>
     (\<exists>rest. incoming rd = frame_bytes p @ rest \<and> rd' = rd\<lparr>incoming := rest\<rparr>)"
proof
  assume a: "read_frame rd = (Ok p, rd')"
  let ?n = "be_nat (take 2 (incoming rd))"
  from a have h: "2 \<le> length (incoming rd)" "?n \<noteq> 0" "?n \<le> length (drop 2 (incoming rd))"
    "p = take ?n (drop 2 (incoming rd))" "rd' = rd\<lparr>incoming := drop ?n (drop 2 (incoming rd))\<rparr>"
    by (auto simp: read_frame_def read_exact_def st_then_def Let_def split: if_splits)
  then have len: "length p = ?n" by simp
  have "?n < 256 ^ length (take 2 (incoming rd))" by (rule be_nat_less)
  then have small: "?n \<le> 65535" using h(1) by simp
  have "be_bytes 2 ?n = take 2 (incoming rd)"
    using be_bytes_be_nat [of "take 2 (incoming rd)"] h(1) by simp
  then have "incoming rd = frame_bytes p @ drop ?n (drop 2 (incoming rd))"
    using len h(4) by (metis append_assoc append_take_drop_id frame_bytes_def)
  moreover have "framable p" using len small h(2) by (auto simp: framable_def)
  ultimately show "framable p \<and> (\<exists>rest. incoming rd = frame_bytes p @ rest \<and> rd' = rd\<lparr>incoming := rest\<rparr>)"
    using h(5) by blast
next
  assume "framable p \<and> (\<exists>rest. incoming rd = frame_bytes p @ rest \<and> rd' = rd\<lparr>incoming := rest\<rparr>)"
  then show "read_frame rd = (Ok p, rd')"
    by (auto simp: framable_def frame_bytes_def read_frame_def read_exact_def st_then_def Let_def
        be_nat_be_bytes_small)
qed

text \<open>Frames are exact: writing succeeds precisely for payloads of 1 to 65,535 bytes on a transport
  that accepts the three calls, and appends the two-byte length and the payload; reading returns a
  payload precisely when the input starts with its frame, and leaves the rest.\<close>

theorem frames_are_exact:
  "((\<exists>st'. write_frame p st = (Ok (), st') \<and> outgoing st' = outgoing st @ w) \<longleftrightarrow>
      p \<noteq> [] \<and> length p \<le> 65535 \<and> 3 \<le> write_budget st \<and> w = be_bytes 2 (length p) @ p) \<and>
   (read_frame rd = (Ok p, rd') \<longleftrightarrow>
      p \<noteq> [] \<and> length p \<le> 65535 \<and> incoming rd = be_bytes 2 (length p) @ p @ incoming rd' \<and>
      rd' = rd\<lparr>incoming := incoming rd'\<rparr>)"
proof
  show "(\<exists>st'. write_frame p st = (Ok (), st') \<and> outgoing st' = outgoing st @ w) \<longleftrightarrow>
      p \<noteq> [] \<and> length p \<le> 65535 \<and> 3 \<le> write_budget st \<and> w = be_bytes 2 (length p) @ p"
    by (auto simp: write_frame_Ok framable_def frame_bytes_def)
  have "(\<exists>rest. incoming rd = frame_bytes p @ rest \<and> rd' = rd\<lparr>incoming := rest\<rparr>) \<longleftrightarrow>
      incoming rd = be_bytes 2 (length p) @ p @ incoming rd' \<and> rd' = rd\<lparr>incoming := incoming rd'\<rparr>"
    by (auto simp: frame_bytes_def)
  then show "read_frame rd = (Ok p, rd') \<longleftrightarrow>
      p \<noteq> [] \<and> length p \<le> 65535 \<and> incoming rd = be_bytes 2 (length p) @ p @ incoming rd' \<and>
      rd' = rd\<lparr>incoming := incoming rd'\<rparr>"
    unfolding read_frame_Ok framable_def by blast
qed

end
