(* ===== verification/Rapp_Protocol.thy ===== *)
theory Rapp_Protocol
  imports Rapp_Session
begin

text \<open>
  What the two requester drivers of \<open>Rapp_Session\<close> do on the wire, for every behaviour of the peer and
  the transport. The triple \<open>follows\<close> relates a block of a driver to the script of messages it exchanges;
  it is proved for sending, receiving and the operation read loop, and composes along \<open>st_then\<close>, so the
  two drivers get theirs by composition. The second part shows delivery between two sessions in step,
  and that an operation completes with a peer that answers.
\<close>

subsection \<open>Reasoning about exchanges\<close>

text \<open>
  The history of a session: what was sent and received, whether the sequence numbers are those of the
  guards, and which protocol step every event is. Liveness pings, their answers and status updates may
  occur between any two steps of an operation and are left out of the step list.
\<close>

fun sent :: "session_event list \<Rightarrow> rapp_envelope list" where
  "sent [] = []"
| "sent (Sent e # evs) = e # sent evs"
| "sent (Received e # evs) = sent evs"

fun received :: "session_event list \<Rightarrow> rapp_envelope list" where
  "received [] = []"
| "received (Sent e # evs) = received evs"
| "received (Received e # evs) = e # received evs"

datatype direction = Out | In

fun event_kind :: "session_event \<Rightarrow> direction \<times> message_type" where
  "event_kind (Sent e) = (Out, msg_type e)"
| "event_kind (Received e) = (In, msg_type e)"

definition is_liveness :: "direction \<times> message_type \<Rightarrow> bool" where
  "is_liveness k \<longleftrightarrow> k = (In, LivenessPing) \<or> k = (Out, LivenessPong) \<or> k = (In, OperationStatus)"

definition protocol_steps :: "session_event list \<Rightarrow> (direction \<times> message_type) list" where
  "protocol_steps evs = filter (\<lambda>k. \<not> is_liveness k) (map event_kind evs)"

definition numbered :: "rapp_envelope list \<Rightarrow> bool" where
  "numbered es \<longleftrightarrow> length es < 2 ^ 64 \<and> map sequence es = map word_of_nat [0..<length es]"

definition sent_ok :: "bytes \<Rightarrow> session \<Rightarrow> bool" where
  "sent_ok sid s \<longleftrightarrow> numbered (sent (trace s)) \<and> list_all (\<lambda>e. session_id e = sid) (sent (trace s))"

definition guarded :: "bytes \<Rightarrow> session \<Rightarrow> bool" where
  "guarded sid s \<longleftrightarrow> sent_ok sid s \<and> numbered (received (trace s)) \<and>
     send_seq s = word_of_nat (length (sent (trace s))) \<and>
     recv_seq s = word_of_nat (length (received (trace s)))"

lemma sent_append [simp]: "sent (xs @ ys) = sent xs @ sent ys"
  by (induction xs rule: sent.induct) auto

lemma received_append [simp]: "received (xs @ ys) = received xs @ received ys"
  by (induction xs rule: received.induct) auto

lemma protocol_steps_append [simp]: "protocol_steps (xs @ ys) = protocol_steps xs @ protocol_steps ys"
  by (simp add: protocol_steps_def)

definition step_of :: "direction \<Rightarrow> message_type \<Rightarrow> (direction \<times> message_type) list" where
  "step_of d mt = (if is_liveness (d, mt) then [] else [(d, mt)])"

lemma protocol_steps_Nil [simp]: "protocol_steps [] = []"
  by (simp add: protocol_steps_def)

lemma protocol_steps_Sent [simp]: "protocol_steps [Sent e] = step_of Out (msg_type e)"
  and protocol_steps_Received [simp]: "protocol_steps [Received e] = step_of In (msg_type e)"
  by (simp_all add: step_of_def protocol_steps_def)

lemma numbered_snoc:
  assumes "numbered es" and "sequence e = word_of_nat (length es)" and "sequence e \<noteq> u64_max"
  shows "numbered (es @ [e])"
proof -
  have "unat (sequence e) = length es" using assms(1,2) by (simp add: numbered_def unat_of_nat)
  then have "length es \<noteq> 2 ^ 64 - 1" using assms(3) unfolding u64_max_iff by simp
  then show ?thesis using assms(1,2) by (simp add: numbered_def)
qed

text \<open>
  \<open>follows\<close> is the triple of the protocol logic: started in a state whose guards match its history, the
  block either completes exactly the steps of its script, or stops with an error after a part of them,
  possibly after one more received envelope.
\<close>

definition stopped :: "(direction \<times> message_type) list \<Rightarrow> (direction \<times> message_type) list \<Rightarrow> bool" where
  "stopped script steps \<longleftrightarrow> (\<exists>n rest. steps = take n script @ rest \<and> (rest = [] \<or> (\<exists>mt. rest = [(In, mt)])))"

definition follows ::
  "bytes \<Rightarrow> session \<Rightarrow> 'a wres \<times> session \<Rightarrow> (direction \<times> message_type) list \<Rightarrow> bool" where
  "follows sid s m script \<longleftrightarrow> (guarded sid s \<longrightarrow>
     (\<exists>evs. trace (snd m) = trace s @ evs \<and>
       (if is_ok (fst m) then guarded sid (snd m) \<and> protocol_steps evs = script
        else sent_ok sid (snd m) \<and> stopped script (protocol_steps evs))))"

lemma stopped_left: "stopped sc1 x \<Longrightarrow> stopped (sc1 @ sc2) x"
proof -
  assume "stopped sc1 x"
  then obtain n rest where x: "x = take n sc1 @ rest" "rest = [] \<or> (\<exists>mt. rest = [(In, mt)])"
    by (auto simp: stopped_def)
  then have "x = take (min n (length sc1)) (sc1 @ sc2) @ rest" by (simp add: min_def)
  with x(2) show ?thesis unfolding stopped_def by blast
qed

lemma stopped_right: "stopped sc2 x \<Longrightarrow> stopped (sc1 @ sc2) (sc1 @ x)"
proof -
  assume "stopped sc2 x"
  then obtain n rest where x: "x = take n sc2 @ rest" "rest = [] \<or> (\<exists>mt. rest = [(In, mt)])"
    by (auto simp: stopped_def)
  then have "sc1 @ x = take (length sc1 + n) (sc1 @ sc2) @ rest" by simp
  with x(2) show ?thesis unfolding stopped_def by blast
qed

lemma stopped_nil: "stopped script []"
  unfolding stopped_def by (intro exI [of _ 0] exI [of _ "[]"]) simp

lemma stopped_received: "stopped script [(In, mt)]"
  unfolding stopped_def by (intro exI [of _ 0] exI [of _ "[(In, mt)]"]) simp

lemma guarded_sent_ok: "guarded sid s \<Longrightarrow> sent_ok sid s"
  by (simp add: guarded_def)

lemma follows_okI:
  assumes "is_ok r" and "trace s' = trace s @ evs" and "guarded sid s \<Longrightarrow> guarded sid s'"
    and "protocol_steps evs = script"
  shows "follows sid s (r, s') script"
  unfolding follows_def using assms by (intro impI exI [of _ evs]) simp

lemma follows_stopI:
  assumes "\<not> is_ok r" and "trace s' = trace s @ evs" and "guarded sid s \<Longrightarrow> sent_ok sid s'"
    and "stopped script (protocol_steps evs)"
  shows "follows sid s (r, s') script"
  unfolding follows_def using assms by (intro impI exI [of _ evs]) simp

lemma follows_okE:
  assumes "follows sid s (r, s') script" and "guarded sid s" and "is_ok r"
  obtains evs where "trace s' = trace s @ evs" and "guarded sid s'" and "protocol_steps evs = script"
proof -
  have "\<exists>evs. trace s' = trace s @ evs \<and> guarded sid s' \<and> protocol_steps evs = script"
    using assms unfolding follows_def by simp
  then show ?thesis by (elim exE conjE) (rule that)
qed

lemma follows_stopE:
  assumes "follows sid s (r, s') script" and "guarded sid s" and "\<not> is_ok r"
  obtains evs where "trace s' = trace s @ evs" and "sent_ok sid s'" and "stopped script (protocol_steps evs)"
proof -
  have "\<exists>evs. trace s' = trace s @ evs \<and> sent_ok sid s' \<and> stopped script (protocol_steps evs)"
    using assms unfolding follows_def by simp
  then show ?thesis by (elim exE conjE) (rule that)
qed

lemma follows_unguarded: "(guarded sid s \<Longrightarrow> follows sid s m script) \<Longrightarrow> follows sid s m script"
  by (simp add: follows_def)

lemma follows_st_then:
  assumes 1: "follows sid s m sc1" and 2: "\<And>a s'. m = (Ok a, s') \<Longrightarrow> follows sid s' (f a s') sc2"
  shows "follows sid s (st_then m f) (sc1 @ sc2)"
proof (rule follows_unguarded)
  assume g: "guarded sid s"
  obtain r s' where m: "m = (r, s')" by (cases m)
  note 1 = 1 [unfolded m]
  show "follows sid s (st_then m f) (sc1 @ sc2)"
  proof (cases "is_ok r")
    case True
    then obtain a where r: "r = Ok a" by (cases r) auto
    obtain r2 s2 where f: "f a s' = (r2, s2)" by (cases "f a s'")
    have fol: "follows sid s' (r2, s2) sc2" using 2 [of a s'] m r f by simp
    have st: "st_then m f = (r2, s2)" using m r f by (simp add: st_then_def)
    from 1 g True obtain evs where e1: "trace s' = trace s @ evs" "guarded sid s'" "protocol_steps evs = sc1"
      by (rule follows_okE)
    show ?thesis
    proof (cases "is_ok r2")
      case True
      from fol e1(2) True obtain evs2
        where e2: "trace s2 = trace s' @ evs2" "guarded sid s2" "protocol_steps evs2 = sc2"
        by (rule follows_okE)
      show ?thesis unfolding st
        by (rule follows_okI [OF True, of _ _ "evs @ evs2"]) (use e1 e2 in simp_all)
    next
      case False
      from fol e1(2) False obtain evs2
        where e2: "trace s2 = trace s' @ evs2" "sent_ok sid s2" "stopped sc2 (protocol_steps evs2)"
        by (rule follows_stopE)
      show ?thesis unfolding st
        by (rule follows_stopI [OF False, of _ _ "evs @ evs2"]) (use e1 e2 in \<open>simp_all add: stopped_right\<close>)
    qed
  next
    case False
    from 1 g False obtain evs
      where e: "trace s' = trace s @ evs" "sent_ok sid s'" "stopped sc1 (protocol_steps evs)"
      by (rule follows_stopE)
    obtain r2 where st: "st_then m f = (r2, s')" "\<not> is_ok r2"
      using m False by (cases r) (simp_all add: st_then_def)
    show ?thesis unfolding st(1)
      by (rule follows_stopI [OF st(2) e(1)]) (use e stopped_left in auto)
  qed
qed

lemma follows_pure: "follows sid s (pure_st r s) []"
  unfolding pure_st_def follows_def by (auto simp: guarded_sent_ok stopped_nil)

lemmas follows_return = follows_pure [unfolded pure_st_def]

text \<open>What one send does to the guards and the history.\<close>

lemma send_envelope_effect:
  assumes "send_envelope c mt sid bd s = (r, s')"
  shows "\<not> is_ok r \<Longrightarrow> trace s' = trace s"
    and "r = Ok u \<Longrightarrow> send_seq s \<noteq> u64_max \<and> send_seq s' = send_seq s + 1 \<and> recv_seq s' = recv_seq s \<and>
      trace s' = trace s @ [Sent (RappEnvelope_new mt sid (send_seq s) bd)]"
  using assms
  by (auto simp: send_envelope_def advance_send_def st_then_def pure_st_def Let_def
      split: prod.splits res.splits if_splits)

lemma guarded_sent:
  assumes "guarded sid s" and "send_seq s \<noteq> u64_max" and "send_seq s' = send_seq s + 1"
    and "recv_seq s' = recv_seq s" and "trace s' = trace s @ [Sent (RappEnvelope_new mt sid (send_seq s) bd)]"
  shows "guarded sid s'"
proof -
  have "numbered (sent (trace s) @ [RappEnvelope_new mt sid (send_seq s) bd])"
    by (rule numbered_snoc) (use assms(1,2) in \<open>simp_all add: guarded_def sent_ok_def RappEnvelope_new_def\<close>)
  then show ?thesis using assms
    by (simp add: guarded_def sent_ok_def) (simp add: RappEnvelope_new_def)
qed

lemma stopped_step: "stopped script (step_of In mt)"
  by (simp add: step_of_def stopped_nil stopped_received)

lemma follows_send: "follows sid s (send_envelope c mt sid bd s) (step_of Out mt)"
proof (cases "send_envelope c mt sid bd s")
  case (Pair r s')
  show ?thesis
  proof (cases "is_ok r")
    case True
    then obtain u where r: "r = Ok u" by (cases r) auto
    have e: "send_seq s \<noteq> u64_max" "send_seq s' = send_seq s + 1" "recv_seq s' = recv_seq s"
      "trace s' = trace s @ [Sent (RappEnvelope_new mt sid (send_seq s) bd)]"
      using send_envelope_effect(2) [OF Pair r] by simp_all
    show ?thesis unfolding Pair
      by (rule follows_okI [OF True e(4)], erule guarded_sent [OF _ e]) (simp add: RappEnvelope_new_def)
  next
    case False
    have "trace s' = trace s" using send_envelope_effect(1) [OF Pair False] .
    then show ?thesis unfolding Pair
      by (intro follows_stopI [OF False, where evs = "[]"]) (simp_all add: stopped_nil guarded_def sent_ok_def)
  qed
qed

lemma recv_envelope_effect:
  assumes "recv_envelope c s = (r, s')"
  shows "send_seq s' = send_seq s" and "recv_seq s' = recv_seq s" and "\<not> is_ok r \<Longrightarrow> trace s' = trace s"
    and "r = Ok env \<Longrightarrow> trace s' = trace s @ [Received env]"
  using assms
  by (auto simp: recv_envelope_def st_then_def pure_st_def split: prod.splits res.splits dest: sym)

text \<open>An envelope that was received and has the next sequence number.\<close>

definition recv_checked :: "noise_crypto \<Rightarrow> session \<Rightarrow> rapp_envelope wres \<times> session" where
  "recv_checked c s =
     st_then (recv_envelope c s) (\<lambda>env s. st_then (check_sequence env s) (\<lambda>_ s. (Ok env, s)))"

lemma check_sequence_effect:
  assumes "check_sequence env s = (r, s')"
  shows "send_seq s' = send_seq s" and "trace s' = trace s"
    and "is_ok r \<Longrightarrow> sequence env = recv_seq s \<and> recv_seq s \<noteq> u64_max \<and> recv_seq s' = recv_seq s + 1"
  using assms by (auto simp: check_sequence_def check_and_advance_recv_def split: if_splits)

lemma guarded_received:
  assumes "guarded sid s" and "sequence env = recv_seq s" and "recv_seq s \<noteq> u64_max"
    and "send_seq s' = send_seq s" and "recv_seq s' = recv_seq s + 1" and "trace s' = trace s @ [Received env]"
  shows "guarded sid s'"
proof -
  have "numbered (received (trace s) @ [env])"
    by (rule numbered_snoc) (use assms in \<open>simp_all add: guarded_def\<close>)
  then show ?thesis using assms by (simp add: guarded_def sent_ok_def)
qed

lemma recv_checked_ok:
  assumes "recv_checked c s = (Ok env, s')"
  shows "follows sid s (Ok env, s') (step_of In (msg_type env))"
proof -
  from assms obtain s1 u where 1: "recv_envelope c s = (Ok env, s1)" and 2: "check_sequence env s1 = (Ok u, s')"
    by (auto simp: recv_checked_def elim!: st_then_OkE)
  have tr: "trace s' = trace s @ [Received env]"
    using recv_envelope_effect(4) [OF 1 refl] check_sequence_effect(2) [OF 2] by simp
  have "sequence env = recv_seq s" "recv_seq s \<noteq> u64_max" "send_seq s' = send_seq s" "recv_seq s' = recv_seq s + 1"
    using recv_envelope_effect(1,2) [OF 1] check_sequence_effect [OF 2] by simp_all
  then have "guarded sid s \<Longrightarrow> guarded sid s'" using guarded_received tr by blast
  with tr show ?thesis by (intro follows_okI [OF _ tr]) simp_all
qed

lemma recv_checked_stop:
  assumes "recv_checked c s = (r, s')" and "\<not> is_ok r"
  shows "follows sid s (r, s') script"
proof (cases "recv_envelope c s")
  case (Pair r1 s1)
  show ?thesis
  proof (cases r1)
    case (Ok env)
    obtain r2 s2 where 2: "check_sequence env s1 = (r2, s2)" by (cases "check_sequence env s1")
    have s': "s' = s2" using assms Pair Ok 2
      by (cases r2) (auto simp: recv_checked_def st_then_def)
    have tr: "trace s' = trace s @ [Received env]"
      using recv_envelope_effect(4) [OF Pair Ok] check_sequence_effect(2) [OF 2] s' by simp
    show ?thesis
      by (rule follows_stopI [OF assms(2) tr]) (use tr in \<open>simp_all add: stopped_step guarded_def sent_ok_def\<close>)
  qed (use assms Pair recv_envelope_effect(3) [OF Pair] in
      \<open>auto intro!: follows_stopI [where evs = "[]"] simp: recv_checked_def st_then_def stopped_nil guarded_def sent_ok_def\<close>)
qed

lemma recv_expected_eq:
  "recv_expected c mt field s =
     st_then (recv_envelope c s) (\<lambda>env s1.
       if msg_type env = mt then st_then (check_sequence env s1) (\<lambda>_ s. (Ok env, s))
       else (Err (InvalidValue field), s1))"
  unfolding recv_expected_def expect_type_def
  by (rule arg_cong [of _ _ "st_then (recv_envelope c s)"]) (simp add: fun_eq_iff)

lemma follows_recv_expected: "follows sid s (recv_expected c mt field s) (step_of In mt)"
proof (cases "recv_envelope c s")
  case (Pair r1 s1)
  show ?thesis
  proof (cases "\<exists>env. r1 = Ok env \<and> msg_type env \<noteq> mt")
    case True
    then obtain env where env: "r1 = Ok env" "msg_type env \<noteq> mt" by blast
    have tr: "trace s1 = trace s @ [Received env]" using recv_envelope_effect(4) [OF Pair env(1)] .
    have "recv_expected c mt field s = (Err (InvalidValue field), s1)"
      using Pair env by (simp add: recv_expected_eq st_then_def)
    then show ?thesis using tr
      by (auto intro!: follows_stopI [OF _ tr] simp: stopped_step guarded_def sent_ok_def)
  next
    case False
    then have eq: "recv_expected c mt field s = recv_checked c s"
      using Pair by (cases r1) (simp_all add: recv_expected_eq recv_checked_def)
    obtain r s' where m: "recv_checked c s = (r, s')" by (cases "recv_checked c s")
    show ?thesis
    proof (cases "is_ok r")
      case True
      then obtain env where r: "r = Ok env" by (auto simp: is_ok_iff)
      have "r1 = Ok env" using m r Pair by (auto simp: recv_checked_def elim!: st_then_OkE)
      then show ?thesis using False recv_checked_ok m r eq by auto
    qed (use recv_checked_stop m eq in auto)
  qed
qed

lemma read_operation_envelope_eq:
  "read_operation_envelope c sid s =
     st_then (recv_checked c s) (\<lambda>env s2.
       case msg_type env of
         LivenessPing \<Rightarrow>
           (case bt_get (body env) ''challenge'' of
              Some (Bytes challenge) \<Rightarrow>
                st_then (send_envelope c LivenessPong sid (pong_body challenge (last_seen (recv_seq s2))) s2)
                  (\<lambda>_. read_operation_envelope c sid)
            | _ \<Rightarrow> (Err (MissingField ''challenge''), s2))
       | OperationStatus \<Rightarrow> read_operation_envelope c sid s2
       | _ \<Rightarrow> (Ok env, s2))"
proof (cases "recv_envelope c s")
  case 1: (Pair r1 s1)
  show ?thesis
  proof (cases r1)
    case (Ok env)
    obtain r2 s2 where 2: "check_sequence env s1 = (r2, s2)" by (cases "check_sequence env s1")
    show ?thesis
      by (subst read_operation_envelope.simps) (cases r2;
        simp add: 1 2 Ok recv_checked_def split: message_type.split option.split wire_value.split prod.split res.split)
  qed (subst read_operation_envelope.simps, simp add: 1 recv_checked_def)+
qed

lemma recv_checked_shrinks:
  "recv_checked c s = (Ok env, s') \<Longrightarrow> length (incoming (stream s')) < length (incoming (stream s))"
  by (auto simp: recv_checked_def elim!: st_then_OkE dest!: recv_envelope_shrinks check_sequence_stream)

text \<open>What a read of the operation phase may do: one step on success, at most one on failure.\<close>

definition reads_one :: "bytes \<Rightarrow> session \<Rightarrow> rapp_envelope wres \<times> session \<Rightarrow> bool" where
  "reads_one sid s m \<longleftrightarrow>
     (case fst m of Ok env \<Rightarrow> follows sid s m [(In, msg_type env)] | _ \<Rightarrow> \<forall>script. follows sid s m script)"

lemma follows_fail_any: "follows sid s (r, s') [] \<Longrightarrow> \<not> is_ok r \<Longrightarrow> follows sid s (r, s') script"
  using stopped_left [of "[]" _ script] by (auto simp: follows_def)

lemma follows_fail_cong: "follows sid s (r, s') script \<Longrightarrow> \<not> is_ok r \<Longrightarrow> \<not> is_ok r' \<Longrightarrow> follows sid s (r', s') script"
  by (simp add: follows_def)

lemma follows_fail: "\<not> is_ok r \<Longrightarrow> follows sid s (r, s) script"
  by (rule follows_fail_any [OF follows_return])

lemma reads_one_after:
  assumes "follows sid s m []" and "\<And>a s'. m = (Ok a, s') \<Longrightarrow> reads_one sid s' (f a s')"
  shows "reads_one sid s (st_then m f)"
proof -
  have *: "follows sid s (st_then m f) script"
    if "\<And>a s'. m = (Ok a, s') \<Longrightarrow> follows sid s' (f a s') script" for script
    using follows_st_then [OF assms(1) that] by simp
  show ?thesis
  proof (cases "fst (st_then m f)")
    case (Ok env)
    then show ?thesis using assms(2) by (auto simp: reads_one_def intro!: *)
  next
    case (Err e)
    then show ?thesis using assms(2) by (auto simp: reads_one_def intro!: *)
  next
    case Panic
    then show ?thesis using assms(2) by (auto simp: reads_one_def intro!: *)
  qed
qed

lemma reads_one_read_operation: "reads_one sid s (read_operation_envelope c sid s)"
proof (induction "length (incoming (stream s))" arbitrary: s rule: less_induct)
  case less
  obtain r s2 where m: "recv_checked c s = (r, s2)" by (cases "recv_checked c s")
  note unfold = read_operation_envelope_eq [of c sid s, unfolded m]
  show ?case
  proof (cases r)
    case (Ok env)
    have fol: "follows sid s (Ok env, s2) (step_of In (msg_type env))" using recv_checked_ok m Ok by simp
    have sh: "length (incoming (stream s2)) < length (incoming (stream s))"
      using recv_checked_shrinks m Ok by simp
    have again: "reads_one sid s2 (read_operation_envelope c sid s2)" using less sh by simp
    consider "msg_type env = LivenessPing" | "msg_type env = OperationStatus"
      | "\<not> is_liveness (In, msg_type env)" by (auto simp: is_liveness_def)
    then show ?thesis
    proof cases
      case 1
      have nil: "follows sid s (Ok env, s2) []" using fol 1 by (simp add: step_of_def is_liveness_def)
      define body where "body = (\<lambda>s2. case bt_get (rapp_envelope.body env) ''challenge'' of
          Some (Bytes challenge) \<Rightarrow>
            st_then (send_envelope c LivenessPong sid (pong_body challenge (last_seen (recv_seq s2))) s2)
              (\<lambda>_. read_operation_envelope c sid)
        | _ \<Rightarrow> (Err (MissingField ''challenge''), s2))"
      have "reads_one sid s2 (body s2)"
      proof (cases "\<exists>ch. bt_get (rapp_envelope.body env) ''challenge'' = Some (Bytes ch)")
        case True
        then obtain ch where ch: "bt_get (rapp_envelope.body env) ''challenge'' = Some (Bytes ch)" by blast
        have pong: "follows sid s2 (send_envelope c LivenessPong sid (pong_body ch (last_seen (recv_seq s2))) s2) []"
          using follows_send [of sid s2 c LivenessPong] by (simp add: step_of_def is_liveness_def)
        have "reads_one sid s2 (st_then (send_envelope c LivenessPong sid (pong_body ch (last_seen (recv_seq s2))) s2)
            (\<lambda>_. read_operation_envelope c sid))"
          by (rule reads_one_after [OF pong]) (use less sh send_envelope_incoming in fastforce)
        then show ?thesis by (simp add: body_def ch)
      next
        case False
        then have "body s2 = (Err (MissingField ''challenge''), s2)"
          by (auto simp: body_def split: option.split wire_value.split)
        then show ?thesis by (auto simp: reads_one_def intro: follows_fail)
      qed
      then have "reads_one sid s (st_then (Ok env, s2) (\<lambda>_. body))"
        by (intro reads_one_after [OF nil]) auto
      then show ?thesis using 1 by (simp add: unfold Ok body_def)
    next
      case 2
      then have nil: "follows sid s (Ok env, s2) []" using fol by (simp add: step_of_def is_liveness_def)
      have "reads_one sid s (st_then (Ok env, s2) (\<lambda>_. read_operation_envelope c sid))"
        by (rule reads_one_after [OF nil]) (use again in auto)
      then show ?thesis using 2 by (simp add: unfold Ok)
    next
      case 3
      then have "read_operation_envelope c sid s = (Ok env, s2)"
        by (simp add: unfold Ok is_liveness_def split: message_type.split)
      then show ?thesis using fol 3 by (simp add: reads_one_def step_of_def)
    qed
  qed (use recv_checked_stop [OF m] in \<open>auto simp: unfold reads_one_def\<close>)
qed

lemma follows_read_expected: "follows sid s (read_expected c sid mt field s) [(In, mt)]"
proof (cases "read_operation_envelope c sid s")
  case (Pair r s')
  have one: "reads_one sid s (r, s')" using reads_one_read_operation [of sid s c] Pair by simp
  show ?thesis
  proof (cases r)
    case (Ok env)
    have fol: "follows sid s (Ok env, s') [(In, msg_type env)]" using one Ok by (simp add: reads_one_def)
    show ?thesis
    proof (cases "msg_type env = mt")
      case True
      then show ?thesis using fol Pair Ok by (simp add: read_expected_def expect_type_def)
    next
      case False
      have "follows sid s (Err (InvalidValue field) :: rapp_envelope wres, s') [(In, mt)]"
      proof (rule follows_unguarded)
        assume "guarded sid s"
        with fol obtain evs where "trace s' = trace s @ evs" "guarded sid s'" "protocol_steps evs = [(In, msg_type env)]"
          by (rule follows_okE) simp_all
        then show "follows sid s (Err (InvalidValue field) :: rapp_envelope wres, s') [(In, mt)]"
          by (intro follows_stopI) (auto simp: guarded_sent_ok stopped_received)
      qed
      then show ?thesis using Pair Ok False by (simp add: read_expected_def expect_type_def)
    qed
  qed (use one Pair in \<open>auto simp: reads_one_def read_expected_def intro: follows_fail_cong\<close>)
qed

lemma follows_commit_phase:
  "follows sid s (commit_phase c sid op_id req_hash s) [(In, OperationPrepared), (Out, OperationCommit)]"
proof -
  have "follows sid s (commit_phase c sid op_id req_hash s) ([(In, OperationPrepared)] @ step_of Out OperationCommit)"
    unfolding commit_phase_def by (rule follows_st_then [OF follows_read_expected follows_send])
  then show ?thesis by (simp add: step_of_def is_liveness_def)
qed

definition operation_script :: "bool \<Rightarrow> (direction \<times> message_type) list" where
  "operation_script consequential =
     [(Out, SessionReady), (In, SessionReady), (Out, OperationRequest)] @
     (if consequential then [(In, OperationPrepared), (Out, OperationCommit)] else []) @
     [(In, OperationResult), (Out, OperationResultAck)]"

definition pairing_script :: "(direction \<times> message_type) list" where
  "pairing_script = [(Out, PairingHello), (In, PairingHello), (In, PairingConfirm), (Out, PairingConfirm)]"

lemma step_of_fixed [simp]:
  "step_of Out SessionReady = [(Out, SessionReady)]" "step_of In SessionReady = [(In, SessionReady)]"
  "step_of Out OperationRequest = [(Out, OperationRequest)]"
  "step_of Out OperationResultAck = [(Out, OperationResultAck)]"
  "step_of Out PairingHello = [(Out, PairingHello)]" "step_of In PairingHello = [(In, PairingHello)]"
  "step_of Out PairingConfirm = [(Out, PairingConfirm)]" "step_of In PairingConfirm = [(In, PairingConfirm)]"
  by (simp_all add: step_of_def is_liveness_def)

lemma follows_pairing: "follows sid s (run_pairing c sid oh ctx nm plat s) pairing_script"
proof -
  have "follows sid s (run_pairing c sid oh ctx nm plat s)
      (step_of Out PairingHello @ step_of In PairingHello @ step_of In PairingConfirm @ step_of Out PairingConfirm @ [])"
    unfolding run_pairing_def Let_def
    by (intro follows_st_then follows_send follows_recv_expected follows_return)
  then show ?thesis by (simp add: pairing_script_def)
qed

lemma follows_operation:
  "follows sid s (run_operation c sid nonce_bytes op_id pair opn s) (operation_script (is_consequential opn))"
proof -
  have commit: "follows sid s (if is_consequential opn then commit_phase c sid op_id rh s else (Ok (), s))
      (if is_consequential opn then [(In, OperationPrepared), (Out, OperationCommit)] else [])" for s rh
    by (simp add: follows_commit_phase follows_return)
  have res: "follows sid s (if status \<noteq> Completed then (Err (InvalidValue ''operation_rejected''), s)
      else st_then (send_envelope c OperationResultAck sid bd s) (\<lambda>_ s. pure_st r s)) (step_of Out OperationResultAck)"
    for s status bd and r :: "card_operation_result wres"
    using follows_fail [of "Err (InvalidValue ''operation_rejected'') :: card_operation_result wres" sid s]
      follows_st_then [OF follows_send follows_pure, of sid s c OperationResultAck bd "\<lambda>_ _. r"] by simp
  have "follows sid s (run_operation c sid nonce_bytes op_id pair opn s)
      (step_of Out SessionReady @ step_of In SessionReady @ [] @ step_of Out OperationRequest @
       (if is_consequential opn then [(In, OperationPrepared), (Out, OperationCommit)] else []) @
       [(In, OperationResult)] @ [] @ step_of Out OperationResultAck)"
    unfolding run_operation_def
    by (intro follows_st_then follows_send follows_recv_expected follows_pure commit follows_read_expected res)
  then show ?thesis by (simp add: operation_script_def)
qed

lemma guarded_new: "guarded sid (new_session st ciphers)"
  by (simp add: guarded_def sent_ok_def numbered_def new_session_def SequenceGuard_new_def)

text \<open>\<open>follows\<close> for a run on a fresh session, spelled out over the whole history.\<close>

definition obeys :: "bytes \<Rightarrow> (direction \<times> message_type) list \<Rightarrow> 'a wres \<times> session \<Rightarrow> bool" where
  "obeys sid script m \<longleftrightarrow>
     numbered (sent (trace (snd m))) \<and> list_all (\<lambda>e. session_id e = sid) (sent (trace (snd m))) \<and>
     (if is_ok (fst m) then protocol_steps (trace (snd m)) = script \<and> numbered (received (trace (snd m)))
      else stopped script (protocol_steps (trace (snd m))))"

lemma follows_obeys:
  assumes "follows sid (new_session st ciphers) m script"
  shows "obeys sid script m"
  using assms guarded_new [of sid st ciphers]
  by (auto simp: follows_def obeys_def new_session_def guarded_def sent_ok_def)

text \<open>C9. The operation driver follows its script, whatever the peer sends and whenever the transport
  fails. If it returns a result, the messages exchanged, apart from liveness traffic, are exactly
  \<open>session.ready\<close> both ways, the request, for a consequential operation \<open>operation.prepared\<close> before
  \<open>operation.commit\<close>, the result and its acknowledgement, and the received sequence numbers count from
  zero. If it fails, it stopped inside that script, at most one unexpected message after a step it had
  completed: a commit is never sent before the peer has prepared. Either way every message it sent
  carries the session identifier and the next sequence number.\<close>

theorem operation_follows_script:
  "obeys sid (operation_script (is_consequential opn))
     (run_operation c sid nonce_bytes op_id pair opn (new_session st ciphers))"
  by (rule follows_obeys [OF follows_operation])

text \<open>The pairing driver follows its script in the same sense: hello, the peer's hello and confirm, and
  only then its own confirm.\<close>

theorem pairing_follows_script:
  "obeys sid pairing_script (run_pairing c sid oh ctx nm plat (new_session st ciphers))"
  by (rule follows_obeys [OF follows_pairing])

subsection \<open>Delivery between two sessions\<close>

lemma send_envelope_Ok:
  assumes "send_envelope c mt sid bd s = (Ok u, s')"
  obtains plain ct cs where "envelope_encode (RappEnvelope_new mt sid (send_seq s) bd) = Ok plain"
    and "cs_encrypt c (send_cipher s) [] plain = (Ok ct, cs)" and "framable ct" and "3 \<le> write_budget (stream s)"
    and "send_seq s \<noteq> u64_max"
    and "s' = s\<lparr>send_seq := send_seq s + 1, send_cipher := cs,
          stream := (stream s)\<lparr>outgoing := outgoing (stream s) @ frame_bytes ct, write_budget := write_budget (stream s) - 3\<rparr>,
          trace := trace s @ [Sent (RappEnvelope_new mt sid (send_seq s) bd)]\<rparr>"
  using assms
  by (auto simp: send_envelope_def advance_send_def pure_st_def Let_def write_frame_Ok
      split: prod.splits if_splits elim!: st_then_OkE)

lemma cs_encrypt_decrypt:
  assumes "crypto_ok c" and "cipher_key cs = Some k" and "cs_encrypt c cs aad p = (Ok ct, cs')"
  shows "cs_decrypt c cs aad ct = (Ok p, cs')" and "length ct = length p + 16" and "cipher_key cs' = Some k"
proof -
  from assms(2,3) have s: "aead_seal c k (nonce (counter cs)) aad p = Some ct" and "counter cs \<noteq> u64_max"
    and "cs' = cs\<lparr>counter := counter cs + 1\<rparr>"
    by (auto simp: cs_encrypt_def split: option.splits if_splits)
  moreover from s assms(1) have "length ct = length p + 16 \<and> aead_open c k (nonce (counter cs)) aad ct = Some p"
    unfolding crypto_ok_def by blast
  ultimately show "cs_decrypt c cs aad ct = (Ok p, cs')" "length ct = length p + 16" "cipher_key cs' = Some k"
    using assms(2) by (simp_all add: cs_decrypt_def)
qed

text \<open>The receiving end of a channel: its cipher and guard are where the sender's are.\<close>

definition listens :: "session \<Rightarrow> session \<Rightarrow> bool" where
  "listens a b \<longleftrightarrow> recv_cipher b = send_cipher a \<and> recv_seq b = send_seq a \<and> cipher_key (send_cipher a) \<noteq> None"

definition body_ok :: "bytes \<Rightarrow> wire_map \<Rightarrow> bool" where
  "body_ok sid bd \<longleftrightarrow> length sid = 16 \<and> wire_ok (Map bd)"

lemma env_ok_new: "body_ok sid bd \<Longrightarrow> env_ok (RappEnvelope_new mt sid sq bd)"
  by (simp add: env_ok_def RappEnvelope_new_def body_ok_def)

text \<open>
  What a session sends, the listening session receives: the written bytes are one frame, from which
  the peer reads the same envelope, in sequence, and the two stay in step.
\<close>

lemma delivery:
  assumes ok: "crypto_ok c" and send: "send_envelope c mt sid bd a = (Ok u, a')" and "listens a b" and "body_ok sid bd"
  shows "\<exists>w. outgoing (stream a') = outgoing (stream a) @ w \<and>
    (\<forall>rest. incoming (stream b) = w @ rest \<longrightarrow>
      (\<exists>b'. recv_checked c b = (Ok (RappEnvelope_new mt sid (send_seq a) bd), b') \<and>
        incoming (stream b') = rest \<and> listens a' b' \<and> send_cipher b' = send_cipher b \<and> send_seq b' = send_seq b \<and>
        outgoing (stream b') = outgoing (stream b) \<and> write_budget (stream b') = write_budget (stream b)))"
proof -
  let ?env = "RappEnvelope_new mt sid (send_seq a) bd"
  from send obtain plain ct cs where s: "envelope_encode ?env = Ok plain"
      "cs_encrypt c (send_cipher a) [] plain = (Ok ct, cs)" "framable ct" "send_seq a \<noteq> u64_max"
      "a' = a\<lparr>send_seq := send_seq a + 1, send_cipher := cs,
          stream := (stream a)\<lparr>outgoing := outgoing (stream a) @ frame_bytes ct, write_budget := write_budget (stream a) - 3\<rparr>,
          trace := trace a @ [Sent ?env]\<rparr>"
    by (rule send_envelope_Ok)
  from assms(3) obtain k where k: "cipher_key (send_cipher a) = Some k" by (auto simp: listens_def)
  note dec = cs_encrypt_decrypt [OF ok k s(2)]
  have "length plain \<le> MAX_FRAME_PLAINTEXT" using dec(2) s(3) by (simp add: framable_def)
  then have env: "envelope_decode plain = Ok ?env"
    by (intro envelope.dec_enc [OF _ s(1)] env_ok_new assms(4))
  have "\<exists>b'. recv_checked c b = (Ok ?env, b') \<and> incoming (stream b') = rest \<and> listens a' b' \<and>
      send_cipher b' = send_cipher b \<and> send_seq b' = send_seq b \<and>
      outgoing (stream b') = outgoing (stream b) \<and> write_budget (stream b') = write_budget (stream b)"
    if inc: "incoming (stream b) = frame_bytes ct @ rest" for rest
  proof -
    have rd: "read_frame (stream b) = (Ok ct, (stream b)\<lparr>incoming := rest\<rparr>)"
      unfolding read_frame_Ok using inc s(3) by blast
    have cb: "cs_decrypt c (recv_cipher b) [] ct = (Ok plain, cs)" and sq: "sequence ?env = recv_seq b"
      "recv_seq b \<noteq> u64_max" using assms(3) dec(1) s(4) by (simp_all add: listens_def RappEnvelope_new_def)
    show ?thesis
      using rd cb env sq s(5) dec(3) assms(3)
      by (simp add: recv_checked_def recv_envelope_def pure_st_def check_sequence_def
          check_and_advance_recv_def listens_def)
  qed
  with s(5) show ?thesis by (intro exI [of _ "frame_bytes ct"]) simp
qed

subsection \<open>A cooperating peer\<close>

fun send_all :: "noise_crypto \<Rightarrow> bytes \<Rightarrow> (message_type \<times> wire_map) list \<Rightarrow> session \<Rightarrow> unit wres \<times> session" where
  "send_all c sid [] s = (Ok (), s)"
| "send_all c sid ((mt, bd) # ms) s = st_then (send_envelope c mt sid bd s) (\<lambda>_. send_all c sid ms)"

text \<open>The input of \<open>s\<close> is what a peer in step with it writes when it sends \<open>ms\<close>.\<close>

definition hears :: "noise_crypto \<Rightarrow> bytes \<Rightarrow> (message_type \<times> wire_map) list \<Rightarrow> session \<Rightarrow> bool" where
  "hears c sid ms s \<longleftrightarrow> list_all (\<lambda>(mt, bd). body_ok sid bd) ms \<and>
     (\<exists>p p'. send_all c sid ms p = (Ok (), p') \<and> listens p s \<and>
       outgoing (stream p') = outgoing (stream p) @ incoming (stream s))"

text \<open>Room for \<open>k\<close> more messages, the next of which has number \<open>n\<close>.\<close>

definition can_send :: "nat \<Rightarrow> nat \<Rightarrow> session \<Rightarrow> bool" where
  "can_send n k s \<longleftrightarrow> cipher_key (send_cipher s) \<noteq> None \<and> counter (send_cipher s) = word_of_nat n \<and>
     send_seq s = word_of_nat n \<and> n + k < 2 ^ 64 \<and> 3 * k \<le> write_budget (stream s)"

definition keeps_room :: "session \<Rightarrow> session \<Rightarrow> bool" where
  "keeps_room s s' \<longleftrightarrow> (\<forall>n k. can_send n k s \<longrightarrow> can_send n k s')"

lemma keeps_room_trans: "keeps_room s s1 \<Longrightarrow> keeps_room s1 s2 \<Longrightarrow> keeps_room s s2"
  by (simp add: keeps_room_def)

definition sendable :: "message_type \<Rightarrow> bytes \<Rightarrow> nat \<Rightarrow> wire_map \<Rightarrow> bool" where
  "sendable mt sid n bd \<longleftrightarrow>
     (case envelope_encode (RappEnvelope_new mt sid (word_of_nat n) bd) of
        Ok plain \<Rightarrow> length plain \<le> MAX_FRAME_PLAINTEXT
      | _ \<Rightarrow> False)"

lemma send_all_outgoing:
  "send_all c sid ms p = (Ok u, p') \<Longrightarrow> \<exists>w. outgoing (stream p') = outgoing (stream p) @ w"
proof (induction c sid ms p rule: send_all.induct)
  case (2 c sid mt bd ms s)
  from 2(2) obtain a s1 where 1: "send_envelope c mt sid bd s = (Ok a, s1)" and rest: "send_all c sid ms s1 = (Ok u, p')"
    by (auto elim: st_then_OkE)
  from 1 have "\<exists>w. outgoing (stream s1) = outgoing (stream s) @ w" by (rule send_envelope_Ok) simp
  with 2(1) [OF rest] show ?case by fastforce
qed simp

lemma listens_cong: "recv_cipher s' = recv_cipher s \<Longrightarrow> recv_seq s' = recv_seq s \<Longrightarrow> listens p s' \<longleftrightarrow> listens p s"
  by (simp add: listens_def)

lemma hears_step:
  assumes "crypto_ok c" and "hears c sid ((mt, bd) # ms) s"
  obtains s' sq where "recv_checked c s = (Ok (RappEnvelope_new mt sid sq bd), s')" and "hears c sid ms s'"
    and "keeps_room s s'"
proof -
  from assms(2) obtain p p1 p' where 1: "send_envelope c mt sid bd p = (Ok (), p1)" and rest: "send_all c sid ms p1 = (Ok (), p')"
    and l: "listens p s" and out: "outgoing (stream p') = outgoing (stream p) @ incoming (stream s)"
    and ok: "body_ok sid bd" "list_all (\<lambda>(mt, bd). body_ok sid bd) ms"
    unfolding hears_def by (auto elim!: st_then_OkE)
  obtain w where w: "outgoing (stream p1) = outgoing (stream p) @ w"
    and recv: "\<forall>rest. incoming (stream s) = w @ rest \<longrightarrow>
      (\<exists>b'. recv_checked c s = (Ok (RappEnvelope_new mt sid (send_seq p) bd), b') \<and>
        incoming (stream b') = rest \<and> listens p1 b' \<and> send_cipher b' = send_cipher s \<and> send_seq b' = send_seq s \<and>
        outgoing (stream b') = outgoing (stream s) \<and> write_budget (stream b') = write_budget (stream s))"
    using delivery [OF assms(1) 1 l ok(1)] by blast
  obtain w2 where w2: "outgoing (stream p') = outgoing (stream p1) @ w2" using send_all_outgoing [OF rest] by blast
  then have inc: "incoming (stream s) = w @ w2" using w out by simp
  from recv inc obtain b' where b: "recv_checked c s = (Ok (RappEnvelope_new mt sid (send_seq p) bd), b')"
    "incoming (stream b') = w2" "listens p1 b'" "send_cipher b' = send_cipher s" "send_seq b' = send_seq s"
    "write_budget (stream b') = write_budget (stream s)" by blast
  have "hears c sid ms b'" unfolding hears_def using ok(2) rest b(2,3) w2 by blast
  then show ?thesis using that [OF b(1)] b(4-6) by (simp add: can_send_def keeps_room_def)
qed

lemma can_send_step:
  assumes ok: "crypto_ok c" and s: "can_send n (Suc k) s" and "sendable mt sid n bd"
  obtains s' where "send_envelope c mt sid bd s = (Ok (), s')" and "can_send (Suc n) k s'"
    and "\<And>ms. hears c sid ms s \<Longrightarrow> hears c sid ms s'"
proof -
  from assms(3) obtain plain where p: "envelope_encode (RappEnvelope_new mt sid (word_of_nat n) bd) = Ok plain"
    "length plain \<le> MAX_FRAME_PLAINTEXT" by (auto simp: sendable_def split: res.splits)
  from s obtain key where key: "cipher_key (send_cipher s) = Some key" by (auto simp: can_send_def)
  have n: "unat (word_of_nat n :: u64) = n" using s by (simp add: can_send_def unat_of_nat)
  then have max: "send_seq s \<noteq> u64_max" using s unfolding u64_max_iff by (simp add: can_send_def)
  have "unat (counter (send_cipher s)) < 2 ^ 64 - 1" using s n by (simp add: can_send_def)
  then obtain ct where ct: "cs_encrypt c (send_cipher s) [] plain =
      (Ok ct, (send_cipher s)\<lparr>counter := counter (send_cipher s) + 1\<rparr>)"
    by (rule seal_open [OF ok key, of plain "[]"]) (use p(2) in auto)
  have "framable ct" using cs_encrypt_decrypt(2) [OF ok key ct] p(2) by (auto simp: framable_def)
  then have fr: "write_frame ct (stream s) = (Ok (), (stream s)\<lparr>outgoing := outgoing (stream s) @ frame_bytes ct,
      write_budget := write_budget (stream s) - 3\<rparr>)"
    using s by (simp add: write_frame_Ok can_send_def)
  let ?s = "s\<lparr>send_seq := send_seq s + 1, send_cipher := (send_cipher s)\<lparr>counter := counter (send_cipher s) + 1\<rparr>,
      stream := (stream s)\<lparr>outgoing := outgoing (stream s) @ frame_bytes ct, write_budget := write_budget (stream s) - 3\<rparr>,
      trace := trace s @ [Sent (RappEnvelope_new mt sid (send_seq s) bd)]\<rparr>"
  show ?thesis
  proof (rule that)
    show "send_envelope c mt sid bd s = (Ok (), ?s)"
      using max p(1) ct fr s by (simp add: send_envelope_def advance_send_def pure_st_def Let_def can_send_def)
    show "can_send (Suc n) k ?s" using s by (auto simp: can_send_def)
    show "hears c sid ms ?s" if "hears c sid ms s" for ms
      using that by (simp add: hears_def listens_def)
  qed
qed

lemma hears_recv_expected:
  assumes "crypto_ok c" and "hears c sid ((mt, bd) # ms) s"
  obtains s' env where "recv_expected c mt field s = (Ok env, s')" and "hears c sid ms s'"
    and "keeps_room s s'"
proof -
  obtain s' sq where s': "recv_checked c s = (Ok (RappEnvelope_new mt sid sq bd), s')" "hears c sid ms s'"
    "keeps_room s s'"
    using hears_step [OF assms] by blast
  then have "recv_expected c mt field s = (Ok (RappEnvelope_new mt sid sq bd), s')"
    by (auto simp: recv_checked_def recv_expected_eq RappEnvelope_new_def elim!: st_then_OkE)
  then show ?thesis using s'(2,3) by (rule that)
qed

lemma hears_read_operation:
  assumes "crypto_ok c" and "hears c sid (map (Pair OperationStatus) bs @ (mt, bd) # ms) s"
    and "mt \<noteq> LivenessPing" and "mt \<noteq> OperationStatus"
  shows "\<exists>s' sq. read_operation_envelope c sid s = (Ok (RappEnvelope_new mt sid sq bd), s') \<and> hears c sid ms s' \<and>
    keeps_room s s'"
  using assms(2)
proof (induction bs arbitrary: s)
  case Nil
  then have "hears c sid ((mt, bd) # ms) s" by simp
  with assms(1) obtain s' sq where "recv_checked c s = (Ok (RappEnvelope_new mt sid sq bd), s')" "hears c sid ms s'"
    "keeps_room s s'" by (rule hears_step)
  moreover have "read_operation_envelope c sid s = recv_checked c s" if "recv_checked c s = (Ok (RappEnvelope_new mt sid sq bd), s')"
    for sq s' using that assms(3,4)
    by (subst read_operation_envelope_eq) (simp add: RappEnvelope_new_def split: message_type.split)
  ultimately show ?case by auto
next
  case (Cons b bs)
  then have "hears c sid ((OperationStatus, b) # map (Pair OperationStatus) bs @ (mt, bd) # ms) s" by simp
  with assms(1) obtain s1 sq where 1: "recv_checked c s = (Ok (RappEnvelope_new OperationStatus sid sq b), s1)"
    "hears c sid (map (Pair OperationStatus) bs @ (mt, bd) # ms) s1" "keeps_room s s1" by (rule hears_step)
  have "read_operation_envelope c sid s = read_operation_envelope c sid s1"
    using 1(1) by (subst read_operation_envelope_eq) (simp add: RappEnvelope_new_def)
  with Cons.IH [OF 1(2)] keeps_room_trans [OF 1(3)] show ?case by auto
qed

lemma hears_read_expected:
  assumes "crypto_ok c" and "hears c sid (map (Pair OperationStatus) bs @ (mt, bd) # ms) s"
    and "mt \<noteq> LivenessPing \<and> mt \<noteq> OperationStatus"
  shows "\<exists>s' env. read_expected c sid mt field s = (Ok env, s') \<and> body env = bd \<and> hears c sid ms s' \<and> keeps_room s s'"
proof -
  obtain s' sq where "read_operation_envelope c sid s = (Ok (RappEnvelope_new mt sid sq bd), s')" "hears c sid ms s'"
    "keeps_room s s'" using hears_read_operation [OF assms(1,2)] assms(3) by blast
  then show ?thesis
    by (intro exI [of _ s'] exI [of _ "RappEnvelope_new mt sid sq bd"])
      (simp add: read_expected_def expect_type_def RappEnvelope_new_def)
qed

lemma hears_commit_phase:
  assumes "crypto_ok c" and "hears c sid (map (Pair OperationStatus) bs @ (OperationPrepared, pb) # ms) s"
    and "can_send n (Suc k) s" and "sendable OperationCommit sid n (reference_body op_id rh)"
  shows "\<exists>s'. commit_phase c sid op_id rh s = (Ok (), s') \<and> can_send (Suc n) k s' \<and> hears c sid ms s'"
proof -
  obtain s1 env where 1: "read_expected c sid OperationPrepared ''operation_prepared_expected'' s = (Ok env, s1)"
    "hears c sid ms s1" "keeps_room s s1"
    using hears_read_expected [OF assms(1,2)] by blast
  have room: "can_send n (Suc k) s1" using 1(3) assms(3) by (simp add: keeps_room_def)
  obtain s' where "send_envelope c OperationCommit sid (reference_body op_id rh) s1 = (Ok (), s')"
    "can_send (Suc n) k s'" "\<And>ms. hears c sid ms s1 \<Longrightarrow> hears c sid ms s'"
    by (rule can_send_step [OF assms(1) room assms(4)]) blast
  then show ?thesis using 1 by (intro exI [of _ s']) (simp add: commit_phase_def)
qed

text \<open>What a peer sends in an operation, status updates in between.\<close>

definition operation_replies ::
  "bool \<Rightarrow> wire_map \<Rightarrow> wire_map list \<Rightarrow> wire_map \<Rightarrow> wire_map list \<Rightarrow> wire_map \<Rightarrow> (message_type \<times> wire_map) list" where
  "operation_replies consequential rb bs1 pb bs2 resb =
     (SessionReady, rb) #
     (if consequential then map (Pair OperationStatus) bs1 @ [(OperationPrepared, pb)] else []) @
     map (Pair OperationStatus) bs2 @ [(OperationResult, resb)]"

text \<open>C10. An operation completes with a peer that answers: when the input is what a peer in step sends
  (its \<open>session.ready\<close>, any number of status updates, \<open>operation.prepared\<close> if the operation is
  consequential, more status updates, a completed result), the transport accepts twelve writes and the
  driver's own messages fit in a frame, the driver returns the result the peer's body describes.\<close>

theorem operation_completes:
  assumes "crypto_ok c" and "cipher_key ks \<noteq> None" and "counter ks = 0" and "12 \<le> write_budget st"
    and "hears c sid (operation_replies (is_consequential opn) rb bs1 pb bs2 resb) (new_session st (ks, kr))"
    and "bt_get resb ''status'' = Some (Text ''completed'')"
    and "derive_request_hash c sid op_id (required_profile opn) (action_name opn) (context_map opn) (payload_map opn) = Ok rh"
    and "sendable SessionReady sid 0 (ready_body pair nonce_bytes)"
    and "sendable OperationRequest sid 1 (request_body op_id rh opn)"
    and "sendable OperationCommit sid 2 (reference_body op_id rh)"
    and "sendable OperationResultAck sid (if is_consequential opn then 3 else 2) (reference_body op_id rh)"
  shows "fst (run_operation c sid nonce_bytes op_id pair opn (new_session st (ks, kr))) =
    from_wire_body (case bt_get resb ''body'' of Some (Map m) \<Rightarrow> m | _ \<Rightarrow> bt_new)"
proof -
  let ?s = "new_session st (ks, kr)" and ?q = "is_consequential opn"
  let ?tail = "map (Pair OperationStatus) bs2 @ [(OperationResult, resb)]"
  have "can_send 0 4 ?s" using assms(2-4) by (simp add: can_send_def new_session_def SequenceGuard_new_def)
  then have room: "can_send 0 (Suc 3) ?s" by simp
  obtain s1 where s1: "send_envelope c SessionReady sid (ready_body pair nonce_bytes) ?s = (Ok (), s1)"
    "can_send (Suc 0) 3 s1" "\<And>ms. hears c sid ms ?s \<Longrightarrow> hears c sid ms s1"
    by (rule can_send_step [OF assms(1) room assms(8)]) blast
  from s1(3) [OF assms(5)] have h: "hears c sid ((SessionReady, rb) # (if ?q then
      map (Pair OperationStatus) bs1 @ [(OperationPrepared, pb)] else []) @ ?tail) s1"
    by (simp add: operation_replies_def)
  from assms(1) h obtain s2 e where s2: "recv_expected c SessionReady ''session_ready_expected'' s1 = (Ok e, s2)"
    "hears c sid ((if ?q then map (Pair OperationStatus) bs1 @ [(OperationPrepared, pb)] else []) @ ?tail) s2"
    "keeps_room s1 s2" by (rule hears_recv_expected)
  have room2: "can_send (Suc 0) (Suc 2) s2" using s1(2) s2(3) by (simp add: keeps_room_def numeral_3_eq_3)
  obtain s3 where s3: "send_envelope c OperationRequest sid (request_body op_id rh opn) s2 = (Ok (), s3)"
    "can_send 2 2 s3" "\<And>ms. hears c sid ms s2 \<Longrightarrow> hears c sid ms s3"
    by (rule can_send_step [OF assms(1) room2, of OperationRequest sid "request_body op_id rh opn"])
      (use assms(9) in \<open>simp_all add: numeral_2_eq_2\<close>)
  obtain s4 where s4: "(if ?q then commit_phase c sid op_id rh s3 else (Ok (), s3)) = (Ok (), s4)"
    "can_send (if ?q then 3 else 2) 1 s4" "hears c sid ?tail s4"
  proof (cases ?q)
    case True
    with s3(3) [OF s2(2)] have "hears c sid (map (Pair OperationStatus) bs1 @ (OperationPrepared, pb) # ?tail) s3"
      by simp
    then have "\<exists>s'. commit_phase c sid op_id rh s3 = (Ok (), s') \<and> can_send (Suc 2) 1 s' \<and> hears c sid ?tail s'"
      by (rule hears_commit_phase [OF assms(1)]) (use s3(2) assms(10) in \<open>simp_all add: numeral_2_eq_2\<close>)
    then show ?thesis using True that by auto
  next
    case False
    then show ?thesis using s3(3) [OF s2(2)] s3(2) by (intro that [of s3]) (simp_all add: can_send_def)
  qed
  obtain s5 env where s5: "read_expected c sid OperationResult ''operation_result_expected'' s4 = (Ok env, s5)"
    "body env = resb" "keeps_room s4 s5" using hears_read_expected [OF assms(1) s4(3)] by blast
  have room5: "can_send (if ?q then 3 else 2) (Suc 0) s5" using s4(2) s5(3) by (simp add: keeps_room_def)
  obtain s6 where s6: "send_envelope c OperationResultAck sid (reference_body op_id rh) s5 = (Ok (), s6)"
    by (rule can_send_step [OF assms(1) room5 assms(11)]) simp
  have "result_status_of env = Ok Completed"
    using s5(2) assms(6) by (simp add: result_status_of_def rs_from_str_def ok_or_def)
  then show ?thesis
    using s1(1) s2(1) s3(1) s4(1) s5 s6 assms(7)
    by (simp add: run_operation_def pure_st_def result_body_of_def)
qed

lemma send_all_succeeds:
  assumes "crypto_ok c"
  shows "can_send n (length ms) p \<Longrightarrow> \<forall>i < length ms. sendable (fst (ms ! i)) sid (n + i) (snd (ms ! i)) \<Longrightarrow>
    \<exists>p'. send_all c sid ms p = (Ok (), p')"
proof (induction ms arbitrary: n p)
  case (Cons m ms)
  obtain mt bd where m: "m = (mt, bd)" by (cases m)
  have room: "can_send n (Suc (length ms)) p" and snd: "sendable mt sid n bd"
    using Cons.prems(1) Cons.prems(2) [rule_format, of 0] m by simp_all
  obtain p1 where p1: "send_envelope c mt sid bd p = (Ok (), p1)" "can_send (Suc n) (length ms) p1"
    by (rule can_send_step [OF assms room snd]) blast
  have "\<forall>i < length ms. sendable (fst (ms ! i)) sid (Suc n + i) (snd (ms ! i))"
  proof (intro allI impI)
    fix i assume "i < length ms"
    then show "sendable (fst (ms ! i)) sid (Suc n + i) (snd (ms ! i))"
      using Cons.prems(2) [rule_format, of "Suc i"] by simp
  qed
  from Cons.IH [OF p1(2) this] p1(1) show ?case by (simp add: m)
qed simp

lemma hears_exists:
  assumes "crypto_ok c" and "cipher_key kr \<noteq> None" and "counter kr = 0" and "length ms < 2 ^ 64"
    and "\<forall>i < length ms. sendable (fst (ms ! i)) sid i (snd (ms ! i))" and "list_all (\<lambda>(mt, bd). body_ok sid bd) ms"
  shows "\<exists>input. hears c sid ms (new_session \<lparr>incoming = input, outgoing = [], write_budget = n\<rparr> (ks, kr))"
proof -
  let ?p = "new_session \<lparr>incoming = [], outgoing = [], write_budget = 3 * length ms\<rparr> (kr, ks)"
  have "can_send 0 (length ms) ?p" using assms(2-4) by (simp add: can_send_def new_session_def SequenceGuard_new_def)
  then obtain p' where "send_all c sid ms ?p = (Ok (), p')"
    using send_all_succeeds [OF assms(1), of 0 ms ?p sid] assms(5) by auto
  moreover have "listens ?p (new_session \<lparr>incoming = input, outgoing = [], write_budget = n\<rparr> (ks, kr))" for input
    using assms(2) by (simp add: listens_def new_session_def)
  ultimately show ?thesis using assms(6) unfolding hears_def
    by (intro exI [of _ "outgoing (stream p')"] conjI exI [of _ ?p] exI [of _ p'])
      (simp_all add: new_session_def)
qed

subsection \<open>A sample exchange\<close>

lemma sendable_if_fits:
  assumes "encodable 0 (Map (envelope_map (RappEnvelope_new mt sid (word_of_nat n) bd)))"
    and "wire_size (Map (envelope_map (RappEnvelope_new mt sid (word_of_nat n) bd))) \<le> MAX_FRAME_PLAINTEXT"
  shows "sendable mt sid n bd"
proof -
  obtain b where "encode (Map (envelope_map (RappEnvelope_new mt sid (word_of_nat n) bd))) = Ok b"
    "length b \<le> MAX_FRAME_PLAINTEXT" by (rule encode_fits [OF assms])
  then show ?thesis by (simp only: sendable_def envelope_encode_def res.case)
qed

lemmas wire_eval = envelope_map_def RappEnvelope_new_def header_size_def Let_def

definition sample_op :: card_operation where
  "sample_op = BrowserAuthenticate ''https://a.fi'' ''auth'' ''ES384'' [1, 2]"

definition sample_result :: wire_map where
  "sample_result = [(''body'', Map [(''bytes'', Bytes [9]), (''type'', Text ''signature'')]), (''status'', Text ''completed'')]"

definition sample_replies :: "(message_type \<times> wire_map) list" where
  "sample_replies = operation_replies True [] [[]] [] [] sample_result"

definition sample_cipher :: cipher_state where
  "sample_cipher = \<lparr>cipher_key = Some [5], counter = 0\<rparr>"

lemma sample_requests_sendable:
  assumes "length rh = 32"
  shows "sendable SessionReady (replicate 16 0) 0 (ready_body sample_pair [7])"
    and "sendable OperationRequest (replicate 16 0) 1 (request_body (replicate 16 1) rh sample_op)"
    and "sendable OperationCommit (replicate 16 0) 2 (reference_body (replicate 16 1) rh)"
    and "sendable OperationResultAck (replicate 16 0) 3 (reference_body (replicate 16 1) rh)"
  using assms
  by (intro sendable_if_fits; simp add: wire_eval ready_body_def version_value_def sample_pair_def request_body_def
      sample_op_def signature_payload_def reference_body_def)+

lemma sample_replies_sendable:
  "i < length sample_replies \<Longrightarrow> sendable (fst (sample_replies ! i)) (replicate 16 0) i (snd (sample_replies ! i))"
proof -
  assume "i < length sample_replies"
  then consider "i = 0" | "i = 1" | "i = 2" | "i = 3"
    by (force simp: sample_replies_def operation_replies_def)
  then show ?thesis
    by cases (simp_all add: sample_replies_def operation_replies_def,
      (intro sendable_if_fits; simp add: wire_eval sample_result_def)+)
qed

lemma sample_request_hash:
  "\<exists>rh. length rh = 32 \<and> derive_request_hash toy_crypto (replicate 16 0) (replicate 16 1) (required_profile sample_op)
     (action_name sample_op) (context_map sample_op) (payload_map sample_op) = Ok rh"
proof -
  let ?v = "request_value (replicate 16 0) (replicate 16 1) (required_profile sample_op)
     (action_name sample_op) (context_map sample_op) (payload_map sample_op)"
  have "encodable 0 ?v"
    by (simp add: request_value_def sample_op_def signature_payload_def)
  then obtain b where "encode ?v = Ok b" unfolding encode_def using encode_into_Ok_iff by blast
  moreover have "length (sha256 toy_crypto b) = 32" using toy_crypto_ok unfolding crypto_ok_def by blast
  ultimately show ?thesis by (simp add: derive_request_hash_def)
qed

theorem operation_completes_witness:
  "\<exists>input. fst (run_operation toy_crypto (replicate 16 0) [7] (replicate 16 1) sample_pair sample_op
     (new_session \<lparr>incoming = input, outgoing = [], write_budget = 12\<rparr> (sample_cipher, sample_cipher))) = Ok (Signature [9])"
proof -
  obtain rh where rh: "length rh = 32" "derive_request_hash toy_crypto (replicate 16 0) (replicate 16 1)
      (required_profile sample_op) (action_name sample_op) (context_map sample_op) (payload_map sample_op) = Ok rh"
    using sample_request_hash by blast
  have body: "list_all (\<lambda>(mt, bd). body_ok (replicate 16 0) bd) sample_replies"
    by (simp add: sample_replies_def operation_replies_def sample_result_def body_ok_def)
  have small: "length sample_replies < 2 ^ 64" by (simp add: sample_replies_def operation_replies_def)
  have key: "cipher_key sample_cipher \<noteq> None" "counter sample_cipher = 0" by (simp_all add: sample_cipher_def)
  obtain input where "hears toy_crypto (replicate 16 0) sample_replies
      (new_session \<lparr>incoming = input, outgoing = [], write_budget = 12\<rparr> (sample_cipher, sample_cipher))"
    using hears_exists [OF toy_crypto_ok key small _ body, of 12 sample_cipher] sample_replies_sendable by blast
  moreover have "is_consequential sample_op" by (simp add: sample_op_def)
  ultimately have "fst (run_operation toy_crypto (replicate 16 0) [7] (replicate 16 1) sample_pair sample_op
      (new_session \<lparr>incoming = input, outgoing = [], write_budget = 12\<rparr> (sample_cipher, sample_cipher))) =
    from_wire_body (case bt_get sample_result ''body'' of Some (Map m) \<Rightarrow> m | _ \<Rightarrow> bt_new)"
    using sample_requests_sendable [OF rh(1)] rh(2)
    by (intro operation_completes [OF toy_crypto_ok, where rb = "[]" and ?bs1.0 = "[[]]" and pb = "[]" and ?bs2.0 = "[]"])
      (simp_all add: sample_replies_def sample_cipher_def sample_result_def bt_get_def)
  also have "\<dots> = Ok (Signature [9])" by code_simp
  finally show ?thesis by blast
qed

end
