(* ===== verification/Rapp_Vault.thy ===== *)
theory Rapp_Vault
  imports Rapp_Session "HOL-Library.AList"
begin

text \<open>
  The device vault (\<open>crates/refineid-lib-core/src/rapp/vault.rs\<close>): one file per pairing, named after
  the hexadecimal pair identifier, written through a temporary file and a rename.

  The storage directory is a state: whether it exists and can be listed, its files in the order a
  listing returns them, which of them cannot be read, and how many modifying calls the file system
  will still accept. A failing write leaves a prefix of its bytes in the file.
\<close>

subsection \<open>The storage directory\<close>

record vault_dir =
  dir_exists :: bool
  dir_listable :: bool
  files :: "(string \<times> bytes) list"
  unreadable :: "string list"
  io_budget :: nat
  short_write :: nat

text \<open>A modifying call: it takes effect, or fails with the caller's field name.\<close>

definition fs_call :: "string \<Rightarrow> (vault_dir \<Rightarrow> vault_dir) \<Rightarrow> (vault_dir \<Rightarrow> vault_dir) \<Rightarrow> vault_dir \<Rightarrow> unit wres \<times> vault_dir" where
  "fs_call field good bad v =
     (if io_budget v = 0 then (Err (InvalidValue field), bad v)
      else (Ok (), good (v\<lparr>io_budget := io_budget v - 1\<rparr>)))"

definition put_file :: "string \<Rightarrow> bytes \<Rightarrow> vault_dir \<Rightarrow> vault_dir" where
  "put_file name bs v = v\<lparr>files := AList.update name bs (files v)\<rparr>"

definition drop_file :: "string \<Rightarrow> vault_dir \<Rightarrow> vault_dir" where
  "drop_file name v = v\<lparr>files := AList.delete name (files v)\<rparr>"

definition move_file :: "string \<Rightarrow> string \<Rightarrow> vault_dir \<Rightarrow> vault_dir" where
  "move_file a b v =
     (case map_of (files v) a of None \<Rightarrow> v | Some bs \<Rightarrow> put_file b bs (drop_file a v))"

definition file_exists :: "string \<Rightarrow> vault_dir \<Rightarrow> bool" where
  "file_exists name v \<longleftrightarrow> dir_exists v \<and> map_of (files v) name \<noteq> None"

definition read_file :: "string \<Rightarrow> vault_dir \<Rightarrow> bytes wres" where
  "read_file name v =
     (case map_of (files v) name of
        None \<Rightarrow> Err (InvalidValue ''vault_read'')
      | Some bs \<Rightarrow> if name \<in> set (unreadable v) then Err (InvalidValue ''vault_read'') else Ok bs)"

text \<open>\<open>Path::extension\<close>: what follows the last dot of the file name, unless nothing precedes it.\<close>

definition extension :: "string \<Rightarrow> string option" where
  "extension name =
     (let ext = rev (takeWhile (\<lambda>c. c \<noteq> CHR ''.'') (rev name));
          stem = dropWhile (\<lambda>c. c \<noteq> CHR ''.'') (rev name) in
      if name = ''..'' \<or> length stem \<le> 1 then None else Some ext)"

subsection \<open>Operations of the vault\<close>

definition ensure_dir :: "vault_dir \<Rightarrow> unit wres \<times> vault_dir" where
  "ensure_dir v = fs_call ''vault_dir'' (\<lambda>v. v\<lparr>dir_exists := True\<rparr>) (\<lambda>v. v) v"

definition pair_file_path :: "bytes \<Rightarrow> string" where
  "pair_file_path pid = hex_encode pid @ ''.cbor''"

definition save_pair :: "pair_record \<Rightarrow> vault_dir \<Rightarrow> unit wres \<times> vault_dir" where
  "save_pair r v =
     st_then (ensure_dir v) (\<lambda>_ v.
     st_then (pure_st (pair_record_encode r) v) (\<lambda>encoded v.
     let path = pair_file_path (pair_id r);
         tmp_path = hex_encode (pair_id r) @ ''.tmp'' in
     st_then (fs_call ''vault_write'' (put_file tmp_path []) (\<lambda>v. v) v) (\<lambda>_ v.
     st_then (fs_call ''vault_write'' (put_file tmp_path encoded)
       (put_file tmp_path (take (short_write v) encoded)) v) (\<lambda>_ v.
     st_then (fs_call ''vault_write'' (\<lambda>v. v) (\<lambda>v. v) v) (\<lambda>_ v.
     fs_call ''vault_write'' (move_file tmp_path path) (\<lambda>v. v) v)))))"

definition load_pair :: "bytes \<Rightarrow> vault_dir \<Rightarrow> pair_record option wres" where
  "load_pair pid v =
     (if \<not> file_exists (pair_file_path pid) v then Ok None
      else and_then (read_file (pair_file_path pid) v) (\<lambda>bs.
        and_then (pair_record_decode bs) (\<lambda>r. Ok (Some r))))"

text \<open>The loop of \<open>active_pairs\<close>: files that cannot be read or decoded are skipped.\<close>

fun collect_pairs :: "vault_dir \<Rightarrow> string list \<Rightarrow> pair_record list wres" where
  "collect_pairs v [] = Ok []"
| "collect_pairs v (name # names) =
     (if extension name = Some ''cbor'' then
        (case read_file name v of
           Ok bs \<Rightarrow>
             (case pair_record_decode bs of
                Ok r \<Rightarrow> and_then (collect_pairs v names) (\<lambda>rs. Ok (r # rs))
              | Err _ \<Rightarrow> collect_pairs v names
              | Panic \<Rightarrow> Panic)
         | _ \<Rightarrow> collect_pairs v names)
      else collect_pairs v names)"

definition newest_first :: "pair_record list \<Rightarrow> pair_record list" where
  "newest_first rs = sort_key (\<lambda>r. - int (unat (created_at_ms r))) rs"

definition active_pairs :: "vault_dir \<Rightarrow> pair_record list wres" where
  "active_pairs v =
     (if \<not> dir_exists v then Ok []
      else if \<not> dir_listable v then Err (InvalidValue ''vault_read'')
      else and_then (collect_pairs v (map fst (files v))) (\<lambda>pairs. Ok (newest_first pairs)))"

definition delete_pair :: "bytes \<Rightarrow> vault_dir \<Rightarrow> bool wres \<times> vault_dir" where
  "delete_pair pid v =
     (if file_exists (pair_file_path pid) v then
        st_then (fs_call ''vault_delete'' (drop_file (pair_file_path pid)) (\<lambda>v. v) v) (\<lambda>_ v. (Ok True, v))
      else (Ok False, v))"

definition selected_pair :: "vault_dir \<Rightarrow> pair_record option wres" where
  "selected_pair v =
     and_then (active_pairs v) (\<lambda>pairs. Ok (case pairs of [] \<Rightarrow> None | r # _ \<Rightarrow> Some r))"

definition update_cached_auth_cert :: "bytes \<Rightarrow> bytes \<Rightarrow> vault_dir \<Rightarrow> unit wres \<times> vault_dir" where
  "update_cached_auth_cert pid cert_der v =
     st_then (pure_st (load_pair pid v) v) (\<lambda>found v.
     case found of
       None \<Rightarrow> (Ok (), v)
     | Some pair \<Rightarrow> save_pair (pair\<lparr>cached_auth_cert := Some cert_der\<rparr>) v)"

subsection \<open>File names\<close>

lemma hex_digit_not_dot: "n < 16 \<Longrightarrow> hex_digit n \<noteq> CHR ''.''"
  by (auto simp: hex_digit_def less_Suc_eq numeral_eq_Suc)

lemma hex_encode_inject: "hex_encode xs = hex_encode ys \<longleftrightarrow> xs = ys"
  using hexa.total_dec_enc by (metis res.inject(1))

lemma pair_file_path_inject [simp]: "pair_file_path p = pair_file_path q \<longleftrightarrow> p = q"
  by (simp add: pair_file_path_def hex_encode_inject)

lemma tmp_not_pair_file [simp]: "pair_file_path p \<noteq> xs @ ''.tmp''" "xs @ ''.tmp'' \<noteq> pair_file_path p"
proof -
  have "last (pair_file_path p) \<noteq> last (xs @ ''.tmp'')" by (simp add: pair_file_path_def)
  then show "pair_file_path p \<noteq> xs @ ''.tmp''" "xs @ ''.tmp'' \<noteq> pair_file_path p" by metis+
qed

lemma hex_encode_no_dot: "c \<in> set (hex_encode bs) \<Longrightarrow> c \<noteq> CHR ''.''"
proof -
  have "unat b < 2 ^ 8" for b :: byte using unsigned_less [of b] by simp
  then have "unat b div 16 < 16" for b :: byte by (simp add: less_mult_imp_div_less)
  then show "c \<in> set (hex_encode bs) \<Longrightarrow> c \<noteq> CHR ''.''"
    by (auto simp: hex_encode_def hex_digit_not_dot hex_digit_not_dot [symmetric])
qed

lemma extension_pair_file: "pid \<noteq> [] \<Longrightarrow> extension (pair_file_path pid) = Some ''cbor''"
proof -
  assume "pid \<noteq> []"
  then have "hex_encode pid \<noteq> []" using length_hex_encode [of pid] by auto
  moreover have "rev (pair_file_path pid) = ''robc.'' @ rev (hex_encode pid)" by (simp add: pair_file_path_def)
  ultimately show ?thesis by (simp add: extension_def pair_file_path_def)
qed

subsection \<open>The vault as a map\<close>

text \<open>A directory lists every file once, and one that does not exist has no files.\<close>

definition vault_ok :: "vault_dir \<Rightarrow> bool" where
  "vault_ok v \<longleftrightarrow> distinct (map fst (files v)) \<and> (dir_exists v \<or> files v = [])"

lemma fs_call_Ok [simp]: "fs_call field good bad v = (Ok u, v') \<longleftrightarrow>
    io_budget v \<noteq> 0 \<and> v' = good (v\<lparr>io_budget := io_budget v - 1\<rparr>)"
  by (auto simp: fs_call_def)

lemma file_simps [simp]:
  "map_of (files (put_file name bs v)) = (map_of (files v))(name \<mapsto> bs)"
  "map_of (files (drop_file name v)) = (map_of (files v))(name := None)"
  "distinct (map fst (files v)) \<Longrightarrow> distinct (map fst (files (put_file name bs v)))"
  "distinct (map fst (files v)) \<Longrightarrow> distinct (map fst (files (drop_file name v)))"
  "dir_exists (put_file name bs v) = dir_exists v" "dir_exists (drop_file name v) = dir_exists v"
  "unreadable (put_file name bs v) = unreadable v" "unreadable (drop_file name v) = unreadable v"
  "io_budget (put_file name bs v) = io_budget v" "io_budget (drop_file name v) = io_budget v"
  by (auto simp: put_file_def drop_file_def update_conv' delete_conv' distinct_update distinct_delete)

text \<open>Between the states a save passes through, only the temporary file changes until the rename.\<close>

definition same_pairs :: "vault_dir \<Rightarrow> vault_dir \<Rightarrow> bool" where
  "same_pairs v v' \<longleftrightarrow> unreadable v' = unreadable v \<and> (vault_ok v \<longrightarrow> vault_ok v') \<and>
     (\<forall>pid. map_of (files v') (pair_file_path pid) = map_of (files v) (pair_file_path pid))"

lemma load_pair_lookup:
  "vault_ok v \<Longrightarrow> load_pair pid v =
     (case map_of (files v) (pair_file_path pid) of
        None \<Rightarrow> Ok None
      | Some bs \<Rightarrow> if pair_file_path pid \<in> set (unreadable v) then Err (InvalidValue ''vault_read'')
          else and_then (pair_record_decode bs) (\<lambda>r. Ok (Some r)))"
  by (auto simp: load_pair_def file_exists_def read_file_def vault_ok_def split: option.split)

lemma load_pair_same: "vault_ok v \<Longrightarrow> same_pairs v v' \<Longrightarrow> load_pair pid v' = load_pair pid v"
  by (auto simp: load_pair_lookup same_pairs_def split: option.split)

lemma save_pair_fails:
  assumes "save_pair r v = (res, v')" and "\<not> is_ok res"
  shows "same_pairs v v'"
  using assms
  by (auto simp: save_pair_def ensure_dir_def fs_call_def pure_st_def Let_def same_pairs_def vault_ok_def st_then_def
      split: if_splits res.splits)

lemma save_pair_Ok:
  assumes "save_pair r v = (Ok u, v')" and "vault_ok v"
  shows "vault_ok v'" and "unreadable v' = unreadable v"
    and "\<exists>enc. pair_record_encode r = Ok enc \<and>
      (\<forall>pid. map_of (files v') (pair_file_path pid) =
        (if pid = pair_id r then Some enc else map_of (files v) (pair_file_path pid)))"
  using assms
  by (auto simp: save_pair_def ensure_dir_def pure_st_def Let_def vault_ok_def move_file_def elim!: st_then_OkE)

lemma file_exists_lookup: "vault_ok v \<Longrightarrow> file_exists name v \<longleftrightarrow> map_of (files v) name \<noteq> None"
  by (auto simp: file_exists_def vault_ok_def)

lemma read_file_Ok: "read_file name v = Ok bs \<longleftrightarrow> map_of (files v) name = Some bs \<and> name \<notin> set (unreadable v)"
  by (auto simp: read_file_def split: option.split)

lemma vault_ok_drop: "vault_ok v \<Longrightarrow> dir_exists v \<Longrightarrow> vault_ok (drop_file name (v\<lparr>io_budget := n\<rparr>))"
  by (simp add: vault_ok_def)

lemma delete_pair_effect:
  assumes "delete_pair pid v = (res, v')" and "vault_ok v"
  shows "vault_ok v'" and "\<not> is_ok res \<Longrightarrow> same_pairs v v'"
    and "res = Ok b \<Longrightarrow> unreadable v' = unreadable v \<and> b = (map_of (files v) (pair_file_path pid) \<noteq> None) \<and>
      (\<forall>q. map_of (files v') (pair_file_path q) =
        (if q = pid then None else map_of (files v) (pair_file_path q)))"
proof -
  have "vault_ok v' \<and> (\<not> is_ok res \<longrightarrow> same_pairs v v') \<and>
    (res = Ok b \<longrightarrow> unreadable v' = unreadable v \<and> b = (map_of (files v) (pair_file_path pid) \<noteq> None) \<and>
      (\<forall>q. map_of (files v') (pair_file_path q) = (if q = pid then None else map_of (files v) (pair_file_path q))))"
  proof (cases "file_exists (pair_file_path pid) v")
    case True
    then have "dir_exists v" "map_of (files v) (pair_file_path pid) \<noteq> None" by (simp_all add: file_exists_def)
    with True assms show ?thesis
      by (cases "io_budget v = 0")
        (auto simp: delete_pair_def fs_call_def same_pairs_def vault_ok_drop simp del: map_of_eq_Some_iff)
  next
    case False
    then have "map_of (files v) (pair_file_path pid) = None" using file_exists_lookup [OF assms(2)] by simp
    with False assms show ?thesis by (auto simp: delete_pair_def)
  qed
  then show "vault_ok v'" "\<not> is_ok res \<Longrightarrow> same_pairs v v'"
    "res = Ok b \<Longrightarrow> unreadable v' = unreadable v \<and> b = (map_of (files v) (pair_file_path pid) \<noteq> None) \<and>
      (\<forall>q. map_of (files v') (pair_file_path q) = (if q = pid then None else map_of (files v) (pair_file_path q)))"
    by blast+
qed

text \<open>What reading back the encoding of a record gives: the record, unless it is too large to decode.\<close>

definition stored :: "pair_record \<Rightarrow> pair_record option wres" where
  "stored r = and_then (pair_record_encode r) (\<lambda>encoded.
     if length encoded \<le> MAX_FRAME_PLAINTEXT then Ok (Some r) else Err (OversizedPlaintext (length encoded)))"

lemma decode_stored:
  assumes "pair_record_ok r" and "pair_record_encode r = Ok encoded"
  shows "and_then (pair_record_decode encoded) (\<lambda>r. Ok (Some r)) = stored r"
proof (cases "length encoded \<le> MAX_FRAME_PLAINTEXT")
  case True
  then show ?thesis using pair_file.dec_enc [OF assms] assms(2) by (simp add: stored_def)
next
  case False
  then show ?thesis using assms(2) by (simp add: stored_def pair_record_decode_def decode_deterministic_cbor_def)
qed

lemma collect_pairs_set:
  "collect_pairs v names = Ok rs \<Longrightarrow> set rs = {r. \<exists>name bs. name \<in> set names \<and> extension name = Some ''cbor'' \<and>
     read_file name v = Ok bs \<and> pair_record_decode bs = Ok r}"
proof (induction names arbitrary: rs)
  case (Cons name names)
  show ?case
  proof (cases "\<exists>bs r. extension name = Some ''cbor'' \<and> read_file name v = Ok bs \<and> pair_record_decode bs = Ok r")
    case True
    then obtain bs r where t: "extension name = Some ''cbor''" "read_file name v = Ok bs" "pair_record_decode bs = Ok r"
      by blast
    with Cons.prems obtain rs' where rs': "collect_pairs v names = Ok rs'" "rs = r # rs'" by (auto simp: res_simps)
    show ?thesis using Cons.IH [OF rs'(1)] rs'(2) t by auto
  next
    case False
    then have "collect_pairs v names = Ok rs" using Cons.prems by (auto split: if_splits res.splits)
    from Cons.IH [OF this] False show ?thesis by auto
  qed
qed simp

lemma newest_first_sorted: "sorted_wrt (\<lambda>a b. created_at_ms b \<le> created_at_ms a) (newest_first rs)"
proof -
  have "sorted (map (\<lambda>r. - int (unat (created_at_ms r))) (newest_first rs))" by (simp add: newest_first_def)
  then show ?thesis by (simp add: sorted_wrt_map word_le_def)
qed

text \<open>What the vault holds for every identifier.\<close>

definition vault_map :: "vault_dir \<Rightarrow> bytes \<Rightarrow> pair_record option wres" where
  "vault_map v = (\<lambda>pid. load_pair pid v)"

lemma vault_map_same: "vault_ok v \<Longrightarrow> same_pairs v v' \<Longrightarrow> vault_ok v' \<and> vault_map v' = vault_map v"
proof
  assume v: "vault_ok v" "same_pairs v v'"
  then show "vault_ok v'" by (simp add: same_pairs_def)
  have "load_pair q v' = load_pair q v" for q by (rule load_pair_same [OF v])
  then show "vault_map v' = vault_map v" by (simp add: vault_map_def)
qed

lemma vault_map_update:
  assumes "vault_ok v" and "vault_ok v'" and "unreadable v' = unreadable v"
    and "\<And>q. q \<noteq> pid \<Longrightarrow> map_of (files v') (pair_file_path q) = map_of (files v) (pair_file_path q)"
    and "load_pair pid v' = x"
  shows "vault_map v' = (vault_map v)(pid := x)"
proof
  fix q
  have "load_pair q v' = load_pair q v" if "q \<noteq> pid"
    using assms(3) assms(4) [OF that]
    by (simp add: load_pair_lookup [OF assms(1)] load_pair_lookup [OF assms(2)] split: option.split)
  then show "vault_map v' q = ((vault_map v)(pid := x)) q" using assms(5) by (simp add: vault_map_def)
qed

lemma save_pair_refines:
  assumes "vault_ok v" and "pair_record_ok r" and "pair_file_path (pair_id r) \<notin> set (unreadable v)"
    and s: "save_pair r v = (res, v')"
  shows "vault_ok v' \<and> vault_map v' = (if is_ok res then (vault_map v)(pair_id r := stored r) else vault_map v)"
proof (cases "is_ok res")
  case True
  then obtain u where "save_pair r v = (Ok u, v')" using s by (auto simp: is_ok_iff)
  note ok = save_pair_Ok [OF this assms(1)]
  obtain encoded where e: "pair_record_encode r = Ok encoded" "\<forall>q. map_of (files v') (pair_file_path q) =
      (if q = pair_id r then Some encoded else map_of (files v) (pair_file_path q))" using ok(3) by blast
  have "load_pair (pair_id r) v' = stored r"
    using e(2) ok(2) decode_stored [OF assms(2) e(1)] assms(3) by (simp add: load_pair_lookup [OF ok(1)])
  then have "vault_map v' = (vault_map v)(pair_id r := stored r)"
    by (rule vault_map_update [OF assms(1) ok(1,2), rotated]) (use e(2) in simp)
  then show ?thesis using True ok(1) by simp
qed (use vault_map_same [OF assms(1) save_pair_fails [OF s]] in simp)

lemma delete_pair_refines:
  assumes "vault_ok v" and d: "delete_pair pid v = (res, v')"
  shows "vault_ok v' \<and> vault_map v' = (if is_ok res then (vault_map v)(pid := Ok None) else vault_map v)"
proof (cases "is_ok res")
  case True
  note eff = delete_pair_effect [OF d assms(1)]
  obtain b where "res = Ok b" using True by (auto simp: is_ok_iff)
  then have e: "unreadable v' = unreadable v" "\<forall>q. map_of (files v') (pair_file_path q) =
      (if q = pid then None else map_of (files v) (pair_file_path q))" using eff(3) by auto
  have "load_pair pid v' = Ok None" using e(2) by (simp add: load_pair_lookup [OF eff(1)])
  then have "vault_map v' = (vault_map v)(pid := Ok None)"
    by (rule vault_map_update [OF assms(1) eff(1) e(1), rotated]) (use e(2) in simp)
  then show ?thesis using True eff(1) by simp
qed (use vault_map_same [OF assms(1) delete_pair_effect(2) [OF d assms(1)]] in simp)

subsection \<open>Properties of the vault\<close>

text \<open>C12. The vault refines a map from pair identifiers to records. A save that succeeds changes what is
  loaded for the record's identifier and nothing else; the record is read back, unless its encoding
  exceeds the decoder's frame limit, in which case the file is written and every later load fails. A
  save that fails at any of its file-system calls changes nothing that can be loaded. Deleting removes
  exactly one identifier, or changes nothing. The directory stays well formed.\<close>

theorem vault_refines_map:
  assumes "vault_ok v" and "pair_record_ok r" and "pair_file_path (pair_id r) \<notin> set (unreadable v)"
  shows "(case save_pair r v of (res, v') \<Rightarrow> vault_ok v' \<and>
      vault_map v' = (if is_ok res then (vault_map v)(pair_id r := stored r) else vault_map v)) \<and>
    (case delete_pair pid v of (res, v') \<Rightarrow> vault_ok v' \<and>
      vault_map v' = (if is_ok res then (vault_map v)(pid := Ok None) else vault_map v))"
  using save_pair_refines [OF assms] delete_pair_refines [OF assms(1), of pid] by (auto split: prod.split)

definition sample_dir :: vault_dir where
  "sample_dir = \<lparr>dir_exists = False, dir_listable = True, files = [], unreadable = [], io_budget = 5, short_write = 0\<rparr>"

lemma sample_pair_stored: "\<exists>bs. pair_record_encode sample_pair = Ok bs \<and> length bs \<le> MAX_FRAME_PLAINTEXT"
proof -
  obtain bs where "encode (Map (pair_record_map sample_pair)) = Ok bs" "length bs \<le> MAX_FRAME_PLAINTEXT"
    by (rule encode_fits [OF sample_pair_encodes])
  then show ?thesis by (auto simp: pair_record_encode_def)
qed

theorem vault_refines_map_witness:
  "\<exists>v'. save_pair sample_pair sample_dir = (Ok (), v') \<and> load_pair (pair_id sample_pair) v' = Ok (Some sample_pair)"
proof -
  obtain bs where bs: "pair_record_encode sample_pair = Ok bs" "length bs \<le> MAX_FRAME_PLAINTEXT"
    using sample_pair_stored by blast
  then obtain v' where v': "save_pair sample_pair sample_dir = (Ok (), v')"
    by (auto simp: save_pair_def ensure_dir_def fs_call_def pure_st_def Let_def sample_dir_def)
  have "vault_ok sample_dir" "unreadable sample_dir = []" by (simp_all add: vault_ok_def sample_dir_def)
  then have "vault_map v' (pair_id sample_pair) = stored sample_pair"
    using vault_refines_map [of sample_dir sample_pair "[]"] sample_pair_ok v' by simp
  then show ?thesis using v' bs by (auto simp: vault_map_def stored_def)
qed

text \<open>Listing the vault returns exactly the records of its readable, decodable \<open>.cbor\<close> files, the most
  recently created first, and the selected pair is the first of them: none is newer.\<close>

theorem active_pairs_newest_first:
  assumes "active_pairs v = Ok rs" and "dir_exists v"
  shows "sorted_wrt (\<lambda>a b. created_at_ms b \<le> created_at_ms a) rs \<and>
    set rs = {r. \<exists>name bs. extension name = Some ''cbor'' \<and> map_of (files v) name = Some bs \<and>
      name \<notin> set (unreadable v) \<and> pair_record_decode bs = Ok r} \<and>
    selected_pair v = Ok (if rs = [] then None else Some (hd rs))"
proof -
  from assms obtain ps where ps: "collect_pairs v (map fst (files v)) = Ok ps" "rs = newest_first ps"
    by (auto simp: active_pairs_def res_simps split: if_splits)
  have "set rs = set ps" by (simp add: ps(2) newest_first_def)
  also have "\<dots> = {r. \<exists>name bs. extension name = Some ''cbor'' \<and> map_of (files v) name = Some bs \<and>
      name \<notin> set (unreadable v) \<and> pair_record_decode bs = Ok r}"
    unfolding collect_pairs_set [OF ps(1)] read_file_Ok using map_of_SomeD [of "files v"] by force
  finally show ?thesis
    using assms(1) newest_first_sorted [of ps] ps(2) by (auto simp: selected_pair_def split: list.split)
qed

theorem active_pairs_newest_first_witness:
  "\<exists>v' rs. save_pair sample_pair sample_dir = (Ok (), v') \<and> active_pairs v' = Ok rs \<and> set rs = {sample_pair} \<and>
     selected_pair v' = Ok (Some (hd rs))"
proof -
  obtain bs where bs: "pair_record_encode sample_pair = Ok bs" "length bs \<le> MAX_FRAME_PLAINTEXT"
    using sample_pair_stored by blast
  have dec: "pair_record_decode bs = Ok sample_pair" using pair_file.dec_enc [OF sample_pair_ok bs] .
  let ?path = "pair_file_path (pair_id sample_pair)"
  obtain v' where v': "save_pair sample_pair sample_dir = (Ok (), v')" "files v' = [(?path, bs)]" "unreadable v' = []"
      "dir_exists v'" "dir_listable v'"
    using bs(1) by (auto simp: save_pair_def ensure_dir_def fs_call_def pure_st_def Let_def sample_dir_def
        move_file_def put_file_def drop_file_def)
  have ext: "extension ?path = Some ''cbor''" by (rule extension_pair_file) (simp add: sample_pair_def)
  then obtain rs where rs: "active_pairs v' = Ok rs"
    using v' dec by (auto simp: active_pairs_def read_file_def)
  have "set rs = {sample_pair} \<and> selected_pair v' = Ok (if rs = [] then None else Some (hd rs))"
    using active_pairs_newest_first [OF rs v'(4)] v' ext dec by auto
  then show ?thesis using v'(1) rs by auto
qed

end
