(* ===== verification/Country.thy ===== *)
theory Country
  imports Decimal
begin

text \<open>
  Country codes (\<open>crates/refineid-lib-core/src/country.rs\<close>): the validated three-letter codes of the
  machine-readable zone and two-letter codes of certificate names, and the table between them.
\<close>

definition TABLE :: "(string \<times> string) list" where
  "TABLE =
    [
     (''AUT'', ''AT''), (''BEL'', ''BE''), (''BGR'', ''BG''), (''CHE'', ''CH''), (''CYP'', ''CY''),
     (''CZE'', ''CZ''), (''DEU'', ''DE''), (''DNK'', ''DK''), (''ESP'', ''ES''), (''EST'', ''EE''),
     (''FIN'', ''FI''), (''FRA'', ''FR''), (''GBR'', ''GB''), (''GRC'', ''GR''), (''HRV'', ''HR''),
     (''HUN'', ''HU''), (''IRL'', ''IE''), (''ISL'', ''IS''), (''ITA'', ''IT''), (''LIE'', ''LI''),
     (''LTU'', ''LT''), (''LUX'', ''LU''), (''LVA'', ''LV''), (''MLT'', ''MT''), (''NLD'', ''NL''),
     (''NOR'', ''NO''), (''POL'', ''PL''), (''PRT'', ''PT''), (''ROU'', ''RO''), (''SVK'', ''SK''),
     (''SVN'', ''SI''), (''SWE'', ''SE''), (''AUS'', ''AU''), (''BRA'', ''BR''), (''CAN'', ''CA''),
     (''CHN'', ''CN''), (''IND'', ''IN''), (''JPN'', ''JP''), (''KOR'', ''KR''), (''MEX'', ''MX''),
     (''NZL'', ''NZ''), (''RUS'', ''RU''), (''TUR'', ''TR''), (''UKR'', ''UA''), (''USA'', ''US'')
    ]"

datatype country_error =
    CountryEmpty
  | CountryWrongLength string nat
  | NotAsciiLetter nat byte

text \<open>\<open>{byte:#04x}\<close>: two lowercase hexadecimal digits after \<open>0x\<close>.\<close>

definition hex_digit_char :: "nat \<Rightarrow> char" where
  "hex_digit_char n = char_of (if n < 10 then 48 + n else 87 + n)"

definition hex_04 :: "byte \<Rightarrow> string" where
  "hex_04 b = ''0x'' @ [hex_digit_char (unat b div 16), hex_digit_char (unat b mod 16)]"

fun CountryError_display :: "country_error \<Rightarrow> string" where
  "CountryError_display CountryEmpty = ''country code cannot be empty''"
| "CountryError_display (CountryWrongLength expected got) =
     ''country code wrong length: expected '' @ expected @ '', got '' @ decimal got"
| "CountryError_display (NotAsciiLetter at byte) =
     ''country code must be ASCII letters only; non-letter at offset '' @ decimal at @ '': byte '' @ hex_04 byte"

definition is_ascii_uppercase :: "byte \<Rightarrow> bool" where
  "is_ascii_uppercase b \<longleftrightarrow> 0x41 \<le> b \<and> b \<le> 0x5A"

definition is_ascii_lowercase :: "byte \<Rightarrow> bool" where
  "is_ascii_lowercase b \<longleftrightarrow> 0x61 \<le> b \<and> b \<le> 0x7A"

definition is_ascii_alphabetic :: "byte \<Rightarrow> bool" where
  "is_ascii_alphabetic b \<longleftrightarrow> is_ascii_uppercase b \<or> is_ascii_lowercase b"

definition to_ascii_uppercase :: "bytes \<Rightarrow> bytes" where
  "to_ascii_uppercase bs = map (\<lambda>b. if is_ascii_lowercase b then b - 0x20 else b) bs"

definition eq_ignore_ascii_case :: "bytes \<Rightarrow> bytes \<Rightarrow> bool" where
  "eq_ignore_ascii_case as bs \<longleftrightarrow> to_ascii_uppercase as = to_ascii_uppercase bs"

text \<open>The loop of both constructors.\<close>

fun check_letters :: "nat \<Rightarrow> bytes \<Rightarrow> (country_error, unit) res" where
  "check_letters i [] = Ok ()"
| "check_letters i (b # bs) = (if \<not> is_ascii_alphabetic b then Err (NotAsciiLetter i b) else check_letters (i + 1) bs)"

definition IcaoCountry_new :: "bytes \<Rightarrow> (country_error, bytes) res" where
  "IcaoCountry_new bs =
     (if bs = [] then Err CountryEmpty
      else if 3 < length bs then Err (CountryWrongLength ''1-3 ASCII letters'' (length bs))
      else and_then (check_letters 0 bs) (\<lambda>_. Ok (to_ascii_uppercase bs)))"

definition IsoAlpha2_new :: "bytes \<Rightarrow> (country_error, bytes) res" where
  "IsoAlpha2_new bs =
     (if bs = [] then Err CountryEmpty
      else if length bs \<noteq> 2 then Err (CountryWrongLength ''2 ASCII letters'' (length bs))
      else and_then (check_letters 0 bs) (\<lambda>_. Ok (to_ascii_uppercase bs)))"

definition to_iso_alpha2 :: "bytes \<Rightarrow> bytes option" where
  "to_iso_alpha2 upper =
     map_option (\<lambda>c. str_bytes (snd c)) (find (\<lambda>c. eq_ignore_ascii_case (str_bytes (fst c)) upper) TABLE)"

definition to_icao :: "bytes \<Rightarrow> bytes option" where
  "to_icao upper =
     map_option (\<lambda>c. str_bytes (fst c)) (find (\<lambda>c. eq_ignore_ascii_case (str_bytes (snd c)) upper) TABLE)"

subsection \<open>Validated codes\<close>

lemma check_letters_Ok: "check_letters i bs = Ok u \<longleftrightarrow> list_all is_ascii_alphabetic bs"
  by (induction bs arbitrary: i) auto

lemma upper_letter:
  assumes "is_ascii_alphabetic b"
  shows "is_ascii_uppercase (if is_ascii_lowercase b then b - 0x20 else b)"
proof (cases "is_ascii_lowercase b")
  case True
  then have "97 \<le> unat b" "unat b \<le> 122" by (simp_all add: is_ascii_lowercase_def word_le_nat_alt)
  moreover from this have "unat (b - 0x20) = unat b - 32" by (subst unat_sub) (simp_all add: word_le_nat_alt)
  moreover from calculation have "65 \<le> unat b - 32" "unat b - 32 \<le> 90" by linarith+
  ultimately show ?thesis using True by (simp add: is_ascii_uppercase_def word_le_nat_alt)
qed (use assms in \<open>simp add: is_ascii_alphabetic_def\<close>)

lemma upper_fixed: "is_ascii_uppercase b \<Longrightarrow> \<not> is_ascii_lowercase b"
  by (auto simp: is_ascii_uppercase_def is_ascii_lowercase_def word_le_nat_alt)

lemma to_upper_letters: "list_all is_ascii_alphabetic bs \<Longrightarrow> list_all is_ascii_uppercase (to_ascii_uppercase bs)"
  by (induction bs) (simp_all add: to_ascii_uppercase_def upper_letter [simplified])

lemma to_upper_id: "list_all is_ascii_uppercase bs \<Longrightarrow> to_ascii_uppercase bs = bs"
  by (induction bs) (simp_all add: to_ascii_uppercase_def upper_fixed)

lemma to_upper_idem: "to_ascii_uppercase (to_ascii_uppercase bs) = to_ascii_uppercase bs"
proof -
  have "(if is_ascii_lowercase (if is_ascii_lowercase b then b - 0x20 else b)
      then (if is_ascii_lowercase b then b - 0x20 else b) - 0x20 else (if is_ascii_lowercase b then b - 0x20 else b))
      = (if is_ascii_lowercase b then b - 0x20 else b)" for b
    using upper_letter [of b] upper_fixed by (auto simp: is_ascii_alphabetic_def)
  then show ?thesis by (simp add: to_ascii_uppercase_def)
qed

text \<open>The validated codes are exactly the fixed points of the constructors.\<close>

lemma IcaoCountry_new_Ok:
  "IcaoCountry_new bs = Ok c \<longleftrightarrow>
   bs \<noteq> [] \<and> length bs \<le> 3 \<and> list_all is_ascii_alphabetic bs \<and> c = to_ascii_uppercase bs"
  by (auto simp: IcaoCountry_new_def and_then_eq_Ok check_letters_Ok)

lemma IcaoCountry_new_upper:
  "bs \<noteq> [] \<Longrightarrow> length bs \<le> 3 \<Longrightarrow> list_all is_ascii_uppercase bs \<Longrightarrow> IcaoCountry_new bs = Ok bs"
  by (auto simp: IcaoCountry_new_Ok to_upper_id list_all_iff is_ascii_alphabetic_def)

lemma table_upper:
  "list_all (\<lambda>c. to_ascii_uppercase (str_bytes (fst c)) = str_bytes (fst c)
     \<and> to_ascii_uppercase (str_bytes (snd c)) = str_bytes (snd c)) TABLE"
  by code_simp

lemma table_distinct: "distinct (map fst TABLE)" "distinct (map snd TABLE)"
  by code_simp+

lemma find_unique: "distinct (map f xs) \<Longrightarrow> c \<in> set xs \<Longrightarrow> find (\<lambda>d. f d = f c) xs = Some c"
  by (induction xs) auto

lemma find_case_insensitive:
  assumes "\<And>d. d \<in> set xs \<Longrightarrow> to_ascii_uppercase (str_bytes (f d)) = str_bytes (f d)" and "c \<in> set xs"
  shows "find (\<lambda>d. eq_ignore_ascii_case (str_bytes (f d)) (str_bytes (f c))) xs = find (\<lambda>d. f d = f c) xs"
  using assms by (intro find_cong) (auto simp: eq_ignore_ascii_case_def)

lemma table_lookups:
  "list_all (\<lambda>c. to_iso_alpha2 (str_bytes (fst c)) = Some (str_bytes (snd c))
     \<and> to_icao (str_bytes (snd c)) = Some (str_bytes (fst c))
     \<and> to_ascii_uppercase (str_bytes (fst c)) = str_bytes (fst c)
     \<and> to_ascii_uppercase (str_bytes (snd c)) = str_bytes (snd c)) TABLE"
proof -
  have upper: "to_ascii_uppercase (str_bytes (fst c)) = str_bytes (fst c)"
    "to_ascii_uppercase (str_bytes (snd c)) = str_bytes (snd c)" if "c \<in> set TABLE" for c
    using table_upper that by (auto simp: list_all_iff)
  have "to_iso_alpha2 (str_bytes (fst c)) = Some (str_bytes (snd c))" if "c \<in> set TABLE" for c
    using find_case_insensitive [of TABLE fst, OF upper(1) that] find_unique [OF table_distinct(1) that]
    by (simp add: to_iso_alpha2_def)
  moreover have "to_icao (str_bytes (snd c)) = Some (str_bytes (fst c))" if "c \<in> set TABLE" for c
    using find_case_insensitive [of TABLE snd, OF upper(2) that] find_unique [OF table_distinct(2) that]
    by (simp add: to_icao_def)
  ultimately show ?thesis using upper by (simp add: list_all_iff)
qed

lemma find_table:
  assumes "find P TABLE = Some c"
  shows "P c" and "to_iso_alpha2 (str_bytes (fst c)) = Some (str_bytes (snd c))"
    and "to_icao (str_bytes (snd c)) = Some (str_bytes (fst c))"
    and "to_ascii_uppercase (str_bytes (fst c)) = str_bytes (fst c)"
    and "to_ascii_uppercase (str_bytes (snd c)) = str_bytes (snd c)"
proof -
  obtain i where "i < length TABLE" "TABLE ! i = c" "P c" using assms by (auto simp: find_Some_iff)
  then have "c \<in> set TABLE" by auto
  with table_lookups show "to_iso_alpha2 (str_bytes (fst c)) = Some (str_bytes (snd c))"
    "to_icao (str_bytes (snd c)) = Some (str_bytes (fst c))"
    "to_ascii_uppercase (str_bytes (fst c)) = str_bytes (fst c)"
    "to_ascii_uppercase (str_bytes (snd c)) = str_bytes (snd c)"
    by (auto simp: list_all_iff)
  show "P c" by fact
qed

text \<open>The two directions of the country table are inverse to each other: a validated code of the
  machine-readable zone that has a two-letter code is the code of that one, and the other way round.\<close>

theorem country_codes_invert:
  assumes "IcaoCountry_new icao_text = Ok icao" and "IsoAlpha2_new iso_text = Ok alpha2"
  shows "to_iso_alpha2 icao = Some alpha2 \<longleftrightarrow> to_icao alpha2 = Some icao"
proof -
  have upper: "to_ascii_uppercase icao = icao" "to_ascii_uppercase alpha2 = alpha2"
    using assms by (auto simp: IcaoCountry_new_Ok IsoAlpha2_new_def and_then_eq_Ok to_upper_idem split: if_splits)
  show ?thesis
  proof
    assume "to_iso_alpha2 icao = Some alpha2"
    then obtain c where c: "find (\<lambda>c. eq_ignore_ascii_case (str_bytes (fst c)) icao) TABLE = Some c"
      "alpha2 = str_bytes (snd c)" by (auto simp: to_iso_alpha2_def)
    with find_table [OF c(1)] upper show "to_icao alpha2 = Some icao" by (simp add: eq_ignore_ascii_case_def)
  next
    assume "to_icao alpha2 = Some icao"
    then obtain c where c: "find (\<lambda>c. eq_ignore_ascii_case (str_bytes (snd c)) alpha2) TABLE = Some c"
      "icao = str_bytes (fst c)" by (auto simp: to_icao_def)
    with find_table [OF c(1)] upper show "to_iso_alpha2 icao = Some alpha2" by (simp add: eq_ignore_ascii_case_def)
  qed
qed

theorem country_codes_invert_witness:
  "IcaoCountry_new (str_bytes ''fin'') = Ok (str_bytes ''FIN'')
   \<and> to_icao (str_bytes ''FI'') = Some (str_bytes ''FIN'')"
proof -
  have "IcaoCountry_new (str_bytes ''fin'') = Ok (str_bytes ''FIN'')"
    "IsoAlpha2_new (str_bytes ''fi'') = Ok (str_bytes ''FI'')"
    "to_iso_alpha2 (str_bytes ''FIN'') = Some (str_bytes ''FI'')" by code_simp+
  with country_codes_invert [of "str_bytes ''fin''" "str_bytes ''FIN''" "str_bytes ''fi''" "str_bytes ''FI''"]
  show ?thesis by simp
qed

end
