(* ===== verification/Emrtd_File.thy ===== *)
theory Emrtd_File
  imports Card_Exchange Ber
begin

text \<open>
  Reading files of the travel-document application (\<open>crates/refineid-lib-core/src/emrtd.rs\<close>, to line 540):
  selection of the application, one \<open>READ BINARY\<close>, the total length announced by the outer header,
  and the loop that reads a file in chunks.
\<close>

subsection \<open>Operations\<close>

abbreviation APPLET_AID :: bytes where "APPLET_AID \<equiv> [0xA0, 0x00, 0x00, 0x02, 0x47, 0x10, 0x01]"
abbreviation SFI_EF_COM :: byte where "SFI_EF_COM \<equiv> 0x1E"
abbreviation SFI_EF_DG1 :: byte where "SFI_EF_DG1 \<equiv> 0x01"
abbreviation SFI_EF_DG2 :: byte where "SFI_EF_DG2 \<equiv> 0x02"
abbreviation SFI_EF_DG7 :: byte where "SFI_EF_DG7 \<equiv> 0x07"
abbreviation SFI_EF_DG11 :: byte where "SFI_EF_DG11 \<equiv> 0x0B"
abbreviation SFI_EF_DG12 :: byte where "SFI_EF_DG12 \<equiv> 0x0C"
abbreviation SFI_EF_DG14 :: byte where "SFI_EF_DG14 \<equiv> 0x0E"
abbreviation SFI_EF_DG15 :: byte where "SFI_EF_DG15 \<equiv> 0x0F"
abbreviation SFI_EF_SOD :: byte where "SFI_EF_SOD \<equiv> 0x1D"
abbreviation MAX_CHUNK :: nat where "MAX_CHUNK \<equiv> 0xE0"

datatype 'e emrtd_error =
    EmrtdTransport "'e dispatch_error"
  | EmrtdSw string u16
  | EmrtdBer ber_error
  | EmrtdPace string
  | BadCan
  | EmrtdSecureMessaging string
  | EmrtdCardReset
  | ParseFailure string
  | ParseFailureDetail string string

definition select_application :: "('t, 'e) card \<Rightarrow> 't \<Rightarrow> ('e emrtd_error, status_word) res \<times> 't" where
  "select_application tx t =
     (case transmit tx t (apdu_bytes (SelectByAidNoFci_into_apdu APPLET_AID)) of
        (r, t') \<Rightarrow> tx_then (map_err EmrtdTransport r, t') (\<lambda>r t. (Ok (status_word_of r), t)))"

datatype address_mode = ModeSfi byte | ModeOffset

definition read_chunk ::
  "('t, 'e) card \<Rightarrow> address_mode \<Rightarrow> u16 \<Rightarrow> byte \<Rightarrow> 't \<Rightarrow> ('e emrtd_error, bytes) res \<times> 't" where
  "read_chunk tx mode offset le t =
     (let apdu = (case mode of
                    ModeSfi sfi \<Rightarrow> ReadBinaryBySfi_into_apdu sfi (u16_lo offset) le
                  | ModeOffset \<Rightarrow> ReadBinaryByOffset_into_apdu offset le) in
      case transmit tx t (apdu_bytes apdu) of
        (r, t') \<Rightarrow> tx_then (map_err EmrtdTransport r, t') (\<lambda>r t.
          if status_word_of r \<in> {Success, EndOfFile} then (Ok (resp_body r), t)
          else (Err (EmrtdSw ''READ BINARY'' (response_sw r)), t)))"

definition checked_add :: "nat \<Rightarrow> nat \<Rightarrow> nat option" where
  "checked_add a b = (if a + b \<le> usize_max then Some (a + b) else None)"

text \<open>The loop over the continuation bytes of a tag.\<close>

function skip_tag :: "bytes \<Rightarrow> nat \<Rightarrow> nat" where
  "skip_tag header i =
     (case get_at header i of
        Some b \<Rightarrow> if b AND 0x80 \<noteq> 0 then skip_tag header (i + 1) else i
      | None \<Rightarrow> i)"
  by pat_completeness auto

termination
  by (relation "measure (\<lambda>(header, i). length header - i)") (auto simp: get_at_def split: if_splits)

text \<open>The loop over the bytes of a long-form length; \<open>checked_shl(8)\<close> drops the bits shifted out.\<close>

fun long_length :: "bytes \<Rightarrow> nat \<Rightarrow> nat \<Rightarrow> nat \<Rightarrow> nat option" where
  "long_length header idx 0 v = Some v"
| "long_length header idx (Suc n) v =
     (case get_at header idx of
        None \<Rightarrow> None
      | Some b \<Rightarrow>
          (case checked_add (v * 256 mod 2 ^ 64) (unat b) of
             None \<Rightarrow> None
           | Some v' \<Rightarrow> long_length header (idx + 1) n v'))"

definition decode_outer_total_length_inner :: "bytes \<Rightarrow> nat option" where
  "decode_outer_total_length_inner header =
     (case get_at header 0 of
        None \<Rightarrow> None
      | Some fst_byte \<Rightarrow>
          let tag_bytes =
            (if fst_byte AND 0x1F = 0x1F then
               let i = skip_tag header 1 in if get_at header i \<noteq> None then i + 1 else i
             else 1) in
          (case get_at header tag_bytes of
             None \<Rightarrow> None
           | Some len_first \<Rightarrow>
               if len_first < 0x80 then
                 Option.bind (checked_add tag_bytes 1) (\<lambda>s. checked_add s (unat len_first))
               else
                 let n = unat (len_first AND 0x7F) in
                 Option.bind (long_length header (tag_bytes + 1) n 0) (\<lambda>v.
                 Option.bind (checked_add tag_bytes (1 + n)) (\<lambda>s. checked_add s v))))"

definition decode_outer_total_length :: "bytes \<Rightarrow> nat" where
  "decode_outer_total_length header =
     (case decode_outer_total_length_inner header of Some n \<Rightarrow> n | None \<Rightarrow> length header)"

text \<open>The loop of \<open>read_file\<close>. It ends because an offset above 65535 stops it and every other round
  either ends or adds at least one byte.\<close>

function read_rest :: "('t, 'e) card \<Rightarrow> nat \<Rightarrow> bytes \<Rightarrow> 't \<Rightarrow> ('e emrtd_error, bytes) res \<times> 't" where
  "read_rest tx total_len collected t =
     (if length collected < total_len then
        let remaining = total_len - length collected; want = min MAX_CHUNK remaining in
        if 0xFFFF < length collected then (Ok collected, t)
        else
          tx_then (read_chunk tx ModeOffset (word_of_nat (length collected)) (word_of_nat want) t) (\<lambda>chunk t.
          if chunk = [] then (Ok collected, t) else read_rest tx total_len (collected @ chunk) t)
      else (Ok collected, t))"
  by pat_completeness auto

termination
  by (relation "measure (\<lambda>(tx, total_len, collected, t). 0x10000 - length collected)")
    (auto simp del: length_greater_0_conv simp flip: length_greater_0_conv)

definition read_file :: "('t, 'e) card \<Rightarrow> byte \<Rightarrow> 't \<Rightarrow> ('e emrtd_error, bytes) res \<times> 't" where
  "read_file tx sfi t =
     tx_then (read_chunk tx (ModeSfi sfi) 0 4 t) (\<lambda>header t.
     if length header < 2 then (Ok header, t)
     else read_rest tx (if header = [] then length header else decode_outer_total_length header) header t)"

declare skip_tag.simps [simp del] read_rest.simps [simp del]

subsection \<open>Bounds on the loop\<close>

lemma read_chunk_logged:
  "read_chunk (logged tx) mode offset le (t, sent) =
     (case read_chunk tx mode offset le t of (r, t') \<Rightarrow>
        (r, t', sent @ [apdu_bytes (case mode of
                          ModeSfi sfi \<Rightarrow> ReadBinaryBySfi_into_apdu sfi (u16_lo offset) le
                        | ModeOffset \<Rightarrow> ReadBinaryByOffset_into_apdu offset le)]))"
proof -
  obtain r t' where "transmit tx t (apdu_bytes (case mode of
        ModeSfi sfi \<Rightarrow> ReadBinaryBySfi_into_apdu sfi (u16_lo offset) le
      | ModeOffset \<Rightarrow> ReadBinaryByOffset_into_apdu offset le)) = (r, t')" by fastforce
  then show ?thesis by (cases r) (simp_all add: read_chunk_def Let_def)
qed

lemma read_rest_commands:
  "length (snd (snd (read_rest (logged tx) total_len collected (t, sent)))) \<le> length sent + (0x10000 - length collected)"
proof (induction "0x10000 - length collected" arbitrary: collected t sent rule: less_induct)
  case less
  show ?case
  proof (cases "length collected < total_len \<and> length collected \<le> 0xFFFF")
    case True
    let ?w = "word_of_nat (min MAX_CHUNK (total_len - length collected)) :: byte"
    obtain r t' where c: "read_chunk tx ModeOffset (word_of_nat (length collected)) ?w t = (r, t')" by fastforce
    show ?thesis
    proof (cases r)
      case (Ok chunk)
      show ?thesis
      proof (cases "chunk = []")
        case False
        then have "0x10000 - length (collected @ chunk) < 0x10000 - length collected" using True by (cases chunk) auto
        note IH = less [OF this, of t' "sent @ [apdu_bytes (ReadBinaryByOffset_into_apdu (word_of_nat (length collected)) ?w)]"]
        have step: "Suc (length sent + (0x10000 - (length collected + length chunk))) \<le> length sent + (0x10000 - length collected)"
          using False True by (cases chunk) auto
        show ?thesis using order_trans [OF IH [simplified] step] True c Ok False
          by (subst read_rest.simps) (simp add: Let_def read_chunk_logged)
      qed (use True c Ok in \<open>subst read_rest.simps, auto simp: Let_def read_chunk_logged\<close>)
    qed (use True c in \<open>subst read_rest.simps, auto simp: Let_def read_chunk_logged\<close>)+
  next
    case False
    then show ?thesis by (subst read_rest.simps) (auto simp: Let_def)
  qed
qed


lemma read_chunk_commands:
  "length (snd (snd (read_chunk (logged tx) mode offset le (t, sent)))) = length sent + 1"
  by (simp add: read_chunk_logged split: prod.splits)

text \<open>C17. Reading a file ends whatever the card answers: at most 65,535 commands are sent, even to a card
  that announces an absurd length and hands out one byte at a time.\<close>

theorem read_file_terminates:
  "length (snd (snd (read_file (logged tx) sfi (t, [])))) \<le> 65535"
proof -
  obtain r t' where c: "read_chunk tx (ModeSfi sfi) 0 4 t = (r, t')" by fastforce
  show ?thesis
  proof (cases r)
    case (Ok header)
    note rest = read_rest_commands [of tx "decode_outer_total_length header" header t'
        "[apdu_bytes (ReadBinaryBySfi_into_apdu sfi (u16_lo 0) 4)]"]
    show ?thesis
    proof (cases "length header < 2")
      case False
      then have "header \<noteq> []" by auto
      have "Suc (0x10000 - length header) \<le> 65535" using False by simp
      from order_trans [OF rest [simplified] this] False \<open>header \<noteq> []\<close> c Ok show ?thesis
        by (simp add: read_file_def read_chunk_logged)
    qed (use c Ok in \<open>simp add: read_file_def read_chunk_logged\<close>)
  qed (use c in \<open>simp_all add: read_file_def read_chunk_logged\<close>)
qed

subsection \<open>Reading from a card that serves files\<close>

text \<open>What ISO 7816-4 promises of \<open>READ BINARY\<close>: with a short file identifier the file becomes current and
  its first bytes are returned, otherwise the bytes from the fifteen-bit offset of the current file.\<close>

definition serves :: "('t, 'e) card \<Rightarrow> (byte \<Rightarrow> bytes) \<Rightarrow> ('t \<Rightarrow> byte option) \<Rightarrow> bool" where
  "serves tx files current \<longleftrightarrow>
     (\<forall>t sfi le. sfi_ok sfi \<longrightarrow> le \<noteq> 0 \<longrightarrow> (\<exists>r t'. tx t (CommandApdu_new [0x00, 0xB0, 0x80 OR sfi, 0x00, le]) = (Ok (Response r), t')
        \<and> status_word_of r \<in> {Success, EndOfFile} \<and> resp_body r = take (unat le) (files sfi) \<and> current t' = Some sfi))
     \<and> (\<forall>t sfi hi lo le. le \<noteq> 0 \<longrightarrow> hi < 0x80 \<longrightarrow> current t = Some sfi \<longrightarrow>
        (\<exists>r t'. tx t (CommandApdu_new [0x00, 0xB0, hi, lo, le]) = (Ok (Response r), t')
          \<and> status_word_of r \<in> {Success, EndOfFile}
          \<and> resp_body r = take (unat le) (drop (unat hi * 256 + unat lo) (files sfi)) \<and> current t' = Some sfi))"

lemma read_chunk_sfi:
  assumes "serves tx files current" and "sfi_ok sfi"
  shows "\<exists>t'. read_chunk tx (ModeSfi sfi) 0 4 t = (Ok (take 4 (files sfi)), t') \<and> current t' = Some sfi"
proof -
  have "(4 :: byte) \<noteq> 0" "unat (4 :: byte) = 4" by simp_all
  then obtain r t' where "tx t (CommandApdu_new [0x00, 0xB0, 0x80 OR sfi, 0x00, 4]) = (Ok (Response r), t')"
    "status_word_of r \<in> {Success, EndOfFile}" "resp_body r = take 4 (files sfi)" "current t' = Some sfi"
    using assms unfolding serves_def by metis
  then show ?thesis
    by (simp add: read_chunk_def transmit_def ReadBinaryBySfi_into_apdu_def allow_wrong_le_retry_def
        as_p1_short_form_def u16_lo_def)
qed

lemma masked_offset:
  "unat (u16_hi w AND 0x7F) * 256 + unat (u16_lo w) = unat w mod 32768"
proof -
  have "u16_hi w AND 0x7F = take_bit 7 (u16_hi w)" by (simp add: take_bit_eq_mask mask_eq_exp_minus_1)
  then have "unat (u16_hi w AND 0x7F) = unat w div 256 mod 128"
    by (simp add: unat_u16_hi unat_mod take_bit_eq_mod)
  moreover have "unat w mod (256 * 128) = 256 * (unat w div 256 mod 128) + unat w mod 256"
    by (rule mod_mult2_eq)
  ultimately show ?thesis by (simp add: unat_u16_lo)
qed

lemma masked_high: "u16_hi w AND 0x7F < (0x80 :: byte)"
proof -
  have "u16_hi w AND 0x7F = take_bit 7 (u16_hi w)" by (simp add: take_bit_eq_mask mask_eq_exp_minus_1)
  then show ?thesis by (simp add: word_less_nat_alt unsigned_take_bit_eq take_bit_nat_less_exp [of 7, simplified])
qed

lemma read_chunk_offset:
  assumes "serves tx files current" and "current t = Some sfi" and "le \<noteq> 0"
  shows "\<exists>t'. read_chunk tx ModeOffset w le t = (Ok (take (unat le) (drop (unat w mod 32768) (files sfi))), t')
    \<and> current t' = Some sfi"
proof -
  obtain r t' where "tx t (CommandApdu_new [0x00, 0xB0, u16_hi w AND 0x7F, u16_lo w, le]) = (Ok (Response r), t')"
    "status_word_of r \<in> {Success, EndOfFile}"
    "resp_body r = take (unat le) (drop (unat (u16_hi w AND 0x7F) * 256 + unat (u16_lo w)) (files sfi))"
    "current t' = Some sfi"
    using assms masked_high [of w] unfolding serves_def by metis
  then show ?thesis
    by (simp add: read_chunk_def transmit_def ReadBinaryByOffset_into_apdu_def allow_wrong_le_retry_def masked_offset)
qed


text \<open>The position in the file of the byte that ends up at index \<open>i\<close>.\<close>

definition read_position :: "nat \<Rightarrow> nat" where
  "read_position i = (if i < 32932 then i else i - 32768)"

lemma take_drop_nth:
  assumes "a + m \<le> length f"
  shows "take m (drop a f) = map (\<lambda>i. f ! i) [a..<a + m]"
  using assms by (intro nth_equalityI) (simp_all add: nth_append)

text \<open>The chunk read at an offset of the loop.\<close>

lemma chunk_positions:
  assumes "off = 4 + 224 * k" and "off < length f" and "length f \<le> 65539" and "want = min 224 (length f - off)"
  shows "take want (drop (off mod 32768) f) = map (\<lambda>i. f ! read_position i) [off..<off + want]" and "off \<le> 65412"
proof -
  have k: "k \<le> 292" using assms by simp
  then show "off \<le> 65412" using assms(1) by simp
  show "take want (drop (off mod 32768) f) = map (\<lambda>i. f ! read_position i) [off..<off + want]"
  proof (cases "k \<le> 146")
    case True
    then have "off \<le> 32708" using assms(1) by simp
    then have "off mod 32768 = off" "off + want \<le> 32932" using assms(4) by simp_all
    then show ?thesis using assms(2,4) by (subst take_drop_nth) (auto simp: read_position_def)
  next
    case False
    then have off: "32932 \<le> off" using assms(1) by simp
    have m: "off mod 32768 = off - 32768" using off \<open>off \<le> 65412\<close> by (simp add: mod_if)
    have "take want (drop (off - 32768) f) = map (\<lambda>i. f ! i) [off - 32768..<off - 32768 + want]"
      using assms(2,4) by (intro take_drop_nth) simp
    also have "\<dots> = map (\<lambda>i. f ! read_position i) [off..<off + want]"
      using off by (intro nth_equalityI) (simp_all add: read_position_def)
    finally show ?thesis using m by simp
  qed
qed

lemma read_rest_step:
  assumes "length collected < n" and "length collected \<le> 0xFFFF"
    and "read_chunk tx ModeOffset (word_of_nat (length collected)) (word_of_nat (min MAX_CHUNK (n - length collected))) t
      = (Ok chunk, t')"
    and "chunk \<noteq> []"
  shows "read_rest tx n collected t = read_rest tx n (collected @ chunk) t'"
proof -
  have "\<not> 0xFFFF < length collected" using assms(2) by simp
  then show ?thesis
    by (subst read_rest.simps) (simp only: assms Let_def tx_then_simps if_True if_False simp_thms)
qed

lemma read_rest_exact:
  assumes card: "serves tx files current" and f: "f = files sfi" and len: "length f \<le> 65539"
  shows "current t = Some sfi \<Longrightarrow>
    \<exists>t'. read_rest tx (length f) (map (\<lambda>i. f ! read_position i) [0..<min (length f) (4 + 224 * k)]) t
      = (Ok (map (\<lambda>i. f ! read_position i) [0..<length f]), t')"
proof (induction "300 - k" arbitrary: k t)
  case 0
  then have "min (length f) (4 + 224 * k) = length f" using len by simp
  then show ?case by (subst read_rest.simps) simp
next
  case (Suc n)
  define p where "p = 4 + 224 * k"
  show ?case
  proof (cases "p < length f")
    case True
    define want where "want = min 224 (length f - p)"
    note chunk = chunk_positions [OF p_def True len want_def]
    have w: "0 < want" "want \<le> 224" using True by (simp_all add: want_def)
    then have le: "unat (word_of_nat want :: byte) = want" by (simp add: unat_of_nat)
    then have "word_of_nat want \<noteq> (0 :: byte)" using w by (auto simp: word_unat_eq_iff)
    moreover have "unat (word_of_nat p :: u16) = p" using chunk(2) by (simp add: unat_of_nat)
    ultimately obtain t' where c: "read_chunk tx ModeOffset (word_of_nat p) (word_of_nat want) t =
        (Ok (map (\<lambda>i. f ! read_position i) [p..<p + want]), t')" "current t' = Some sfi"
      using read_chunk_offset [OF card Suc.prems, of "word_of_nat want" "word_of_nat p"] chunk(1) le f by auto
    have next_len: "min (length f) (4 + 224 * Suc k) = p + want" using True by (auto simp: p_def want_def)
    have "n = 300 - Suc k" using Suc.hyps(2) by simp
    from Suc.hyps(1) [OF this c(2)]
    obtain t'' where "read_rest tx (length f) (map (\<lambda>i. f ! read_position i) [0..<p + want]) t'
        = (Ok (map (\<lambda>i. f ! read_position i) [0..<length f]), t'')" unfolding next_len by blast
    note rest = this
    define xs where "xs = map (\<lambda>i. f ! read_position i) [0..<p]"
    define ys where "ys = map (\<lambda>i. f ! read_position i) [p..<p + want]"
    have app: "xs @ ys = map (\<lambda>i. f ! read_position i) [0..<p + want]"
      unfolding xs_def ys_def by (subst upt_add_eq_append [of 0 p want]) simp_all
    have lens: "length xs = p" "ys \<noteq> []" using w by (simp_all add: xs_def ys_def)
    have "read_rest tx (length f) xs t = read_rest tx (length f) (xs @ ys) t'"
    proof (rule read_rest_step)
      show "length xs < length f" "length xs \<le> 0xFFFF" using True chunk(2) lens(1) by simp_all
      show "read_chunk tx ModeOffset (word_of_nat (length xs)) (word_of_nat (min MAX_CHUNK (length f - length xs))) t = (Ok ys, t')"
        using c(1) unfolding lens(1) ys_def want_def .
      show "ys \<noteq> []" by (rule lens(2))
    qed
    then have "read_rest tx (length f) xs t = (Ok (map (\<lambda>i. f ! read_position i) [0..<length f]), t'')"
      using rest app by simp
    moreover have "min (length f) (4 + 224 * k) = p" using True by (simp add: p_def)
    ultimately show ?thesis unfolding xs_def by simp
  next
    case False
    then have "min (length f) (4 + 224 * k) = length f" by (simp add: p_def)
    then show ?thesis by (subst read_rest.simps) simp
  qed
qed


lemma read_file_positions:
  assumes card: "serves tx files current" and sfi: "sfi_ok sfi" and f: "f = files sfi"
    and header: "2 \<le> length f" "decode_outer_total_length (take 4 f) = length f" and len: "length f \<le> 65539"
  shows "\<exists>t'. read_file tx sfi t = (Ok (map (\<lambda>i. f ! read_position i) [0..<length f]), t')"
proof -
  obtain t1 where c: "read_chunk tx (ModeSfi sfi) 0 4 t = (Ok (take 4 f), t1)" "current t1 = Some sfi"
    using read_chunk_sfi [OF card sfi] f by blast
  have start: "take 4 f = map (\<lambda>i. f ! read_position i) [0..<min (length f) (4 + 224 * 0)]"
    by (intro nth_equalityI) (simp_all add: read_position_def)
  have "read_file tx sfi t = read_rest tx (length f) (take 4 f) t1"
    using c(1) header by (auto simp: read_file_def)
  then show ?thesis using read_rest_exact [OF card f len c(2), of 0] start by simp
qed

lemma read_position_small: "length f \<le> 32932 \<Longrightarrow> map (\<lambda>i. f ! read_position i) [0..<length f] = f"
  by (intro nth_equalityI) (simp_all add: read_position_def)

text \<open>C16. Reading a file whose outer header announces its length returns the file if it has at most 32,932
  bytes. From there on the offset no longer fits the fifteen bits of the command: the top bit is cut off, and
  the bytes from index 32,932 on are those from index 164 of the file, so a longer file comes back with the
  right length and a wrong tail.\<close>

theorem read_file_exact:
  assumes "serves tx files current" and "sfi_ok sfi" and "2 \<le> length (files sfi)" and "length (files sfi) \<le> 65539"
    and "decode_outer_total_length (take 4 (files sfi)) = length (files sfi)"
  shows "\<exists>g t'. read_file tx sfi t = (Ok g, t') \<and> length g = length (files sfi)
    \<and> (length (files sfi) \<le> 32932 \<longrightarrow> g = files sfi)
    \<and> (\<forall>i < length (files sfi). g ! i = files sfi ! (if i < 32932 then i else i - 32768))"
proof -
  obtain t' where "read_file tx sfi t = (Ok (map (\<lambda>i. files sfi ! read_position i) [0..<length (files sfi)]), t')"
    using read_file_positions [OF assms(1,2) refl assms(3,5,4)] by blast
  then show ?thesis using read_position_small [of "files sfi"] by (auto simp: read_position_def)
qed

text \<open>A card with the same file in every slot.\<close>

definition toy_file :: bytes where "toy_file = [0x61, 0x06, 1, 2, 3, 4, 5, 6]"

definition toy_reader :: "bytes \<Rightarrow> (byte option, unit) card" where
  "toy_reader f current cmd = (case apdu_bytes cmd of
     [_, _, hi, lo, le] \<Rightarrow>
       if 0x80 \<le> hi then
         (Ok (Response \<lparr>resp_body = take (unat le) f, resp_sw1 = 0x90, resp_sw2 = 0\<rparr>), Some (hi AND 0x7F))
       else
         (Ok (Response \<lparr>resp_body = take (unat le) (drop (unat hi * 256 + unat lo) f),
                          resp_sw1 = 0x90, resp_sw2 = 0\<rparr>), current)
   | _ \<Rightarrow> (Ok NoCard, current))"

lemma toy_reader_serves: "serves (toy_reader f) (\<lambda>_. f) id"
proof -
  have sfi: "0x80 \<le> 0x80 OR s \<and> (0x80 OR s) AND 0x7F = s" if "sfi_ok s" for s :: byte
  proof -
    have "unat s \<le> 30" using that by (simp add: sfi_ok_def word_le_nat_alt)
    then have "unat s \<in> set [0..<31]" by simp
    moreover have "\<forall>n \<in> set [0..<31]. 0x80 \<le> 0x80 OR (word_of_nat n :: byte) \<and> (0x80 OR word_of_nat n) AND 0x7F = (word_of_nat n :: byte)"
      by code_simp
    ultimately have "0x80 \<le> 0x80 OR (word_of_nat (unat s) :: byte) \<and> (0x80 OR word_of_nat (unat s)) AND 0x7F = (word_of_nat (unat s) :: byte)"
      by blast
    then show ?thesis by simp
  qed
  have ok: "status_word_of \<lparr>resp_body = b, resp_sw1 = 0x90, resp_sw2 = 0\<rparr> = Success" for b
    by (simp add: status_word_of_def sw_from_bytes_def sw_from_u16_def u16_from_be_bytes_def)
  show ?thesis unfolding serves_def by (auto simp: toy_reader_def sfi ok)
qed

theorem read_file_exact_witness:
  "\<exists>g t'. read_file (toy_reader toy_file) SFI_EF_DG1 None = (Ok g, t') \<and> g = toy_file"
proof -
  have "decode_outer_total_length (take 4 toy_file) = length toy_file"
    by (simp add: toy_file_def decode_outer_total_length_def decode_outer_total_length_inner_def get_at_def checked_add_def)
  moreover have "2 \<le> length toy_file" "length toy_file \<le> 32932" by (simp_all add: toy_file_def)
  moreover have "sfi_ok SFI_EF_DG1" by (simp add: sfi_ok_def)
  ultimately show ?thesis
    using read_file_exact [OF toy_reader_serves, of SFI_EF_DG1 toy_file None] by auto
qed


text \<open>A file whose header does not fit the first four bytes, such as one with a three-byte length, is not
  read further: the announced length is taken to be that of the header, no follow-up command is sent, and
  four bytes are returned as if they were the file.\<close>

theorem long_header_is_cut:
  assumes "serves tx files current" and "sfi_ok sfi" and "files sfi = [tag, 0x83, a, b] @ rest" and "tag AND 0x1F \<noteq> 0x1F"
  shows "\<exists>t'. read_file tx sfi t = (Ok [tag, 0x83, a, b], t')"
proof -
  obtain t1 where c: "read_chunk tx (ModeSfi sfi) 0 4 t = (Ok [tag, 0x83, a, b], t1)"
    using read_chunk_sfi [OF assms(1,2)] assms(3) by fastforce
  have "long_length [tag, 0x83, a, b] (Suc (Suc 0)) 3 0 = None"
    by (simp add: numeral_3_eq_3 get_at_def checked_add_def)
  then have "decode_outer_total_length [tag, 0x83, a, b] = 4"
    using assms(4) by (simp add: decode_outer_total_length_def decode_outer_total_length_inner_def get_at_def)
  then show ?thesis using c by (simp add: read_file_def read_rest.simps)
qed

theorem long_header_is_cut_witness:
  "\<exists>t'. read_file (toy_reader [0x75, 0x83, 0, 0, 1, 9]) SFI_EF_DG2 None = (Ok [0x75, 0x83, 0, 0], t')"
proof -
  have "sfi_ok SFI_EF_DG2" by (simp add: sfi_ok_def)
  moreover have "(0x75 :: byte) AND 0x1F \<noteq> 0x1F" by simp
  ultimately show ?thesis
    using long_header_is_cut [OF toy_reader_serves, of SFI_EF_DG2 "[0x75, 0x83, 0, 0, 1, 9]" "0x75" 0 0 "[1, 9]" None] by simp
qed

end
