(* ===== verification/Iso8601.thy ===== *)
theory Iso8601
  imports Decimal "HOL-Library.List_Lexorder"
begin

text \<open>
  Calendar dates and timestamps (\<open>crates/refineid-lib-core/src/iso8601.rs\<close>): construction, the parsers
  of the wire forms of the travel document and of the extended form, and their printers.

  A date is a datatype with the fields of the struct, so that it can carry the derived order.
\<close>

subsection \<open>Values and errors\<close>

datatype date = Date (date_year: u16) (date_month: byte) (date_day: byte)

datatype time_offset = Unspecified | Utc | OffsetPlus byte byte | OffsetMinus byte byte

record date_time =
  dt_date :: date
  dt_hour :: byte
  dt_minute :: byte
  dt_second :: byte
  dt_offset :: time_offset

datatype iso8601 = IsoDate date | IsoDateTime date_time

abbreviation YEAR_MIN :: u16 where "YEAR_MIN \<equiv> 1900"
abbreviation YEAR_MAX :: u16 where "YEAR_MAX \<equiv> 2100"

datatype iso8601_error =
    YearOutOfRange u16 u16 u16
  | MonthOutOfRange byte
  | DayOutOfRange byte byte u16
  | HourOutOfRange byte
  | MinuteOutOfRange byte
  | SecondOutOfRange byte
  | OffsetHoursOutOfRange byte
  | OffsetMinutesOutOfRange byte
  | ParseShape string nat
  | ParseChars string nat

definition days_in_month :: "u16 \<Rightarrow> byte \<Rightarrow> byte" where
  "days_in_month year month =
     (if month \<in> {1, 3, 5, 7, 8, 10, 12} then 31
      else if month \<in> {4, 6, 9, 11} then 30
      else if month = 2 then
        (let leap = year mod 4 = 0 \<and> (year mod 100 \<noteq> 0 \<or> year mod 400 = 0) in if leap then 29 else 28)
      else 0)"

definition validate_calendar :: "u16 \<Rightarrow> byte \<Rightarrow> byte \<Rightarrow> (iso8601_error, unit) res" where
  "validate_calendar year month day =
     (if year < YEAR_MIN \<or> YEAR_MAX < year then Err (YearOutOfRange year YEAR_MIN YEAR_MAX)
      else if month < 1 \<or> 12 < month then Err (MonthOutOfRange month)
      else
        let last_day = days_in_month year month in
        if day < 1 \<or> last_day < day then Err (DayOutOfRange day month year) else Ok ())"

definition Date_new :: "u16 \<Rightarrow> byte \<Rightarrow> byte \<Rightarrow> (iso8601_error, date) res" where
  "Date_new year month day = and_then (validate_calendar year month day) (\<lambda>_. Ok (Date year month day))"

definition check_offset :: "byte \<Rightarrow> byte \<Rightarrow> (iso8601_error, unit) res" where
  "check_offset hours minutes =
     (if 14 < hours then Err (OffsetHoursOutOfRange hours)
      else if 59 < minutes then Err (OffsetMinutesOutOfRange minutes)
      else Ok ())"

fun validate_offset :: "time_offset \<Rightarrow> (iso8601_error, unit) res" where
  "validate_offset Unspecified = Ok ()"
| "validate_offset Utc = Ok ()"
| "validate_offset (OffsetPlus hours minutes) = check_offset hours minutes"
| "validate_offset (OffsetMinus hours minutes) = check_offset hours minutes"

definition DateTime_new :: "date \<Rightarrow> byte \<Rightarrow> byte \<Rightarrow> byte \<Rightarrow> time_offset \<Rightarrow> (iso8601_error, date_time) res" where
  "DateTime_new d hour minute second offset =
     (if 23 < hour then Err (HourOutOfRange hour)
      else if 59 < minute then Err (MinuteOutOfRange minute)
      else if 60 < second then Err (SecondOutOfRange second)
      else and_then (validate_offset offset) (\<lambda>_.
        Ok \<lparr>dt_date = d, dt_hour = hour, dt_minute = minute, dt_second = second, dt_offset = offset\<rparr>))"

subsection \<open>Parsers\<close>

text \<open>The loop of \<open>check_ascii_digits\<close>; \<open>at\<close> is the index of the first byte, which is added with
  saturation.\<close>

fun check_ascii_digits :: "bytes \<Rightarrow> string \<Rightarrow> nat \<Rightarrow> (iso8601_error, unit) res" where
  "check_ascii_digits [] production at = Ok ()"
| "check_ascii_digits (b # bs) production at =
     (if \<not> is_ascii_digit b then Err (ParseChars production (min usize_max at))
      else check_ascii_digits bs production (at + 1))"

definition parse_u16 :: "bytes \<Rightarrow> u16" where
  "parse_u16 bs = foldl (\<lambda>acc b. acc * 10 + ucast (b - 0x30)) 0 bs"

definition parse_u8 :: "bytes \<Rightarrow> byte" where
  "parse_u8 bs = foldl (\<lambda>acc b. acc * 10 + (b - 0x30)) 0 bs"

definition from_iso_date_string :: "string \<Rightarrow> (iso8601_error, date) res" where
  "from_iso_date_string s =
     (let prod = ''YYYY-MM-DD''; bs = str_bytes s; shape_err = ParseShape prod (length bs) in
      if length bs \<noteq> 10 then Err shape_err
      else
        and_then (ok_or (slice bs 0 4) shape_err) (\<lambda>year_bytes.
        and_then (ok_or (get_at bs 4) shape_err) (\<lambda>dash_at_4.
        and_then (ok_or (slice bs 5 7) shape_err) (\<lambda>month_bytes.
        and_then (ok_or (get_at bs 7) shape_err) (\<lambda>dash_at_7.
        and_then (ok_or (slice bs 8 10) shape_err) (\<lambda>day_bytes.
        if dash_at_4 \<noteq> 0x2D then Err (ParseChars prod 4)
        else if dash_at_7 \<noteq> 0x2D then Err (ParseChars prod 7)
        else
          and_then (check_ascii_digits year_bytes prod 0) (\<lambda>_.
          and_then (check_ascii_digits month_bytes prod 5) (\<lambda>_.
          and_then (check_ascii_digits day_bytes prod 8) (\<lambda>_.
          Date_new (parse_u16 year_bytes) (parse_u8 month_bytes) (parse_u8 day_bytes))))))))))"

text \<open>The fixed-size array arguments of the following parsers are byte strings of that length.\<close>

definition sub :: "bytes \<Rightarrow> nat \<Rightarrow> nat \<Rightarrow> bytes" where
  "sub bs a b = take (b - a) (drop a bs)"

definition from_yyyymmdd :: "bytes \<Rightarrow> (iso8601_error, date) res" where
  "from_yyyymmdd bs =
     and_then (check_ascii_digits bs ''YYYYMMDD'' 0) (\<lambda>_.
     Date_new (parse_u16 (sub bs 0 4)) (parse_u8 (sub bs 4 6)) (parse_u8 (sub bs 6 8)))"

definition from_mrz_yymmdd :: "bytes \<Rightarrow> (iso8601_error, date) res" where
  "from_mrz_yymmdd bs =
     and_then (check_ascii_digits bs ''YYMMDD'' 0) (\<lambda>_.
     let yy = parse_u8 (sub bs 0 2); month = parse_u8 (sub bs 2 4); day = parse_u8 (sub bs 4 6);
         year = (if yy < 50 then 2000 + ucast yy else 1900 + ucast yy) in
     Date_new year month day)"

definition from_yyyymmddhhmmss :: "bytes \<Rightarrow> (iso8601_error, date_time) res" where
  "from_yyyymmddhhmmss bs =
     and_then (check_ascii_digits bs ''YYYYMMDDhhmmss'' 0) (\<lambda>_.
     and_then (Date_new (parse_u16 (sub bs 0 4)) (parse_u8 (sub bs 4 6)) (parse_u8 (sub bs 6 8))) (\<lambda>d.
     DateTime_new d (parse_u8 (sub bs 8 10)) (parse_u8 (sub bs 10 12)) (parse_u8 (sub bs 12 14)) Unspecified))"

subsection \<open>Printers\<close>

definition to_yyyymmdd :: "date \<Rightarrow> string" where
  "to_yyyymmdd d =
     padded_decimal 4 (unat (date_year d)) @ padded_decimal 2 (unat (date_month d)) @ padded_decimal 2 (unat (date_day d))"

definition to_mrz_yymmdd :: "date \<Rightarrow> string" where
  "to_mrz_yymmdd d =
     padded_decimal 2 (unat (date_year d mod 100)) @ padded_decimal 2 (unat (date_month d))
       @ padded_decimal 2 (unat (date_day d))"

definition Date_display :: "date \<Rightarrow> string" where
  "Date_display d =
     padded_decimal 4 (unat (date_year d)) @ ''-'' @ padded_decimal 2 (unat (date_month d)) @ ''-''
       @ padded_decimal 2 (unat (date_day d))"

fun offset_display :: "time_offset \<Rightarrow> string" where
  "offset_display Unspecified = ''''"
| "offset_display Utc = ''Z''"
| "offset_display (OffsetPlus hours minutes) =
     ''+'' @ padded_decimal 2 (unat hours) @ '':'' @ padded_decimal 2 (unat minutes)"
| "offset_display (OffsetMinus hours minutes) =
     ''-'' @ padded_decimal 2 (unat hours) @ '':'' @ padded_decimal 2 (unat minutes)"

definition DateTime_display :: "date_time \<Rightarrow> string" where
  "DateTime_display dt =
     Date_display (dt_date dt) @ ''T'' @ padded_decimal 2 (unat (dt_hour dt)) @ '':''
       @ padded_decimal 2 (unat (dt_minute dt)) @ '':'' @ padded_decimal 2 (unat (dt_second dt))
       @ offset_display (dt_offset dt)"

fun as_date :: "iso8601 \<Rightarrow> date option" where
  "as_date (IsoDate d) = Some d"
| "as_date (IsoDateTime _) = None"

fun as_datetime :: "iso8601 \<Rightarrow> date_time option" where
  "as_datetime (IsoDateTime dt) = Some dt"
| "as_datetime (IsoDate _) = None"

fun Iso8601_display :: "iso8601 \<Rightarrow> string" where
  "Iso8601_display (IsoDate d) = Date_display d"
| "Iso8601_display (IsoDateTime dt) = DateTime_display dt"

abbreviation dec8 :: "byte \<Rightarrow> string" where "dec8 b \<equiv> decimal (unat b)"

fun Iso8601Error_display :: "iso8601_error \<Rightarrow> string" where
  "Iso8601Error_display (YearOutOfRange year mn mx) =
     ''year '' @ decimal (unat year) @ '' outside '' @ decimal (unat mn) @ ''..='' @ decimal (unat mx)"
| "Iso8601Error_display (MonthOutOfRange month) = ''month '' @ dec8 month @ '' outside 1..=12''"
| "Iso8601Error_display (DayOutOfRange day month year) =
     ''day '' @ dec8 day @ '' outside valid range for '' @ padded_decimal 4 (unat year) @ ''-''
       @ padded_decimal 2 (unat month)"
| "Iso8601Error_display (HourOutOfRange hour) = ''hour '' @ dec8 hour @ '' outside 0..=23''"
| "Iso8601Error_display (MinuteOutOfRange minute) = ''minute '' @ dec8 minute @ '' outside 0..=59''"
| "Iso8601Error_display (SecondOutOfRange second) = ''second '' @ dec8 second @ '' outside 0..=60''"
| "Iso8601Error_display (OffsetHoursOutOfRange hours) = ''offset hours '' @ dec8 hours @ '' outside 0..=14''"
| "Iso8601Error_display (OffsetMinutesOutOfRange minutes) = ''offset minutes '' @ dec8 minutes @ '' outside 0..=59''"
| "Iso8601Error_display (ParseShape production got_bytes) =
     production @ '': got '' @ decimal got_bytes @ '' bytes, expected the production's fixed length''"
| "Iso8601Error_display (ParseChars production at) =
     production @ '': byte at index '' @ decimal at @ '' is outside the production's character class''"

subsection \<open>The derived order\<close>

instantiation date :: linorder
begin

definition less_eq_date :: "date \<Rightarrow> date \<Rightarrow> bool" where
  "less_eq_date a b \<longleftrightarrow>
     date_year a < date_year b \<or> date_year a = date_year b \<and>
     (date_month a < date_month b \<or> date_month a = date_month b \<and> date_day a \<le> date_day b)"

definition less_date :: "date \<Rightarrow> date \<Rightarrow> bool" where
  "less_date a b \<longleftrightarrow> a \<le> b \<and> \<not> b \<le> (a :: date)"

instance
  by standard (auto simp: less_eq_date_def less_date_def date.expand)

end

subsection \<open>Numeric fields\<close>

lemma check_ascii_digits_Ok: "check_ascii_digits bs production at = Ok u \<longleftrightarrow> digits bs"
  by (induction bs arbitrary: at) auto

lemma digit_word: "is_ascii_digit b \<Longrightarrow> b - 0x30 = (word_of_nat (digit_value b) :: byte)"
proof -
  assume "is_ascii_digit b"
  then have "48 \<le> unat b" by (simp add: is_ascii_digit_unat)
  then have "(word_of_nat (unat b - 48) :: byte) = word_of_nat (unat b) - word_of_nat 48" by (rule of_nat_diff)
  then show ?thesis by (simp add: digit_value_def)
qed

lemma parse_u16_value: "digits bs \<Longrightarrow> parse_u16 bs = word_of_nat (dec_value bs)"
proof (induction bs rule: rev_induct)
  case (snoc b bs)
  then have v: "digit_value b < 10" by (simp add: digit_value_less)
  have "ucast (b - 0x30) = (word_of_nat (digit_value b) :: u16)"
    using snoc v by (simp add: digit_word unsigned_of_nat take_bit_nat_eq_self)
  then show ?case using snoc by (simp add: parse_u16_def)
qed (simp add: parse_u16_def)

lemma parse_u8_value: "digits bs \<Longrightarrow> parse_u8 bs = word_of_nat (dec_value bs)"
  by (induction bs rule: rev_induct) (simp_all add: parse_u8_def digit_word)

text \<open>A field is parsed to a number exactly if it is that number's padded decimal.\<close>

lemma field_value:
  assumes "digits bs" and "length bs = w" and "0 < w"
  shows "dec_value bs = n \<longleftrightarrow> n < 10 ^ w \<and> bs = str_bytes (padded_decimal w n)"
proof
  assume "dec_value bs = n"
  then show "n < 10 ^ w \<and> bs = str_bytes (padded_decimal w n)"
    using assms dec_value_bound [of bs] padded_of_value [of bs] by auto
next
  assume "n < 10 ^ w \<and> bs = str_bytes (padded_decimal w n)"
  then show "dec_value bs = n" using dec_value_padded [of w n] by simp
qed

lemma parse_u16_exact:
  assumes "digits bs" and "length bs = 4"
  shows "parse_u16 bs = y \<longleftrightarrow> unat y < 10000 \<and> bs = str_bytes (padded_decimal 4 (unat y))"
proof -
  have "dec_value bs < 10000" using dec_value_bound [OF assms(1)] assms(2) by simp
  then have "unat (word_of_nat (dec_value bs) :: u16) = dec_value bs" by (simp add: unat_of_nat)
  then have "parse_u16 bs = y \<longleftrightarrow> dec_value bs = unat y"
    using parse_u16_value [OF assms(1)] by (simp add: word_unat_eq_iff)
  then show ?thesis using field_value [OF assms] by simp
qed

lemma parse_u8_exact:
  assumes "digits bs" and "length bs = 2"
  shows "parse_u8 bs = y \<longleftrightarrow> unat y < 100 \<and> bs = str_bytes (padded_decimal 2 (unat y))"
proof -
  have "dec_value bs < 100" using dec_value_bound [OF assms(1)] assms(2) by simp
  then have "unat (word_of_nat (dec_value bs) :: byte) = dec_value bs" by (simp add: unat_of_nat)
  then have "parse_u8 bs = y \<longleftrightarrow> dec_value bs = unat y"
    using parse_u8_value [OF assms(1)] by (simp add: word_unat_eq_iff)
  then show ?thesis using field_value [OF assms] by simp
qed


subsection \<open>Valid dates\<close>

text \<open>The proleptic Gregorian calendar on natural numbers.\<close>

definition gregorian_leap :: "nat \<Rightarrow> bool" where
  "gregorian_leap y \<longleftrightarrow> 4 dvd y \<and> (\<not> 100 dvd y \<or> 400 dvd y)"

definition month_lengths :: "nat \<Rightarrow> nat list" where
  "month_lengths y = [31, if gregorian_leap y then 29 else 28, 31, 30, 31, 30, 31, 31, 30, 31, 30, 31]"

definition date_ok :: "date \<Rightarrow> bool" where
  "date_ok d \<longleftrightarrow>
     (let y = unat (date_year d); m = unat (date_month d); dd = unat (date_day d) in
      1900 \<le> y \<and> y \<le> 2100 \<and> 1 \<le> m \<and> m \<le> 12 \<and> 1 \<le> dd \<and> dd \<le> month_lengths y ! (m - 1))"

lemma twelve_cases: "1 \<le> (m::nat) \<Longrightarrow> m \<le> 12 \<Longrightarrow>
  m = 1 \<or> m = 2 \<or> m = 3 \<or> m = 4 \<or> m = 5 \<or> m = 6 \<or> m = 7 \<or> m = 8 \<or> m = 9 \<or> m = 10 \<or> m = 11 \<or> m = 12"
  by arith

lemma days_in_month_exact:
  assumes "1 \<le> unat month" and "unat month \<le> 12"
  shows "unat (days_in_month year month) = month_lengths (unat year) ! (unat month - 1)"
  using twelve_cases [OF assms]
  by (elim disjE) (auto simp: days_in_month_def word_unat_eq_iff month_lengths_def Let_def
      gregorian_leap_def unat_mod dvd_eq_mod_eq_0)

lemma Date_new_Ok: "Date_new y m dd = Ok d \<longleftrightarrow> d = Date y m dd \<and> date_ok d"
proof (cases "1 \<le> unat m \<and> unat m \<le> 12")
  case True
  then show ?thesis
    using days_in_month_exact [of m y]
    by (auto simp: Date_new_def validate_calendar_def date_ok_def Let_def word_less_nat_alt and_then_eq_Ok)
next
  case False
  then show ?thesis
    by (auto simp: Date_new_def validate_calendar_def date_ok_def Let_def word_less_nat_alt and_then_eq_Ok)
qed

lemma date_ok_bounds:
  assumes "date_ok d"
  shows "unat (date_year d) < 10000" and "unat (date_month d) < 100" and "unat (date_day d) < 100"
proof -
  have "month_lengths y ! (m - 1) < 100" if "1 \<le> m" "m \<le> 12" for y m
    using twelve_cases [OF that] by (elim disjE) (simp_all add: month_lengths_def)
  with assms have "month_lengths (unat (date_year d)) ! (unat (date_month d) - 1) < 100"
    by (simp add: date_ok_def Let_def)
  with assms show "unat (date_year d) < 10000" "unat (date_month d) < 100" "unat (date_day d) < 100"
    by (simp_all add: date_ok_def Let_def)
qed


subsection \<open>Splitting the wire forms\<close>

lemma split_fields:
  assumes "length bs = 8"
  shows "bs = sub bs 0 4 @ sub bs 4 6 @ sub bs 6 8"
    and "length (sub bs 0 4) = 4" and "length (sub bs 4 6) = 2" and "length (sub bs 6 8) = 2"
proof -
  have "drop 4 bs = take 2 (drop 4 bs) @ drop 6 bs" using append_take_drop_id [of 2 "drop 4 bs"] by simp
  then have "bs = take 4 bs @ take 2 (drop 4 bs) @ drop 6 bs" by (metis append_take_drop_id)
  then show "bs = sub bs 0 4 @ sub bs 4 6 @ sub bs 6 8" using assms by (simp add: sub_def)
qed (use assms in \<open>simp_all add: sub_def\<close>)

lemma sub_field:
  assumes "length p = a" and "length f = b - a" and "a \<le> b"
  shows "sub (p @ f @ r) a b = f"
  using assms by (simp add: sub_def)

lemma length_field [simp]:
  "n < 10000 \<Longrightarrow> length (padded_decimal 4 n) = 4" "n < 100 \<Longrightarrow> length (padded_decimal 2 n) = 2"
  by (simp_all add: length_padded_decimal)

text \<open>The eight-digit form, on the three fields.\<close>

lemma fields_exact:
  assumes "length a = 4" and "length b = 2" and "length c = 2"
  shows "digits (a @ b @ c) \<and> Date_new (parse_u16 a) (parse_u8 b) (parse_u8 c) = Ok d \<longleftrightarrow>
    date_ok d \<and> a @ b @ c = str_bytes (to_yyyymmdd d)" (is "?l \<longleftrightarrow> ?r")
proof
  assume l: ?l
  then have dg: "digits a" "digits b" "digits c" and d: "d = Date (parse_u16 a) (parse_u8 b) (parse_u8 c)" "date_ok d"
    by (auto simp: Date_new_Ok)
  have "a = str_bytes (padded_decimal 4 (unat (parse_u16 a)))" "b = str_bytes (padded_decimal 2 (unat (parse_u8 b)))"
    "c = str_bytes (padded_decimal 2 (unat (parse_u8 c)))"
    using parse_u16_exact [OF dg(1) assms(1)] parse_u8_exact [OF dg(2) assms(2)] parse_u8_exact [OF dg(3) assms(3)]
    by blast+
  then show ?r using d by (simp add: to_yyyymmdd_def)
next
  assume r: ?r
  note bd = date_ok_bounds [of d]
  have eqs: "a = str_bytes (padded_decimal 4 (unat (date_year d)))"
    "b = str_bytes (padded_decimal 2 (unat (date_month d)))" "c = str_bytes (padded_decimal 2 (unat (date_day d)))"
    using r bd assms by (simp_all add: to_yyyymmdd_def)
  then have dg: "digits a" "digits b" "digits c" by simp_all
  have "parse_u16 a = date_year d" "parse_u8 b = date_month d" "parse_u8 c = date_day d"
    using parse_u16_exact [OF dg(1) assms(1)] parse_u8_exact [OF dg(2) assms(2)] parse_u8_exact [OF dg(3) assms(3)]
      eqs bd r by auto
  moreover have "date_ok d" using r by blast
  ultimately show ?l using dg by (simp add: Date_new_Ok)
qed

lemma from_yyyymmdd_iff:
  assumes "length bs = 8"
  shows "from_yyyymmdd bs = Ok d \<longleftrightarrow> date_ok d \<and> bs = str_bytes (to_yyyymmdd d)"
proof -
  note f = split_fields [OF assms]
  have "from_yyyymmdd bs = Ok d \<longleftrightarrow> digits bs \<and>
      Date_new (parse_u16 (sub bs 0 4)) (parse_u8 (sub bs 4 6)) (parse_u8 (sub bs 6 8)) = Ok d"
    by (simp add: from_yyyymmdd_def and_then_eq_Ok check_ascii_digits_Ok)
  also have "\<dots> \<longleftrightarrow> digits (sub bs 0 4 @ sub bs 4 6 @ sub bs 6 8) \<and>
      Date_new (parse_u16 (sub bs 0 4)) (parse_u8 (sub bs 4 6)) (parse_u8 (sub bs 6 8)) = Ok d"
    using f(1) by simp
  also have "\<dots> \<longleftrightarrow> date_ok d \<and> bs = str_bytes (to_yyyymmdd d)"
    using fields_exact [OF f(2-4), of d] f(1) by simp
  finally show ?thesis .
qed


lemma two_digits_exact:
  assumes "length a = 2"
  shows "digits a \<and> parse_u8 a = n \<longleftrightarrow> unat n < 100 \<and> a = str_bytes (padded_decimal 2 (unat n))"
  using parse_u8_exact [OF _ assms, of n] by auto

lemma DateTime_new_Ok:
  "DateTime_new d h mi s off = Ok dt \<longleftrightarrow>
   dt = \<lparr>dt_date = d, dt_hour = h, dt_minute = mi, dt_second = s, dt_offset = off\<rparr>
   \<and> unat h \<le> 23 \<and> unat mi \<le> 59 \<and> unat s \<le> 60 \<and> validate_offset off = Ok ()"
  by (auto simp: DateTime_new_def and_then_eq_Ok word_less_nat_alt)

text \<open>The fourteen digits of a timestamp.\<close>

definition timestamp_digits :: "date_time \<Rightarrow> string" where
  "timestamp_digits dt = to_yyyymmdd (dt_date dt) @ padded_decimal 2 (unat (dt_hour dt))
     @ padded_decimal 2 (unat (dt_minute dt)) @ padded_decimal 2 (unat (dt_second dt))"

definition date_time_ok :: "date_time \<Rightarrow> bool" where
  "date_time_ok dt \<longleftrightarrow> date_ok (dt_date dt) \<and> unat (dt_hour dt) \<le> 23 \<and> unat (dt_minute dt) \<le> 59
     \<and> unat (dt_second dt) \<le> 60 \<and> validate_offset (dt_offset dt) = Ok ()"

lemma length_to_yyyymmdd: "date_ok d \<Longrightarrow> length (to_yyyymmdd d) = 8"
  using date_ok_bounds [of d] by (simp add: to_yyyymmdd_def)

lemma split_timestamp:
  assumes "length bs = 14"
  shows "bs = take 8 bs @ sub bs 8 10 @ sub bs 10 12 @ sub bs 12 14"
    and "length (take 8 bs) = 8" and "length (sub bs 8 10) = 2" and "length (sub bs 10 12) = 2"
    and "length (sub bs 12 14) = 2"
    and "sub bs 0 4 = sub (take 8 bs) 0 4" and "sub bs 4 6 = sub (take 8 bs) 4 6" and "sub bs 6 8 = sub (take 8 bs) 6 8"
proof -
  have "drop 8 bs = take 2 (drop 8 bs) @ take 2 (drop 10 bs) @ drop 12 bs"
    using append_take_drop_id [of 2 "drop 8 bs"] append_take_drop_id [of 2 "drop 10 bs"] by simp
  then have "bs = take 8 bs @ take 2 (drop 8 bs) @ take 2 (drop 10 bs) @ drop 12 bs"
    by (metis append_take_drop_id)
  then show "bs = take 8 bs @ sub bs 8 10 @ sub bs 10 12 @ sub bs 12 14" using assms by (simp add: sub_def)
qed (use assms in \<open>simp_all add: sub_def take_drop min_def\<close>)

lemma from_yyyymmddhhmmss_iff:
  assumes "length bs = 14"
  shows "from_yyyymmddhhmmss bs = Ok dt \<longleftrightarrow>
    date_time_ok dt \<and> dt_offset dt = Unspecified \<and> bs = str_bytes (timestamp_digits dt)"
proof -
  note f = split_timestamp [OF assms]
  let ?h = "sub bs 8 10" and ?mi = "sub bs 10 12" and ?s = "sub bs 12 14"
  have dg: "digits bs \<longleftrightarrow> digits (take 8 bs) \<and> digits ?h \<and> digits ?mi \<and> digits ?s"
    by (subst f(1)) simp
  have date: "digits (take 8 bs) \<and> Date_new (parse_u16 (sub bs 0 4)) (parse_u8 (sub bs 4 6)) (parse_u8 (sub bs 6 8)) = Ok d
      \<longleftrightarrow> from_yyyymmdd (take 8 bs) = Ok d" for d
    by (simp add: from_yyyymmdd_def and_then_eq_Ok check_ascii_digits_Ok f(6-8))
  have "from_yyyymmddhhmmss bs = Ok dt \<longleftrightarrow>
      from_yyyymmdd (take 8 bs) = Ok (dt_date dt) \<and> (digits ?h \<and> parse_u8 ?h = dt_hour dt)
      \<and> (digits ?mi \<and> parse_u8 ?mi = dt_minute dt) \<and> (digits ?s \<and> parse_u8 ?s = dt_second dt)
      \<and> unat (dt_hour dt) \<le> 23 \<and> unat (dt_minute dt) \<le> 59 \<and> unat (dt_second dt) \<le> 60
      \<and> dt_offset dt = Unspecified"
    by (cases dt) (auto simp: from_yyyymmddhhmmss_def and_then_eq_Ok check_ascii_digits_Ok DateTime_new_Ok dg
        simp flip: date)
  also have "\<dots> \<longleftrightarrow> (date_ok (dt_date dt) \<and> take 8 bs = str_bytes (to_yyyymmdd (dt_date dt)))
      \<and> ?h = str_bytes (padded_decimal 2 (unat (dt_hour dt))) \<and> ?mi = str_bytes (padded_decimal 2 (unat (dt_minute dt)))
      \<and> ?s = str_bytes (padded_decimal 2 (unat (dt_second dt)))
      \<and> unat (dt_hour dt) \<le> 23 \<and> unat (dt_minute dt) \<le> 59 \<and> unat (dt_second dt) \<le> 60
      \<and> dt_offset dt = Unspecified"
    using f(2-5) by (auto simp: two_digits_exact from_yyyymmdd_iff)
  also have "\<dots> \<longleftrightarrow> date_time_ok dt \<and> dt_offset dt = Unspecified \<and>
      take 8 bs @ ?h @ ?mi @ ?s = str_bytes (timestamp_digits dt)"
    using f(2-5) by (auto simp: date_time_ok_def timestamp_digits_def length_to_yyyymmdd append_eq_append_conv)
  finally show ?thesis using f(1) by simp
qed


text \<open>The century rule of the machine-readable zone.\<close>

lemma century_nat:
  assumes "(v :: nat) < 100"
  shows "(if v < 50 then 2000 + v else 1900 + v) = y \<longleftrightarrow> 1950 \<le> y \<and> y \<le> 2049 \<and> v = y mod 100"
proof -
  have m: "(1900 + k) mod 100 = k mod 100" "(2000 + k) mod 100 = k mod 100" for k :: nat
    using mod_mult_self3 [of 19 100 k] mod_mult_self3 [of 20 100 k] by simp_all
  consider "y < 1950 \<or> 2049 < y" | k where "y = 1900 + k" "50 \<le> k" "k < 100" | k where "y = 2000 + k" "k < 50"
  proof (cases "y < 1950 \<or> 2049 < y")
    case False
    then show ?thesis using that(2) [of "y - 1900"] that(3) [of "y - 2000"] by (cases "y < 2000") simp_all
  qed (rule that(1))
  then show ?thesis by cases (use assms m in auto)
qed

lemma century_exact:
  fixes yy :: byte
  assumes "unat yy < 100"
  shows "(if yy < 50 then 2000 + ucast yy else 1900 + ucast yy) = (y :: u16) \<longleftrightarrow>
    1950 \<le> unat y \<and> unat y \<le> 2049 \<and> unat yy = unat (y mod 100)" (is "?c = y \<longleftrightarrow> _")
proof -
  have u: "unat (ucast yy :: u16) = unat yy" using assms by (simp add: unsigned_ucast_eq take_bit_nat_eq_self)
  have lt: "yy < 50 \<longleftrightarrow> unat yy < 50" by (simp add: word_less_nat_alt)
  have "unat (2000 + ucast yy :: u16) = 2000 + unat yy" "unat (1900 + ucast yy :: u16) = 1900 + unat yy"
    using assms by (simp_all add: unat_word_ariths u)
  then have "unat ?c = (if unat yy < 50 then 2000 + unat yy else 1900 + unat yy)" by (simp add: lt)
  then have "?c = y \<longleftrightarrow> (if unat yy < 50 then 2000 + unat yy else 1900 + unat yy) = unat y"
    by (simp add: word_unat_eq_iff)
  also have "\<dots> \<longleftrightarrow> 1950 \<le> unat y \<and> unat y \<le> 2049 \<and> unat yy = unat y mod 100"
    using assms by (rule century_nat)
  finally show ?thesis by (simp add: unat_mod)
qed

lemma split_six:
  assumes "length bs = 6"
  shows "bs = sub bs 0 2 @ sub bs 2 4 @ sub bs 4 6"
    and "length (sub bs 0 2) = 2" and "length (sub bs 2 4) = 2" and "length (sub bs 4 6) = 2"
proof -
  have "drop 2 bs = take 2 (drop 2 bs) @ drop 4 bs" using append_take_drop_id [of 2 "drop 2 bs"] by simp
  then have "bs = take 2 bs @ take 2 (drop 2 bs) @ drop 4 bs" by (metis append_take_drop_id)
  then show "bs = sub bs 0 2 @ sub bs 2 4 @ sub bs 4 6" using assms by (simp add: sub_def)
qed (use assms in \<open>simp_all add: sub_def\<close>)

lemma from_mrz_yymmdd_iff:
  assumes "length bs = 6"
  shows "from_mrz_yymmdd bs = Ok d \<longleftrightarrow>
    date_ok d \<and> 1950 \<le> unat (date_year d) \<and> unat (date_year d) \<le> 2049 \<and> bs = str_bytes (to_mrz_yymmdd d)"
proof -
  note f = split_six [OF assms]
  let ?a = "sub bs 0 2" and ?b = "sub bs 2 4" and ?c = "sub bs 4 6"
  let ?yy = "parse_u8 ?a"
  have dg: "digits bs \<longleftrightarrow> digits ?a \<and> digits ?b \<and> digits ?c" by (subst f(1)) simp
  have yy: "digits ?a \<and> (if ?yy < 50 then 2000 + ucast ?yy else 1900 + ucast ?yy) = y \<longleftrightarrow>
      1950 \<le> unat y \<and> unat y \<le> 2049 \<and> ?a = str_bytes (padded_decimal 2 (unat (y mod 100)))" for y :: u16
  proof
    assume l: "digits ?a \<and> (if ?yy < 50 then 2000 + ucast ?yy else 1900 + ucast ?yy) = y"
    then have "unat ?yy < 100" "?a = str_bytes (padded_decimal 2 (unat ?yy))"
      using two_digits_exact [OF f(2), of ?yy] by auto
    then show "1950 \<le> unat y \<and> unat y \<le> 2049 \<and> ?a = str_bytes (padded_decimal 2 (unat (y mod 100)))"
      using l century_exact [of ?yy y] by auto
  next
    assume r: "1950 \<le> unat y \<and> unat y \<le> 2049 \<and> ?a = str_bytes (padded_decimal 2 (unat (y mod 100)))"
    have lt: "unat (y mod 100) < 100" by (simp add: unat_mod)
    then have n: "unat (word_of_nat (unat (y mod 100)) :: byte) = unat (y mod 100)"
      using unat_word8_of_nat [of "unat (y mod 100)"] by simp
    have "digits ?a \<and> ?yy = word_of_nat (unat (y mod 100))"
      using two_digits_exact [OF f(2), of "word_of_nat (unat (y mod 100))"] r lt n by auto
    moreover from this have "unat ?yy = unat (y mod 100)" using n by simp
    ultimately show "digits ?a \<and> (if ?yy < 50 then 2000 + ucast ?yy else 1900 + ucast ?yy) = y"
      using century_exact [of ?yy y] r lt by simp
  qed
  have "from_mrz_yymmdd bs = Ok d \<longleftrightarrow> date_ok d
      \<and> (digits ?a \<and> (if ?yy < 50 then 2000 + ucast ?yy else 1900 + ucast ?yy) = date_year d)
      \<and> (digits ?b \<and> parse_u8 ?b = date_month d) \<and> (digits ?c \<and> parse_u8 ?c = date_day d)"
    by (cases d) (auto simp: from_mrz_yymmdd_def and_then_eq_Ok check_ascii_digits_Ok Date_new_Ok Let_def dg)
  also have "\<dots> \<longleftrightarrow> date_ok d \<and> 1950 \<le> unat (date_year d) \<and> unat (date_year d) \<le> 2049
      \<and> ?a @ ?b @ ?c = str_bytes (to_mrz_yymmdd d)"
    unfolding yy two_digits_exact [OF f(3)] two_digits_exact [OF f(4)]
    using f(2-4) date_ok_bounds [of d] by (auto simp: to_mrz_yymmdd_def unat_mod)
  finally show ?thesis using f(1) by simp
qed


subsection \<open>The extended form\<close>

lemma ten_bytes:
  assumes "length bs = 10"
  shows "\<exists>a x b y c. bs = a @ x # b @ y # c \<and> length a = 4 \<and> length b = 2 \<and> length (c :: bytes) = 2"
proof -
  have 1: "bs = take 4 bs @ bs ! 4 # drop 5 bs" using assms id_take_nth_drop [of 4 bs] by simp
  have 2: "drop 5 bs = take 2 (drop 5 bs) @ drop 5 bs ! 2 # drop 8 bs"
    using assms id_take_nth_drop [of 2 "drop 5 bs"] by simp
  have "bs = take 4 bs @ bs ! 4 # take 2 (drop 5 bs) @ drop 5 bs ! 2 # drop 8 bs" using 1 2 by simp
  then show ?thesis using assms by (intro exI conjI) auto
qed

lemma length_Date_display: "date_ok d \<Longrightarrow> length (Date_display d) = 10"
  using date_ok_bounds [of d] by (simp add: Date_display_def)

lemma from_iso_fields:
  assumes "str_bytes s = a @ x # b @ y # c" and "length a = 4" and "length b = 2" and "length c = 2"
  shows "from_iso_date_string s = Ok d \<longleftrightarrow> x = 0x2D \<and> y = 0x2D \<and> digits (a @ b @ c)
    \<and> Date_new (parse_u16 a) (parse_u8 b) (parse_u8 c) = Ok d"
proof -
  have n: "length s = 10" using arg_cong [OF assms(1), of length] assms(2-4) by simp
  have parts: "slice (str_bytes s) 0 4 = Some a" "get_at (str_bytes s) 4 = Some x" "slice (str_bytes s) 5 7 = Some b"
    "get_at (str_bytes s) 7 = Some y" "slice (str_bytes s) 8 10 = Some c"
    using assms(2-4) unfolding assms(1)
    by (simp_all add: slice_def get_at_def nth_append)
  show ?thesis
    using n by (auto simp: from_iso_date_string_def Let_def parts and_then_eq_Ok check_ascii_digits_Ok)
qed

lemma str_bytes_Cons: "str_bytes (ch # s) = of_char ch # str_bytes s"
  by (simp add: str_bytes_def)

lemma from_iso_date_string_iff: "from_iso_date_string s = Ok d \<longleftrightarrow> date_ok d \<and> s = Date_display d"
proof (cases "length s = 10")
  case True
  then obtain a x b y c where s: "str_bytes s = a @ x # b @ y # c"
    and l: "length a = 4" "length b = 2" "length c = 2" using ten_bytes [of "str_bytes s"] by auto
  have dash: "of_char CHR ''-'' = (0x2D :: byte)" by (simp add: of_char_def)
  have disp: "str_bytes (Date_display d) = str_bytes (padded_decimal 4 (unat (date_year d))) @
      0x2D # str_bytes (padded_decimal 2 (unat (date_month d))) @ 0x2D # str_bytes (padded_decimal 2 (unat (date_day d)))"
    by (simp add: Date_display_def str_bytes_Cons dash)
  have "from_iso_date_string s = Ok d \<longleftrightarrow> x = 0x2D \<and> y = 0x2D \<and> date_ok d \<and> a @ b @ c = str_bytes (to_yyyymmdd d)"
    using from_iso_fields [OF s l, of d] fields_exact [OF l, of d] by blast
  also have "\<dots> \<longleftrightarrow> date_ok d \<and> str_bytes s = str_bytes (Date_display d)"
    using l date_ok_bounds [of d] unfolding s disp by (auto simp: to_yyyymmdd_def)
  finally show ?thesis by simp
next
  case False
  then show ?thesis using length_Date_display [of d] by (auto simp: from_iso_date_string_def Let_def)
qed

subsection \<open>Order of the wire form\<close>

lemma digits_order:
  assumes "length as = length bs" and "digits as" and "digits bs"
  shows "as \<le> bs \<longleftrightarrow> dec_value as \<le> dec_value bs"
  using assms
proof (induction as bs rule: list_induct2)
  case (Cons a as b bs)
  let ?n = "10 ^ length as"
  have v: "dec_value (a # as) = digit_value a * ?n + dec_value as" "dec_value (b # bs) = digit_value b * ?n + dec_value bs"
    using dec_value_append [of "[a]" as] dec_value_append [of "[b]" bs] Cons.hyps by simp_all
  have small: "dec_value as < ?n" "dec_value bs < ?n"
    using Cons.prems dec_value_bound [of as] dec_value_bound [of bs] Cons.hyps by auto
  have ord: "a < b \<longleftrightarrow> digit_value a < digit_value b" "a = b \<longleftrightarrow> digit_value a = digit_value b"
    using Cons.prems by (auto simp: is_ascii_digit_unat digit_value_def word_less_nat_alt word_unat_eq_iff)
  have "digit_value a * ?n + dec_value as \<le> digit_value b * ?n + dec_value bs \<longleftrightarrow>
      digit_value a < digit_value b \<or> digit_value a = digit_value b \<and> dec_value as \<le> dec_value bs"
  proof (cases "digit_value a" "digit_value b" rule: linorder_cases)
    case less
    then have "(digit_value a + 1) * ?n \<le> digit_value b * ?n" by (intro mult_right_mono) simp_all
    then show ?thesis using less small by simp
  next
    case greater
    then have "(digit_value b + 1) * ?n \<le> digit_value a * ?n" by (intro mult_right_mono) simp_all
    then show ?thesis using greater small by simp
  qed simp
  then show ?case using Cons v ord by simp
qed simp

lemma dec_value_yyyymmdd:
  assumes "date_ok d"
  shows "dec_value (str_bytes (to_yyyymmdd d)) =
    unat (date_year d) * 10000 + unat (date_month d) * 100 + unat (date_day d)"
  using date_ok_bounds [OF assms] by (simp add: to_yyyymmdd_def dec_value_append)

lemma digits_yyyymmdd: "digits (str_bytes (to_yyyymmdd d))"
  by (simp add: to_yyyymmdd_def)


subsection \<open>Properties\<close>



text \<open>The derived order of dates is the order of their eight-digit forms: comparing valid dates field
  by field agrees with comparing the digits byte by byte.\<close>

theorem date_order_is_text_order:
  assumes "date_ok a" and "date_ok b"
  shows "a \<le> b \<longleftrightarrow> str_bytes (to_yyyymmdd a) \<le> str_bytes (to_yyyymmdd b)"
proof -
  note bounds = date_ok_bounds [OF assms(1)] date_ok_bounds [OF assms(2)]
  have "str_bytes (to_yyyymmdd a) \<le> str_bytes (to_yyyymmdd b) \<longleftrightarrow>
      dec_value (str_bytes (to_yyyymmdd a)) \<le> dec_value (str_bytes (to_yyyymmdd b))"
    using assms by (simp add: digits_order digits_yyyymmdd length_to_yyyymmdd)
  also have "\<dots> \<longleftrightarrow> a \<le> b"
    using bounds unfolding dec_value_yyyymmdd [OF assms(1)] dec_value_yyyymmdd [OF assms(2)]
    by (auto simp: less_eq_date_def word_less_nat_alt word_le_nat_alt word_unat_eq_iff)
  finally show ?thesis by simp
qed

theorem date_order_is_text_order_witness:
  "Date 1999 12 31 \<le> Date 2000 1 1 \<and> str_bytes (to_yyyymmdd (Date 1999 12 31)) \<le> str_bytes (to_yyyymmdd (Date 2000 1 1))"
proof -
  have "date_ok (Date 1999 12 31)" "date_ok (Date 2000 1 1)" by code_simp+
  moreover have "Date 1999 12 31 \<le> Date 2000 1 1" by (simp add: less_eq_date_def)
  ultimately show ?thesis using date_order_is_text_order [of "Date 1999 12 31" "Date 2000 1 1"] by simp
qed

text \<open>What the constructor of a timestamp accepts: a leap second, although the field and the error are
  documented to exclude it, and a western offset of up to fourteen hours, although the type is documented to
  stop at twelve.\<close>

theorem timestamp_limits:
  "(\<exists>dt. DateTime_new d hour minute second offset = Ok dt) \<longleftrightarrow>
     hour \<le> 23 \<and> minute \<le> 59 \<and> second \<le> 60
     \<and> (case offset of OffsetPlus h m \<Rightarrow> h \<le> 14 \<and> m \<le> 59 | OffsetMinus h m \<Rightarrow> h \<le> 14 \<and> m \<le> 59 | _ \<Rightarrow> True)"
  by (cases offset) (auto simp: DateTime_new_Ok check_offset_def word_le_nat_alt word_less_nat_alt)

end
