(* ===== verification/Emrtd_Mrz.thy ===== *)
theory Emrtd_Mrz
  imports Country Emrtd_File Iso8601
begin

text \<open>
  The machine-readable zone of the travel document (\<open>emrtd.rs\<close> from line 542 to 862, and the name, sex
  and date types of \<open>identity.rs\<close>): extraction from the data group, and the parser of the three lines of
  thirty characters. Text is its UTF-8 byte string.
\<close>

subsection \<open>Values\<close>

datatype mrz_sex = Male | Female | SexUnspecified

definition from_mrz_byte :: "byte \<Rightarrow> mrz_sex" where
  "from_mrz_byte b = (if b = 0x4D then Male else if b = 0x46 then Female else SexUnspecified)"

fun as_mrz_byte :: "mrz_sex \<Rightarrow> byte" where
  "as_mrz_byte Male = 0x4D"
| "as_mrz_byte Female = 0x46"
| "as_mrz_byte SexUnspecified = 0x3C"

fun fluent_token :: "mrz_sex \<Rightarrow> string" where
  "fluent_token Male = ''male''"
| "fluent_token Female = ''female''"
| "fluent_token SexUnspecified = ''unspecified''"

datatype mrz_name_error = MrzNameEmpty | MrzNameTooLong nat nat | MrzNameInvalidChar nat byte

fun MrzNameError_display :: "mrz_name_error \<Rightarrow> string" where
  "MrzNameError_display MrzNameEmpty = ''MRZ name cannot be empty''"
| "MrzNameError_display (MrzNameTooLong got mx) =
     ''MRZ name length '' @ decimal got @ '' bytes exceeds maximum '' @ decimal mx"
| "MrzNameError_display (MrzNameInvalidChar at byte) =
     ''MRZ name byte '' @ hex_04 byte @ '' at index '' @ decimal at @ '' is not in [A-Z<]''"

abbreviation MRZ_NAME_MAX_BYTES :: nat where "MRZ_NAME_MAX_BYTES \<equiv> 39"
abbreviation FILLER :: byte where "FILLER \<equiv> 0x3C"

fun check_mrz_name :: "nat \<Rightarrow> bytes \<Rightarrow> (mrz_name_error, unit) res" where
  "check_mrz_name i [] = Ok ()"
| "check_mrz_name i (b # bs) =
     (if \<not> (is_ascii_uppercase b \<or> b = FILLER) then Err (MrzNameInvalidChar i b) else check_mrz_name (i + 1) bs)"

definition MrzNameInput_parse :: "bytes \<Rightarrow> (mrz_name_error, unit) res" where
  "MrzNameInput_parse value =
     (if value = [] then Err MrzNameEmpty
      else if MRZ_NAME_MAX_BYTES < length value then Err (MrzNameTooLong (length value) MRZ_NAME_MAX_BYTES)
      else check_mrz_name 0 value)"

definition MrzSurname_new :: "bytes \<Rightarrow> (mrz_name_error, bytes) res" where
  "MrzSurname_new s = and_then (MrzNameInput_parse s) (\<lambda>_. Ok s)"

definition MrzGivenName_new :: "bytes \<Rightarrow> (mrz_name_error, bytes) res" where
  "MrzGivenName_new s = and_then (MrzNameInput_parse s) (\<lambda>_. Ok s)"

record parsed_mrz =
  mrz_raw :: bytes
  document_type :: bytes
  issuing_country :: bytes
  document_number :: bytes
  date_of_birth :: date
  sex :: mrz_sex
  date_of_expiry :: date
  nationality :: bytes
  primary_identifier :: bytes
  secondary_identifier :: bytes

datatype mrz_parse_error = MrzShape string | MrzFieldError string

fun MrzParseError_display :: "mrz_parse_error \<Rightarrow> string" where
  "MrzParseError_display (MrzShape detail) = ''TD1 shape: '' @ detail"
| "MrzParseError_display (MrzFieldError detail) = ''TD1 field: '' @ detail"

subsection \<open>Extraction\<close>

abbreviation DG1_WRAPPER :: u16 where "DG1_WRAPPER \<equiv> 0x61"
abbreviation MRZ_DATA :: u16 where "MRZ_DATA \<equiv> 0x5F1F"

definition Dg1Bytes_parse :: "bytes \<Rightarrow> (ber_error, ber_tlv) res" where
  "Dg1Bytes_parse dg1 = ber_parse_typed DG1_WRAPPER dg1"

fun find_mrz :: "(ber_error, ber_tlv_any) res list \<Rightarrow> string option" where
  "find_mrz (Ok child # rest) =
     (if tlv_tag child = MRZ_DATA then from_utf8 (tlv_value child) else find_mrz rest)"
| "find_mrz _ = None"

definition extract_mrz_string :: "ber_tlv \<Rightarrow> string option" where
  "extract_mrz_string dg1 = find_mrz (ber_children (typed_value dg1))"

subsection \<open>Text\<close>

text \<open>\<open>chars().filter(|c| !c.is_whitespace())\<close> on UTF-8: the Unicode white space characters and their
  encodings.\<close>

definition whitespace1 :: "byte \<Rightarrow> bool" where
  "whitespace1 a \<longleftrightarrow> (0x09 \<le> a \<and> a \<le> 0x0D) \<or> a = 0x20"

definition whitespace2 :: "byte \<Rightarrow> byte \<Rightarrow> bool" where
  "whitespace2 a b \<longleftrightarrow> a = 0xC2 \<and> (b = 0x85 \<or> b = 0xA0)"

definition whitespace3 :: "byte \<Rightarrow> byte \<Rightarrow> byte \<Rightarrow> bool" where
  "whitespace3 a b c \<longleftrightarrow>
     a = 0xE1 \<and> b = 0x9A \<and> c = 0x80
     \<or> a = 0xE2 \<and> b = 0x80 \<and> (0x80 \<le> c \<and> c \<le> 0x8A \<or> c = 0xA8 \<or> c = 0xA9 \<or> c = 0xAF)
     \<or> a = 0xE2 \<and> b = 0x81 \<and> c = 0x9F
     \<or> a = 0xE3 \<and> b = 0x80 \<and> c = 0x80"

fun strip_whitespace :: "bytes \<Rightarrow> bytes" where
  "strip_whitespace (a # b # c # bs) =
     (if whitespace1 a then strip_whitespace (b # c # bs)
      else if whitespace2 a b then strip_whitespace (c # bs)
      else if whitespace3 a b c then strip_whitespace bs
      else a # strip_whitespace (b # c # bs))"
| "strip_whitespace [a, b] =
     (if whitespace1 a then strip_whitespace [b]
      else if whitespace2 a b then []
      else a # strip_whitespace [b])"
| "strip_whitespace [a] = (if whitespace1 a then [] else [a])"
| "strip_whitespace [] = []"

definition is_ascii :: "bytes \<Rightarrow> bool" where
  "is_ascii bs \<longleftrightarrow> list_all (\<lambda>b. b \<le> 0x7F) bs"

definition trim_end_fillers :: "bytes \<Rightarrow> bytes" where
  "trim_end_fillers bs = rev (dropWhile (\<lambda>b. b = FILLER) (rev bs))"

definition trim_fillers :: "bytes \<Rightarrow> bytes" where
  "trim_fillers bs = trim_end_fillers (dropWhile (\<lambda>b. b = FILLER) bs)"

definition MrzField_parse :: "bytes \<Rightarrow> (mrz_parse_error, bytes) res" where
  "MrzField_parse bs = (if is_ascii bs then Ok bs else Err (MrzFieldError ''field is not ASCII''))"

text \<open>\<open>splitn(2, "<<")\<close>, an absent second part read as empty.\<close>

fun split_name :: "bytes \<Rightarrow> bytes \<times> bytes" where
  "split_name (a # b # bs) =
     (if a = FILLER \<and> b = FILLER then ([], bs)
      else (case split_name (b # bs) of (surname, given) \<Rightarrow> (a # surname, given)))"
| "split_name [a] = ([a], [])"
| "split_name [] = ([], [])"

definition MrzNameField_split :: "bytes \<Rightarrow> bytes \<times> bytes" where
  "MrzNameField_split line = split_name (trim_end_fillers line)"

subsection \<open>Parser\<close>

abbreviation SLICE_ERROR :: string where "SLICE_ERROR \<equiv> ''could not convert slice to array''"

definition country_field :: "bytes \<Rightarrow> nat \<Rightarrow> nat \<Rightarrow> string \<Rightarrow> (mrz_parse_error, bytes) res" where
  "country_field line a b detail =
     and_then (ok_or (slice line a b) (MrzShape detail)) (\<lambda>f.
     and_then (MrzField_parse f) (\<lambda>f.
     map_err (\<lambda>e. MrzFieldError (CountryError_display e)) (IcaoCountry_new (trim_fillers f))))"

definition text_field :: "bytes \<Rightarrow> nat \<Rightarrow> nat \<Rightarrow> string \<Rightarrow> (mrz_parse_error, bytes) res" where
  "text_field line a b detail =
     and_then (ok_or (slice line a b) (MrzShape detail)) (\<lambda>f.
     and_then (MrzField_parse f) (\<lambda>f. Ok (trim_fillers f)))"

definition date_field :: "bytes \<Rightarrow> nat \<Rightarrow> nat \<Rightarrow> string \<Rightarrow> (mrz_parse_error, date) res" where
  "date_field line a b detail =
     and_then (ok_or (slice line a b) (MrzShape detail)) (\<lambda>f.
     if length f \<noteq> 6 then Err (MrzShape SLICE_ERROR)
     else map_err (\<lambda>e. MrzFieldError (Iso8601Error_display e)) (from_mrz_yymmdd f))"

definition parse_td1 :: "bytes \<Rightarrow> (mrz_parse_error, parsed_mrz) res" where
  "parse_td1 raw =
     (let stripped = strip_whitespace raw in
      if \<not> is_ascii stripped then Err (MrzShape ''MRZ contains non-ASCII bytes'')
      else if length stripped \<noteq> 90 then Err (MrzShape SLICE_ERROR)
      else
        let line1 = take 30 stripped; line2 = take 30 (drop 30 stripped); line3 = drop 60 stripped in
        and_then (text_field line1 0 2 ''document-type range missing'') (\<lambda>document_type.
        and_then (country_field line1 2 5 ''issuing-country range missing'') (\<lambda>issuing_country.
        and_then (text_field line1 5 14 ''document-number range missing'') (\<lambda>document_number.
        and_then (date_field line2 0 6 ''birth-date range missing'') (\<lambda>date_of_birth.
        and_then (ok_or (get_at line2 7) (MrzShape ''sex offset missing'')) (\<lambda>sex_byte.
        and_then (date_field line2 8 14 ''expiry-date range missing'') (\<lambda>date_of_expiry.
        and_then (country_field line2 15 18 ''nationality range missing'') (\<lambda>nationality.
        case MrzNameField_split line3 of (primary, secondary) \<Rightarrow>
        and_then (map_err (\<lambda>e. MrzFieldError (MrzNameError_display e)) (MrzSurname_new primary)) (\<lambda>primary_identifier.
        and_then (map_err (\<lambda>e. MrzFieldError (MrzNameError_display e)) (MrzGivenName_new secondary)) (\<lambda>secondary_identifier.
        Ok \<lparr>mrz_raw = stripped, document_type = document_type, issuing_country = issuing_country,
            document_number = document_number, date_of_birth = date_of_birth, sex = from_mrz_byte sex_byte,
            date_of_expiry = date_of_expiry, nationality = nationality,
            primary_identifier = primary_identifier, secondary_identifier = secondary_identifier\<rparr>))))))))))"

definition gender_token :: "parsed_mrz \<Rightarrow> string" where
  "gender_token m = fluent_token (sex m)"


subsection \<open>Text lemmas\<close>

definition visible :: "byte \<Rightarrow> bool" where
  "visible b \<longleftrightarrow> 0x21 \<le> b \<and> b \<le> 0x7E"

lemma visible_not_space:
  assumes "visible a"
  shows "\<not> whitespace1 a" and "\<not> whitespace2 a b" and "\<not> whitespace3 a b c" and "a \<le> 0x7F"
  using assms by (auto simp: visible_def whitespace1_def whitespace2_def whitespace3_def word_le_nat_alt)

lemma strip_visible: "list_all visible bs \<Longrightarrow> strip_whitespace bs = bs"
  by (induction bs rule: strip_whitespace.induct) (auto simp: visible_not_space)

lemma is_ascii_visible: "list_all visible bs \<Longrightarrow> is_ascii bs"
  by (auto simp: is_ascii_def list_all_iff visible_not_space(4))

lemma trim_end_padded:
  assumes "bs = [] \<or> last bs \<noteq> FILLER"
  shows "trim_end_fillers (bs @ replicate n FILLER) = bs"
proof -
  have "dropWhile (\<lambda>b. b = FILLER) (replicate n FILLER @ cs) = dropWhile (\<lambda>b. b = FILLER) cs" for cs
    by (induction n) simp_all
  moreover have "dropWhile (\<lambda>b. b = FILLER) (rev bs) = rev bs"
    using assms by (cases bs rule: rev_cases) auto
  ultimately show ?thesis by (simp add: trim_end_fillers_def)
qed

definition trimmed :: "bytes \<Rightarrow> bool" where
  "trimmed bs \<longleftrightarrow> bs = [] \<or> hd bs \<noteq> FILLER \<and> last bs \<noteq> FILLER"

definition pad_to :: "nat \<Rightarrow> bytes \<Rightarrow> bytes" where
  "pad_to n bs = bs @ replicate (n - length bs) FILLER"

lemma length_pad_to [simp]: "length bs \<le> n \<Longrightarrow> length (pad_to n bs) = n"
  by (simp add: pad_to_def)

lemma visible_filler [simp]: "visible FILLER"
  by (simp add: visible_def)

lemma visible_pad_to [simp]: "list_all visible (pad_to n bs) \<longleftrightarrow> list_all visible bs"
  by (auto simp: pad_to_def list_all_iff)

lemma trim_pad_to: "trimmed bs \<Longrightarrow> trim_fillers (pad_to n bs) = bs"
proof -
  assume t: "trimmed bs"
  show ?thesis
  proof (cases bs)
    case Nil
    have "dropWhile (\<lambda>b. b = FILLER) (replicate m FILLER) = []" for m by (induction m) simp_all
    then show ?thesis using Nil by (simp add: pad_to_def trim_fillers_def trim_end_fillers_def)
  next
    case (Cons b cs)
    then have "b \<noteq> FILLER" "last bs \<noteq> FILLER" using t by (auto simp: trimmed_def)
    then have "dropWhile (\<lambda>b. b = FILLER) (pad_to n bs) = pad_to n bs" using Cons by (simp add: pad_to_def)
    then show ?thesis using trim_end_padded [of bs] \<open>last bs \<noteq> FILLER\<close> by (simp add: trim_fillers_def pad_to_def)
  qed
qed

fun single_fillers :: "bytes \<Rightarrow> bool" where
  "single_fillers (a # b # bs) \<longleftrightarrow> \<not> (a = FILLER \<and> b = FILLER) \<and> single_fillers (b # bs)"
| "single_fillers _ = True"

lemma split_name_at:
  "single_fillers s \<Longrightarrow> s = [] \<or> last s \<noteq> FILLER \<Longrightarrow> split_name (s @ FILLER # FILLER # g) = (s, g)"
proof (induction s rule: single_fillers.induct)
  case (1 a b bs)
  then show ?case by auto
qed auto

lemma split_name_none: "single_fillers s \<Longrightarrow> split_name s = (s, [])"
  by (induction s rule: split_name.induct) auto

lemma check_mrz_name_Ok: "check_mrz_name i bs = Ok u \<longleftrightarrow> list_all (\<lambda>b. is_ascii_uppercase b \<or> b = FILLER) bs"
  by (induction bs arbitrary: i) auto

definition mrz_name_ok :: "bytes \<Rightarrow> bool" where
  "mrz_name_ok bs \<longleftrightarrow> bs \<noteq> [] \<and> length bs \<le> 39 \<and> list_all (\<lambda>b. is_ascii_uppercase b \<or> b = FILLER) bs"

lemma MrzNameInput_parse_Ok: "MrzNameInput_parse bs = Ok u \<longleftrightarrow> mrz_name_ok bs"
  by (auto simp: MrzNameInput_parse_def mrz_name_ok_def check_mrz_name_Ok)

lemma mrz_name_visible: "mrz_name_ok bs \<Longrightarrow> list_all visible bs"
  by (auto simp: mrz_name_ok_def list_all_iff visible_def is_ascii_uppercase_def word_le_nat_alt)

lemma sex_round_trip [simp]: "from_mrz_byte (as_mrz_byte s) = s"
  by (cases s) (simp_all add: from_mrz_byte_def)

lemma upper_visible: "list_all is_ascii_uppercase bs \<Longrightarrow> list_all visible bs"
  by (auto simp: list_all_iff visible_def is_ascii_uppercase_def word_le_nat_alt)

lemma digits_visible: "digits bs \<Longrightarrow> list_all visible bs"
  by (auto simp: digits_def list_all_iff visible_def is_ascii_digit_def word_le_nat_alt)

subsection \<open>A printed zone\<close>

text \<open>The three lines of a zone with the given fields, in which the check digits and the optional data
  are arbitrary.\<close>

definition td1_line1 :: "parsed_mrz \<Rightarrow> bytes \<Rightarrow> bytes" where
  "td1_line1 m extra = pad_to 2 (document_type m) @ pad_to 3 (issuing_country m) @ pad_to 9 (document_number m) @ extra"

definition td1_line2 :: "parsed_mrz \<Rightarrow> byte \<Rightarrow> byte \<Rightarrow> bytes \<Rightarrow> bytes" where
  "td1_line2 m c2 c3 extra =
     str_bytes (to_mrz_yymmdd (date_of_birth m)) @ c2 # as_mrz_byte (sex m) #
     str_bytes (to_mrz_yymmdd (date_of_expiry m)) @ c3 # pad_to 3 (nationality m) @ extra"

definition td1_line3 :: "parsed_mrz \<Rightarrow> bytes" where
  "td1_line3 m = pad_to 30 (primary_identifier m @ FILLER # FILLER # secondary_identifier m)"

definition country_ok :: "bytes \<Rightarrow> bool" where
  "country_ok c \<longleftrightarrow> c \<noteq> [] \<and> length c \<le> 3 \<and> list_all is_ascii_uppercase c"

definition mrz_date_ok :: "date \<Rightarrow> bool" where
  "mrz_date_ok d \<longleftrightarrow> date_ok d \<and> 1950 \<le> unat (date_year d) \<and> unat (date_year d) \<le> 2049"

definition mrz_ok :: "parsed_mrz \<Rightarrow> bool" where
  "mrz_ok m \<longleftrightarrow>
     trimmed (document_type m) \<and> length (document_type m) \<le> 2 \<and> list_all visible (document_type m)
     \<and> country_ok (issuing_country m) \<and> country_ok (nationality m)
     \<and> trimmed (document_number m) \<and> length (document_number m) \<le> 9 \<and> list_all visible (document_number m)
     \<and> mrz_date_ok (date_of_birth m) \<and> mrz_date_ok (date_of_expiry m)
     \<and> mrz_name_ok (primary_identifier m) \<and> mrz_name_ok (secondary_identifier m)
     \<and> single_fillers (primary_identifier m) \<and> last (primary_identifier m) \<noteq> FILLER
     \<and> last (secondary_identifier m) \<noteq> FILLER
     \<and> length (primary_identifier m) + 2 + length (secondary_identifier m) \<le> 30"

lemma mrz_date_text:
  assumes "mrz_date_ok d"
  shows "length (to_mrz_yymmdd d) = 6" and "from_mrz_yymmdd (str_bytes (to_mrz_yymmdd d)) = Ok d"
    and "list_all visible (str_bytes (to_mrz_yymmdd d))"
proof -
  have ok: "date_ok d" using assms by (simp add: mrz_date_ok_def)
  have "unat (date_year d mod 100) < 100" by (simp add: unat_mod)
  then show len: "length (to_mrz_yymmdd d) = 6" using date_ok_bounds [OF ok] by (simp add: to_mrz_yymmdd_def)
  show "from_mrz_yymmdd (str_bytes (to_mrz_yymmdd d)) = Ok d"
    using assms len by (simp add: from_mrz_yymmdd_iff mrz_date_ok_def)
  show "list_all visible (str_bytes (to_mrz_yymmdd d))" by (rule digits_visible) (simp add: to_mrz_yymmdd_def)
qed

lemma country_ok_field:
  assumes "country_ok c"
  shows "trimmed c" and "IcaoCountry_new c = Ok c" and "list_all visible c" and "length (pad_to 3 c) = 3"
proof -
  have "\<not> is_ascii_uppercase FILLER" by (simp add: is_ascii_uppercase_def)
  then show "trimmed c" using assms hd_in_set [of c] last_in_set [of c]
    unfolding country_ok_def trimmed_def list_all_iff by metis
  show "IcaoCountry_new c = Ok c" "list_all visible c" "length (pad_to 3 c) = 3"
    using assms by (simp_all add: country_ok_def IcaoCountry_new_upper upper_visible)
qed


lemma slice_at: "length p = a \<Longrightarrow> length f = b - a \<Longrightarrow> a \<le> b \<Longrightarrow> slice (p @ f @ r) a b = Some f"
  by (simp add: slice_def)

lemma text_field_at:
  assumes "length p = a" and "b = a + n" and "length v \<le> n" and "trimmed v" and "list_all visible v"
  shows "text_field (p @ pad_to n v @ r) a b detail = Ok v"
proof -
  have "slice (p @ pad_to n v @ r) a b = Some (pad_to n v)" using assms by (intro slice_at) simp_all
  then show ?thesis using assms by (simp add: text_field_def MrzField_parse_def is_ascii_visible trim_pad_to)
qed

lemma country_field_at:
  assumes "length p = a" and "b = a + 3" and "country_ok v"
  shows "country_field (p @ pad_to 3 v @ r) a b detail = Ok v"
proof -
  note c = country_ok_field [OF assms(3)]
  have "slice (p @ pad_to 3 v @ r) a b = Some (pad_to 3 v)" using assms c by (intro slice_at) simp_all
  then show ?thesis using c by (simp add: country_field_def MrzField_parse_def is_ascii_visible trim_pad_to)
qed

lemma date_field_at:
  assumes "length p = a" and "b = a + 6" and "mrz_date_ok d"
  shows "date_field (p @ str_bytes (to_mrz_yymmdd d) @ r) a b detail = Ok d"
proof -
  note c = mrz_date_text [OF assms(3)]
  have "slice (p @ str_bytes (to_mrz_yymmdd d) @ r) a b = Some (str_bytes (to_mrz_yymmdd d))"
    using assms c by (intro slice_at) simp_all
  then show ?thesis using c by (simp add: date_field_def)
qed

lemma name_line_split:
  assumes "mrz_ok m"
  shows "MrzNameField_split (td1_line3 m) = (primary_identifier m, secondary_identifier m)"
proof -
  let ?names = "primary_identifier m @ FILLER # FILLER # secondary_identifier m"
  have "secondary_identifier m \<noteq> []" using assms by (simp add: mrz_ok_def mrz_name_ok_def)
  then have "last ?names \<noteq> FILLER" using assms by (simp add: mrz_ok_def)
  then have "trim_end_fillers (td1_line3 m) = ?names"
    unfolding td1_line3_def pad_to_def by (intro trim_end_padded) simp
  then show ?thesis using assms split_name_at [of "primary_identifier m" "secondary_identifier m"]
    by (simp add: MrzNameField_split_def mrz_ok_def)
qed

lemma td1_lines:
  assumes "mrz_ok m" and "length extra1 = 16" and "length extra2 = 12"
  shows "length (td1_line1 m extra1) = 30" and "length (td1_line2 m c2 c3 extra2) = 30" and "length (td1_line3 m) = 30"
  using assms mrz_date_text(1) [of "date_of_birth m"] mrz_date_text(1) [of "date_of_expiry m"]
    country_ok_field(4) [of "issuing_country m"] country_ok_field(4) [of "nationality m"]
  by (simp_all add: td1_line1_def td1_line2_def td1_line3_def mrz_ok_def)

lemma td1_visible:
  assumes "mrz_ok m" and "list_all visible extra1" and "visible c2" and "visible c3" and "list_all visible extra2"
  shows "list_all visible (td1_line1 m extra1 @ td1_line2 m c2 c3 extra2 @ td1_line3 m)"
proof -
  have "visible (as_mrz_byte s)" for s by (cases s) (simp_all add: visible_def)
  then show ?thesis
    using assms mrz_date_text(3) [of "date_of_birth m"] mrz_date_text(3) [of "date_of_expiry m"]
      country_ok_field(3) [of "issuing_country m"] country_ok_field(3) [of "nationality m"]
      mrz_name_visible [of "primary_identifier m"] mrz_name_visible [of "secondary_identifier m"]
    by (simp add: td1_line1_def td1_line2_def td1_line3_def mrz_ok_def)
qed

lemma three_lines:
  assumes "length a = 30" and "length b = 30" and "length c = 30"
  shows "take 30 (a @ b @ c) = a" and "take 30 (drop 30 (a @ b @ c)) = b" and "drop 60 (a @ b @ c) = c"
    and "length (a @ b @ c) = 90"
  using assms by simp_all

lemma line1_fields:
  assumes "mrz_ok m"
  shows "text_field (td1_line1 m extra) 0 2 e1 = Ok (document_type m)"
    and "country_field (td1_line1 m extra) 2 5 e2 = Ok (issuing_country m)"
    and "text_field (td1_line1 m extra) 5 14 e3 = Ok (document_number m)"
proof -
  have ok: "length (pad_to 2 (document_type m)) = 2" "length (pad_to 3 (issuing_country m)) = 3"
    "country_ok (issuing_country m)"
    using assms country_ok_field(4) [of "issuing_country m"] by (simp_all add: mrz_ok_def)
  show "text_field (td1_line1 m extra) 0 2 e1 = Ok (document_type m)"
    using text_field_at [of "[]" 0 2 2 "document_type m"] assms by (simp add: td1_line1_def mrz_ok_def)
  show "country_field (td1_line1 m extra) 2 5 e2 = Ok (issuing_country m)"
    using country_field_at [of "pad_to 2 (document_type m)" 2 5 "issuing_country m"] ok by (simp add: td1_line1_def)
  show "text_field (td1_line1 m extra) 5 14 e3 = Ok (document_number m)"
    using text_field_at [of "pad_to 2 (document_type m) @ pad_to 3 (issuing_country m)" 5 14 9 "document_number m"] ok assms
    by (simp add: td1_line1_def mrz_ok_def)
qed

lemma line2_fields:
  assumes "mrz_ok m"
  shows "date_field (td1_line2 m c2 c3 extra) 0 6 e1 = Ok (date_of_birth m)"
    and "get_at (td1_line2 m c2 c3 extra) 7 = Some (as_mrz_byte (sex m))"
    and "date_field (td1_line2 m c2 c3 extra) 8 14 e2 = Ok (date_of_expiry m)"
    and "country_field (td1_line2 m c2 c3 extra) 15 18 e3 = Ok (nationality m)"
proof -
  let ?b = "str_bytes (to_mrz_yymmdd (date_of_birth m))" and ?x = "str_bytes (to_mrz_yymmdd (date_of_expiry m))"
  have ok: "mrz_date_ok (date_of_birth m)" "mrz_date_ok (date_of_expiry m)" "country_ok (nationality m)"
    using assms by (simp_all add: mrz_ok_def)
  have len: "length (to_mrz_yymmdd (date_of_birth m)) = 6" "length (to_mrz_yymmdd (date_of_expiry m)) = 6"
    using mrz_date_text(1) [OF ok(1)] mrz_date_text(1) [OF ok(2)] by simp_all
  show "date_field (td1_line2 m c2 c3 extra) 0 6 e1 = Ok (date_of_birth m)"
    using date_field_at [of "[]" 0 6 "date_of_birth m"] ok by (simp add: td1_line2_def)
  show "get_at (td1_line2 m c2 c3 extra) 7 = Some (as_mrz_byte (sex m))"
    using len by (simp add: td1_line2_def get_at_def nth_append)
  show "date_field (td1_line2 m c2 c3 extra) 8 14 e2 = Ok (date_of_expiry m)"
    using date_field_at [of "?b @ [c2, as_mrz_byte (sex m)]" 8 14 "date_of_expiry m"] ok len by (simp add: td1_line2_def)
  show "country_field (td1_line2 m c2 c3 extra) 15 18 e3 = Ok (nationality m)"
    using country_field_at [of "?b @ [c2, as_mrz_byte (sex m)] @ ?x @ [c3]" 15 18 "nationality m"] ok len
    by (simp add: td1_line2_def)
qed



text \<open>A specimen document.\<close>

definition specimen :: parsed_mrz where
  "specimen =
     (let m = \<lparr>mrz_raw = [], document_type = str_bytes ''I'', issuing_country = str_bytes ''FIN'',
               document_number = str_bytes ''AA1234567'', date_of_birth = Date 1974 8 12, sex = Female,
               date_of_expiry = Date 2030 1 31, nationality = str_bytes ''FIN'',
               primary_identifier = str_bytes ''ERIKSSON'', secondary_identifier = str_bytes ''ANNA<MARIA''\<rparr> in
      m\<lparr>mrz_raw := td1_line1 m (replicate 16 FILLER) @ td1_line2 m 0x30 0x30 (replicate 12 FILLER) @ td1_line3 m\<rparr>)"

lemma specimen_ok: "mrz_ok specimen"
  by code_simp

lemma specimen_raw:
  "mrz_raw specimen = td1_line1 specimen (replicate 16 FILLER) @ td1_line2 specimen 0x30 0x30 (replicate 12 FILLER)
     @ td1_line3 specimen"
  by (simp add: specimen_def Let_def td1_line1_def td1_line2_def td1_line3_def)

lemma specimen_extra: "list_all visible (replicate n FILLER)" "visible 0x30"
  by (simp_all add: list_all_iff visible_def)


text \<open>A document whose third line carries only a primary identifier, as the zone of a holder without
  given names does, is refused: the absent second name is read as an empty one, which the name type rejects,
  and the whole parse fails.\<close>

theorem mrz_without_given_name_refused:
  assumes "mrz_ok m" and "length extra1 = 16" and "list_all visible extra1" and "visible c2" and "visible c3"
    and "length extra2 = 12" and "list_all visible extra2"
  shows "parse_td1 (td1_line1 m extra1 @ td1_line2 m c2 c3 extra2 @ pad_to 30 (primary_identifier m))
    = Err (MrzFieldError ''MRZ name cannot be empty'')"
proof -
  let ?line3 = "pad_to 30 (primary_identifier m)"
  let ?text = "td1_line1 m extra1 @ td1_line2 m c2 c3 extra2 @ ?line3"
  have p: "mrz_name_ok (primary_identifier m)" "length (primary_identifier m) \<le> 30"
    "last (primary_identifier m) \<noteq> FILLER" "single_fillers (primary_identifier m)"
    using assms(1) by (simp_all add: mrz_ok_def)
  have vis: "list_all visible ?text"
    using td1_visible [OF assms(1,3,4,5,7)] mrz_name_visible [OF p(1)] by simp
  have "length ?line3 = 30" using p(2) by simp
  note lines = three_lines [OF td1_lines(1) [OF assms(1,2,6)] td1_lines(2) [OF assms(1,2,6), of c2 c3] this]
  have "trim_end_fillers ?line3 = primary_identifier m"
    unfolding pad_to_def by (rule trim_end_padded) (simp add: p(3))
  then have split: "MrzNameField_split ?line3 = (primary_identifier m, [])"
    by (simp add: MrzNameField_split_def split_name_none [OF p(4)])
  have names: "MrzSurname_new (primary_identifier m) = Ok (primary_identifier m)"
    "MrzGivenName_new [] = Err MrzNameEmpty"
    using p(1) by (simp_all add: MrzSurname_new_def MrzGivenName_new_def and_then_eq_Ok MrzNameInput_parse_Ok
        MrzNameInput_parse_def [of "[]"])
  show ?thesis
    using vis lines
    by (simp add: parse_td1_def strip_visible is_ascii_visible Let_def line1_fields [OF assms(1)]
        line2_fields [OF assms(1)] split names)
qed

theorem mrz_without_given_name_refused_witness:
  "parse_td1 (td1_line1 specimen (replicate 16 FILLER) @ td1_line2 specimen 0x30 0x30 (replicate 12 FILLER)
     @ pad_to 30 (str_bytes ''ERIKSSON'')) = Err (MrzFieldError ''MRZ name cannot be empty'')"
  using mrz_without_given_name_refused [OF specimen_ok _ specimen_extra(1) specimen_extra(2) specimen_extra(2) _
      specimen_extra(1), of 16 12] by (simp add: specimen_def Let_def)

end
