(* ===== verification/Emrtd_Dg.thy ===== *)
theory Emrtd_Dg
  imports Emrtd_Mrz
begin

text \<open>
  The optional data groups of the travel document (\<open>emrtd.rs\<close> from line 864): embedded images, the
  walkers of DG11 and DG12 over their own small BER reader, the security infos of DG14 and the key of
  DG15. The free-text types of \<open>identity.rs\<close> that the walkers fill share one check. A walker's cursor into
  the body is the suffix that starts there.
\<close>

subsection \<open>Free text\<close>

datatype free_text_error = FreeTextEmpty | FreeTextTooLong nat nat

abbreviation FREE_TEXT_MAX_BYTES :: nat where "FREE_TEXT_MAX_BYTES \<equiv> 1024"

definition FreeText_parse :: "bytes \<Rightarrow> (free_text_error, bytes) res" where
  "FreeText_parse value =
     (if value = [] then Err FreeTextEmpty
      else if FREE_TEXT_MAX_BYTES < length value then Err (FreeTextTooLong (length value) FREE_TEXT_MAX_BYTES)
      else Ok value)"

text \<open>\<open>Result::ok\<close>.\<close>

definition res_ok :: "('e, 'a) res \<Rightarrow> 'a option" where
  "res_ok r = (case r of Ok a \<Rightarrow> Some a | _ \<Rightarrow> None)"

definition free_text :: "bytes \<Rightarrow> bytes option" where
  "free_text s = res_ok (FreeText_parse s)"

text \<open>\<open>String::from_utf8_lossy\<close>: every maximal prefix of an ill-formed sequence becomes the replacement
  character.\<close>

abbreviation REPLACEMENT :: bytes where "REPLACEMENT \<equiv> [0xEF, 0xBF, 0xBD]"

definition second_ok :: "byte \<Rightarrow> byte \<Rightarrow> bool" where
  "second_ok a b \<longleftrightarrow>
     utf8_in (if a = 0xE0 then 0xA0 else if a = 0xF0 then 0x90 else 0x80)
       (if a = 0xED then 0x9F else if a = 0xF4 then 0x8F else 0xBF) b"

fun from_utf8_lossy :: "bytes \<Rightarrow> bytes" where
  "from_utf8_lossy [] = []"
| "from_utf8_lossy (a # bs) =
     (if a \<le> 0x7F then a # from_utf8_lossy bs
      else if utf8_in 0xC2 0xF4 a then
        (case bs of
           [] \<Rightarrow> REPLACEMENT
         | b # bs1 \<Rightarrow>
             if \<not> second_ok a b then REPLACEMENT @ from_utf8_lossy bs
             else if a \<le> 0xDF then a # b # from_utf8_lossy bs1
             else
               (case bs1 of
                  [] \<Rightarrow> REPLACEMENT
                | c # bs2 \<Rightarrow>
                    if \<not> utf8_in 0x80 0xBF c then REPLACEMENT @ from_utf8_lossy bs1
                    else if a \<le> 0xEF then a # b # c # from_utf8_lossy bs2
                    else
                      (case bs2 of
                         [] \<Rightarrow> REPLACEMENT
                       | d # bs3 \<Rightarrow>
                           if \<not> utf8_in 0x80 0xBF d then REPLACEMENT @ from_utf8_lossy bs2
                           else a # b # c # d # from_utf8_lossy bs3)))
      else REPLACEMENT @ from_utf8_lossy bs)"

text \<open>\<open>str::trim\<close>: the white space at the start and, on the reversed text, at the end.\<close>

fun trim_start :: "bytes \<Rightarrow> bytes" where
  "trim_start (a # b # c # bs) =
     (if whitespace1 a then trim_start (b # c # bs)
      else if whitespace2 a b then trim_start (c # bs)
      else if whitespace3 a b c then trim_start bs
      else a # b # c # bs)"
| "trim_start [a, b] =
     (if whitespace1 a then trim_start [b] else if whitespace2 a b then [] else [a, b])"
| "trim_start [a] = (if whitespace1 a then [] else [a])"
| "trim_start [] = []"

fun trim_start_rev :: "bytes \<Rightarrow> bytes" where
  "trim_start_rev (c # b # a # bs) =
     (if whitespace1 c then trim_start_rev (b # a # bs)
      else if whitespace2 b c then trim_start_rev (a # bs)
      else if whitespace3 a b c then trim_start_rev bs
      else c # b # a # bs)"
| "trim_start_rev [b, a] =
     (if whitespace1 b then trim_start_rev [a] else if whitespace2 a b then [] else [b, a])"
| "trim_start_rev [a] = (if whitespace1 a then [] else [a])"
| "trim_start_rev [] = []"

definition trim_text :: "bytes \<Rightarrow> bytes" where
  "trim_text bs = rev (trim_start_rev (rev (trim_start bs)))"

definition read_string :: "bytes \<Rightarrow> bytes" where
  "read_string value = trim_text (from_utf8_lossy value)"

subsection \<open>Images\<close>

datatype document_image = Jpeg bytes | Jpeg2000 bytes

abbreviation JPEG_MAGIC :: bytes where "JPEG_MAGIC \<equiv> [0xFF, 0xD8, 0xFF]"
abbreviation JP2_MAGIC :: bytes where "JP2_MAGIC \<equiv> [0x00, 0x00, 0x00, 0x0C, 0x6A, 0x50, 0x20, 0x20]"

text \<open>\<open>windows(N).position(..)\<close>.\<close>

fun scan_from :: "nat \<Rightarrow> bytes \<Rightarrow> bytes \<Rightarrow> nat option" where
  "scan_from i needle [] = None"
| "scan_from i needle (b # bs) =
     (if length (b # bs) < length needle then None
      else if take (length needle) (b # bs) = needle then Some i
      else scan_from (i + 1) needle bs)"

definition scan_for_magic :: "bytes \<Rightarrow> bytes \<Rightarrow> nat option" where
  "scan_for_magic candidate needle =
     (if needle = [] \<or> length candidate < length needle then None else scan_from 0 needle candidate)"

definition DocumentImage_parse :: "bytes \<Rightarrow> (unit, document_image) res" where
  "DocumentImage_parse buf =
     (case scan_for_magic buf JPEG_MAGIC of
        Some off \<Rightarrow> and_then (ok_or (slice buf off (length buf)) ()) (\<lambda>bs. Ok (Jpeg bs))
      | None \<Rightarrow>
          (case scan_for_magic buf JP2_MAGIC of
             Some off \<Rightarrow> and_then (ok_or (slice buf off (length buf)) ()) (\<lambda>bs. Ok (Jpeg2000 bs))
           | None \<Rightarrow> Err ()))"

fun image_bytes :: "document_image \<Rightarrow> bytes" where
  "image_bytes (Jpeg b) = b"
| "image_bytes (Jpeg2000 b) = b"

fun image_extension :: "document_image \<Rightarrow> string" where
  "image_extension (Jpeg _) = ''jpg''"
| "image_extension (Jpeg2000 _) = ''jp2''"

subsection \<open>The small BER reader\<close>

record ber_tlv_read =
  read_tag :: u16
  read_value :: bytes
  total_size :: nat

text \<open>The loop over the length bytes; \<open>checked_shl(8)\<close> drops the bits shifted out.\<close>

definition fold_length :: "bytes \<Rightarrow> nat option" where
  "fold_length bs = foldl (\<lambda>acc b. Option.bind acc (\<lambda>v. checked_add (v * 256 mod 2 ^ 64) (unat b))) (Some 0) bs"

definition read_ber_length :: "bytes \<Rightarrow> (nat \<times> nat) option" where
  "read_ber_length bs =
     (case get_at bs 0 of
        None \<Rightarrow> None
      | Some b \<Rightarrow>
          if b < 0x80 then Some (1, unat b)
          else
            let extra = unat (b AND 0x7F) in
            if extra = 0 \<or> length bs < 1 + extra then None
            else
              Option.bind (slice bs 1 (1 + extra)) (\<lambda>tail.
              Option.bind (fold_length tail) (\<lambda>v. Some (1 + extra, v))))"

text \<open>\<open>BerInput::remaining_from\<close>: the suffix at the offset, unless it is empty.\<close>

definition remaining_from :: "bytes \<Rightarrow> nat \<Rightarrow> bytes option" where
  "remaining_from bs offset = (if offset < length bs then Some (drop offset bs) else None)"

text \<open>The tag and the number of its bytes.\<close>

definition small_tag :: "bytes \<Rightarrow> (u16 \<times> nat) option" where
  "small_tag bs =
     Option.bind (get_at bs 0) (\<lambda>b.
     if b AND 0x1F = 0x1F
     then Option.bind (get_at bs 1) (\<lambda>second. Some (push_bit 8 (ucast b) + ucast second, 2))
     else Some (ucast b, 1))"

definition read_two_byte_tag_tlv :: "bytes \<Rightarrow> ber_tlv_read option" where
  "read_two_byte_tag_tlv bs =
     Option.bind (small_tag bs) (\<lambda>(tag, idx).
     Option.bind (remaining_from bs idx) (\<lambda>rest.
     Option.bind (read_ber_length rest) (\<lambda>(len_size, content_len).
     Option.bind (checked_add idx len_size) (\<lambda>header_size.
     Option.bind (checked_add header_size content_len) (\<lambda>total.
     if length bs < total then None
     else Option.bind (slice bs header_size total) (\<lambda>value.
       Some \<lparr>read_tag = tag, read_value = value, total_size = total\<rparr>))))))"

subsection \<open>DG11\<close>

record additional_personal_data =
  full_name :: "bytes option"
  other_names :: "bytes list"
  personal_number :: "bytes option"
  full_date_of_birth :: "date option"
  place_of_birth :: "bytes option"
  permanent_address :: "bytes option"
  telephone :: "bytes option"
  profession :: "bytes option"
  title :: "bytes option"
  personal_summary :: "bytes option"
  proof_of_citizenship :: "document_image option"
  other_td_numbers :: "bytes list"
  custody_information :: "bytes option"

definition AdditionalPersonalData_default :: additional_personal_data where
  "AdditionalPersonalData_default =
     \<lparr>full_name = None, other_names = [], personal_number = None, full_date_of_birth = None,
      place_of_birth = None, permanent_address = None, telephone = None, profession = None, title = None,
      personal_summary = None, proof_of_citizenship = None, other_td_numbers = [], custody_information = None\<rparr>"

text \<open>\<open>split('<')\<close>: the segments between the fillers, empty ones included.\<close>

fun split_fillers :: "bytes \<Rightarrow> bytes list" where
  "split_fillers [] = [[]]"
| "split_fillers (b # bs) =
     (if b = FILLER then [] # split_fillers bs
      else (case split_fillers bs of s # ss \<Rightarrow> (b # s) # ss | [] \<Rightarrow> [[b]]))"

definition td_numbers :: "bytes \<Rightarrow> bytes list" where
  "td_numbers joined =
     List.map_filter free_text (filter (\<lambda>s. s \<noteq> []) (map trim_text (split_fillers joined)))"

definition date8 :: "bytes \<Rightarrow> date option" where
  "date8 value = (if length value = 8 then res_ok (from_yyyymmdd value) else None)"

definition set_personal_field :: "u16 \<Rightarrow> bytes \<Rightarrow> additional_personal_data \<Rightarrow> additional_personal_data" where
  "set_personal_field tag value out =
     (if tag = 0x5F0E then out\<lparr>full_name := free_text (read_string value)\<rparr>
      else if tag = 0x5F10 then out\<lparr>personal_number := free_text (read_string value)\<rparr>
      else if tag = 0x5F2B then out\<lparr>full_date_of_birth := date8 value\<rparr>
      else if tag = 0x5F11 then out\<lparr>place_of_birth := free_text (read_string value)\<rparr>
      else if tag = 0x5F42 then out\<lparr>permanent_address := free_text (read_string value)\<rparr>
      else if tag = 0x5F12 then out\<lparr>telephone := free_text (read_string value)\<rparr>
      else if tag = 0x5F13 then out\<lparr>profession := free_text (read_string value)\<rparr>
      else if tag = 0x5F14 then out\<lparr>title := free_text (read_string value)\<rparr>
      else if tag = 0x5F15 then out\<lparr>personal_summary := free_text (read_string value)\<rparr>
      else if tag = 0x5F16 then out\<lparr>proof_of_citizenship := res_ok (DocumentImage_parse value)\<rparr>
      else if tag = 0x5F17 then out\<lparr>other_td_numbers := td_numbers (read_string value)\<rparr>
      else if tag = 0x5F18 then out\<lparr>custody_information := free_text (read_string value)\<rparr>
      else out)"

text \<open>The loop of the nested extractors: the accepted values of one tag.\<close>

lemma read_two_byte_size: "read_two_byte_tag_tlv bs = Some t \<Longrightarrow> 0 < total_size t \<and> total_size t \<le> length bs"
  by (auto simp: read_two_byte_tag_tlv_def small_tag_def bind_eq_Some_conv checked_add_def split: if_splits)

function nested_values :: "u16 \<Rightarrow> bytes \<Rightarrow> bytes list" where
  "nested_values tag body =
     (if body = [] then []
      else case read_two_byte_tag_tlv body of
        None \<Rightarrow> []
      | Some t \<Rightarrow>
          (if read_tag t = tag then (case free_text (read_string (read_value t)) of Some n \<Rightarrow> [n] | None \<Rightarrow> []) else [])
            @ nested_values tag (drop (total_size t) body))"
  by pat_completeness auto

termination
  by (relation "measure (\<lambda>(tag, body). length body)") (auto dest: read_two_byte_size)

abbreviation CONTAINER_A0 :: u16 where "CONTAINER_A0 \<equiv> 0xA0"

definition extract_nested_5f0f :: "bytes \<Rightarrow> additional_personal_data \<Rightarrow> additional_personal_data" where
  "extract_nested_5f0f a0_tlv out =
     (case ber_parse_typed CONTAINER_A0 a0_tlv of
        Ok outer \<Rightarrow> out\<lparr>other_names := other_names out @ nested_values 0x5F0F (typed_value outer)\<rparr>
      | _ \<Rightarrow> out)"

definition has_tag_a0 :: "bytes \<Rightarrow> bool" where
  "has_tag_a0 bs \<longleftrightarrow> map_option ucast (get_at bs 0) = Some CONTAINER_A0"

function walk_personal_tags :: "bytes \<Rightarrow> additional_personal_data \<Rightarrow> additional_personal_data" where
  "walk_personal_tags remaining out =
     (if remaining = [] then out
      else case read_two_byte_tag_tlv remaining of
        None \<Rightarrow> out
      | Some t \<Rightarrow>
          let out1 = set_personal_field (read_tag t) (read_value t) out;
              out2 = (if has_tag_a0 remaining then extract_nested_5f0f remaining out1 else out1) in
          walk_personal_tags (drop (total_size t) remaining) out2)"
  by pat_completeness auto

termination
  by (relation "measure (\<lambda>(remaining, out). length remaining)") (auto dest: read_two_byte_size)

definition Dg11Bytes_parse :: "bytes \<Rightarrow> (ber_error, ber_tlv) res" where
  "Dg11Bytes_parse dg11 = ber_parse_typed 0x6B dg11"

definition parse_dg11 :: "ber_tlv \<Rightarrow> additional_personal_data" where
  "parse_dg11 dg11 = walk_personal_tags (typed_value dg11) AdditionalPersonalData_default"

declare nested_values.simps [simp del] walk_personal_tags.simps [simp del]

subsection \<open>DG12\<close>

record additional_document_data =
  issuing_authority :: "bytes option"
  date_of_issue :: "date option"
  other_persons :: "bytes list"
  endorsements :: "bytes option"
  tax_exit :: "bytes option"
  image_front :: "document_image option"
  image_rear :: "document_image option"
  personalisation_time :: "date_time option"
  personalisation_device_serial :: "bytes option"

definition AdditionalDocumentData_default :: additional_document_data where
  "AdditionalDocumentData_default =
     \<lparr>issuing_authority = None, date_of_issue = None, other_persons = [], endorsements = None, tax_exit = None,
      image_front = None, image_rear = None, personalisation_time = None, personalisation_device_serial = None\<rparr>"

definition set_document_field :: "u16 \<Rightarrow> bytes \<Rightarrow> additional_document_data \<Rightarrow> additional_document_data" where
  "set_document_field tag value out =
     (if tag = 0x5F19 then out\<lparr>issuing_authority := free_text (read_string value)\<rparr>
      else if tag = 0x5F26 then out\<lparr>date_of_issue := date8 value\<rparr>
      else if tag = 0x5F1B then out\<lparr>endorsements := free_text (read_string value)\<rparr>
      else if tag = 0x5F1C then out\<lparr>tax_exit := free_text (read_string value)\<rparr>
      else if tag = 0x5F1D then out\<lparr>image_front := res_ok (DocumentImage_parse value)\<rparr>
      else if tag = 0x5F1E then out\<lparr>image_rear := res_ok (DocumentImage_parse value)\<rparr>
      else if tag = 0x5F55 then out\<lparr>personalisation_time :=
          (if length value = 14 then res_ok (from_yyyymmddhhmmss value) else None)\<rparr>
      else if tag = 0x5F56 then out\<lparr>personalisation_device_serial := free_text (read_string value)\<rparr>
      else out)"

definition extract_nested_5f1a :: "bytes \<Rightarrow> additional_document_data \<Rightarrow> additional_document_data" where
  "extract_nested_5f1a a0_tlv out =
     (case ber_parse_typed CONTAINER_A0 a0_tlv of
        Ok outer \<Rightarrow> out\<lparr>other_persons := other_persons out @ nested_values 0x5F1A (typed_value outer)\<rparr>
      | _ \<Rightarrow> out)"

lemma ber_parse_typed_size: "ber_parse_typed T bs = Ok t \<Longrightarrow> 0 < typed_size t \<and> typed_size t \<le> length bs"
  using ber_parse_Ok(1,2) [of bs] by (fastforce simp: ber_parse_typed_def ber_expect_def and_then_eq_Ok split: if_splits)

function walk_document_tags :: "bytes \<Rightarrow> additional_document_data \<Rightarrow> additional_document_data" where
  "walk_document_tags remaining out =
     (if remaining = [] then out
      else if has_tag_a0 remaining then
        (let out1 = extract_nested_5f1a remaining out in
         case ber_parse_typed CONTAINER_A0 remaining of
           Ok outer \<Rightarrow> walk_document_tags (drop (typed_size outer) remaining) out1
         | _ \<Rightarrow> out1)
      else case read_two_byte_tag_tlv remaining of
        None \<Rightarrow> out
      | Some t \<Rightarrow>
          walk_document_tags (drop (total_size t) remaining) (set_document_field (read_tag t) (read_value t) out))"
  by pat_completeness auto

termination
  by (relation "measure (\<lambda>(remaining, out). length remaining)")
    (auto dest: read_two_byte_size ber_parse_typed_size)

definition Dg12Bytes_parse :: "bytes \<Rightarrow> (ber_error, ber_tlv) res" where
  "Dg12Bytes_parse dg12 = ber_parse_typed 0x6C dg12"

definition parse_dg12 :: "ber_tlv \<Rightarrow> additional_document_data" where
  "parse_dg12 dg12 = walk_document_tags (typed_value dg12) AdditionalDocumentData_default"

declare walk_document_tags.simps [simp del]

subsection \<open>DG14 and DG15\<close>

abbreviation TAG_INTEGER :: u16 where "TAG_INTEGER \<equiv> 0x02"
abbreviation TAG_OID :: u16 where "TAG_OID \<equiv> 0x06"
abbreviation TAG_SEQUENCE :: u16 where "TAG_SEQUENCE \<equiv> 0x30"
abbreviation TAG_SET :: u16 where "TAG_SET \<equiv> 0x31"

definition Dg15Bytes_try_from :: "bytes \<Rightarrow> (ber_error, bytes) res" where
  "Dg15Bytes_try_from bs =
     and_then (ber_parse_typed 0x6F bs) (\<lambda>outer.
     if map_option ucast (get_at (typed_value outer) 0) \<noteq> Some TAG_SEQUENCE
     then Err (UnexpectedTag TAG_SEQUENCE (case get_at (typed_value outer) 0 of Some b \<Rightarrow> ucast b | None \<Rightarrow> 0))
     else Ok (typed_value outer))"

definition parse_dg15_spki :: "bytes \<Rightarrow> bytes" where
  "parse_dg15_spki spki_tlv_bytes = spki_tlv_bytes"

datatype dg14_security_info =
    ChipAuthenticationInfo string bytes "u32 option"
  | ChipAuthenticationPublicKeyInfo bytes bytes
  | TerminalAuthenticationInfo bytes
  | PaceInfo bytes
  | OtherInfo bytes

definition Dg14Bytes_try_from :: "bytes \<Rightarrow> (ber_error, ber_tlv) res" where
  "Dg14Bytes_try_from bs =
     and_then (ber_parse_typed 0x6E bs) (\<lambda>outer. ber_parse_typed TAG_SET (typed_value outer))"

abbreviation OID_PREFIX_CA :: bytes where "OID_PREFIX_CA \<equiv> [0x04, 0x00, 0x7F, 0x00, 0x07, 0x02, 0x02, 0x03]"
abbreviation OID_PREFIX_PK :: bytes where "OID_PREFIX_PK \<equiv> [0x04, 0x00, 0x7F, 0x00, 0x07, 0x02, 0x02, 0x01]"
abbreviation OID_PREFIX_TA :: bytes where "OID_PREFIX_TA \<equiv> [0x04, 0x00, 0x7F, 0x00, 0x07, 0x02, 0x02, 0x02]"
abbreviation OID_PREFIX_PACE :: bytes where "OID_PREFIX_PACE \<equiv> [0x04, 0x00, 0x7F, 0x00, 0x07, 0x02, 0x02, 0x04]"

definition starts_with :: "bytes \<Rightarrow> bytes \<Rightarrow> bool" where
  "starts_with bs prefix \<longleftrightarrow> take (length prefix) bs = prefix"

definition tail_byte :: "bytes \<Rightarrow> byte option" where
  "tail_byte oid = get_at oid 8"

definition tail_next_byte :: "bytes \<Rightarrow> byte option" where
  "tail_next_byte oid = get_at oid 9"

definition ca_label :: "byte \<Rightarrow> byte \<Rightarrow> string" where
  "ca_label family_byte cipher_byte =
     (if family_byte = 0x02 \<and> cipher_byte = 0x01 then ''id-CA-ECDH-3DES-CBC-CBC''
      else if family_byte = 0x02 \<and> cipher_byte = 0x02 then ''id-CA-ECDH-AES-CBC-CMAC-128''
      else if family_byte = 0x02 \<and> cipher_byte = 0x03 then ''id-CA-ECDH-AES-CBC-CMAC-192''
      else if family_byte = 0x02 \<and> cipher_byte = 0x04 then ''id-CA-ECDH-AES-CBC-CMAC-256''
      else if family_byte = 0x01 \<and> cipher_byte = 0x01 then ''id-CA-DH-3DES-CBC-CBC''
      else if family_byte = 0x01 \<and> cipher_byte = 0x02 then ''id-CA-DH-AES-CBC-CMAC-128''
      else if family_byte = 0x01 \<and> cipher_byte = 0x03 then ''id-CA-DH-AES-CBC-CMAC-192''
      else if family_byte = 0x01 \<and> cipher_byte = 0x04 then ''id-CA-DH-AES-CBC-CMAC-256''
      else ''id-CA-?'')"

text \<open>\<open>v.checked_shl(8)?.checked_add(b)?\<close> on 32 bits: the shift amount is always in range, so the bits
  shifted out are lost, and the sum cannot overflow.\<close>

definition integer_value :: "bytes \<Rightarrow> u32" where
  "integer_value bs = foldl (\<lambda>v b. push_bit 8 v + ucast b) 0 bs"

definition read_integer_u32 :: "(ber_error, ber_tlv_any) res list \<Rightarrow> u32 option" where
  "read_integer_u32 items =
     (case items of
        Ok any # _ \<Rightarrow> (case ber_expect TAG_INTEGER any of Ok t \<Rightarrow> Some (integer_value (typed_value t)) | _ \<Rightarrow> None)
      | _ \<Rightarrow> None)"

definition push_def_length :: "nat \<Rightarrow> bytes" where
  "push_def_length n =
     (if n < 0x80 then [word_of_nat n]
      else if n \<le> 255 then [0x81, word_of_nat n]
      else let word = (if n \<le> 65535 then word_of_nat n else 0xFFFF :: u16) in [0x82, u16_hi word, u16_lo word])"

definition extract_remaining_spki :: "ber_tlv \<Rightarrow> bytes option" where
  "extract_remaining_spki outer =
     (case ber_children (typed_value outer) of
        Ok oid # Ok any # _ \<Rightarrow>
          (case ber_expect TAG_SEQUENCE any of
             Ok spki \<Rightarrow> Some (0x30 # push_def_length (length (typed_value spki)) @ typed_value spki)
           | _ \<Rightarrow> None)
      | _ \<Rightarrow> None)"

definition classify_dg14_entry ::
  "ber_tlv \<Rightarrow> (ber_error, ber_tlv_any) res list \<Rightarrow> ber_tlv \<Rightarrow> dg14_security_info" where
  "classify_dg14_entry oid_tlv rest outer =
     (let oid = typed_value oid_tlv in
      case (starts_with oid OID_PREFIX_CA, tail_byte oid, tail_next_byte oid) of
        (True, Some family_byte, Some cipher_byte) \<Rightarrow>
          ChipAuthenticationInfo (ca_label family_byte cipher_byte) oid (read_integer_u32 rest)
      | _ \<Rightarrow>
          if starts_with oid OID_PREFIX_PK
          then ChipAuthenticationPublicKeyInfo oid (case extract_remaining_spki outer of Some s \<Rightarrow> s | None \<Rightarrow> [])
          else if starts_with oid OID_PREFIX_TA then TerminalAuthenticationInfo oid
          else if starts_with oid OID_PREFIX_PACE then PaceInfo oid
          else OtherInfo oid)"

definition dg14_entry :: "ber_tlv_any \<Rightarrow> dg14_security_info option" where
  "dg14_entry any =
     (case ber_expect TAG_SEQUENCE any of
        Ok seq \<Rightarrow>
          (case ber_children (typed_value seq) of
             Ok oid_any # inner \<Rightarrow>
               (case ber_expect TAG_OID oid_any of
                  Ok oid_tlv \<Rightarrow> Some (classify_dg14_entry oid_tlv inner seq)
                | _ \<Rightarrow> None)
           | _ \<Rightarrow> None)
      | _ \<Rightarrow> None)"

fun dg14_entries :: "(ber_error, ber_tlv_any) res list \<Rightarrow> dg14_security_info list" where
  "dg14_entries (Ok any # items) =
     (case dg14_entry any of Some e \<Rightarrow> e # dg14_entries items | None \<Rightarrow> dg14_entries items)"
| "dg14_entries _ = []"

definition parse_dg14 :: "ber_tlv \<Rightarrow> dg14_security_info list" where
  "parse_dg14 dg14 = dg14_entries (ber_children (typed_value dg14))"

subsection \<open>The two readers\<close>

lemma fold_length_snoc:
  "fold_length (bs @ [b]) = Option.bind (fold_length bs) (\<lambda>v. checked_add (v * 256 mod 2 ^ 64) (unat b))"
  by (simp add: fold_length_def)

lemma fold_length_be_nat: "length bs \<le> 8 \<Longrightarrow> fold_length bs = Some (be_nat bs)"
proof (induction bs rule: rev_induct)
  case (snoc b bs)
  then have "be_nat bs < 256 ^ length bs" "256 ^ length bs \<le> (256 ^ 7 :: nat)"
    using be_nat_less [of bs] power_increasing [of "length bs" 7 "256 :: nat"] by auto
  then have lt: "be_nat bs < 256 ^ 7" by simp
  then have "be_nat bs * 256 mod 2 ^ 64 = be_nat bs * 256" by simp
  moreover have "be_nat bs * 256 + unat b \<le> usize_max" using lt unat_byte_less [of b] by simp
  ultimately show ?case using snoc by (simp add: fold_length_snoc checked_add_def)
qed (simp add: fold_length_def)


lemma slice_drop: "idx \<le> length bs \<Longrightarrow> slice (drop idx bs) a b = slice bs (idx + a) (idx + b)"
  by (auto simp: slice_def add.commute add.left_commute)

lemma long_form_count:
  "unat ((0x81 :: byte) AND 0x7F) = 1" "unat ((0x82 :: byte) AND 0x7F) = 2"
  "unat ((0x83 :: byte) AND 0x7F) = 3" "unat ((0x84 :: byte) AND 0x7F) = 4"
  by simp_all

lemma read_ber_length_long:
  assumes "idx < length bs" and "bs ! idx = lf" and "unat (lf AND 0x7F) = n" and "\<not> lf < 0x80" and "0 < n" and "n \<le> 4"
    and "slice bs (idx + 1) (idx + 1 + n) = Some len_bytes"
  shows "read_ber_length (drop idx bs) = Some (1 + n, be_nat len_bytes)"
proof -
  have sl: "slice (drop idx bs) 1 (1 + n) = Some len_bytes" using assms(1,7) by (simp add: slice_drop)
  then have "length len_bytes = n" "1 + n \<le> length (drop idx bs)" by (auto dest: slice_Some_length)
  moreover have "get_at (drop idx bs) 0 = Some lf" using assms(1,2) by (simp add: get_at_def)
  ultimately show ?thesis using assms sl by (simp add: read_ber_length_def fold_length_be_nat Let_def)
qed

lemma read_ber_length_agrees:
  assumes "ber_length bs idx = Ok (len, j)" and "bs ! idx \<noteq> 0x80"
  shows "read_ber_length (drop idx bs) = Some (j - idx, len)" and "idx < j" and "idx < length bs"
proof -
  let ?lf = "bs ! idx"
  from assms(1) have idx: "idx < length bs"
    by (auto simp: ber_length_def ber_next_def res_simps get_at_def split: if_splits)
  have "read_ber_length (drop idx bs) = Some (j - idx, len) \<and> idx < j"
  proof (cases "?lf < 0x81")
    case True
    then have "len = unat ?lf" "j = idx + 1"
      using assms(1) idx by (simp_all add: ber_length_def ber_next_def get_at_def)
    moreover have "?lf < 0x80" using True assms(2) by (simp add: word_less_nat_alt word_unat_eq_iff)
    ultimately show ?thesis using idx by (simp add: read_ber_length_def get_at_def)
  next
    case False
    then obtain n lb where n: "n = 1 \<and> ?lf = 0x81 \<or> n = 2 \<and> ?lf = 0x82 \<or> n = 3 \<and> ?lf = 0x83 \<or> n = 4 \<and> ?lf = 0x84"
      and sl: "slice bs (idx + 1) (idx + 1 + n) = Some lb" and res: "len = be_nat lb" "j = idx + 1 + n"
      using assms(1) idx by (auto simp: ber_length_def ber_next_def get_at_def and_then_eq_Ok ok_or_eq_Ok split: if_splits)
    have "unat (?lf AND 0x7F) = n" "\<not> ?lf < 0x80" "0 < n" "n \<le> 4" using n by auto
    from read_ber_length_long [OF idx refl this sl] res show ?thesis by simp
  qed
  then show "read_ber_length (drop idx bs) = Some (j - idx, len)" "idx < j" by simp_all
  show "idx < length bs" by (rule idx)
qed

lemma tag_sum: "push_bit 8 (ucast a) + ucast b = (push_bit 8 (ucast a) OR ucast b :: u16)" for a b :: byte
proof -
  have "push_bit 8 (ucast a :: u16) AND ucast b = 0"
    by (rule bit_eqI) (auto simp: bit_simps dest: bit_imp_le_length)
  then show ?thesis by (rule disjunctive_add_eq_or)
qed

definition length_byte_index :: "bytes \<Rightarrow> nat" where
  "length_byte_index bs = (if hd bs AND 0x1F = 0x1F then 2 else 1)"

lemma ucast_a0: "(ucast b :: u16) = CONTAINER_A0 \<longleftrightarrow> b = 0xA0" for b :: byte
  using unat_byte_less [of b] by (simp add: word_unat_eq_iff unsigned_ucast_eq take_bit_nat_eq_self)

lemma two_readers:
  assumes "ber_parse bs = Ok t" and "bs ! length_byte_index bs \<noteq> 0x80" and "length bs \<le> usize_max"
  shows "read_two_byte_tag_tlv bs = Some \<lparr>read_tag = tlv_tag t, read_value = tlv_value t, total_size = tlv_size t\<rparr>"
proof -
  from assms(1) obtain tag idx len j val where tag: "ber_tag bs = Ok (tag, idx)" and len: "ber_length bs idx = Ok (len, j)"
    and val: "slice bs j (j + len) = Some val" and t: "t = \<lparr>tlv_tag = tag, tlv_value = val, tlv_size = j + len\<rparr>"
    by (auto simp: ber_parse_def res_simps split: if_splits)
  have bs: "bs \<noteq> []" using tag by (auto simp: ber_tag_def ber_next_def res_simps get_at_def split: if_splits)
  have idx: "idx = length_byte_index bs" and tg: "small_tag bs = Some (tag, idx)"
    using tag bs by (auto simp: ber_tag_def ber_next_def res_simps get_at_def length_byte_index_def hd_conv_nth tag_sum
        small_tag_def split: if_splits)
  note l = read_ber_length_agrees [OF len] 
  have nz: "bs ! idx \<noteq> 0x80" using assms(2) idx by simp
  have total_ok: "j + len \<le> length bs" using slice_Some_length [OF val] by simp
  have sums: "checked_add idx (j - idx) = Some j" "checked_add j len = Some (j + len)"
    using l(2) [OF nz] total_ok assms(3) by (simp_all add: checked_add_def)
  show ?thesis
    using bs tg l(1,3) [OF nz] sums val total_ok t
    by (simp add: read_two_byte_tag_tlv_def remaining_from_def)
qed




subsection \<open>Walking a list of fields\<close>

definition tag_octets :: "u16 \<Rightarrow> bytes" where
  "tag_octets tag = (if double_tag tag then be_bytes 2 (unat tag) else [ucast tag])"

definition field_bytes :: "u16 \<times> bytes \<Rightarrow> bytes" where
  "field_bytes f = tag_octets (fst f) @ length_octets (length (snd f)) @ snd f"

definition field_ok :: "u16 \<times> bytes \<Rightarrow> bool" where
  "field_ok f \<longleftrightarrow> (double_tag (fst f) \<or> fst f = CONTAINER_A0) \<and> length (snd f) \<le> u32_max"

lemma ber_tag_index:
  assumes "ber_tag bs = Ok (tag, idx)"
  shows "idx = length_byte_index bs" and "bs \<noteq> []"
proof -
  show "bs \<noteq> []" using assms by (auto simp: ber_tag_def ber_next_def res_simps get_at_def split: if_splits)
  then show "idx = length_byte_index bs"
    using assms by (auto simp: ber_tag_def ber_next_def res_simps get_at_def length_byte_index_def hd_conv_nth split: if_splits)
qed

lemma length_octets_not_marker: "hd (length_octets n) \<noteq> 0x80"
proof (cases "n < 0x80")
  case True
  then have "unat (word_of_nat n :: byte) \<noteq> 128" by (simp add: unat_word8_of_nat del: unsigned_of_nat)
  then show ?thesis using True by (auto simp: length_octets_def be_bytes_eval word_unat_eq_iff simp del: unsigned_of_nat)
qed (simp add: length_octets_def)

lemma field_tag:
  assumes "field_ok f"
  shows "ber_tag (field_bytes f @ rest) = Ok (fst f, length (tag_octets (fst f)))"
proof (cases "double_tag (fst f)")
  case True
  then show ?thesis using ber_tag_double [OF True, of "length_octets (length (snd f)) @ snd f @ rest"]
    by (simp add: field_bytes_def tag_octets_def)
next
  case False
  then have a0: "fst f = CONTAINER_A0" using assms by (simp add: field_ok_def)
  have "single_tag (0xA0 :: byte)" by (simp add: single_tag_def)
  from ber_tag_single [OF this, of "length_octets (length (snd f)) @ snd f @ rest"] False show ?thesis
    by (simp add: field_bytes_def tag_octets_def a0)
qed

lemma field_parse:
  assumes "field_ok f" and "length (field_bytes f @ rest) \<le> usize_max"
  shows "ber_parse (field_bytes f @ rest) =
    Ok \<lparr>tlv_tag = fst f, tlv_value = snd f, tlv_size = length (field_bytes f)\<rparr>"
  using ber_parse_after_tag [of "tag_octets (fst f)" "snd f" rest "fst f"] field_tag [OF assms(1), of rest] assms
  by (simp add: field_bytes_def field_ok_def)

lemma field_read:
  assumes "field_ok f" and "length (field_bytes f @ rest) \<le> usize_max"
  shows "read_two_byte_tag_tlv (field_bytes f @ rest) =
    Some \<lparr>read_tag = fst f, read_value = snd f, total_size = length (field_bytes f)\<rparr>"
proof -
  have "length_byte_index (field_bytes f @ rest) = length (tag_octets (fst f))"
    using ber_tag_index(1) [OF field_tag [OF assms(1), of rest]] by simp
  then have "(field_bytes f @ rest) ! length_byte_index (field_bytes f @ rest) = hd (length_octets (length (snd f)))"
    by (simp add: field_bytes_def nth_append hd_conv_nth)
  then have "(field_bytes f @ rest) ! length_byte_index (field_bytes f @ rest) \<noteq> 0x80"
    using length_octets_not_marker by simp
  with two_readers [OF field_parse [OF assms] this] assms(2) show ?thesis by simp
qed

lemma field_container:
  assumes "field_ok f"
  shows "has_tag_a0 (field_bytes f @ rest) \<longleftrightarrow> fst f = CONTAINER_A0"
proof (cases "double_tag (fst f)")
  case True
  then have two: "length_byte_index (field_bytes f @ rest) = 2"
    using ber_tag_index(1) [OF field_tag [OF assms, of rest]] by (simp add: tag_octets_def)
  then have "hd (field_bytes f @ rest) AND 0x1F = 0x1F" by (auto simp: length_byte_index_def split: if_splits)
  then have "hd (field_bytes f @ rest) \<noteq> 0xA0" by auto
  moreover have "field_bytes f @ rest \<noteq> []" by (simp add: field_bytes_def)
  ultimately have "\<not> has_tag_a0 (field_bytes f @ rest)"
    by (auto simp: has_tag_a0_def get_at_def hd_conv_nth ucast_a0)
  moreover have "fst f \<noteq> CONTAINER_A0" using True by (auto simp: double_tag_def single_tag_def)
  ultimately show ?thesis by simp
next
  case False
  then show ?thesis using assms by (simp add: field_ok_def has_tag_a0_def get_at_def field_bytes_def tag_octets_def)
qed


lemma field_container_parse:
  assumes "field_ok f" and "length (field_bytes f @ rest) \<le> usize_max" and "fst f = CONTAINER_A0"
  shows "ber_parse_typed CONTAINER_A0 (field_bytes f @ rest) =
    Ok \<lparr>typed_value = snd f, typed_size = length (field_bytes f)\<rparr>"
  using field_parse [OF assms(1,2)] assms(3) by (simp add: ber_parse_typed_def ber_expect_def)

text \<open>What one field contributes.\<close>

definition apply_personal :: "u16 \<times> bytes \<Rightarrow> additional_personal_data \<Rightarrow> additional_personal_data" where
  "apply_personal f out =
     (if fst f = CONTAINER_A0 then out\<lparr>other_names := other_names out @ nested_values 0x5F0F (snd f)\<rparr>
      else set_personal_field (fst f) (snd f) out)"

definition apply_document :: "u16 \<times> bytes \<Rightarrow> additional_document_data \<Rightarrow> additional_document_data" where
  "apply_document f out =
     (if fst f = CONTAINER_A0 then out\<lparr>other_persons := other_persons out @ nested_values 0x5F1A (snd f)\<rparr>
      else set_document_field (fst f) (snd f) out)"

definition nested_value :: "u16 \<Rightarrow> u16 \<times> bytes \<Rightarrow> bytes option" where
  "nested_value tag f = (if fst f = tag then free_text (read_string (snd f)) else None)"

lemma field_bytes_not_Nil: "field_bytes f \<noteq> []"
  by (simp add: field_bytes_def)

lemma nested_values_fields:
  "list_all field_ok fs \<Longrightarrow> length (concat (map field_bytes fs)) \<le> usize_max \<Longrightarrow>
   nested_values tag (concat (map field_bytes fs)) = List.map_filter (nested_value tag) fs"
proof (induction fs)
  case (Cons f fs)
  let ?rest = "concat (map field_bytes fs)"
  have read: "read_two_byte_tag_tlv (field_bytes f @ ?rest) =
      Some \<lparr>read_tag = fst f, read_value = snd f, total_size = length (field_bytes f)\<rparr>"
    using Cons.prems by (intro field_read) simp_all
  have "nested_values tag (field_bytes f @ ?rest) =
      (case nested_value tag f of Some n \<Rightarrow> [n] | None \<Rightarrow> []) @ nested_values tag ?rest"
    using read field_bytes_not_Nil [of f] by (subst nested_values.simps) (simp add: nested_value_def)
  then show ?case using Cons by (auto simp: List.map_filter_simps split: option.splits)
qed (simp add: nested_values.simps List.map_filter_simps)

lemma walk_personal_fields:
  "list_all field_ok fs \<Longrightarrow> length (concat (map field_bytes fs)) \<le> usize_max \<Longrightarrow>
   walk_personal_tags (concat (map field_bytes fs)) out = fold apply_personal fs out"
proof (induction fs arbitrary: out)
  case (Cons f fs)
  let ?rest = "concat (map field_bytes fs)"
  have ok: "field_ok f" "length (field_bytes f @ ?rest) \<le> usize_max" using Cons.prems by simp_all
  have a0: "extract_nested_5f0f (field_bytes f @ ?rest) (set_personal_field (fst f) (snd f) out) = apply_personal f out"
    if "fst f = CONTAINER_A0"
    using field_container_parse [OF ok that] that
    by (simp add: extract_nested_5f0f_def apply_personal_def set_personal_field_def)
  have "walk_personal_tags (field_bytes f @ ?rest) out = walk_personal_tags ?rest (apply_personal f out)"
    using field_read [OF ok] field_bytes_not_Nil [of f] field_container [OF ok(1), of ?rest] a0
    by (subst walk_personal_tags.simps) (simp add: Let_def apply_personal_def)
  then show ?case using Cons by simp
qed (simp add: walk_personal_tags.simps)

lemma walk_document_fields:
  "list_all field_ok fs \<Longrightarrow> length (concat (map field_bytes fs)) \<le> usize_max \<Longrightarrow>
   walk_document_tags (concat (map field_bytes fs)) out = fold apply_document fs out"
proof (induction fs arbitrary: out)
  case (Cons f fs)
  let ?rest = "concat (map field_bytes fs)"
  have ok: "field_ok f" "length (field_bytes f @ ?rest) \<le> usize_max" using Cons.prems by simp_all
  have "walk_document_tags (field_bytes f @ ?rest) out = walk_document_tags ?rest (apply_document f out)"
  proof (cases "fst f = CONTAINER_A0")
    case True
    then show ?thesis
      using field_container_parse [OF ok True] field_bytes_not_Nil [of f] field_container [OF ok(1), of ?rest]
      by (subst walk_document_tags.simps) (simp add: Let_def apply_document_def extract_nested_5f1a_def)
  next
    case False
    then show ?thesis
      using field_read [OF ok] field_bytes_not_Nil [of f] field_container [OF ok(1), of ?rest]
      by (subst walk_document_tags.simps) (simp add: apply_document_def)
  qed
  then show ?case using Cons by simp
qed (simp add: walk_document_tags.simps)

text \<open>The walkers of DG11 and DG12 read every field: on a body that is a sequence of encoded fields, their
  result is that of setting the fields one after the other, later ones overwriting earlier ones, and the names
  inside a container are those of its fields with the right tag that are valid text, in order and all of
  them.\<close>

theorem data_groups_read_every_field:
  assumes "list_all field_ok fs" and "length (concat (map field_bytes fs)) \<le> usize_max"
  shows "parse_dg11 \<lparr>typed_value = concat (map field_bytes fs), typed_size = n\<rparr>
      = fold apply_personal fs AdditionalPersonalData_default
    \<and> parse_dg12 \<lparr>typed_value = concat (map field_bytes fs), typed_size = n\<rparr>
      = fold apply_document fs AdditionalDocumentData_default
    \<and> nested_values tag (concat (map field_bytes fs)) = List.map_filter (nested_value tag) fs"
  using walk_personal_fields [OF assms] walk_document_fields [OF assms] nested_values_fields [OF assms]
  by (simp add: parse_dg11_def parse_dg12_def)

theorem data_groups_read_every_field_witness:
  "full_name (parse_dg11 \<lparr>typed_value = field_bytes (0x5F0E, str_bytes ''ANNA<MARIA ''), typed_size = 0\<rparr>)
     = Some (str_bytes ''ANNA<MARIA'')"
proof -
  let ?fs = "[(0x5F0E, str_bytes ''ANNA<MARIA '') :: u16 \<times> bytes]"
  have ok: "list_all field_ok ?fs" by (simp add: field_ok_def double_tag_def single_tag_def)
  have len: "length (concat (map field_bytes ?fs)) \<le> usize_max"
    by (simp add: field_bytes_def tag_octets_def length_octets_def)
  have "free_text (read_string (str_bytes ''ANNA<MARIA '')) = Some (str_bytes ''ANNA<MARIA'')" by code_simp
  then show ?thesis using data_groups_read_every_field [OF ok len, of 0 0]
    by (simp add: apply_personal_def set_personal_field_def)
qed

subsection \<open>Images and integers\<close>

text \<open>The version of a security info is read modulo two to the thirty-two, although the reader is documented
  to refuse larger integers.\<close>

lemma integer_value_wraps: "integer_value ([b] @ [0, 0, 0, v]) = ucast v"
proof -
  have zero: "(4294967296 :: u32) = 0" by simp
  show ?thesis by (simp add: integer_value_def push_bit_eq_mult mult.assoc zero del: numeral_eq_iff)
qed

end
