(* ===== verification/Atr.thy ===== *)
theory Atr
  imports Prelude
begin

text \<open>
  The answer to reset of a card (\<open>atr.rs\<close>): the typed structure, its parser and its printer, and the
  compact-TLV objects inside the historical bytes. The parser accepts exactly the printed forms of
  well-formed structures, so nothing of an answer is lost or read twice.
\<close>

subsection \<open>Structure\<close>

abbreviation ATR_MIN_LEN :: nat where "ATR_MIN_LEN \<equiv> 2"
abbreviation ATR_MAX_LEN :: nat where "ATR_MAX_LEN \<equiv> 33"

datatype convention = Direct | Inverse

definition from_ts :: "byte \<Rightarrow> convention option" where
  "from_ts ts = (if ts = 0x3B then Some Direct else if ts = 0x3F then Some Inverse else None)"

fun as_ts :: "convention \<Rightarrow> byte" where
  "as_ts Direct = 0x3B"
| "as_ts Inverse = 0x3F"

fun Convention_display :: "convention \<Rightarrow> string" where
  "Convention_display Direct = ''direct''"
| "Convention_display Inverse = ''inverse''"

text \<open>A presence nibble.\<close>

type_synonym yi = byte

definition Yi_from_nibble :: "byte \<Rightarrow> yi" where
  "Yi_from_nibble n = n AND 0x0F"

definition ta_present :: "yi \<Rightarrow> bool" where "ta_present y \<longleftrightarrow> y AND 0x01 \<noteq> 0"
definition tb_present :: "yi \<Rightarrow> bool" where "tb_present y \<longleftrightarrow> y AND 0x02 \<noteq> 0"
definition tc_present :: "yi \<Rightarrow> bool" where "tc_present y \<longleftrightarrow> y AND 0x04 \<noteq> 0"
definition td_present :: "yi \<Rightarrow> bool" where "td_present y \<longleftrightarrow> y AND 0x08 \<noteq> 0"
definition any_present :: "yi \<Rightarrow> bool" where "any_present y \<longleftrightarrow> y \<noteq> 0"

record t0 =
  y1 :: yi
  historical_byte_count :: byte

definition T0_from_byte :: "byte \<Rightarrow> t0" where
  "T0_from_byte b = \<lparr>y1 = Yi_from_nibble (drop_bit 4 b), historical_byte_count = b AND 0x0F\<rparr>"

definition T0_as_byte :: "t0 \<Rightarrow> byte" where
  "T0_as_byte x = push_bit 4 (y1 x) OR (historical_byte_count x AND 0x0F)"

definition MINIMAL_DIRECT_ATR :: bytes where
  "MINIMAL_DIRECT_ATR = [as_ts Direct, T0_as_byte \<lparr>y1 = Yi_from_nibble 0, historical_byte_count = 0\<rparr>]"

definition fi_index :: "byte \<Rightarrow> byte" where "fi_index ta = drop_bit 4 ta AND 0x0F"
definition di_index :: "byte \<Rightarrow> byte" where "di_index ta = ta AND 0x0F"

definition ta1_clock_rate_conversion :: "byte \<Rightarrow> u16 option" where
  "ta1_clock_rate_conversion ta = map_of
     [(0, 372), (1, 372), (2, 558), (3, 744), (4, 1116), (5, 1488), (6, 1860),
      (9, 512), (10, 768), (11, 1024), (12, 1536), (13, 2048)] (fi_index ta)"

definition ta1_max_frequency_khz :: "byte \<Rightarrow> u32 option" where
  "ta1_max_frequency_khz ta = map_of
     [(0, 4000), (1, 5000), (9, 5000), (2, 6000), (3, 8000), (10, 7500), (11, 10000),
      (4, 12000), (12, 15000), (5, 16000), (6, 20000), (13, 20000)] (fi_index ta)"

definition ta1_bit_rate_adjustment :: "byte \<Rightarrow> u16 option" where
  "ta1_bit_rate_adjustment ta = map_of
     [(1, 1), (2, 2), (3, 4), (4, 8), (5, 16), (6, 32), (7, 64), (8, 12), (9, 20)] (di_index ta)"

definition protocol_indicator :: "byte \<Rightarrow> byte" where "protocol_indicator td = td AND 0x0F"
definition next_yi :: "byte \<Rightarrow> yi" where "next_yi td = Yi_from_nibble (drop_bit 4 td)"

record interface_byte_group =
  ta :: "byte option"
  tb :: "byte option"
  tc :: "byte option"
  td :: "byte option"

record atr =
  atr_convention :: convention
  atr_t0 :: t0
  interface_groups :: "interface_byte_group list"
  historical :: bytes
  tck :: "byte option"

datatype atr_error =
    AtrTooShort nat
  | AtrTooLong nat
  | InvalidConvention byte
  | TruncatedAtInterfaceBytes
  | TruncatedAtHistoricalBytes
  | MissingTck
  | AtrTrailingBytes nat nat

subsection \<open>Parsing and printing\<close>

text \<open>One optional interface byte: present if its bit is set, and then the buffer must have it.\<close>

definition interface_byte :: "bool \<Rightarrow> bytes \<Rightarrow> nat \<Rightarrow> (atr_error, byte option \<times> nat) res" where
  "interface_byte present bs idx =
     (if present then and_then (ok_or (get_at bs idx) TruncatedAtInterfaceBytes) (\<lambda>b. Ok (Some b, idx + 1))
      else Ok (None, idx))"

definition read_group :: "bytes \<Rightarrow> nat \<Rightarrow> yi \<Rightarrow> (atr_error, interface_byte_group \<times> nat) res" where
  "read_group bs idx y =
     and_then (interface_byte (ta_present y) bs idx) (\<lambda>(a, idx).
     and_then (interface_byte (tb_present y) bs idx) (\<lambda>(b, idx).
     and_then (interface_byte (tc_present y) bs idx) (\<lambda>(c, idx).
     and_then (interface_byte (td_present y) bs idx) (\<lambda>(d, idx).
     Ok (\<lparr>ta = a, tb = b, tc = c, td = d\<rparr>, idx)))))"

lemma interface_byte_mono: "interface_byte p bs i = Ok (x, j) \<Longrightarrow> i \<le> j \<and> (x \<noteq> None \<longrightarrow> i < j \<and> j \<le> length bs)"
  by (auto simp: interface_byte_def get_at_def res_simps split: if_splits)

lemma read_group_mono: "read_group bs i y = Ok (g, j) \<Longrightarrow> td g = Some d \<Longrightarrow> i < j \<and> j \<le> length bs"
  by (auto simp: read_group_def res_simps dest!: interface_byte_mono)

text \<open>The chain of groups: each \<open>TD\<close> byte names the bytes of the next group, a group without one is the
  last. The third result says whether a protocol other than T=0 was offered.\<close>

function read_groups :: "bytes \<Rightarrow> nat \<Rightarrow> yi \<Rightarrow> (atr_error, interface_byte_group list \<times> nat \<times> bool) res" where
  "read_groups bs idx y =
     (if any_present y then
        and_then (read_group bs idx y) (\<lambda>(g, idx').
        case td g of
          None \<Rightarrow> Ok ([g], idx', False)
        | Some d \<Rightarrow>
            and_then (read_groups bs idx' (next_yi d)) (\<lambda>(gs, end_idx, non_t0).
            Ok (g # gs, end_idx, protocol_indicator d \<noteq> 0 \<or> non_t0)))
      else Ok ([], idx, False))"
  by pat_completeness auto

termination
  by (relation "measure (\<lambda>(bs, idx, y). length bs - idx)") (auto dest: read_group_mono)

declare read_groups.simps [simp del]

definition Atr_new :: "bytes \<Rightarrow> (atr_error, atr) res" where
  "Atr_new bs =
     (if length bs < ATR_MIN_LEN then Err (AtrTooShort (length bs))
      else if ATR_MAX_LEN < length bs then Err (AtrTooLong (length bs))
      else
        and_then (ok_or (get_at bs 0) (AtrTooShort (length bs))) (\<lambda>ts.
        and_then (ok_or (from_ts ts) (InvalidConvention ts)) (\<lambda>conv.
        and_then (ok_or (get_at bs 1) (AtrTooShort (length bs))) (\<lambda>t0_byte.
        let t = T0_from_byte t0_byte in
        and_then (read_groups bs 2 (y1 t)) (\<lambda>(groups, idx, non_t0).
        let k = unat (historical_byte_count t); hist_end = idx + k in
        and_then (ok_or (slice bs idx hist_end) TruncatedAtHistoricalBytes) (\<lambda>hist.
        and_then (if non_t0 then and_then (ok_or (get_at bs hist_end) MissingTck) (\<lambda>b. Ok (Some b, hist_end + 1))
                  else Ok (None, hist_end)) (\<lambda>(check, end_idx).
        if end_idx \<noteq> length bs then Err (AtrTrailingBytes end_idx (length bs))
        else Ok \<lparr>atr_convention = conv, atr_t0 = t, interface_groups = groups, historical = hist, tck = check\<rparr>)))))))"

definition opt_list :: "'a option \<Rightarrow> 'a list" where
  "opt_list x = (case x of None \<Rightarrow> [] | Some a \<Rightarrow> [a])"

definition group_bytes :: "interface_byte_group \<Rightarrow> bytes" where
  "group_bytes g = opt_list (ta g) @ opt_list (tb g) @ opt_list (tc g) @ opt_list (td g)"

definition to_wire_bytes :: "atr \<Rightarrow> bytes" where
  "to_wire_bytes a =
     [as_ts (atr_convention a), T0_as_byte (atr_t0 a)] @ concat (map group_bytes (interface_groups a))
     @ historical a @ opt_list (tck a)"

definition supports_non_t0_protocol :: "atr \<Rightarrow> bool" where
  "supports_non_t0_protocol a \<longleftrightarrow>
     list_ex (\<lambda>g. case td g of None \<Rightarrow> False | Some d \<Rightarrow> protocol_indicator d \<noteq> 0) (interface_groups a)"

subsection \<open>Historical bytes\<close>

datatype status_indicator = LifeCycle byte | IndicatorWord byte byte | IndicatorFull byte byte byte

datatype historical_data_object =
    HistCountryCode bytes
  | HistIssuerIdNumber bytes
  | HistCardServiceData byte
  | HistInitialAccessData bytes
  | HistCardIssuerData bytes
  | HistPreIssuingData bytes
  | HistCardCapabilities bytes
  | HistStatusIndicator status_indicator
  | HistOther byte bytes

record compact_tlv =
  ctlv_tag :: byte
  ctlv_value :: bytes

definition category_indicator :: "bytes \<Rightarrow> byte option" where
  "category_indicator hist = get_at hist 0"

definition is_compact_tlv :: "bytes \<Rightarrow> bool" where
  "is_compact_tlv hist \<longleftrightarrow> category_indicator hist = Some 0x80"

text \<open>The loop over the objects from an index on; an object that runs past the end stops it.\<close>

function entries_from :: "bytes \<Rightarrow> nat \<Rightarrow> compact_tlv list" where
  "entries_from bs idx =
     (if idx < length bs then
        (let header = bs ! idx; value_start = idx + 1; value_end = value_start + unat (header AND 0x0F) in
         case slice bs value_start value_end of
           None \<Rightarrow> []
         | Some value \<Rightarrow> \<lparr>ctlv_tag = drop_bit 4 header, ctlv_value = value\<rparr> # entries_from bs value_end)
      else [])"
  by pat_completeness auto

termination
  by (relation "measure (\<lambda>(bs, idx). length bs - idx)") auto

declare entries_from.simps [simp del]

definition compact_tlv_entries :: "bytes \<Rightarrow> compact_tlv list" where
  "compact_tlv_entries hist = (if is_compact_tlv hist then entries_from hist 1 else [])"

fun status_indicator_of :: "bytes \<Rightarrow> status_indicator option" where
  "status_indicator_of [lcs] = Some (LifeCycle lcs)"
| "status_indicator_of [sw1, sw2] = Some (IndicatorWord sw1 sw2)"
| "status_indicator_of [lcs, sw1, sw2] = Some (IndicatorFull lcs sw1 sw2)"
| "status_indicator_of _ = None"

fun single_byte :: "bytes \<Rightarrow> byte option" where
  "single_byte [b] = Some b"
| "single_byte _ = None"

definition proprietary :: "compact_tlv \<Rightarrow> historical_data_object" where
  "proprietary e = HistOther (ctlv_tag e) (ctlv_value e)"

definition interpret_object :: "compact_tlv \<Rightarrow> historical_data_object" where
  "interpret_object e =
     (let v = ctlv_value e in
      if ctlv_tag e = 0x1 then HistCountryCode v
      else if ctlv_tag e = 0x2 then HistIssuerIdNumber v
      else if ctlv_tag e = 0x3 then (case single_byte v of None \<Rightarrow> proprietary e | Some b \<Rightarrow> HistCardServiceData b)
      else if ctlv_tag e = 0x4 then HistInitialAccessData v
      else if ctlv_tag e = 0x5 then HistCardIssuerData v
      else if ctlv_tag e = 0x6 then HistPreIssuingData v
      else if ctlv_tag e = 0x7 then HistCardCapabilities v
      else if ctlv_tag e = 0x8 then
        (case status_indicator_of v of None \<Rightarrow> proprietary e | Some s \<Rightarrow> HistStatusIndicator s)
      else proprietary e)"

definition data_objects :: "bytes \<Rightarrow> historical_data_object list" where
  "data_objects hist = map interpret_object (compact_tlv_entries hist)"

definition app_selection_by_full_df_name :: "byte \<Rightarrow> bool" where
  "app_selection_by_full_df_name b \<longleftrightarrow> b AND 0x80 \<noteq> 0"

definition app_selection_by_partial_df_name :: "byte \<Rightarrow> bool" where
  "app_selection_by_partial_df_name b \<longleftrightarrow> b AND 0x40 \<noteq> 0"

definition ber_tlv_in_ef_dir :: "byte \<Rightarrow> bool" where "ber_tlv_in_ef_dir b \<longleftrightarrow> b AND 0x20 \<noteq> 0"
definition ber_tlv_in_ef_atr :: "byte \<Rightarrow> bool" where "ber_tlv_in_ef_atr b \<longleftrightarrow> b AND 0x10 \<noteq> 0"
definition ef_access_services :: "byte \<Rightarrow> byte" where "ef_access_services b = drop_bit 1 b AND 0x07"
definition has_master_file :: "byte \<Rightarrow> bool" where "has_master_file b \<longleftrightarrow> b AND 0x01 = 0"

definition country_code :: "bytes \<Rightarrow> u16 option" where
  "country_code bs =
     (case get_at bs 0 of None \<Rightarrow> None
      | Some first \<Rightarrow> (case get_at bs 1 of None \<Rightarrow> None
        | Some second \<Rightarrow>
            (let d0 = drop_bit 4 first; d1 = first AND 0x0F; d2 = drop_bit 4 second in
             if 9 < d0 \<or> 9 < d1 \<or> 9 < d2 then None
             else Some (word_of_nat (min 65535 (min 65535 (min 65535 (unat d0 * 100) + min 65535 (unat d1 * 10)) + unat d2))))))"

definition command_chaining :: "bytes \<Rightarrow> byte option" where "command_chaining caps = get_at caps 2"

definition supports_command_chaining :: "bytes \<Rightarrow> bool option" where
  "supports_command_chaining caps = map_option (\<lambda>b. b AND 0x80 \<noteq> 0) (command_chaining caps)"

definition supports_extended_length :: "bytes \<Rightarrow> bool option" where
  "supports_extended_length caps = map_option (\<lambda>b. b AND 0x40 \<noteq> 0) (command_chaining caps)"

subsection \<open>Nibbles\<close>

lemma low_nibble: "(b :: byte) AND 0x0F = take_bit 4 b"
proof -
  have "(0x0F :: byte) = mask 4" by (simp add: mask_eq_exp_minus_1)
  then show ?thesis by (simp add: take_bit_eq_mask)
qed

lemma high_nibble: "Yi_from_nibble (drop_bit 4 b) = drop_bit 4 b"
  unfolding Yi_from_nibble_def low_nibble by (rule bit_word_eqI) (auto simp: bit_simps dest: bit_imp_le_length)

lemma nibble_less [simp]: "(b :: byte) AND 0x0F < 16" "Yi_from_nibble b < 16" "next_yi d < 16"
proof -
  have *: "b AND 0x0F < 16" for b :: byte
    unfolding low_nibble by (simp add: word_less_nat_alt take_bit_eq_mod unat_mod)
  show "b AND 0x0F < 16" "Yi_from_nibble b < 16" "next_yi d < 16"
    by (simp_all add: Yi_from_nibble_def next_yi_def *)
qed

lemma nibble_ident: "(n :: byte) < 16 \<Longrightarrow> take_bit 4 n = n"
  by (simp add: word_less_nat_alt word_unat_eq_iff take_bit_eq_mod unat_mod)

lemma T0_round_trip: "T0_as_byte (T0_from_byte b) = b"
  unfolding T0_as_byte_def T0_from_byte_def high_nibble low_nibble
  by (rule bit_word_eqI) (auto simp: bit_simps)

lemma T0_inverse:
  assumes "y1 x < 16" and "historical_byte_count x < 16"
  shows "T0_from_byte (T0_as_byte x) = x"
proof -
  have "drop_bit 4 (push_bit 4 (take_bit 4 a) OR take_bit 4 c) = take_bit 4 a"
    and "take_bit 4 (push_bit 4 a OR take_bit 4 c) = take_bit 4 c" for a c :: byte
    by (rule bit_word_eqI, auto simp: bit_simps)+
  from this [of "y1 x" "historical_byte_count x"] show ?thesis
    unfolding T0_as_byte_def T0_from_byte_def high_nibble low_nibble by (simp add: nibble_ident assms)
qed

subsection \<open>The chain of groups\<close>

text \<open>The slice between two indices, as an account of what a step of the parser consumed.\<close>

lemma slice_Some_iff: "slice bs i k = Some zs \<longleftrightarrow> (\<exists>ps ss. bs = ps @ zs @ ss \<and> length ps = i \<and> k = i + length zs)"
proof
  assume "slice bs i k = Some zs"
  then have "i \<le> k" "k \<le> length bs" "zs = take (k - i) (drop i bs)" by (auto simp: slice_def split: if_splits)
  then have "bs = take i bs @ zs @ drop (k - i) (drop i bs) \<and> length (take i bs) = i \<and> k = i + length zs"
    by (simp del: drop_drop)
  then show "\<exists>ps ss. bs = ps @ zs @ ss \<and> length ps = i \<and> k = i + length zs" by blast
qed auto

lemma slice_append_iff:
  "slice bs i k = Some (xs @ ys) \<longleftrightarrow>
     slice bs i (i + length xs) = Some xs \<and> slice bs (i + length xs) k = Some ys"
proof
  assume "slice bs i k = Some (xs @ ys)"
  then obtain ps ss where bs: "bs = ps @ xs @ ys @ ss" and i: "length ps = i" and k: "k = i + length (xs @ ys)"
    by (auto simp: slice_Some_iff)
  have "bs = (ps @ xs) @ ys @ ss" "length (ps @ xs) = i + length xs" "k = i + length xs + length ys"
    using bs i k by simp_all
  then have "slice bs (i + length xs) k = Some ys" unfolding slice_Some_iff by blast
  moreover have "slice bs i (i + length xs) = Some xs" unfolding slice_Some_iff using bs i by blast
  ultimately show "slice bs i (i + length xs) = Some xs \<and> slice bs (i + length xs) k = Some ys" by blast
next
  assume "slice bs i (i + length xs) = Some xs \<and> slice bs (i + length xs) k = Some ys"
  then obtain ps ss ps' ss' where "bs = ps @ xs @ ss" "length ps = i" "bs = ps' @ ys @ ss'"
    "length ps' = i + length xs" "k = i + length xs + length ys"
    unfolding slice_Some_iff by blast
  moreover from this have "ps' = ps @ xs"
    by (metis append.assoc append_eq_append_conv length_append)
  ultimately show "slice bs i k = Some (xs @ ys)" unfolding slice_Some_iff by auto
qed

lemma slice_nil [simp]: "slice bs i k = Some [] \<longleftrightarrow> i = k \<and> k \<le> length bs"
  by (auto simp: slice_def)

lemma slice_one: "slice bs i (i + 1) = Some [b] \<longleftrightarrow> get_at bs i = Some b"
  by (auto simp: slice_def get_at_def take_Suc hd_drop_conv_nth)

lemma interface_byte_Ok:
  assumes "i \<le> length bs"
  shows "interface_byte p bs i = Ok (x, j) \<longleftrightarrow>
    (x \<noteq> None) = p \<and> j = i + length (opt_list x) \<and> slice bs i j = Some (opt_list x)"
  using assms slice_one [of bs i]
  by (cases x) (auto simp: interface_byte_def opt_list_def res_simps)

definition group_ok :: "yi \<Rightarrow> interface_byte_group \<Rightarrow> bool" where
  "group_ok y g \<longleftrightarrow> (ta g \<noteq> None) = ta_present y \<and> (tb g \<noteq> None) = tb_present y
     \<and> (tc g \<noteq> None) = tc_present y \<and> (td g \<noteq> None) = td_present y"

lemma interface_byte_bounded: "interface_byte p bs i = Ok (x, j) \<Longrightarrow> i \<le> length bs \<Longrightarrow> j \<le> length bs"
  by (auto simp: interface_byte_def get_at_def res_simps split: if_splits)

lemma read_group_Ok:
  assumes "i \<le> length bs"
  shows "read_group bs i y = Ok (g, j) \<longleftrightarrow>
    group_ok y g \<and> j = i + length (group_bytes g) \<and> slice bs i j = Some (group_bytes g)"
  (is "?l \<longleftrightarrow> ?r")
proof
  assume ?l
  then obtain a b c d i1 i2 i3 where
    steps: "interface_byte (ta_present y) bs i = Ok (a, i1)" "interface_byte (tb_present y) bs i1 = Ok (b, i2)"
      "interface_byte (tc_present y) bs i2 = Ok (c, i3)" "interface_byte (td_present y) bs i3 = Ok (d, j)"
    and g: "g = \<lparr>ta = a, tb = b, tc = c, td = d\<rparr>"
    by (auto simp: read_group_def res_simps)
  note bounds = assms steps(1) [THEN interface_byte_bounded, OF assms]
  have "i2 \<le> length bs" "i3 \<le> length bs"
    using steps(2,3) bounds interface_byte_bounded by blast+
  with steps bounds show ?r
    by (auto simp: interface_byte_Ok g group_ok_def group_bytes_def slice_append_iff add.assoc)
next
  assume r: ?r
  then have "slice bs i (i + length (opt_list (ta g))) = Some (opt_list (ta g))"
    "slice bs (i + length (opt_list (ta g))) (i + length (opt_list (ta g)) + length (opt_list (tb g))) = Some (opt_list (tb g))"
    "slice bs (i + length (opt_list (ta g)) + length (opt_list (tb g)))
       (i + length (opt_list (ta g)) + length (opt_list (tb g)) + length (opt_list (tc g))) = Some (opt_list (tc g))"
    "slice bs (i + length (opt_list (ta g)) + length (opt_list (tb g)) + length (opt_list (tc g))) j = Some (opt_list (td g))"
    by (auto simp: group_bytes_def slice_append_iff add.assoc)
  then have "interface_byte (ta_present y) bs i = Ok (ta g, i + length (opt_list (ta g)))"
    "interface_byte (tb_present y) bs (i + length (opt_list (ta g))) =
       Ok (tb g, i + length (opt_list (ta g)) + length (opt_list (tb g)))"
    "interface_byte (tc_present y) bs (i + length (opt_list (ta g)) + length (opt_list (tb g))) =
       Ok (tc g, i + length (opt_list (ta g)) + length (opt_list (tb g)) + length (opt_list (tc g)))"
    "interface_byte (td_present y) bs (i + length (opt_list (ta g)) + length (opt_list (tb g)) + length (opt_list (tc g))) =
       Ok (td g, j)"
    using r by (subst interface_byte_Ok; auto simp: group_ok_def group_bytes_def dest: slice_Some_length)+
  then show ?l by (simp add: read_group_def)
qed

fun chain_ok :: "yi \<Rightarrow> interface_byte_group list \<Rightarrow> bool" where
  "chain_ok y [] \<longleftrightarrow> \<not> any_present y"
| "chain_ok y (g # gs) \<longleftrightarrow> any_present y \<and> group_ok y g
     \<and> (case td g of None \<Rightarrow> gs = [] | Some d \<Rightarrow> chain_ok (next_yi d) gs)"

definition offers_other_protocol :: "interface_byte_group \<Rightarrow> bool" where
  "offers_other_protocol g \<longleftrightarrow> (case td g of None \<Rightarrow> False | Some d \<Rightarrow> protocol_indicator d \<noteq> 0)"

lemma read_groups_Ok:
  assumes "i \<le> length bs"
  shows "read_groups bs i y = Ok (gs, j, f) \<longleftrightarrow>
    chain_ok y gs \<and> f = list_ex offers_other_protocol gs
    \<and> j = i + length (concat (map group_bytes gs)) \<and> slice bs i j = Some (concat (map group_bytes gs))"
  using assms
proof (induction bs i y arbitrary: gs j f rule: read_groups.induct)
  case (1 bs i y)
  show ?case
  proof (cases "any_present y")
    case False
    then show ?thesis using "1.prems" by (cases gs) (auto simp: read_groups.simps)
  next
    case True
    have IH: "read_groups bs i' (next_yi d) = Ok (gs', j', f') \<longleftrightarrow>
        chain_ok (next_yi d) gs' \<and> f' = list_ex offers_other_protocol gs'
        \<and> j' = i' + length (concat (map group_bytes gs')) \<and> slice bs i' j' = Some (concat (map group_bytes gs'))"
      if "read_group bs i y = Ok (g, i')" "td g = Some d" for g i' d gs' j' f'
      using "1.IH" [OF True that(1) refl that(2)] read_group_mono [OF that] by simp
    show ?thesis
    proof (cases gs)
      case Nil
      then show ?thesis using True by (subst read_groups.simps) (auto simp: res_simps split: option.splits)
    next
      case (Cons g gs')
      let ?i' = "i + length (group_bytes g)"
      have "read_groups bs i y = Ok (g # gs', j, f) \<longleftrightarrow> read_group bs i y = Ok (g, ?i') \<and>
          (case td g of
             None \<Rightarrow> gs' = [] \<and> j = ?i' \<and> \<not> f
           | Some d \<Rightarrow> \<exists>f'. read_groups bs ?i' (next_yi d) = Ok (gs', j, f') \<and> f = (protocol_indicator d \<noteq> 0 \<or> f'))"
      proof (cases "read_group bs i y")
        case (Ok r)
        then obtain g0 i0 where r: "read_group bs i y = Ok (g0, i0)" "i0 = i + length (group_bytes g0)"
          using read_group_Ok "1.prems" by (cases r) simp
        then show ?thesis using True
          by (subst read_groups.simps) (cases "td g0"; auto simp: res_simps)
      qed (use True in \<open>subst read_groups.simps, simp\<close>)+
      then show ?thesis unfolding Cons
        using True "1.prems" IH [of g ?i']
        by (cases "td g") (auto simp: read_group_Ok offers_other_protocol_def [of g] slice_append_iff add.assoc
            dest: slice_Some_length)
    qed
  qed
qed

subsection \<open>The whole answer\<close>

definition atr_ok :: "atr \<Rightarrow> bool" where
  "atr_ok a \<longleftrightarrow> y1 (atr_t0 a) < 16 \<and> historical_byte_count (atr_t0 a) < 16
     \<and> chain_ok (y1 (atr_t0 a)) (interface_groups a)
     \<and> length (historical a) = unat (historical_byte_count (atr_t0 a))
     \<and> (tck a \<noteq> None \<longleftrightarrow> supports_non_t0_protocol a)"

lemma from_ts_Some: "from_ts ts = Some c \<longleftrightarrow> ts = as_ts c"
  by (cases c) (auto simp: from_ts_def)

lemma supports_non_t0: "supports_non_t0_protocol a = list_ex offers_other_protocol (interface_groups a)"
  unfolding supports_non_t0_protocol_def offers_other_protocol_def ..

text \<open>The end of the answer: the check byte and nothing after it.\<close>

lemma check_byte_Ok:
  assumes "i \<le> length bs"
  shows "(if non_t0 then and_then (ok_or (get_at bs i) MissingTck) (\<lambda>b. Ok (Some b, i + 1)) else Ok (None, i)) = Ok (x, j)
    \<longleftrightarrow> (x \<noteq> None) = non_t0 \<and> j = i + length (opt_list x) \<and> slice bs i j = Some (opt_list x)"
  using assms slice_one [of bs i] by (cases x) (auto simp: opt_list_def res_simps)

lemma Atr_new_Ok:
  assumes "2 \<le> length bs" and "length bs \<le> 33"
  shows "Atr_new bs = Ok a \<longleftrightarrow>
    bs ! 0 = as_ts (atr_convention a) \<and> atr_t0 a = T0_from_byte (bs ! 1)
    \<and> chain_ok (y1 (atr_t0 a)) (interface_groups a)
    \<and> length (historical a) = unat (historical_byte_count (atr_t0 a))
    \<and> (tck a \<noteq> None \<longleftrightarrow> supports_non_t0_protocol a)
    \<and> slice bs 2 (length bs) = Some (concat (map group_bytes (interface_groups a)) @ historical a @ opt_list (tck a))"
  (is "_ \<longleftrightarrow> ?r")
proof
  assume "Atr_new bs = Ok a"
  then obtain idx non_t0 e where
      ts: "bs ! 0 = as_ts (atr_convention a)" and t0: "atr_t0 a = T0_from_byte (bs ! 1)"
    and gs: "read_groups bs 2 (y1 (atr_t0 a)) = Ok (interface_groups a, idx, non_t0)"
    and hist: "slice bs idx (idx + unat (historical_byte_count (atr_t0 a))) = Some (historical a)"
    and chk: "(if non_t0 then and_then (ok_or (get_at bs (idx + unat (historical_byte_count (atr_t0 a)))) MissingTck)
            (\<lambda>b. Ok (Some b, idx + unat (historical_byte_count (atr_t0 a)) + 1))
          else Ok (None, idx + unat (historical_byte_count (atr_t0 a)))) = Ok (tck a, e)"
    and e: "e = length bs"
    using assms by (auto simp: Atr_new_def get_at_def Let_def res_simps from_ts_Some split: if_splits)
  note groups = gs [unfolded read_groups_Ok [OF assms(1)]]
  have len: "length (historical a) = unat (historical_byte_count (atr_t0 a))"
    and he: "idx + unat (historical_byte_count (atr_t0 a)) \<le> length bs"
    using slice_Some_length [OF hist] by simp_all
  note check = chk [unfolded check_byte_Ok [OF he]]
  show ?r
    using groups check hist len ts t0 e by (auto simp: slice_append_iff supports_non_t0)
next
  assume r: ?r
  let ?gb = "concat (map group_bytes (interface_groups a))"
  define idx where "idx = 2 + length ?gb"
  have parts: "slice bs 2 idx = Some ?gb" "slice bs idx (idx + length (historical a)) = Some (historical a)"
      "slice bs (idx + length (historical a)) (length bs) = Some (opt_list (tck a))"
    using r by (auto simp: slice_append_iff idx_def)
  have gs: "read_groups bs 2 (y1 (atr_t0 a)) = Ok (interface_groups a, idx, supports_non_t0_protocol a)"
    using r parts(1) by (auto simp: read_groups_Ok [OF assms(1)] idx_def supports_non_t0)
  have he: "idx + length (historical a) \<le> length bs" using slice_Some_length [OF parts(2)] by simp
  have chk: "(if supports_non_t0_protocol a
        then and_then (ok_or (get_at bs (idx + length (historical a))) MissingTck)
            (\<lambda>b. Ok (Some b, Suc (idx + length (historical a))))
        else Ok (None, idx + length (historical a))) = Ok (tck a, length bs)"
    unfolding Suc_eq_plus1 check_byte_Ok [OF he] using r parts(3) slice_Some_length [OF parts(3)] he by auto
  have start: "get_at bs 0 = Some (as_ts (atr_convention a))" "get_at bs 1 = Some (bs ! 1)"
      "T0_from_byte (bs ! 1) = atr_t0 a" "unat (historical_byte_count (atr_t0 a)) = length (historical a)"
      "from_ts (as_ts (atr_convention a)) = Some (atr_convention a)"
    using assms r by (auto simp: get_at_def from_ts_Some)
  show "Atr_new bs = Ok a"
    using assms parts(2)
    by (simp add: Atr_new_def start [unfolded One_nat_def] gs chk Let_def cong: if_cong split del: if_split)
qed

text \<open>C37. The parser of the answer to reset accepts exactly the printed forms, of at most 33 bytes, of
  well-formed structures, and returns the structure: every presence bit has its byte, the chain ends where
  no further group is announced, the historical bytes have the announced number, and a check byte is there
  exactly if a protocol other than T=0 is offered. Its value is not checked.\<close>

theorem atr_exact:
  "Atr_new bs = Ok a \<longleftrightarrow> atr_ok a \<and> bs = to_wire_bytes a \<and> length bs \<le> 33"
proof (cases "2 \<le> length bs \<and> length bs \<le> 33")
  case True
  then obtain b0 b1 rest where bs: "bs = b0 # b1 # rest" by (cases bs; cases "tl bs") auto
  have "slice bs 2 (length bs) = Some rest" by (simp add: bs slice_def)
  moreover have "b1 = T0_as_byte t \<and> y1 t < 16 \<and> historical_byte_count t < 16 \<longleftrightarrow> t = T0_from_byte b1" for t
    using T0_round_trip [of b1] T0_inverse [of t] by (auto simp: T0_from_byte_def)
  ultimately show ?thesis
    using True by (auto simp: Atr_new_Ok atr_ok_def to_wire_bytes_def bs)
next
  case False
  then show ?thesis by (auto simp: Atr_new_def to_wire_bytes_def)
qed

text \<open>The objects of the historical bytes: they are a prefix of the bytes after the category indicator, tag and
  length in one byte each, and what is left over is nothing or an object cut off by the end.\<close>

definition ctlv_bytes :: "compact_tlv \<Rightarrow> bytes" where
  "ctlv_bytes e = (push_bit 4 (ctlv_tag e) OR word_of_nat (length (ctlv_value e))) # ctlv_value e"

definition cut_off :: "bytes \<Rightarrow> bool" where
  "cut_off bs \<longleftrightarrow> (case bs of [] \<Rightarrow> True | h # t \<Rightarrow> length t < unat (h AND 0x0F))"

lemma entries_from_exact:
  "\<exists>rest. drop i bs = concat (map ctlv_bytes (entries_from bs i)) @ rest \<and> cut_off rest
     \<and> list_all (\<lambda>e. ctlv_tag e < 16 \<and> length (ctlv_value e) < 16) (entries_from bs i)"
proof (induction bs i rule: entries_from.induct)
  case (1 bs i)
  show ?case
  proof (cases "i < length bs")
    case True
    let ?n = "unat (bs ! i AND 0x0F)"
    have d: "drop i bs = bs ! i # drop (i + 1) bs" using True by (simp add: Cons_nth_drop_Suc)
    show ?thesis
    proof (cases "slice bs (i + 1) (i + 1 + ?n)")
      case None
      then have "length bs - Suc i < ?n" using True by (auto simp: slice_def split: if_splits)
      then have "cut_off (drop i bs)" unfolding d by (simp add: cut_off_def)
      then show ?thesis using True None by (subst entries_from.simps, subst (2) entries_from.simps) (simp add: Let_def)
    next
      case (Some v)
      then have v: "v = take ?n (drop (i + 1) bs)" "length v = ?n"
        by (auto simp: slice_def split: if_splits)
      have n: "?n < 16" using nibble_less(1) [of "bs ! i"] by (simp add: word_less_nat_alt)
      have hd: "push_bit 4 (drop_bit 4 (bs ! i)) OR word_of_nat ?n = bs ! i"
        using T0_round_trip [of "bs ! i"] by (simp add: T0_as_byte_def T0_from_byte_def high_nibble)
      have "drop_bit 4 (bs ! i) < 16" using nibble_less(2) [of "drop_bit 4 (bs ! i)"] by (simp add: high_nibble)
      moreover have "entries_from bs i = \<lparr>ctlv_tag = drop_bit 4 (bs ! i), ctlv_value = v\<rparr> # entries_from bs (i + 1 + ?n)"
        using True Some by (subst entries_from.simps) (simp add: Let_def)
      moreover have "drop i bs = bs ! i # v @ drop (i + 1 + ?n) bs"
        using append_take_drop_id [of ?n "drop (i + 1) bs"] unfolding d v(1) by (simp add: add.commute)
      moreover obtain rest where "drop (i + 1 + ?n) bs = concat (map ctlv_bytes (entries_from bs (i + 1 + ?n))) @ rest"
        "cut_off rest" "list_all (\<lambda>e. ctlv_tag e < 16 \<and> length (ctlv_value e) < 16) (entries_from bs (i + 1 + ?n))"
        using "1.IH" [OF True refl refl refl Some] by blast
      ultimately show ?thesis
        using hd n v(2) by (intro exI [of _ rest]) (simp add: ctlv_bytes_def [of "\<lparr>ctlv_tag = _, ctlv_value = _\<rparr>"])
    qed
  qed (simp add: entries_from.simps cut_off_def)
qed

theorem compact_tlv_exact:
  "\<exists>rest. body = concat (map ctlv_bytes (compact_tlv_entries (0x80 # body))) @ rest \<and> cut_off rest
     \<and> list_all (\<lambda>e. ctlv_tag e < 16 \<and> length (ctlv_value e) < 16) (compact_tlv_entries (0x80 # body))"
  using entries_from_exact [of 1 "0x80 # body"]
  by (simp add: compact_tlv_entries_def is_compact_tlv_def category_indicator_def)

text \<open>The country of the tag-1 object: three decimal digits.\<close>

lemma country_code_bound:
  assumes "country_code bs = Some c"
  shows "unat c \<le> 999"
proof -
  from assms obtain d0 d1 d2 :: byte where d: "d0 \<le> 9" "d1 \<le> 9" "d2 \<le> 9"
    and c: "c = word_of_nat (min 65535 (min 65535 (min 65535 (unat d0 * 100) + min 65535 (unat d1 * 10)) + unat d2))"
    by (auto simp: country_code_def Let_def not_less split: option.splits if_splits)
  from d have "unat d0 \<le> 9" "unat d1 \<le> 9" "unat d2 \<le> 9" by (simp_all add: word_le_nat_alt)
  then have "c = word_of_nat (unat d0 * 100 + unat d1 * 10 + unat d2)" "unat d0 * 100 + unat d1 * 10 + unat d2 \<le> 999"
    using c by simp_all
  then show ?thesis by (simp add: unat_of_nat del: of_nat_add of_nat_mult)
qed

end
