(* ===== verification/Oid.thy ===== *)
theory Oid
  imports Decimal
begin

text \<open>
  Object identifiers (\<open>oid.rs\<close>, and the second printer in \<open>x509.rs\<close>): the structural check, the two
  dotted-decimal printers, and the known identifiers. The known identifiers are written in the source in
  dotted notation and turned into bytes at compile time by the X.690 encoding, which is also the reference
  against which the printers are judged.
\<close>

subsection \<open>The encoding of X.690\<close>

function continuation :: "nat \<Rightarrow> bytes" where
  "continuation n = (if n = 0 then [] else continuation (n div 128) @ [word_of_nat (128 + n mod 128)])"
  by pat_completeness auto
termination by (relation "measure id") auto

declare continuation.simps [simp del]

definition base128 :: "nat \<Rightarrow> bytes" where
  "base128 n = continuation (n div 128) @ [word_of_nat (n mod 128)]"

fun oid_dotted :: "nat list \<Rightarrow> bytes" where
  "oid_dotted (a # b # arcs) = concat (map base128 ((a * 40 + b) # arcs))"
| "oid_dotted _ = []"

subsection \<open>The type\<close>

datatype oid_error = OidEmpty | UnterminatedArc

definition Oid_new :: "bytes \<Rightarrow> (oid_error, bytes) res" where
  "Oid_new bs = (if bs = [] then Err OidEmpty
                 else if last bs AND 0x80 \<noteq> 0 then Err UnterminatedArc else Ok bs)"

fun OidError_display :: "oid_error \<Rightarrow> string" where
  "OidError_display OidEmpty = ''OID content cannot be empty''"
| "OidError_display UnterminatedArc = ''OID's final byte has the high bit set (arc unterminated)''"

text \<open>The arcs after the first byte: an accumulator of the given width, shifted by seven bits for every byte
  without a check of its top bits, written out and reset at every byte whose high bit is clear.\<close>

fun print_arcs :: "'w::len word \<Rightarrow> bytes \<Rightarrow> string" where
  "print_arcs acc [] = []"
| "print_arcs acc (b # bs) =
     (let acc' = push_bit 7 acc OR ucast (b AND 0x7F) in
      if b AND 0x80 = 0 then ''.'' @ decimal (unat acc') @ print_arcs 0 bs else print_arcs acc' bs)"

fun Oid_display :: "bytes \<Rightarrow> string" where
  "Oid_display [] = ''(empty-oid)''"
| "Oid_display (first # rest) =
     (let arc1_raw = unat first div 40; arc2_raw = unat first mod 40;
          (arc1, arc2) = (if 2 < arc1_raw then (2, unat first - 80) else (arc1_raw, arc2_raw)) in
      decimal arc1 @ ''.'' @ decimal arc2 @ print_arcs (0 :: 128 word) rest)"

text \<open>The printer of \<open>x509.rs\<close>: no special case for the first byte, and 32-bit arcs.\<close>

fun oid_dot_notation :: "bytes \<Rightarrow> string" where
  "oid_dot_notation [] = []"
| "oid_dot_notation (first # rest) =
     decimal (unat first div 40) @ ''.'' @ decimal (unat first mod 40) @ print_arcs (0 :: 32 word) rest"

subsection \<open>Known identifiers\<close>

definition BASIC_CONSTRAINTS :: bytes where "BASIC_CONSTRAINTS = oid_dotted [2, 5, 29, 19]"
definition KEY_USAGE :: bytes where "KEY_USAGE = oid_dotted [2, 5, 29, 15]"
definition EXT_KEY_USAGE :: bytes where "EXT_KEY_USAGE = oid_dotted [2, 5, 29, 37]"
definition NAME_CONSTRAINTS :: bytes where "NAME_CONSTRAINTS = oid_dotted [2, 5, 29, 30]"
definition OCSP_NO_CHECK :: bytes where "OCSP_NO_CHECK = oid_dotted [1, 3, 6, 1, 5, 5, 7, 48, 1, 5]"
definition KP_SERVER_AUTH :: bytes where "KP_SERVER_AUTH = oid_dotted [1, 3, 6, 1, 5, 5, 7, 3, 1]"
definition KP_CLIENT_AUTH :: bytes where "KP_CLIENT_AUTH = oid_dotted [1, 3, 6, 1, 5, 5, 7, 3, 2]"
definition KP_CODE_SIGNING :: bytes where "KP_CODE_SIGNING = oid_dotted [1, 3, 6, 1, 5, 5, 7, 3, 3]"
definition KP_EMAIL_PROTECTION :: bytes where "KP_EMAIL_PROTECTION = oid_dotted [1, 3, 6, 1, 5, 5, 7, 3, 4]"
definition KP_TIME_STAMPING :: bytes where "KP_TIME_STAMPING = oid_dotted [1, 3, 6, 1, 5, 5, 7, 3, 8]"
definition KP_OCSP_SIGNING :: bytes where "KP_OCSP_SIGNING = oid_dotted [1, 3, 6, 1, 5, 5, 7, 3, 9]"

definition eku_label :: "bytes \<Rightarrow> string" where
  "eku_label oid =
     (let name = (if oid = KP_SERVER_AUTH then ''serverAuth''
                  else if oid = KP_CLIENT_AUTH then ''clientAuth''
                  else if oid = KP_CODE_SIGNING then ''codeSigning''
                  else if oid = KP_EMAIL_PROTECTION then ''emailProtection''
                  else if oid = KP_TIME_STAMPING then ''timeStamping''
                  else if oid = KP_OCSP_SIGNING then ''ocspSigning''
                  else '''') in
      if name = [] then ''oid:'' @ oid_dot_notation oid else name)"

subsection \<open>Printing what the encoding wrote\<close>

fun dotted :: "nat list \<Rightarrow> string" where
  "dotted [] = []"
| "dotted [a] = decimal a"
| "dotted (a # as) = decimal a @ ''.'' @ dotted as"

lemma shift_in:
  assumes "r < 128" and "7 < LENGTH('w::len)"
  shows "push_bit 7 (word_of_nat q) OR word_of_nat r = (word_of_nat (q * 128 + r) :: 'w word)"
proof -
  have "\<not> bit (word_of_nat r :: 'w word) n" if "7 \<le> n" for n
  proof -
    have "r < 2 ^ n" using assms(1) power_increasing [OF that, of "2::nat"] by simp
    then show ?thesis by (simp add: bit_of_nat_iff bit_iff_odd [of r])
  qed
  then have "push_bit 7 (word_of_nat q :: 'w word) + word_of_nat r = push_bit 7 (word_of_nat q) OR word_of_nat r"
    by (intro disjunctive_add) (auto simp: bit_simps)
  then show ?thesis by (simp add: push_bit_eq_mult mult.commute)
qed

lemma seven_bits:
  assumes "r < 128"
  shows "(ucast ((word_of_nat r :: byte) AND 0x7F) :: 'w::len word) = word_of_nat r"
    and "(ucast ((word_of_nat (128 + r) :: byte) AND 0x7F) :: 'w word) = word_of_nat r"
proof -
  have *: "(ucast (x AND 0x7F) :: 'w word) = word_of_nat (unat x mod 128)" for x :: byte
  proof -
    have "(0x7F :: byte) = mask 7" by (simp add: mask_eq_exp_minus_1)
    then have "x AND 0x7F = take_bit 7 x" by (simp add: take_bit_eq_mask)
    then have "unat (x AND 0x7F) = unat x mod 128" by (simp add: take_bit_eq_mod unat_mod)
    moreover have "(ucast (x AND 0x7F) :: 'w word) = word_of_nat (unat (x AND 0x7F))" by (rule of_nat_unat [symmetric])
    ultimately show ?thesis by (simp only:)
  qed
  show "(ucast ((word_of_nat r :: byte) AND 0x7F) :: 'w word) = word_of_nat r"
    "(ucast ((word_of_nat (128 + r) :: byte) AND 0x7F) :: 'w word) = word_of_nat r"
    unfolding * unat_word8_of_nat using assms by (simp_all add: mod_mod_cancel)
qed

lemma eighth_bit:
  assumes "r < 128"
  shows "(word_of_nat r :: byte) AND 0x80 = 0" and "(word_of_nat (128 + r) :: byte) AND 0x80 \<noteq> 0"
proof -
  have *: "b AND 0x80 = 0 \<longleftrightarrow> \<not> bit b 7" for b :: byte
    using and_exp_eq_0_iff_not_bit [of b 7] by simp
  show "(word_of_nat r :: byte) AND 0x80 = 0" "(word_of_nat (128 + r) :: byte) AND 0x80 \<noteq> 0"
    unfolding * using assms by (simp_all add: bit_of_nat_iff bit_iff_odd [of "_ :: nat"] div_add_self1 del: of_nat_add)
qed

lemma print_continuation:
  assumes "m < 2 ^ LENGTH('w::len)" and "7 < LENGTH('w)"
  shows "print_arcs (0 :: 'w word) (continuation m @ bs) = print_arcs (word_of_nat m :: 'w word) bs"
  using assms(1)
proof (induction m arbitrary: bs rule: continuation.induct)
  case (1 m)
  show ?case
  proof (cases "m = 0")
    case True
    then show ?thesis by (simp add: continuation.simps)
  next
    case False
    have "m div 128 < 2 ^ LENGTH('w)" using "1.prems" by (rule le_less_trans [OF div_le_dividend])
    with False "1.IH" [of "word_of_nat (128 + m mod 128) # bs"] show ?thesis
      by (subst continuation.simps)
        (simp add: Let_def seven_bits eighth_bit assms(2) shift_in del: of_nat_add)
  qed
qed

lemma print_base128:
  assumes "m < 2 ^ LENGTH('w::len)" and "7 < LENGTH('w)"
  shows "print_arcs (0 :: 'w word) (base128 m @ bs) = ''.'' @ decimal m @ print_arcs (0 :: 'w word) bs"
proof -
  have "m div 128 < 2 ^ LENGTH('w)" using assms(1) by (rule le_less_trans [OF div_le_dividend])
  with assms show ?thesis
    by (simp add: base128_def print_continuation Let_def seven_bits eighth_bit shift_in unat_of_nat del: of_nat_add)
qed

lemma print_rest:
  assumes "list_all (\<lambda>m. m < 2 ^ LENGTH('w::len)) arcs" and "7 < LENGTH('w)"
  shows "print_arcs (0 :: 'w word) (concat (map base128 arcs)) = concat (map (\<lambda>m. ''.'' @ decimal m) arcs)"
  using assms by (induction arcs) (simp_all add: print_base128)

lemma dotted_Cons: "dotted (a # arcs) = decimal a @ concat (map (\<lambda>m. ''.'' @ decimal m) arcs)"
  by (induction arcs arbitrary: a) simp_all

lemma base128_small: "n < 128 \<Longrightarrow> base128 n = [word_of_nat n]"
  by (simp add: base128_def continuation.simps)

lemma base128_last: "base128 n \<noteq> []" "last (base128 n) AND 0x80 = 0"
  by (simp_all add: base128_def eighth_bit)

text \<open>An identifier: at least two arcs, the first at most two, and the second below forty under the first
  two roots.\<close>

fun oid_ok :: "nat list \<Rightarrow> bool" where
  "oid_ok (a # b # arcs) \<longleftrightarrow> a \<le> 2 \<and> (a < 2 \<longrightarrow> b < 40)"
| "oid_ok _ \<longleftrightarrow> False"

lemma Oid_new_dotted: "oid_ok arcs \<Longrightarrow> Oid_new (oid_dotted arcs) = Ok (oid_dotted arcs)"
proof (induction arcs rule: oid_ok.induct)
  case (1 a b arcs)
  have "concat (map base128 ms) \<noteq> [] \<and> last (concat (map base128 ms)) AND 0x80 = 0" if "ms \<noteq> []" for ms
    using that by (induction ms rule: list_nonempty_induct) (simp_all add: base128_last)
  from this [of "(a * 40 + b) # arcs"] show ?case by (simp add: Oid_new_def)
qed simp_all

lemma first_byte:
  assumes "a \<le> 2" and "a < 2 \<Longrightarrow> b < 40" and "b < 48"
  shows "unat (word_of_nat (a * 40 + b) :: byte) = a * 40 + b" and "base128 (a * 40 + b) = [word_of_nat (a * 40 + b)]"
proof -
  have "a * 40 + b < 128" using assms by (cases "a = 2") auto
  then show "unat (word_of_nat (a * 40 + b) :: byte) = a * 40 + b" "base128 (a * 40 + b) = [word_of_nat (a * 40 + b)]"
    by (simp_all add: base128_small unat_word8_of_nat del: of_nat_add of_nat_mult)
qed

lemma Oid_display_first:
  assumes "unat first = n" and "(if 2 < n div 40 then (2, n - 80) else (n div 40, n mod 40)) = (a, b)"
  shows "Oid_display (first # rest) = decimal a @ ''.'' @ decimal b @ print_arcs (0 :: 128 word) rest"
  using assms by (simp add: Let_def split: if_splits)



declare oid_dotted.simps [simp del]

end
