(* ===== verification/Path_Extensions.thy ===== *)
theory Path_Extensions
  imports Oid Ber
begin

text \<open>
  The certificate extensions that decide about a certification path (\<open>x509.rs\<close>, \<open>path_extension_profile\<close> and
  its helpers): Basic Constraints, Key Usage, Extended Key Usage, Name Constraints and the OCSP no-check
  marker, and the key-usage patterns of the certificate purposes (\<open>cert_state.rs\<close>). The parser works on the
  library's BER iterator. Its result is shown to be that of an order-independent lookup, path lengths are read
  exactly from their minimal encoding, and key usages exactly from their named bit lists.
\<close>

subsection \<open>Data\<close>

record key_usage =
  digital_signature :: bool
  non_repudiation :: bool
  key_encipherment :: bool
  data_encipherment :: bool
  key_agreement :: bool
  key_cert_sign :: bool
  crl_sign :: bool
  encipher_only :: bool
  decipher_only :: bool

record key_usage_meta =
  kum_key_usage :: key_usage
  kum_critical :: bool

record basic_constraints =
  ca :: bool
  path_len :: "u32 option"
  bc_critical :: bool
  present :: bool

record path_extension_profile =
  profile_basic_constraints :: basic_constraints
  profile_key_usage :: "key_usage_meta option"
  extended_key_usage_present :: bool
  ocsp_signing_extended_key_usage :: bool
  ocsp_no_check_present :: bool
  name_constraints_present :: bool

datatype path_extension_error = Malformed string | DuplicateExtension | UnsupportedCritical | InvalidOcspNoCheck

fun PathExtensionError_display :: "path_extension_error \<Rightarrow> string" where
  "PathExtensionError_display (Malformed detail) = ''malformed certificate extension: '' @ detail"
| "PathExtensionError_display DuplicateExtension = ''duplicate certificate extension''"
| "PathExtensionError_display UnsupportedCritical = ''unsupported critical certificate extension''"
| "PathExtensionError_display InvalidOcspNoCheck = ''malformed id-pkix-ocsp-nocheck extension''"

abbreviation BOOLEAN :: byte where "BOOLEAN \<equiv> 0x01"
abbreviation INTEGER :: byte where "INTEGER \<equiv> 0x02"
abbreviation BIT_STRING :: byte where "BIT_STRING \<equiv> 0x03"
abbreviation OCTET_STRING :: byte where "OCTET_STRING \<equiv> 0x04"
abbreviation NULL_TAG :: byte where "NULL_TAG \<equiv> 0x05"
abbreviation OID_TAG :: byte where "OID_TAG \<equiv> 0x06"
abbreviation SEQUENCE :: byte where "SEQUENCE \<equiv> 0x30"

definition label_flags :: "(bool \<times> string) list \<Rightarrow> string list" where
  "label_flags fs = map snd (filter fst fs)"

fun join :: "string \<Rightarrow> string list \<Rightarrow> string" where
  "join sep [] = []"
| "join sep [p] = p"
| "join sep (p # ps) = p @ sep @ join sep ps"

definition KeyUsage_label :: "key_usage \<Rightarrow> string" where
  "KeyUsage_label u = join '', '' (label_flags
     [(digital_signature u, ''digitalSignature''), (non_repudiation u, ''nonRepudiation''),
      (key_encipherment u, ''keyEncipherment''), (data_encipherment u, ''dataEncipherment''),
      (key_agreement u, ''keyAgreement''), (key_cert_sign u, ''keyCertSign''), (crl_sign u, ''cRLSign''),
      (encipher_only u, ''encipherOnly''), (decipher_only u, ''decipherOnly'')])"

subsection \<open>The values of the extensions\<close>

definition exact_path_extension_tlv :: "byte \<Rightarrow> bytes \<Rightarrow> string \<Rightarrow> (path_extension_error, bytes) res" where
  "exact_path_extension_tlv tag val label =
     and_then (map_err (\<lambda>_. Malformed label) (ber_parse_typed (ucast tag) val)) (\<lambda>parsed.
     if typed_size parsed \<noteq> length val then Err (Malformed ''extension value has trailing bytes'')
     else Ok (typed_value parsed))"

definition parse_path_length :: "bytes \<Rightarrow> (path_extension_error, u32) res" where
  "parse_path_length val =
     (case val of
        [] \<Rightarrow> Err (Malformed ''Basic Constraints pathLen is empty'')
      | first # rest \<Rightarrow>
          if first AND 0x80 \<noteq> 0 then Err (Malformed ''Basic Constraints pathLen is negative'')
          else
            and_then (if first = 0
                      then (case rest of
                              [] \<Rightarrow> Ok []
                            | second # _ \<Rightarrow>
                                if second AND 0x80 = 0 then Err (Malformed ''Basic Constraints pathLen is not DER-minimal'')
                                else Ok rest)
                      else Ok val) (\<lambda>magnitude.
            if 4 < length magnitude then Err (Malformed ''Basic Constraints pathLen is too large'')
            else Ok (foldl (\<lambda>len b. push_bit 8 len OR ucast b) 0 magnitude)))"

text \<open>The next child of a constructed value: absent, or a decoding error, or a TLV and the children after it.\<close>

fun next_child :: "string \<Rightarrow> (ber_error, ber_tlv_any) res list
    \<Rightarrow> (path_extension_error, ber_tlv_any option \<times> (ber_error, ber_tlv_any) res list) res" where
  "next_child detail [] = Ok (None, [])"
| "next_child detail (c # cs) = and_then (map_err (\<lambda>_. Malformed detail) c) (\<lambda>t. Ok (Some t, cs))"

definition constraint_children :: "(ber_error, ber_tlv_any) res list \<Rightarrow> bool \<Rightarrow> (path_extension_error, basic_constraints) res" where
  "constraint_children children critical =
     and_then (next_child ''Basic Constraints child encoding'' children) (\<lambda>(next, flds).
     and_then (case next of
                 Some flag \<Rightarrow>
                   if tlv_tag flag = ucast BOOLEAN then
                     and_then (if tlv_value flag = [0] then Ok False
                               else if tlv_value flag = [0xFF] then Ok True
                               else Err (Malformed ''Basic Constraints cA is not a canonical DER BOOLEAN'')) (\<lambda>is_ca.
                     and_then (next_child ''Basic Constraints pathLen encoding'' flds) (\<lambda>(next, flds).
                     Ok (is_ca, next, flds)))
                   else Ok (False, next, flds)
               | None \<Rightarrow> Ok (False, next, flds)) (\<lambda>(is_ca, next, flds).
     and_then (case next of
                 Some len \<Rightarrow>
                   and_then (map_err (\<lambda>_. Malformed ''Basic Constraints pathLen tag'') (ber_expect (ucast INTEGER) len)) (\<lambda>i.
                   if \<not> is_ca then Err (Malformed ''Basic Constraints pathLen without cA'')
                   else and_then (parse_path_length (typed_value i)) (\<lambda>n. Ok (Some n)))
               | None \<Rightarrow> Ok None) (\<lambda>len.
     if flds \<noteq> [] then Err (Malformed ''Basic Constraints has trailing fields'')
     else Ok \<lparr>ca = is_ca, path_len = len, bc_critical = critical, present = True\<rparr>)))"

definition parse_path_basic_constraints :: "bytes \<Rightarrow> bool \<Rightarrow> (path_extension_error, basic_constraints) res" where
  "parse_path_basic_constraints val critical =
     and_then (exact_path_extension_tlv SEQUENCE val ''Basic Constraints'') (\<lambda>outer.
       constraint_children (ber_children outer) critical)"

definition trailing_zeros :: "byte \<Rightarrow> nat" where
  "trailing_zeros b = length (takeWhile (\<lambda>i. \<not> bit b i) [0..<8])"

definition key_usage_bits :: "bytes \<Rightarrow> bool \<Rightarrow> (path_extension_error, key_usage_meta) res" where
  "key_usage_bits content critical =
     (case content of
        [] \<Rightarrow> Err (Malformed ''Key Usage is empty'')
      | unused # bits \<Rightarrow>
          if 7 < unused \<or> bits = [] \<or> 2 < length bits then Err (Malformed ''Key Usage width'')
          else
            let final = last bits;
                unused_mask = (if unused = 0 then 0 else drop_bit (8 - unat unused) 0xFF) in
            if final AND unused_mask \<noteq> 0 \<or> final = 0 \<or> trailing_zeros final \<noteq> unat unused
            then Err (Malformed ''Key Usage is not a DER named bit list'')
            else
              let first = hd bits; second = (case bits of _ # b # _ \<Rightarrow> b | _ \<Rightarrow> 0) in
              if second AND 0x7F \<noteq> 0 then Err (Malformed ''Key Usage has unknown bits'')
              else Ok \<lparr>kum_key_usage =
                         \<lparr>digital_signature = first AND 0x80 \<noteq> 0, non_repudiation = first AND 0x40 \<noteq> 0,
                          key_encipherment = first AND 0x20 \<noteq> 0, data_encipherment = first AND 0x10 \<noteq> 0,
                          key_agreement = first AND 0x08 \<noteq> 0, key_cert_sign = first AND 0x04 \<noteq> 0,
                          crl_sign = first AND 0x02 \<noteq> 0, encipher_only = first AND 0x01 \<noteq> 0,
                          decipher_only = second AND 0x80 \<noteq> 0\<rparr>,
                       kum_critical = critical\<rparr>)"

definition parse_path_key_usage :: "bytes \<Rightarrow> bool \<Rightarrow> (path_extension_error, key_usage_meta) res" where
  "parse_path_key_usage val critical =
     and_then (exact_path_extension_tlv BIT_STRING val ''Key Usage'') (\<lambda>content. key_usage_bits content critical)"

fun eku_purposes :: "bytes list \<Rightarrow> (ber_error, ber_tlv_any) res list \<Rightarrow> (path_extension_error, bytes list) res" where
  "eku_purposes seen [] = Ok seen"
| "eku_purposes seen (c # cs) =
     and_then (map_err (\<lambda>_. Malformed ''Extended Key Usage entry'') c) (\<lambda>t.
     and_then (map_err (\<lambda>_. Malformed ''Extended Key Usage entry tag'') (ber_expect (ucast OID_TAG) t)) (\<lambda>p.
     and_then (map_err (\<lambda>_. Malformed ''Extended Key Usage OID'') (Oid_new (typed_value p))) (\<lambda>purpose.
     if purpose \<in> set seen then Err (Malformed ''duplicate Extended Key Usage purpose'')
     else eku_purposes (seen @ [purpose]) cs)))"

definition parse_path_extended_key_usage :: "bytes \<Rightarrow> (path_extension_error, bool) res" where
  "parse_path_extended_key_usage val =
     and_then (exact_path_extension_tlv SEQUENCE val ''Extended Key Usage'') (\<lambda>outer.
     and_then (eku_purposes [] (ber_children outer)) (\<lambda>seen.
     if seen = [] then Err (Malformed ''Extended Key Usage is empty'') else Ok (KP_OCSP_SIGNING \<in> set seen)))"

definition parse_path_ocsp_no_check :: "bytes \<Rightarrow> bool \<Rightarrow> (path_extension_error, unit) res" where
  "parse_path_ocsp_no_check val critical =
     (if critical then Err InvalidOcspNoCheck
      else and_then (map_err (\<lambda>_. InvalidOcspNoCheck) (ber_parse val)) (\<lambda>t.
        if tlv_tag t \<noteq> ucast NULL_TAG \<or> tlv_value t \<noteq> [] \<or> tlv_size t \<noteq> length val then Err InvalidOcspNoCheck
        else Ok ()))"

subsection \<open>The extensions of a certificate\<close>

definition absent_constraints :: basic_constraints where
  "absent_constraints = \<lparr>ca = False, path_len = None, bc_critical = False, present = False\<rparr>"

definition empty_profile :: path_extension_profile where
  "empty_profile = \<lparr>profile_basic_constraints = absent_constraints, profile_key_usage = None,
     extended_key_usage_present = False, ocsp_signing_extended_key_usage = False,
     ocsp_no_check_present = False, name_constraints_present = False\<rparr>"

definition required_child :: "string \<Rightarrow> string \<Rightarrow> (ber_error, ber_tlv_any) res list
    \<Rightarrow> (path_extension_error, ber_tlv_any \<times> (ber_error, ber_tlv_any) res list) res" where
  "required_child missing detail cs =
     (case cs of [] \<Rightarrow> Err (Malformed missing)
      | c # cs \<Rightarrow> and_then (map_err (\<lambda>_. Malformed detail) c) (\<lambda>t. Ok (t, cs)))"

text \<open>The fields of one extension after its identifier: the flag, which must be the canonical TRUE if it is
  there, the value, and nothing else.\<close>

definition extension_value :: "(ber_error, ber_tlv_any) res list \<Rightarrow> (path_extension_error, bool \<times> bytes) res" where
  "extension_value flds =
     and_then (required_child ''Extension has no value'' ''Extension value encoding'' flds) (\<lambda>(next, flds).
     and_then (if tlv_tag next = ucast BOOLEAN then
                 if tlv_value next \<noteq> [0xFF] then Err (Malformed ''critical BOOLEAN is not canonical TRUE'')
                 else
                   and_then (required_child ''Extension has no value'' ''Extension value encoding'' flds) (\<lambda>(t, flds).
                   and_then (map_err (\<lambda>_. Malformed ''extnValue tag'') (ber_expect (ucast OCTET_STRING) t)) (\<lambda>v.
                   Ok (True, v, flds)))
               else
                 and_then (map_err (\<lambda>_. Malformed ''extnValue tag'') (ber_expect (ucast OCTET_STRING) next)) (\<lambda>v.
                 Ok (False, v, flds))) (\<lambda>(critical, v, flds).
     if flds \<noteq> [] then Err (Malformed ''Extension has trailing fields'')
     else Ok (critical, typed_value v)))"

definition apply_extension :: "bytes \<Rightarrow> bool \<Rightarrow> bytes \<Rightarrow> path_extension_profile
    \<Rightarrow> (path_extension_error, path_extension_profile) res" where
  "apply_extension oid critical val profile =
     (if oid = BASIC_CONSTRAINTS then
        and_then (parse_path_basic_constraints val critical) (\<lambda>bc. Ok (profile\<lparr>profile_basic_constraints := bc\<rparr>))
      else if oid = KEY_USAGE then
        and_then (parse_path_key_usage val critical) (\<lambda>ku. Ok (profile\<lparr>profile_key_usage := Some ku\<rparr>))
      else if oid = EXT_KEY_USAGE then
        and_then (parse_path_extended_key_usage val) (\<lambda>ocsp.
          Ok (profile\<lparr>ocsp_signing_extended_key_usage := ocsp, extended_key_usage_present := True\<rparr>))
      else if oid = NAME_CONSTRAINTS then Ok (profile\<lparr>name_constraints_present := True\<rparr>)
      else if oid = OCSP_NO_CHECK then
        and_then (parse_path_ocsp_no_check val critical) (\<lambda>_. Ok (profile\<lparr>ocsp_no_check_present := True\<rparr>))
      else if critical then Err UnsupportedCritical
      else Ok profile)"

fun profile_loop :: "bytes list \<Rightarrow> path_extension_profile \<Rightarrow> (ber_error, ber_tlv_any) res list
    \<Rightarrow> (path_extension_error, path_extension_profile) res" where
  "profile_loop seen profile [] = Ok profile"
| "profile_loop seen profile (c # cs) =
     and_then (map_err (\<lambda>_. Malformed ''Extension encoding'') c) (\<lambda>t.
     and_then (map_err (\<lambda>_. Malformed ''Extension is not a SEQUENCE'') (ber_expect (ucast SEQUENCE) t)) (\<lambda>extension.
     and_then (required_child ''Extension has no OID'' ''Extension OID encoding'' (ber_children (typed_value extension))) (\<lambda>(o1, flds).
     and_then (map_err (\<lambda>_. Malformed ''Extension OID tag'') (ber_expect (ucast OID_TAG) o1)) (\<lambda>o2.
     and_then (map_err (\<lambda>_. Malformed ''Extension OID value'') (Oid_new (typed_value o2))) (\<lambda>oid.
     if oid \<in> set seen then Err (if oid = OCSP_NO_CHECK then InvalidOcspNoCheck else DuplicateExtension)
     else
       and_then (extension_value flds) (\<lambda>(critical, val).
       and_then (apply_extension oid critical val profile) (\<lambda>profile.
       profile_loop (seen @ [oid]) profile cs)))))))"

definition path_extension_profile :: "bytes \<Rightarrow> (path_extension_error, path_extension_profile) res" where
  "path_extension_profile extensions = profile_loop [] empty_profile (ber_children extensions)"

subsection \<open>Purposes\<close>

datatype purpose = AuthPurpose | NonRepPurpose | CscaPurpose | DscPurpose | MlsPurpose

fun matches_key_usage :: "purpose \<Rightarrow> key_usage \<Rightarrow> bool" where
  "matches_key_usage AuthPurpose u \<longleftrightarrow> digital_signature u \<and> key_encipherment u \<and> data_encipherment u"
| "matches_key_usage NonRepPurpose u \<longleftrightarrow>
     non_repudiation u \<and> \<not> digital_signature u \<and> \<not> key_encipherment u \<and> \<not> data_encipherment u \<and> \<not> key_agreement u
     \<and> \<not> key_cert_sign u \<and> \<not> crl_sign u \<and> \<not> encipher_only u \<and> \<not> decipher_only u"
| "matches_key_usage CscaPurpose u \<longleftrightarrow> key_cert_sign u \<and> crl_sign u"
| "matches_key_usage DscPurpose u \<longleftrightarrow>
     digital_signature u \<and> \<not> non_repudiation u \<and> \<not> key_cert_sign u \<and> \<not> crl_sign u"
| "matches_key_usage MlsPurpose u \<longleftrightarrow> digital_signature u"

subsection \<open>Path lengths\<close>

text \<open>The minimal encoding of a number below 2 to the 32 as a DER INTEGER.\<close>

definition octet_count :: "nat \<Rightarrow> nat" where
  "octet_count n = (if n < 0x100 then 1 else if n < 0x10000 then 2 else if n < 0x1000000 then 3 else 4)"

definition der_integer :: "nat \<Rightarrow> bytes" where
  "der_integer n =
     (let bs = be_bytes (octet_count n) n in if n = 0 then [0] else if hd bs AND 0x80 \<noteq> 0 then 0 # bs else bs)"

lemma fold_be_nat:
  "length bs \<le> 4 \<Longrightarrow> foldl (\<lambda>len b. push_bit 8 len OR ucast b) (0 :: u32) bs = word_of_nat (be_nat bs)"
proof (induction bs rule: rev_induct)
  case (snoc b bs)
  have small: "be_nat bs * 256 + unat b < 2 ^ 32"
    using be_nat_less [of "bs @ [b]"] snoc.prems power_increasing [of "length (bs @ [b])" 4 "256 :: nat"] by simp
  have "unat (ucast b :: u32) = unat b"
    using unat_byte_less [of b] by (simp add: unsigned_ucast_eq take_bit_nat_eq_self)
  moreover have "unat (word_of_nat (be_nat bs) :: u32) = be_nat bs"
    using small by (simp add: unat_of_nat)
  ultimately have "unat (push_bit 8 (word_of_nat (be_nat bs)) OR ucast b :: u32) = be_nat bs * 256 + unat b"
    using small unat_byte_less [of b] by (subst unat_push_bit_or) simp_all
  then have "push_bit 8 (word_of_nat (be_nat bs)) OR ucast b = (word_of_nat (be_nat (bs @ [b])) :: u32)"
    using small by (simp add: word_unat_eq_iff unat_of_nat del: of_nat_add of_nat_mult)
  then show ?case using snoc by simp
qed simp

lemma leading_octet:
  assumes "first \<noteq> 0"
  shows "256 ^ length rest \<le> be_nat (first # rest)"
proof -
  have "0 < unat first" using assms by (simp add: unat_gt_0)
  then show ?thesis by (simp add: be_nat_Cons trans_le_add1)
qed

lemma octet_count_leading:
  assumes "first \<noteq> 0" and "length rest \<le> 3"
  shows "octet_count (be_nat (first # rest)) = length (first # rest)"
proof -
  have "length rest = 0 \<or> length rest = 1 \<or> length rest = 2 \<or> length rest = 3" using assms(2) by linarith
  then show ?thesis using leading_octet [OF assms(1), of rest] be_nat_less [of "first # rest"]
    by (auto simp: octet_count_def)
qed

text \<open>The magnitude of an encoding: the bytes after a zero that keeps the number positive.\<close>

lemma der_integer_magnitude:
  assumes "first \<noteq> 0" and "length rest \<le> 3"
  shows "der_integer (be_nat (first # rest)) = (if first AND 0x80 \<noteq> 0 then 0 # first # rest else first # rest)"
proof -
  have "be_bytes (octet_count (be_nat (first # rest))) (be_nat (first # rest)) = first # rest"
    unfolding octet_count_leading [OF assms] by (rule be_bytes_be_nat)
  moreover have "be_nat (first # rest) \<noteq> 0"
    using leading_octet [OF assms(1), of rest] by (metis le_zero_eq power_eq_0_iff zero_neq_numeral)
  ultimately show ?thesis by (simp add: der_integer_def Let_def)
qed

lemma magnitude_exists:
  assumes "0 < n" and "n < 2 ^ 32"
  obtains first rest where "n = be_nat (first # rest)" "first \<noteq> 0" "length rest \<le> 3"
proof -
  define k where "k = octet_count n"
  have k: "k \<in> {1, 2, 3, 4}" "n < 256 ^ k" "256 ^ (k - 1) \<le> n"
    using assms by (auto simp: k_def octet_count_def split: if_splits)
  then obtain first rest where fr: "be_bytes k n = first # rest"
    by (metis length_be_bytes insert_iff length_0_conv list.exhaust zero_neq_numeral zero_neq_one empty_iff)
  then have n: "n = be_nat (first # rest)" and len: "length (first # rest) = k"
    using k(2) be_nat_be_bytes_small [OF k(2)] length_be_bytes [of k n] by simp_all
  have "first \<noteq> 0"
  proof
    assume "first = 0"
    then have "n < 256 ^ length rest" using n be_nat_less [of rest] by (simp add: be_nat_Cons)
    moreover have "k - 1 = length rest" using len by simp
    ultimately show False using k(3) by simp
  qed
  then show thesis using that n len k(1) by auto
qed

lemma parse_path_length_magnitude:
  assumes "first \<noteq> 0" and "length rest \<le> 3"
  shows "parse_path_length (if first AND 0x80 \<noteq> 0 then 0 # first # rest else first # rest)
    = Ok (word_of_nat (be_nat (first # rest)))"
  using assms fold_be_nat [of "first # rest"] by (simp add: parse_path_length_def)

lemma parse_path_length_exact: "parse_path_length val = Ok n \<longleftrightarrow> val = der_integer (unat n)"
proof
  assume ok: "parse_path_length val = Ok n"
  show "val = der_integer (unat n)"
  proof (cases "val = [0]")
    case True
    then show ?thesis using ok by (simp add: parse_path_length_def der_integer_def)
  next
    case False
    then obtain first rest where m: "first \<noteq> 0" "length rest \<le> 3"
      and val: "val = (if first AND 0x80 \<noteq> 0 then 0 # first # rest else first # rest)"
    proof (cases val)
      case Nil
      then show thesis using ok by (simp add: parse_path_length_def)
    next
      case (Cons x xs)
      have x: "x AND 0x80 = 0" using ok Cons by (simp add: parse_path_length_def split: if_splits)
      show thesis
      proof (cases "x = 0")
        case True
        then obtain y ys where "xs = y # ys" using False Cons by (cases xs) auto
        then show thesis
          using that [of y ys] ok Cons True by (cases "y = 0") (auto simp: parse_path_length_def split: if_splits)
      next
        case nz: False
        then show thesis
          using that [of x xs] ok Cons x by (auto simp: parse_path_length_def split: if_splits)
      qed
    qed
    then have "n = word_of_nat (be_nat (first # rest))"
      using ok parse_path_length_magnitude [OF m] by simp
    moreover have "be_nat (first # rest) < 2 ^ 32"
      using be_nat_less [of "first # rest"] m(2) power_increasing [of "length (first # rest)" 4 "256 :: nat"] by simp
    ultimately have "unat n = be_nat (first # rest)" by (simp add: unat_of_nat)
    then show ?thesis using der_integer_magnitude [OF m] val by simp
  qed
next
  assume val: "val = der_integer (unat n)"
  show "parse_path_length val = Ok n"
  proof (cases "n = 0")
    case True
    then show ?thesis using val by (simp add: parse_path_length_def der_integer_def)
  next
    case False
    then have "0 < unat n" "unat n < 2 ^ 32" using unsigned_less [of n] by (simp_all add: unat_gt_0)
    then obtain first rest where m: "unat n = be_nat (first # rest)" "first \<noteq> 0" "length rest \<le> 3"
      by (rule magnitude_exists)
    then show ?thesis
      using val der_integer_magnitude [OF m(2,3)] parse_path_length_magnitude [OF m(2,3)]
      by (simp flip: m(1))
  qed
qed

subsection \<open>Key usages\<close>

text \<open>The named bit list of a key usage: the flags from the top bit down, trailing zeros cut off.\<close>

definition flag_bit :: "bool \<Rightarrow> nat \<Rightarrow> byte" where
  "flag_bit f n = (if f then push_bit n 1 else 0)"

definition usage_byte :: "key_usage \<Rightarrow> byte" where
  "usage_byte u =
     flag_bit (digital_signature u) 7 OR flag_bit (non_repudiation u) 6 OR flag_bit (key_encipherment u) 5
     OR flag_bit (data_encipherment u) 4 OR flag_bit (key_agreement u) 3 OR flag_bit (key_cert_sign u) 2
     OR flag_bit (crl_sign u) 1 OR flag_bit (encipher_only u) 0"

definition key_usage_content :: "key_usage \<Rightarrow> bytes" where
  "key_usage_content u =
     (if decipher_only u then [7, usage_byte u, 0x80]
      else [word_of_nat (trailing_zeros (usage_byte u)), usage_byte u])"

definition asserts_some :: "key_usage \<Rightarrow> bool" where
  "asserts_some u \<longleftrightarrow> decipher_only u \<or> usage_byte u \<noteq> 0"

definition usage_of :: "byte \<Rightarrow> bool \<Rightarrow> key_usage" where
  "usage_of b d =
     \<lparr>digital_signature = b AND 0x80 \<noteq> 0, non_repudiation = b AND 0x40 \<noteq> 0, key_encipherment = b AND 0x20 \<noteq> 0,
      data_encipherment = b AND 0x10 \<noteq> 0, key_agreement = b AND 0x08 \<noteq> 0, key_cert_sign = b AND 0x04 \<noteq> 0,
      crl_sign = b AND 0x02 \<noteq> 0, encipher_only = b AND 0x01 \<noteq> 0, decipher_only = d\<rparr>"

lemma mask_bit:
  fixes b :: byte
  shows "(b AND 0x80 \<noteq> 0) = bit b 7" "(b AND 0x40 \<noteq> 0) = bit b 6" "(b AND 0x20 \<noteq> 0) = bit b 5"
    "(b AND 0x10 \<noteq> 0) = bit b 4" "(b AND 0x08 \<noteq> 0) = bit b 3" "(b AND 0x04 \<noteq> 0) = bit b 2"
    "(b AND 0x02 \<noteq> 0) = bit b 1" "(b AND 0x01 \<noteq> 0) = bit b 0"
  using and_exp_eq_0_iff_not_bit [of b 7] and_exp_eq_0_iff_not_bit [of b 6] and_exp_eq_0_iff_not_bit [of b 5]
    and_exp_eq_0_iff_not_bit [of b 4] and_exp_eq_0_iff_not_bit [of b 3] and_exp_eq_0_iff_not_bit [of b 2]
    and_exp_eq_0_iff_not_bit [of b 1] and_exp_eq_0_iff_not_bit [of b 0]
  by simp_all

lemma below_8: "n < 8 \<longleftrightarrow> n \<in> {0, 1, 2, 3, 4, 5, 6, 7}" for n :: nat
  by (auto simp: numeral_eq_Suc less_Suc_eq)

lemma bit_flag_bit: "bit (flag_bit f m) n \<longleftrightarrow> f \<and> n = m \<and> m < 8"
  by (auto simp: flag_bit_def bit_simps bit_1_iff)

lemma usage_byte_usage_of [simp]: "usage_byte (usage_of b d) = b"
proof (rule bit_word_eqI)
  fix n assume "n < LENGTH(8)"
  then have "n \<in> {0, 1, 2, 3, 4, 5, 6, 7}" unfolding below_8 [symmetric] by simp
  then show "bit (usage_byte (usage_of b d)) n = bit b n"
    unfolding usage_byte_def usage_of_def mask_bit by (auto simp: bit_or_iff bit_flag_bit)
qed

lemma decipher_only_usage_of [simp]: "decipher_only (usage_of b d) = d"
  by (simp add: usage_of_def)

lemma usage_of_usage_byte [simp]: "usage_of (usage_byte u) (decipher_only u) = u"
  unfolding usage_of_def mask_bit usage_byte_def by (cases u) (simp add: bit_or_iff bit_flag_bit)

lemma trailing_zeros_clear: "i < trailing_zeros b \<Longrightarrow> \<not> bit b i"
proof -
  assume i: "i < trailing_zeros b"
  then have "takeWhile (\<lambda>i. \<not> bit b i) [0..<8] ! i \<in> set (takeWhile (\<lambda>i. \<not> bit b i) [0..<8])"
    by (simp add: trailing_zeros_def)
  moreover have "takeWhile (\<lambda>i. \<not> bit b i) [0..<8] ! i = i"
    using i length_takeWhile_le [of "\<lambda>i. \<not> bit b i" "[0..<8]"] by (simp add: trailing_zeros_def takeWhile_nth)
  ultimately show ?thesis by (metis set_takeWhileD)
qed

lemma trailing_zeros_less: "b \<noteq> 0 \<Longrightarrow> trailing_zeros b < 8"
proof (rule ccontr)
  assume "b \<noteq> 0" "\<not> trailing_zeros b < 8"
  then have "\<not> bit b i" if "i < 8" for i using that trailing_zeros_clear [of i b] by simp
  then have "b = 0" by (intro bit_word_eqI) simp
  with \<open>b \<noteq> 0\<close> show False by simp
qed

lemma unused_mask_clear:
  assumes "k < 8" and "trailing_zeros b = k"
  shows "b AND (if (word_of_nat k :: byte) = 0 then 0 else drop_bit (8 - k) 0xFF) = 0"
proof (rule bit_word_eqI)
  fix n assume n: "n < LENGTH(8)"
  have ff: "(0xFF :: byte) = mask 8" by (simp add: mask_eq_exp_minus_1)
  have "bit (drop_bit (8 - k) 0xFF :: byte) n \<longleftrightarrow> n < k"
    unfolding ff using assms(1) n by (auto simp: bit_drop_bit_eq bit_mask_iff)
  then show "bit (b AND (if (word_of_nat k :: byte) = 0 then 0 else drop_bit (8 - k) 0xFF)) n = bit 0 n"
    using trailing_zeros_clear [of n b] assms by (auto simp: bit_simps)
qed

lemma final_byte_ok:
  assumes "b \<noteq> 0"
  shows "b AND (if (word_of_nat (trailing_zeros b) :: byte) = 0 then 0 else drop_bit (8 - unat (word_of_nat (trailing_zeros b) :: byte)) 0xFF) = 0"
    and "unat (word_of_nat (trailing_zeros b) :: byte) = trailing_zeros b"
    and "\<not> 7 < (word_of_nat (trailing_zeros b) :: byte)"
proof -
  show u: "unat (word_of_nat (trailing_zeros b) :: byte) = trailing_zeros b"
    using trailing_zeros_less [OF assms] by (simp add: unat_word8_of_nat)
  then show "\<not> 7 < (word_of_nat (trailing_zeros b) :: byte)"
    using trailing_zeros_less [OF assms] by (simp add: word_less_nat_alt)
  show "b AND (if (word_of_nat (trailing_zeros b) :: byte) = 0 then 0 else drop_bit (8 - unat (word_of_nat (trailing_zeros b) :: byte)) 0xFF) = 0"
    unfolding u using unused_mask_clear [OF trailing_zeros_less [OF assms] refl] .
qed

lemma decipher_byte: "trailing_zeros 0x80 = 7" "(b :: byte) AND 0x7F = 0 \<Longrightarrow> b \<noteq> 0 \<Longrightarrow> b = 0x80"
proof -
  show "trailing_zeros 0x80 = 7" by code_simp
  assume b: "b AND 0x7F = 0" "b \<noteq> 0"
  have m: "(0x7F :: byte) = mask 7" by (simp add: mask_eq_exp_minus_1)
  have low: "\<not> bit b n" if "n < 7" for n
  proof -
    have "bit (b AND mask 7) n = bit b n" using that by (simp add: bit_simps)
    then show ?thesis using b(1) unfolding m by simp
  qed
  have "bit b 7"
  proof (rule ccontr)
    assume "\<not> bit b 7"
    with low have "\<not> bit b n" if "n < 8" for n using that by (cases "n = 7") auto
    then have "b = 0" by (intro bit_word_eqI) simp
    with b(2) show False by simp
  qed
  have e: "bit (0x80 :: byte) n \<longleftrightarrow> n = 7" for n
    using bit_push_bit_iff [of 7 "1 :: byte" n] by (auto simp: bit_1_iff)
  show "b = 0x80"
  proof (rule bit_word_eqI)
    fix n assume "n < LENGTH(8)"
    then show "bit b n = bit (0x80 :: byte) n"
      unfolding e using low \<open>bit b 7\<close> by (cases "n = 7") auto
  qed
qed

lemma key_usage_bits_one:
  "key_usage_bits [unused, b] critical = Ok m \<longleftrightarrow>
     b \<noteq> 0 \<and> unused = word_of_nat (trailing_zeros b) \<and> m = \<lparr>kum_key_usage = usage_of b False, kum_critical = critical\<rparr>"
proof (cases "b \<noteq> 0 \<and> unused = word_of_nat (trailing_zeros b)")
  case True
  then show ?thesis
    using final_byte_ok [of b] by (auto simp: key_usage_bits_def usage_of_def Let_def)
next
  case False
  then have "b = 0 \<or> trailing_zeros b \<noteq> unat unused" using final_byte_ok(2) [of b] by auto
  then show ?thesis using False by (auto simp: key_usage_bits_def Let_def)
qed

lemma key_usage_bits_two:
  "key_usage_bits [unused, b, c] critical = Ok m \<longleftrightarrow>
     unused = 7 \<and> c = 0x80 \<and> m = \<lparr>kum_key_usage = usage_of b True, kum_critical = critical\<rparr>"
proof (cases "unused = 7 \<and> c = 0x80")
  case True
  then show ?thesis
    using final_byte_ok(1) [where b = "0x80"] by (auto simp: key_usage_bits_def usage_of_def Let_def decipher_byte(1))
next
  case False
  have "\<not> (c \<noteq> 0 \<and> c AND 0x7F = 0 \<and> trailing_zeros c = unat unused)"
  proof
    assume c: "c \<noteq> 0 \<and> c AND 0x7F = 0 \<and> trailing_zeros c = unat unused"
    then have "c = 0x80" by (simp add: decipher_byte(2))
    with c have "unat unused = 7" by (simp add: decipher_byte(1))
    then have "unused = 7" by (simp add: word_unat_eq_iff)
    with \<open>c = 0x80\<close> False show False by simp
  qed
  then show ?thesis using False by (auto simp: key_usage_bits_def Let_def)
qed

lemma key_usage_bits_exact:
  "key_usage_bits content critical = Ok m \<longleftrightarrow>
     content = key_usage_content (kum_key_usage m) \<and> kum_critical m = critical \<and> asserts_some (kum_key_usage m)"
proof -
  consider "content = []" | u where "content = [u]" | u b where "content = [u, b]" | u b c where "content = [u, b, c]"
    | u b c d r where "content = u # b # c # d # r"
    by (metis list.exhaust)
  then show ?thesis
  proof cases
    case (3 u b)
    have "m = \<lparr>kum_key_usage = usage_of b False, kum_critical = critical\<rparr> \<longleftrightarrow>
        kum_critical m = critical \<and> \<not> decipher_only (kum_key_usage m) \<and> usage_byte (kum_key_usage m) = b"
      by (cases m) (auto, metis usage_of_usage_byte)
    then show ?thesis
      by (auto simp: 3 key_usage_bits_one key_usage_content_def asserts_some_def)
  next
    case (4 u b c)
    have "m = \<lparr>kum_key_usage = usage_of b True, kum_critical = critical\<rparr> \<longleftrightarrow>
        kum_critical m = critical \<and> decipher_only (kum_key_usage m) \<and> usage_byte (kum_key_usage m) = b"
      by (cases m) (auto, metis usage_of_usage_byte)
    then show ?thesis
      by (auto simp: 4 key_usage_bits_two key_usage_content_def asserts_some_def)
  qed (auto simp: key_usage_bits_def key_usage_content_def)
qed

subsection \<open>The profile is a lookup\<close>

text \<open>An extension as a triple of identifier, criticality and value, and when a child of the extension list
  is the encoding of one.\<close>

fun tag_value :: "(ber_error, ber_tlv_any) res \<Rightarrow> (u16 \<times> bytes) option" where
  "tag_value (Ok t) = Some (tlv_tag t, tlv_value t)"
| "tag_value _ = None"

definition is_extension :: "(ber_error, ber_tlv_any) res \<Rightarrow> bytes \<times> bool \<times> bytes \<Rightarrow> bool" where
  "is_extension c e = (case e of (oid, critical, val) \<Rightarrow>
     \<exists>body. tag_value c = Some (ucast SEQUENCE, body)
       \<and> map tag_value (ber_children body) =
           Some (ucast OID_TAG, oid) # (if critical then [Some (ucast BOOLEAN, [0xFF])] else []) @ [Some (ucast OCTET_STRING, val)]
       \<and> Oid_new oid = Ok oid)"

lemma tag_value_Some: "tag_value c = Some (tg, v) \<longleftrightarrow> (\<exists>t. c = Ok t \<and> tlv_tag t = tg \<and> tlv_value t = v)"
  by (cases c) auto

lemma ber_expect_Ok: "ber_expect tg t = Ok p \<longleftrightarrow> tlv_tag t = tg \<and> p = \<lparr>typed_value = tlv_value t, typed_size = tlv_size t\<rparr>"
  by (auto simp: ber_expect_def)

lemma required_child_Ok:
  "required_child missing detail cs = Ok (t, rest) \<longleftrightarrow> cs = Ok t # rest"
  by (cases cs) (auto simp: required_child_def res_simps)

lemma extension_value_Ok:
  "extension_value flds = Ok (critical, val) \<longleftrightarrow>
     map tag_value flds = (if critical then [Some (ucast BOOLEAN, [0xFF])] else []) @ [Some (ucast OCTET_STRING, val)]"
proof (cases "\<exists>t rest. flds = Ok t # rest")
  case True
  then obtain t rest where flds: "flds = Ok t # rest" by blast
  show ?thesis
  proof (cases "tlv_tag t = 1")
    case True
    show ?thesis
    proof (cases "\<exists>v rest'. rest = Ok v # rest'")
      case True
      then obtain v rest' where "rest = Ok v # rest'" by blast
      then show ?thesis using \<open>tlv_tag t = 1\<close>
        by (cases critical) (auto simp: flds extension_value_def required_child_def ber_expect_def)
    next
      case False
      then have "required_child m d rest \<noteq> Ok x" for m d x by (cases x) (simp add: required_child_Ok)
      then show ?thesis using \<open>tlv_tag t = 1\<close> False
        by (cases critical) (auto simp: flds extension_value_def required_child_def [of _ _ "Ok t # rest"] res_simps
            tag_value_Some map_eq_Cons_conv)
    qed
  next
    case False
    then show ?thesis
      by (cases critical) (auto simp: flds extension_value_def required_child_def ber_expect_def)
  qed
next
  case False
  then have "required_child m d flds \<noteq> Ok x" for m d x by (cases x) (simp add: required_child_Ok)
  moreover have "map tag_value flds \<noteq> Some a # bs" for a bs
    using False by (cases flds; cases "hd flds") auto
  ultimately show ?thesis by (cases critical) (auto simp: extension_value_def res_simps)
qed

lemma Oid_new_Ok: "Oid_new bs = Ok oid \<longleftrightarrow> oid = bs \<and> bs \<noteq> [] \<and> last bs AND 0x80 = 0"
  by (auto simp: Oid_new_def)

lemma map_tag_value_Cons:
  "map tag_value cs = Some (tg, v) # xs \<longleftrightarrow> (\<exists>t rest. cs = Ok t # rest \<and> tlv_tag t = tg \<and> tlv_value t = v \<and> map tag_value rest = xs)"
  by (auto simp: map_eq_Cons_conv tag_value_Some)

lemma is_extension_iff:
  "is_extension c (oid, critical, val) \<longleftrightarrow>
     (\<exists>t o1 flds. c = Ok t \<and> tlv_tag t = ucast SEQUENCE \<and> ber_children (tlv_value t) = Ok o1 # flds
        \<and> tlv_tag o1 = ucast OID_TAG \<and> tlv_value o1 = oid \<and> Oid_new oid = Ok oid \<and> extension_value flds = Ok (critical, val))"
  unfolding is_extension_def prod.case map_tag_value_Cons extension_value_Ok tag_value_Some by blast

lemma profile_loop_Cons:
  "profile_loop seen profile (c # cs) = Ok p \<longleftrightarrow>
     (\<exists>oid critical val profile'. is_extension c (oid, critical, val) \<and> oid \<notin> set seen
        \<and> apply_extension oid critical val profile = Ok profile' \<and> profile_loop (seen @ [oid]) profile' cs = Ok p)"
proof -
  have "profile_loop seen profile (c # cs) = Ok p \<longleftrightarrow>
      (\<exists>t o1 flds critical val profile'. c = Ok t \<and> tlv_tag t = ucast SEQUENCE \<and> ber_children (tlv_value t) = Ok o1 # flds
         \<and> tlv_tag o1 = ucast OID_TAG \<and> Oid_new (tlv_value o1) = Ok (tlv_value o1) \<and> tlv_value o1 \<notin> set seen
         \<and> extension_value flds = Ok (critical, val) \<and> apply_extension (tlv_value o1) critical val profile = Ok profile'
         \<and> profile_loop (seen @ [tlv_value o1]) profile' cs = Ok p)"
    (is "?l \<longleftrightarrow> ?r")
  proof
    assume ?l
    then show ?r by (auto simp: res_simps required_child_Ok ber_expect_Ok Oid_new_Ok split: if_splits)
  next
    assume ?r
    then show ?l by (auto simp: required_child_def ber_expect_def)
  qed
  then show ?thesis unfolding is_extension_iff by blast
qed

text \<open>What a profile says about a list of extensions, field by field and without regard to their order.\<close>

definition known_extension :: "bytes \<Rightarrow> bool" where
  "known_extension oid \<longleftrightarrow> oid \<in> {BASIC_CONSTRAINTS, KEY_USAGE, EXT_KEY_USAGE, NAME_CONSTRAINTS, OCSP_NO_CHECK}"

definition describes_basic_constraints :: "(bytes \<times> bool \<times> bytes) list \<Rightarrow> basic_constraints \<Rightarrow> basic_constraints \<Rightarrow> bool" where
  "describes_basic_constraints exts initial x \<longleftrightarrow>
     (case map_of exts BASIC_CONSTRAINTS of
        None \<Rightarrow> x = initial
      | Some (critical, val) \<Rightarrow> parse_path_basic_constraints val critical = Ok x)"

definition describes_key_usage :: "(bytes \<times> bool \<times> bytes) list \<Rightarrow> key_usage_meta option \<Rightarrow> key_usage_meta option \<Rightarrow> bool" where
  "describes_key_usage exts initial x \<longleftrightarrow>
     (case map_of exts KEY_USAGE of
        None \<Rightarrow> x = initial
      | Some (critical, val) \<Rightarrow> (case x of None \<Rightarrow> False | Some ku \<Rightarrow> parse_path_key_usage val critical = Ok ku))"

definition describes_extended_key_usage :: "(bytes \<times> bool \<times> bytes) list \<Rightarrow> bool \<times> bool \<Rightarrow> bool \<times> bool \<Rightarrow> bool" where
  "describes_extended_key_usage exts initial x \<longleftrightarrow>
     (case map_of exts EXT_KEY_USAGE of
        None \<Rightarrow> x = initial
      | Some (critical, val) \<Rightarrow> fst x \<and> parse_path_extended_key_usage val = Ok (snd x))"

definition describes_name_constraints :: "(bytes \<times> bool \<times> bytes) list \<Rightarrow> bool \<Rightarrow> bool \<Rightarrow> bool" where
  "describes_name_constraints exts initial x \<longleftrightarrow>
     (case map_of exts NAME_CONSTRAINTS of None \<Rightarrow> x = initial | Some _ \<Rightarrow> x)"

definition describes_no_check :: "(bytes \<times> bool \<times> bytes) list \<Rightarrow> bool \<Rightarrow> bool \<Rightarrow> bool" where
  "describes_no_check exts initial x \<longleftrightarrow>
     (case map_of exts OCSP_NO_CHECK of
        None \<Rightarrow> x = initial
      | Some (critical, val) \<Rightarrow> x \<and> parse_path_ocsp_no_check val critical = Ok ())"

definition describes :: "(bytes \<times> bool \<times> bytes) list \<Rightarrow> path_extension_profile \<Rightarrow> path_extension_profile \<Rightarrow> bool" where
  "describes exts p0 p \<longleftrightarrow>
     describes_basic_constraints exts (profile_basic_constraints p0) (profile_basic_constraints p)
     \<and> describes_key_usage exts (profile_key_usage p0) (profile_key_usage p)
     \<and> describes_extended_key_usage exts (extended_key_usage_present p0, ocsp_signing_extended_key_usage p0)
          (extended_key_usage_present p, ocsp_signing_extended_key_usage p)
     \<and> describes_name_constraints exts (name_constraints_present p0) (name_constraints_present p)
     \<and> describes_no_check exts (ocsp_no_check_present p0) (ocsp_no_check_present p)"

lemmas describes_field_defs = describes_basic_constraints_def describes_key_usage_def
  describes_extended_key_usage_def describes_name_constraints_def describes_no_check_def

lemma describes_skip:
  "oid \<noteq> BASIC_CONSTRAINTS \<Longrightarrow> describes_basic_constraints ((oid, e) # exts) = describes_basic_constraints exts"
  "oid \<noteq> KEY_USAGE \<Longrightarrow> describes_key_usage ((oid, e) # exts) = describes_key_usage exts"
  "oid \<noteq> EXT_KEY_USAGE \<Longrightarrow> describes_extended_key_usage ((oid, e) # exts) = describes_extended_key_usage exts"
  "oid \<noteq> NAME_CONSTRAINTS \<Longrightarrow> describes_name_constraints ((oid, e) # exts) = describes_name_constraints exts"
  "oid \<noteq> OCSP_NO_CHECK \<Longrightarrow> describes_no_check ((oid, e) # exts) = describes_no_check exts"
  by (intro ext, simp add: describes_field_defs)+

lemma describes_absent:
  "map_of exts BASIC_CONSTRAINTS = None \<Longrightarrow> describes_basic_constraints exts d1 x1 = (x1 = d1)"
  "map_of exts KEY_USAGE = None \<Longrightarrow> describes_key_usage exts d2 x2 = (x2 = d2)"
  "map_of exts EXT_KEY_USAGE = None \<Longrightarrow> describes_extended_key_usage exts d3 x3 = (x3 = d3)"
  "map_of exts NAME_CONSTRAINTS = None \<Longrightarrow> describes_name_constraints exts d4 x4 = (x4 = d4)"
  "map_of exts OCSP_NO_CHECK = None \<Longrightarrow> describes_no_check exts d5 x5 = (x5 = d5)"
  by (simp_all add: describes_field_defs)

lemma describes_first:
  "describes_basic_constraints ((BASIC_CONSTRAINTS, c, v) # exts) d1 x1 = (parse_path_basic_constraints v c = Ok x1)"
  "describes_key_usage ((KEY_USAGE, c, v) # exts) d2 x2 = (\<exists>ku. parse_path_key_usage v c = Ok ku \<and> x2 = Some ku)"
  "describes_extended_key_usage ((EXT_KEY_USAGE, c, v) # exts) d3 x3 = (fst x3 \<and> parse_path_extended_key_usage v = Ok (snd x3))"
  "describes_name_constraints ((NAME_CONSTRAINTS, c, v) # exts) d4 x4 = x4"
  "describes_no_check ((OCSP_NO_CHECK, c, v) # exts) d5 x5 = (x5 \<and> parse_path_ocsp_no_check v c = Ok ())"
  by (auto simp: describes_field_defs split: option.splits)

lemma known_distinct:
  "distinct [BASIC_CONSTRAINTS, KEY_USAGE, EXT_KEY_USAGE, NAME_CONSTRAINTS, OCSP_NO_CHECK]"
  by code_simp

lemma describes_Cons:
  assumes "oid \<notin> fst ` set exts"
  shows "describes ((oid, critical, val) # exts) p0 p \<and> (critical \<longrightarrow> known_extension oid) \<longleftrightarrow>
    (\<exists>p1. apply_extension oid critical val p0 = Ok p1 \<and> describes exts p1 p)"
proof -
  have none: "map_of exts oid = None" using assms by (simp add: map_of_eq_None_iff)
  have neq: "BASIC_CONSTRAINTS \<noteq> KEY_USAGE" "BASIC_CONSTRAINTS \<noteq> EXT_KEY_USAGE" "BASIC_CONSTRAINTS \<noteq> NAME_CONSTRAINTS"
      "BASIC_CONSTRAINTS \<noteq> OCSP_NO_CHECK" "KEY_USAGE \<noteq> EXT_KEY_USAGE" "KEY_USAGE \<noteq> NAME_CONSTRAINTS"
      "KEY_USAGE \<noteq> OCSP_NO_CHECK" "EXT_KEY_USAGE \<noteq> NAME_CONSTRAINTS" "EXT_KEY_USAGE \<noteq> OCSP_NO_CHECK"
      "NAME_CONSTRAINTS \<noteq> OCSP_NO_CHECK"
    using known_distinct by simp_all
  note rules = describes_def apply_extension_def known_extension_def describes_skip describes_absent describes_first
    res_simps neq neq [symmetric]
  consider "oid = BASIC_CONSTRAINTS" | "oid = KEY_USAGE" | "oid = EXT_KEY_USAGE" | "oid = NAME_CONSTRAINTS"
    | "oid = OCSP_NO_CHECK" | "\<not> known_extension oid" by (auto simp: known_extension_def)
  then show ?thesis
  proof cases
    case 6
    then show ?thesis by (auto simp: rules)
  qed (use none in \<open>auto simp: rules\<close>)
qed

lemma profile_loop_exact:
  "profile_loop seen p0 cs = Ok p \<longleftrightarrow>
     (\<exists>exts. list_all2 is_extension cs exts \<and> distinct (map fst exts) \<and> fst ` set exts \<inter> set seen = {}
        \<and> list_all known_extension (map fst (filter (\<lambda>e. fst (snd e)) exts)) \<and> describes exts p0 p)"
proof (induction cs arbitrary: seen p0)
  case Nil
  have "profile_loop seen p0 [] = Ok p \<longleftrightarrow> describes [] p0 p"
    by (cases p; cases p0) (auto simp: describes_def describes_absent)
  then show ?case by simp
next
  case (Cons c cs)
  have "(\<exists>exts. list_all2 is_extension (c # cs) exts \<and> distinct (map fst exts) \<and> fst ` set exts \<inter> set seen = {}
        \<and> list_all known_extension (map fst (filter (\<lambda>e. fst (snd e)) exts)) \<and> describes exts p0 p)
    \<longleftrightarrow> (\<exists>oid critical val exts. is_extension c (oid, critical, val) \<and> list_all2 is_extension cs exts
        \<and> oid \<notin> fst ` set exts \<and> oid \<notin> set seen \<and> distinct (map fst exts) \<and> fst ` set exts \<inter> set seen = {}
        \<and> list_all known_extension (map fst (filter (\<lambda>e. fst (snd e)) exts))
        \<and> describes ((oid, critical, val) # exts) p0 p \<and> (critical \<longrightarrow> known_extension oid))"
    (is "?l = ?r")
  proof
    assume ?l
    then obtain e exts where "list_all2 is_extension (c # cs) (e # exts)" "distinct (map fst (e # exts))"
      "fst ` set (e # exts) \<inter> set seen = {}" "list_all known_extension (map fst (filter (\<lambda>e. fst (snd e)) (e # exts)))"
      "describes (e # exts) p0 p" unfolding list_all2_Cons1 by blast
    moreover obtain oid critical val where "e = (oid, critical, val)" by (cases e)
    ultimately show ?r
      by (intro exI [of _ oid] exI [of _ critical] exI [of _ val] exI [of _ exts]) (auto split: if_splits)
  next
    assume ?r
    then obtain oid critical val exts where *: "is_extension c (oid, critical, val)" "list_all2 is_extension cs exts"
      "oid \<notin> fst ` set exts" "oid \<notin> set seen" "distinct (map fst exts)" "fst ` set exts \<inter> set seen = {}"
      "list_all known_extension (map fst (filter (\<lambda>e. fst (snd e)) exts))"
      "describes ((oid, critical, val) # exts) p0 p" "critical \<longrightarrow> known_extension oid" by blast
    then show ?l by (intro exI [of _ "(oid, critical, val) # exts"]) auto
  qed
  also have "\<dots> \<longleftrightarrow> profile_loop seen p0 (c # cs) = Ok p"
    (is "_ \<longleftrightarrow> ?loop")
  proof
    assume ?r
    then obtain oid critical val exts where *: "is_extension c (oid, critical, val)" "list_all2 is_extension cs exts"
      "oid \<notin> fst ` set exts" "oid \<notin> set seen" "distinct (map fst exts)" "fst ` set exts \<inter> set seen = {}"
      "list_all known_extension (map fst (filter (\<lambda>e. fst (snd e)) exts))"
      "describes ((oid, critical, val) # exts) p0 p \<and> (critical \<longrightarrow> known_extension oid)" by blast
    obtain p1 where "apply_extension oid critical val p0 = Ok p1" "describes exts p1 p"
      using *(8) unfolding describes_Cons [OF *(3)] by blast
    moreover have "fst ` set exts \<inter> set (seen @ [oid]) = {}" using *(3,6) by auto
    ultimately show ?loop unfolding profile_loop_Cons Cons.IH using *(1,2,4,5,7) by blast
  next
    assume ?loop
    then obtain oid critical val p1 exts where *: "is_extension c (oid, critical, val)" "oid \<notin> set seen"
      "apply_extension oid critical val p0 = Ok p1" "list_all2 is_extension cs exts" "distinct (map fst exts)"
      "fst ` set exts \<inter> set (seen @ [oid]) = {}" "list_all known_extension (map fst (filter (\<lambda>e. fst (snd e)) exts))"
      "describes exts p1 p"
      unfolding profile_loop_Cons Cons.IH by blast
    then have notin: "oid \<notin> fst ` set exts" and disj: "fst ` set exts \<inter> set seen = {}" by auto
    have "describes ((oid, critical, val) # exts) p0 p \<and> (critical \<longrightarrow> known_extension oid)"
      unfolding describes_Cons [OF notin] using *(3,8) by blast
    then show ?r using *(1,2,4,5,7) notin disj by blast
  qed
  finally show ?case by simp
qed

subsection \<open>Properties of path extensions\<close>

text \<open>C39. The extensions that decide about a path are read exactly: a profile is returned if and only if the
  extension list decodes into extensions with valid and pairwise distinct identifiers of which every critical
  one is among the five known ones, and each field of the profile is the decoded value of its extension or says
  that there is none, whatever the order. So no critical extension is ever ignored and no repeated one
  overrides an earlier one.\<close>

theorem path_profile_exact:
  "path_extension_profile extensions = Ok p \<longleftrightarrow>
     (\<exists>exts. list_all2 is_extension (ber_children extensions) exts \<and> distinct (map fst exts)
        \<and> list_all known_extension (map fst (filter (\<lambda>e. fst (snd e)) exts)) \<and> describes exts empty_profile p)"
  unfolding path_extension_profile_def profile_loop_exact by simp

text \<open>The fields of Basic Constraints: a CA flag is TRUE, a path length needs it, and FALSE may be spelled out.\<close>

definition constraint_fields :: "basic_constraints \<Rightarrow> (u16 \<times> bytes) option list set" where
  "constraint_fields bc =
     (if ca bc
      then {Some (ucast BOOLEAN, [0xFF]) # (case path_len bc of None \<Rightarrow> [] | Some n \<Rightarrow> [Some (ucast INTEGER, der_integer (unat n))])}
      else if path_len bc = None then {[], [Some (ucast BOOLEAN, [0])]} else {})"

lemma not_tagged: "\<nexists>t rest. cs = Ok t # rest \<Longrightarrow> map tag_value cs \<noteq> Some a # xs"
  by (cases cs; cases "hd cs") auto

lemma next_child_fails: "\<nexists>t rest. cs = Ok t # rest \<Longrightarrow> cs \<noteq> [] \<Longrightarrow> next_child d cs \<noteq> Ok x"
  by (cases cs; cases "hd cs") auto

lemma constraint_children_exact:
  "constraint_children cs critical = Ok bc \<longleftrightarrow>
     map tag_value cs \<in> constraint_fields bc \<and> bc_critical bc = critical \<and> present bc"
proof -
  consider "cs = []" | t where "cs = [Ok t]" | t u rest where "cs = Ok t # Ok u # rest"
    | t rest where "cs = Ok t # rest" "rest \<noteq> []" "\<nexists>u rest'. rest = Ok u # rest'"
    | "cs \<noteq> []" "\<nexists>t rest. cs = Ok t # rest"
    by (metis list.exhaust)
  then show ?thesis
  proof cases
    case 1
    then show ?thesis by (cases bc) (auto simp: constraint_children_def constraint_fields_def split: option.splits)
  next
    case (2 t)
    then show ?thesis
      by (cases bc) (auto simp: constraint_children_def constraint_fields_def ber_expect_def split: option.splits if_splits)
  next
    case (3 t u rest)
    then show ?thesis
      by (cases bc) (auto simp: constraint_children_def constraint_fields_def ber_expect_def res_simps
          parse_path_length_exact split: option.splits if_splits)
  next
    case (4 t rest)
    have "map tag_value cs \<notin> constraint_fields bc"
      using not_tagged [OF 4(3)] 4(1,2) by (auto simp: constraint_fields_def split: option.splits if_splits)
    moreover have "constraint_children cs critical \<noteq> Ok bc"
      using next_child_fails [OF 4(3,2)] by (auto simp: 4(1) constraint_children_def ber_expect_def res_simps split: if_splits)
    ultimately show ?thesis by blast
  next
    case 5
    have "map tag_value cs \<notin> constraint_fields bc"
      using not_tagged [OF 5(2)] 5(1) by (auto simp: constraint_fields_def split: option.splits if_splits)
    moreover have "constraint_children cs critical \<noteq> Ok bc"
      using next_child_fails [OF 5(2,1)] by (auto simp: constraint_children_def res_simps)
    ultimately show ?thesis by blast
  qed
qed

lemma exact_path_extension_tlv_Ok:
  "exact_path_extension_tlv tg val label = Ok content \<longleftrightarrow>
     (\<exists>t. ber_parse val = Ok t \<and> tlv_tag t = ucast tg \<and> tlv_value t = content \<and> tlv_size t = length val)"
proof (cases "ber_parse val")
  case (Ok t)
  then show ?thesis by (auto simp: exact_path_extension_tlv_def ber_parse_typed_def ber_expect_def)
qed (auto simp: exact_path_extension_tlv_def ber_parse_typed_def)


text \<open>The parser is not a strict DER parser, as its error type says: a length in a longer form than necessary is
  accepted.\<close>

lemma longer_length_form_accepted:
  "parse_path_key_usage [0x03, 0x81, 0x02, 0x01, 0x06] True = Ok \<lparr>kum_key_usage = usage_of 0x06 False, kum_critical = True\<rparr>
   \<and> parse_path_key_usage [0x03, 0x02, 0x01, 0x06] True = Ok \<lparr>kum_key_usage = usage_of 0x06 False, kum_critical = True\<rparr>"
proof -
  have "trailing_zeros 6 = 1" by code_simp
  then have "key_usage_bits [1, 6] True = Ok \<lparr>kum_key_usage = usage_of 0x06 False, kum_critical = True\<rparr>"
    by (simp add: key_usage_bits_one)
  moreover have "ber_parse [0x03, 0x81, 0x02, 0x01, 0x06] = Ok \<lparr>tlv_tag = 3, tlv_value = [1, 6], tlv_size = 5\<rparr>"
    "ber_parse [0x03, 0x02, 0x01, 0x06] = Ok \<lparr>tlv_tag = 3, tlv_value = [1, 6], tlv_size = 4\<rparr>"
    by (simp_all add: ber_parse_def ber_tag_def ber_length_def ber_next_def get_at_def slice_def be_nat_def)
  ultimately show ?thesis
    by (simp add: parse_path_key_usage_def exact_path_extension_tlv_def ber_parse_typed_def ber_expect_def)
qed

end
