(* ===== verification/Der_Reader.thy ===== *)
theory Der_Reader
  imports Path_Extensions Country
begin

text \<open>
  The certificate view of \<open>x509.rs\<close> as far as revocation and path building use it, and the reader of the third-party
  crate \<open>der\<close> on which the parsers of certificates, revocation lists and OCSP responses are built. The crate is a
  parameter (\<open>der_lib\<close>): its reader peels one TLV off the front of its input, a prefix that starts with at least
  the tag octet, and its decoders map the bytes of one value to the value. Points in time are seconds since the
  epoch; the code only compares them. Signature verification is a parameter too, so the results hold for every
  verifier.
\<close>

subsection \<open>The reader\<close>

datatype der_tag = Boolean | Integer | BitString | OctetString | Null | ObjectIdentifier | Enumerated | Sequence
  | UtcTime | GeneralizedTime | ContextSpecific bool nat | OtherTag nat

type_synonym date_time = nat

record der_lib =
  tlv_tail :: "byte \<Rightarrow> bytes \<Rightarrow> nat option"
  any_from_der :: "bytes \<Rightarrow> (der_tag \<times> bytes) option"
  slice_reader_ok :: "bytes \<Rightarrow> bool"
  time_from_der :: "bytes \<Rightarrow> date_time option"
  generalized_time_from_der :: "bytes \<Rightarrow> date_time option"

text \<open>\<open>Reader::tlv_bytes\<close>: the next TLV and the unread rest.\<close>

fun tlv_read :: "'l der_lib_scheme \<Rightarrow> bytes \<Rightarrow> (bytes \<times> bytes) option" where
  "tlv_read d [] = None"
| "tlv_read d (b # bs) =
     (case tlv_tail d b bs of
        None \<Rightarrow> None
      | Some n \<Rightarrow> if n \<le> length bs then Some (b # take n bs, drop n bs) else None)"

lemma tlv_read_append: "tlv_read d bs = Some (t, rest) \<Longrightarrow> bs = t @ rest \<and> t \<noteq> []"
  by (cases bs) (auto split: option.splits if_splits)

lemma tlv_read_shorter: "tlv_read d bs = Some (t, rest) \<Longrightarrow> length rest < length bs"
  using tlv_read_append by fastforce

text \<open>Every TLV up to the end of the input; nothing when one cannot be read.\<close>

function tlv_all :: "'l der_lib_scheme \<Rightarrow> bytes \<Rightarrow> bytes list option" where
  "tlv_all d bs =
     (if bs = [] then Some []
      else Option.bind (tlv_read d bs) (\<lambda>(t, rest). Option.bind (tlv_all d rest) (\<lambda>ts. Some (t # ts))))"
  by pat_completeness auto
termination by (relation "measure (length \<circ> snd)") (auto dest: tlv_read_shorter)

declare tlv_all.simps [simp del]

lemma tlv_all_Nil [simp]: "tlv_all d [] = Some []"
  by (simp add: tlv_all.simps)

lemma tlv_all_Some:
  "tlv_all d bs = Some ts \<longleftrightarrow>
     (if bs = [] then ts = []
      else \<exists>t rest ts'. tlv_read d bs = Some (t, rest) \<and> tlv_all d rest = Some ts' \<and> ts = t # ts')"
  by (subst tlv_all.simps) (auto simp: bind_eq_Some_conv)

lemma tlv_all_eq_Nil [res_simps]: "tlv_all d bs = Some [] \<longleftrightarrow> bs = []"
  by (simp add: tlv_all_Some)

lemma tlv_all_eq_Cons [res_simps]:
  "tlv_all d bs = Some (t # ts) \<longleftrightarrow> (\<exists>rest. tlv_read d bs = Some (t, rest) \<and> tlv_all d rest = Some ts)"
  by (subst tlv_all_Some) auto

lemma ex_tlv_all:
  "(\<exists>ts. tlv_all d bs = Some ts \<and> P ts) \<longleftrightarrow>
     (if bs = [] then P [] else \<exists>t rest. tlv_read d bs = Some (t, rest) \<and> (\<exists>ts. tlv_all d rest = Some ts \<and> P (t # ts)))"
  by (subst tlv_all_Some) auto

lemma concat_tlv_all: "tlv_all d bs = Some ts \<Longrightarrow> concat ts = bs"
  by (induction ts arbitrary: bs) (auto simp: res_simps dest: tlv_read_append)

subsection \<open>Errors\<close>

datatype x509_error = X509Ber ber_error | UnexpectedStructure string | InvalidTime | InvalidString
  | BerInContext ber_error string

definition next_tlv :: "'l der_lib_scheme \<Rightarrow> string \<Rightarrow> bytes \<Rightarrow> (x509_error, bytes \<times> bytes) res" where
  "next_tlv d what bs = ok_or (tlv_read d bs) (UnexpectedStructure what)"

definition any_value :: "'l der_lib_scheme \<Rightarrow> string \<Rightarrow> bytes \<Rightarrow> (x509_error, der_tag \<times> bytes) res" where
  "any_value d what der = ok_or (any_from_der d der) (UnexpectedStructure what)"

definition open_reader :: "'l der_lib_scheme \<Rightarrow> string \<Rightarrow> bytes \<Rightarrow> (x509_error, bytes) res" where
  "open_reader d what body = (if slice_reader_ok d body then Ok body else Err (UnexpectedStructure what))"

lemma reader_Ok [res_simps]:
  "next_tlv d w bs = Ok p \<longleftrightarrow> tlv_read d bs = Some p"
  "any_value d w der = Ok q \<longleftrightarrow> any_from_der d der = Some q"
  "open_reader d w body = Ok r \<longleftrightarrow> slice_reader_ok d body \<and> r = body"
  by (auto simp: next_tlv_def any_value_def open_reader_def res_simps)

lemma reader_not_Panic [simp]:
  "next_tlv d w bs \<noteq> Panic" "any_value d w der \<noteq> Panic" "open_reader d w body \<noteq> Panic"
  by (auto simp: next_tlv_def any_value_def open_reader_def)

text \<open>\<open>Name::try_from\<close>\<close>

definition Name_try_from :: "'l der_lib_scheme \<Rightarrow> bytes \<Rightarrow> (x509_error, bytes) res" where
  "Name_try_from d dn =
     and_then (any_value d ''Name not a TLV'' dn) (\<lambda>(tag, _).
     if tag \<noteq> Sequence then Err (UnexpectedStructure ''Name not SEQUENCE'') else Ok dn)"

subsection \<open>Certificates\<close>

record certificate =
  raw_der :: bytes
  tbs_der :: bytes
  serial_der :: bytes
  issuer :: bytes
  subject :: bytes
  not_before :: date_time
  not_after :: date_time
  spki :: bytes
  subject_public_key_bits :: bytes
  extensions :: "bytes option"
  signature_alg_oid :: bytes
  signature_bits :: bytes

datatype signature_algorithm = Sha256WithRsa | Sha384WithRsa | Sha512WithRsa
  | EcdsaWithSha256 | EcdsaWithSha384 | EcdsaWithSha512 | OtherAlgorithm

datatype rsa_verify_error = BadModulus | SignatureOutOfRange | BadPadding | BadDigestInfo | BadDigest

datatype ecdsa_error = EcBadModulus | BadPublicKey | BadSignature | SigOutOfRange | NotInvertible | VerifyFailed

datatype verify_error = UnsupportedAlgorithm signature_algorithm | BadIssuerKey | Rsa rsa_verify_error
  | Ecdsa ecdsa_error

record tbs_signature =
  ts_tbs_der :: bytes
  ts_signature_alg_oid :: bytes
  ts_signature_bits :: bytes
  ts_issuer_spki_der :: bytes

type_synonym verifier = "tbs_signature \<Rightarrow> (verify_error, unit) res"

definition verify_signed_by :: "verifier \<Rightarrow> certificate \<Rightarrow> certificate \<Rightarrow> (verify_error, unit) res" where
  "verify_signed_by verify_tbs cert iss =
     verify_tbs \<lparr>ts_tbs_der = tbs_der cert, ts_signature_alg_oid = signature_alg_oid cert,
                 ts_signature_bits = signature_bits cert, ts_issuer_spki_der = spki iss\<rparr>"

subsection \<open>Looking up one extension\<close>

record extension_meta =
  meta_value :: bytes
  meta_critical :: bool

text \<open>The fields of the extension after its identifier.\<close>

definition extension_fields :: "'l der_lib_scheme \<Rightarrow> bytes \<Rightarrow> extension_meta option" where
  "extension_fields d flds =
     Option.bind (tlv_read d flds) (\<lambda>(t, flds).
     Option.bind (any_from_der d t) (\<lambda>(tag, val).
     Option.bind (if tag = Boolean
                  then Option.bind (tlv_read d flds) (\<lambda>(t, _).
                       Option.bind (any_from_der d t) (\<lambda>next.
                       Some (case val of [] \<Rightarrow> False | b # _ \<Rightarrow> b \<noteq> 0, next)))
                  else Some (False, tag, val)) (\<lambda>(critical, tag, val).
     if tag \<noteq> OctetString then None else Some \<lparr>meta_value = val, meta_critical = critical\<rparr>)))"

function find_extension_loop :: "'l der_lib_scheme \<Rightarrow> bytes \<Rightarrow> bytes \<Rightarrow> extension_meta option" where
  "find_extension_loop d oid_value bs =
     (if bs = [] then None
      else Option.bind (tlv_read d bs) (\<lambda>(t, rest).
           Option.bind (any_from_der d t) (\<lambda>(tag, body).
           if tag \<noteq> Sequence then find_extension_loop d oid_value rest
           else if \<not> slice_reader_ok d body then None
           else Option.bind (tlv_read d body) (\<lambda>(o1, flds).
                Option.bind (any_from_der d o1) (\<lambda>(otag, oid).
                if otag \<noteq> ObjectIdentifier \<or> oid \<noteq> oid_value then find_extension_loop d oid_value rest
                else extension_fields d flds)))))"
  by pat_completeness auto
termination by (relation "measure (length \<circ> snd \<circ> snd)") (auto dest: tlv_read_shorter)

declare find_extension_loop.simps [simp del]

definition find_extension_with_meta :: "'l der_lib_scheme \<Rightarrow> bytes \<Rightarrow> bytes \<Rightarrow> extension_meta option" where
  "find_extension_with_meta d exts oid_value =
     (if slice_reader_ok d exts then find_extension_loop d oid_value exts else None)"

definition extract_key_usage :: "'l der_lib_scheme \<Rightarrow> bytes \<Rightarrow> key_usage option" where
  "extract_key_usage d exts =
     Option.bind (find_extension_with_meta d exts KEY_USAGE) (\<lambda>m.
     case ber_parse_typed (ucast BIT_STRING) (meta_value m) of
       Ok bit_string \<Rightarrow>
         (case typed_value bit_string of
            [] \<Rightarrow> None
          | _ # bits \<Rightarrow>
              let b0 = (case bits of [] \<Rightarrow> 0 | b # _ \<Rightarrow> b); b1 = (case bits of _ # b # _ \<Rightarrow> b | _ \<Rightarrow> 0) in
              Some \<lparr>digital_signature = b0 AND 0x80 \<noteq> 0, non_repudiation = b0 AND 0x40 \<noteq> 0,
                    key_encipherment = b0 AND 0x20 \<noteq> 0, data_encipherment = b0 AND 0x10 \<noteq> 0,
                    key_agreement = b0 AND 0x08 \<noteq> 0, key_cert_sign = b0 AND 0x04 \<noteq> 0,
                    crl_sign = b0 AND 0x02 \<noteq> 0, encipher_only = b0 AND 0x01 \<noteq> 0,
                    decipher_only = b1 AND 0x80 \<noteq> 0\<rparr>)
     | _ \<Rightarrow> None)"

subsection \<open>A concrete reader\<close>

text \<open>DER with one-octet tags and lengths below 128: enough to evaluate the parsers on small inputs.\<close>

definition der_tag_of :: "byte \<Rightarrow> der_tag" where
  "der_tag_of b =
     (if b = 0x01 then Boolean else if b = 0x02 then Integer else if b = 0x03 then BitString
      else if b = 0x04 then OctetString else if b = 0x05 then Null else if b = 0x06 then ObjectIdentifier
      else if b = 0x0A then Enumerated else if b = 0x30 then Sequence else if b = 0x17 then UtcTime
      else if b = 0x18 then GeneralizedTime
      else if b AND 0xC0 = 0x80 then ContextSpecific (b AND 0x20 \<noteq> 0) (unat (b AND 0x1F))
      else OtherTag (unat b))"

definition short_der :: der_lib where
  "short_der =
     \<lparr>tlv_tail = (\<lambda>_ bs. case bs of [] \<Rightarrow> None | n # _ \<Rightarrow> if n < 0x80 then Some (Suc (unat n)) else None),
      any_from_der = (\<lambda>der. case der of
         t # n # val \<Rightarrow> if n < 0x80 \<and> unat n = length val then Some (der_tag_of t, val) else None | _ \<Rightarrow> None),
      slice_reader_ok = (\<lambda>_. True),
      time_from_der = (\<lambda>der. if length der = 3 then Some (unat (der ! 2)) else None),
      generalized_time_from_der = (\<lambda>der. if length der = 3 \<and> der ! 0 = 0x18 then Some (unat (der ! 2)) else None)\<rparr>"

end
