(* ===== verification/Crl.thy ===== *)
theory Crl
  imports Der_Reader
begin

text \<open>
  Certificate revocation lists (\<open>crl.rs\<close>): reason codes, the checks on extensions, the parser of a list, its
  verification against the issuer's certificate, and the lookup of a serial number. The typed decoders of the
  third-party crate \<open>x509-cert\<close> extend the parameter of \<open>Der_Reader\<close>.
\<close>

subsection \<open>Reasons\<close>

datatype crl_reason = Unspecified | KeyCompromise | CaCompromise | AffiliationChanged | Superseded
  | CessationOfOperation | CertificateHold | RemoveFromCrl | PrivilegeWithdrawn | AaCompromise

definition CrlReason_from_code :: "byte \<Rightarrow> crl_reason option" where
  "CrlReason_from_code code =
     (if code = 0 then Some Unspecified else if code = 1 then Some KeyCompromise
      else if code = 2 then Some CaCompromise else if code = 3 then Some AffiliationChanged
      else if code = 4 then Some Superseded else if code = 5 then Some CessationOfOperation
      else if code = 6 then Some CertificateHold else if code = 8 then Some RemoveFromCrl
      else if code = 9 then Some PrivilegeWithdrawn else if code = 10 then Some AaCompromise else None)"

fun CrlReason_code :: "crl_reason \<Rightarrow> byte" where
  "CrlReason_code Unspecified = 0"
| "CrlReason_code KeyCompromise = 1"
| "CrlReason_code CaCompromise = 2"
| "CrlReason_code AffiliationChanged = 3"
| "CrlReason_code Superseded = 4"
| "CrlReason_code CessationOfOperation = 5"
| "CrlReason_code CertificateHold = 6"
| "CrlReason_code RemoveFromCrl = 8"
| "CrlReason_code PrivilegeWithdrawn = 9"
| "CrlReason_code AaCompromise = 10"

fun CrlReason_name :: "crl_reason \<Rightarrow> string" where
  "CrlReason_name Unspecified = ''unspecified''"
| "CrlReason_name KeyCompromise = ''keyCompromise''"
| "CrlReason_name CaCompromise = ''cACompromise''"
| "CrlReason_name AffiliationChanged = ''affiliationChanged''"
| "CrlReason_name Superseded = ''superseded''"
| "CrlReason_name CessationOfOperation = ''cessationOfOperation''"
| "CrlReason_name CertificateHold = ''certificateHold''"
| "CrlReason_name RemoveFromCrl = ''removeFromCRL''"
| "CrlReason_name PrivilegeWithdrawn = ''privilegeWithdrawn''"
| "CrlReason_name AaCompromise = ''aACompromise''"

definition CrlReason_display :: "crl_reason \<Rightarrow> string" where
  "CrlReason_display r = CrlReason_name r @ '' ('' @ hex_04 (CrlReason_code r) @ '')''"

subsection \<open>The typed list\<close>

record crl_extension =
  extn_id :: bytes
  extn_critical :: bool
  extn_value :: bytes

record revoked_cert =
  rc_serial_number :: bytes
  rc_revocation_date :: date_time
  crl_entry_extensions :: "crl_extension list option"

datatype crl_version = V1 | V2 | V3

record certificate_list =
  cl_tbs_signature :: "bytes \<times> bytes option"
  cl_signature_algorithm :: "bytes \<times> bytes option"
  cl_version :: crl_version
  cl_revoked_certificates :: "revoked_cert list option"
  cl_crl_extensions :: "crl_extension list option"

record crl_lib = der_lib +
  certificate_list_from_der :: "bytes \<Rightarrow> certificate_list option"
  revoked_cert_from_der :: "bytes \<Rightarrow> revoked_cert option"

definition OID_CRL_REASONS :: bytes where "OID_CRL_REASONS = oid_dotted [2, 5, 29, 21]"
definition OID_AUTHORITY_KEY_IDENTIFIER :: bytes where "OID_AUTHORITY_KEY_IDENTIFIER = oid_dotted [2, 5, 29, 35]"
definition OID_ISSUER_ALT_NAME :: bytes where "OID_ISSUER_ALT_NAME = oid_dotted [2, 5, 29, 18]"
definition OID_CRL_NUMBER :: bytes where "OID_CRL_NUMBER = oid_dotted [2, 5, 29, 20]"
definition OID_DELTA_CRL_INDICATOR :: bytes where "OID_DELTA_CRL_INDICATOR = oid_dotted [2, 5, 29, 27]"
definition OID_ISSUING_DISTRIBUTION_POINT :: bytes where "OID_ISSUING_DISTRIBUTION_POINT = oid_dotted [2, 5, 29, 28]"
definition OID_FRESHEST_CRL :: bytes where "OID_FRESHEST_CRL = oid_dotted [2, 5, 29, 46]"
definition OID_HOLD_INSTRUCTION_CODE :: bytes where "OID_HOLD_INSTRUCTION_CODE = oid_dotted [2, 5, 29, 23]"
definition OID_INVALIDITY_DATE :: bytes where "OID_INVALIDITY_DATE = oid_dotted [2, 5, 29, 24]"
definition OID_CERTIFICATE_ISSUER :: bytes where "OID_CERTIFICATE_ISSUER = oid_dotted [2, 5, 29, 29]"

subsection \<open>Extensions\<close>

datatype crl_extension_scope = CrlScope | EntryScope

definition recognized :: "crl_extension_scope \<Rightarrow> bytes \<Rightarrow> bool" where
  "recognized scope oid =
     (case scope of
        CrlScope \<Rightarrow> oid \<in> {OID_AUTHORITY_KEY_IDENTIFIER, OID_ISSUER_ALT_NAME, OID_CRL_NUMBER, OID_FRESHEST_CRL}
      | EntryScope \<Rightarrow> oid \<in> {OID_CRL_REASONS, OID_HOLD_INSTRUCTION_CODE, OID_INVALIDITY_DATE})"

fun validate_loop :: "crl_extension_scope \<Rightarrow> bytes list \<Rightarrow> crl_extension list \<Rightarrow> (x509_error, unit) res" where
  "validate_loop scope seen [] = Ok ()"
| "validate_loop scope seen (e # es) =
     (if extn_id e \<in> set seen then Err (UnexpectedStructure ''duplicate CRL extension OID'')
      else if scope = CrlScope \<and> (extn_id e = OID_DELTA_CRL_INDICATOR \<or> extn_id e = OID_ISSUING_DISTRIBUTION_POINT)
      then Err (UnexpectedStructure ''delta, indirect, or scoped CRL unsupported'')
      else if scope = EntryScope \<and> extn_id e = OID_CERTIFICATE_ISSUER
      then Err (UnexpectedStructure ''indirect CRL entry unsupported'')
      else if extn_critical e \<and> \<not> recognized scope (extn_id e)
      then Err (UnexpectedStructure ''unsupported critical CRL extension'')
      else validate_loop scope (seen @ [extn_id e]) es)"

definition validate_extensions :: "crl_extension list \<Rightarrow> crl_extension_scope \<Rightarrow> (x509_error, unit) res" where
  "validate_extensions exts scope =
     (if exts = [] then Err (UnexpectedStructure ''empty CRL Extensions'') else validate_loop scope [] exts)"

fun validate_entries :: "revoked_cert list \<Rightarrow> (x509_error, unit) res" where
  "validate_entries [] = Ok ()"
| "validate_entries (e # es) =
     and_then (case crl_entry_extensions e of None \<Rightarrow> Ok () | Some exts \<Rightarrow> validate_extensions exts EntryScope)
       (\<lambda>_. validate_entries es)"

definition validate_typed_crl :: "'l crl_lib_scheme \<Rightarrow> bytes \<Rightarrow> (x509_error, unit) res" where
  "validate_typed_crl d der =
     and_then (ok_or (certificate_list_from_der d der) (UnexpectedStructure ''malformed CertificateList'')) (\<lambda>list.
     if cl_tbs_signature list \<noteq> cl_signature_algorithm list
     then Err (UnexpectedStructure ''CRL signature algorithms differ'')
     else
       let has_entry_extensions = (case cl_revoked_certificates list of None \<Rightarrow> False
             | Some entries \<Rightarrow> list_ex (\<lambda>e. crl_entry_extensions e \<noteq> None) entries) in
       if (cl_crl_extensions list \<noteq> None \<or> has_entry_extensions) \<and> cl_version list \<noteq> V2
       then Err (UnexpectedStructure ''CRL extensions require version 2'')
       else
         and_then (case cl_crl_extensions list of None \<Rightarrow> Ok () | Some exts \<Rightarrow> validate_extensions exts CrlScope) (\<lambda>_.
         case cl_revoked_certificates list of None \<Rightarrow> Ok () | Some entries \<Rightarrow> validate_entries entries))"

subsection \<open>The parser\<close>

record crl =
  crl_raw_der :: bytes
  crl_tbs_der :: bytes
  crl_issuer :: bytes
  crl_this_update :: date_time
  crl_next_update :: "date_time option"
  revoked_seq_value :: "bytes option"
  crl_signature_alg_oid :: bytes
  crl_signature_bits :: bytes

text \<open>The optional fields after \<open>thisUpdate\<close>.\<close>

function crl_tail :: "'l der_lib_scheme \<Rightarrow> date_time option \<Rightarrow> bytes option \<Rightarrow> bool \<Rightarrow> bytes
    \<Rightarrow> (x509_error, date_time option \<times> bytes option) res" where
  "crl_tail d next revoked saw_extensions bs =
     (if bs = [] then Ok (next, revoked)
      else
        and_then (next_tlv d ''tbsCertList trailing field'' bs) (\<lambda>(field, rest).
        and_then (any_value d ''tbsCertList trailing field'' field) (\<lambda>(tag, val).
        if tag \<in> {UtcTime, GeneralizedTime} \<and> next = None \<and> revoked = None \<and> \<not> saw_extensions then
          and_then (ok_or (time_from_der d field) InvalidTime) (\<lambda>t. crl_tail d (Some t) revoked saw_extensions rest)
        else if tag = Sequence \<and> revoked = None \<and> \<not> saw_extensions then crl_tail d next (Some val) saw_extensions rest
        else if tag = ContextSpecific True 0 \<and> \<not> saw_extensions then crl_tail d next revoked True rest
        else Err (UnexpectedStructure ''unexpected CRL field''))))"
  by pat_completeness auto
termination by (relation "measure (\<lambda>(d, n, r, s, bs). length bs)") (auto simp: res_simps dest: tlv_read_shorter)

declare crl_tail.simps [simp del]

definition parse_tbs_cert_list :: "'l der_lib_scheme \<Rightarrow> bytes \<Rightarrow> bytes \<Rightarrow> bytes \<Rightarrow> bytes \<Rightarrow> bytes \<Rightarrow> (x509_error, crl) res" where
  "parse_tbs_cert_list d tbs raw outer_signature_algorithm_der sig_oid sig_bits =
     and_then (any_value d ''tbsCertList not a TLV'' tbs) (\<lambda>(tag, body).
     if tag \<noteq> Sequence then Err (UnexpectedStructure ''tbsCertList not SEQUENCE'')
     else
       and_then (open_reader d ''tbsCertList body'' body) (\<lambda>reader.
       and_then (next_tlv d ''tbsCertList version/signature'' reader) (\<lambda>(first_der, reader).
       and_then (any_value d ''tbsCertList version/signature'' first_der) (\<lambda>(tag, val).
       and_then (if tag = Integer then
                   if val \<noteq> [1] then Err (UnexpectedStructure ''CRL version is not v2'')
                   else next_tlv d ''tbsCertList signature'' reader
                 else Ok (first_der, reader)) (\<lambda>(tbs_signature_algorithm_der, reader).
       if tbs_signature_algorithm_der \<noteq> outer_signature_algorithm_der
       then Err (UnexpectedStructure ''CRL signature algorithms differ'')
       else
         and_then (next_tlv d ''tbsCertList issuer'' reader) (\<lambda>(issuer_dn_der, reader).
         and_then (next_tlv d ''tbsCertList thisUpdate'' reader) (\<lambda>(this_der, reader).
         and_then (ok_or (time_from_der d this_der) InvalidTime) (\<lambda>this.
         and_then (crl_tail d None None False reader) (\<lambda>(next, revoked).
         Ok \<lparr>crl_raw_der = raw, crl_tbs_der = tbs, crl_issuer = issuer_dn_der, crl_this_update = this,
             crl_next_update = next, revoked_seq_value = revoked, crl_signature_alg_oid = sig_oid,
             crl_signature_bits = sig_bits\<rparr>)))))))))"

text \<open>The object identifier of the outer \<open>signatureAlgorithm\<close>, and the octets of the signature.\<close>

definition crl_algorithm :: "'l der_lib_scheme \<Rightarrow> bytes \<Rightarrow> (x509_error, bytes) res" where
  "crl_algorithm d sig_alg_der =
     and_then (any_value d ''CRL signatureAlgorithm'' sig_alg_der) (\<lambda>(tag, body).
     if tag \<noteq> Sequence then Err (UnexpectedStructure ''CRL signatureAlgorithm not SEQUENCE'')
     else
       and_then (open_reader d ''CRL signatureAlgorithm body'' body) (\<lambda>alg_reader.
       and_then (next_tlv d ''CRL signatureAlgorithm OID'' alg_reader) (\<lambda>(oid_der, alg_reader).
       and_then (any_value d ''CRL signatureAlgorithm OID'' oid_der) (\<lambda>(tag, oid).
       if tag \<noteq> ObjectIdentifier then Err (UnexpectedStructure ''CRL signatureAlgorithm OID'')
       else if alg_reader = [] then Ok oid
       else
         and_then (next_tlv d ''CRL signatureAlgorithm parameters'' alg_reader) (\<lambda>(_, alg_reader).
         if alg_reader \<noteq> [] then Err (UnexpectedStructure ''CRL signatureAlgorithm trailing fields'')
         else Ok oid)))))"

definition crl_signature :: "'l der_lib_scheme \<Rightarrow> bytes \<Rightarrow> (x509_error, bytes) res" where
  "crl_signature d sig_der =
     and_then (any_value d ''CRL signature'' sig_der) (\<lambda>(tag, val).
     if tag \<noteq> BitString then Err (UnexpectedStructure ''CRL signature not BIT STRING'')
     else (case val of
        [] \<Rightarrow> Err (UnexpectedStructure ''CRL signature BIT STRING empty'')
      | unused_bits # bits \<Rightarrow>
          if unused_bits \<noteq> 0 then Err (UnexpectedStructure ''CRL signature has unused bits'') else Ok bits))"

definition Crl_parse :: "'l crl_lib_scheme \<Rightarrow> bytes \<Rightarrow> (x509_error, crl) res" where
  "Crl_parse d der =
     and_then (validate_typed_crl d der) (\<lambda>_.
     and_then (any_value d ''CRL not a TLV'' der) (\<lambda>(tag, outer).
     if tag \<noteq> Sequence then Err (UnexpectedStructure ''CRL not SEQUENCE'')
     else
       and_then (open_reader d ''CRL body'' outer) (\<lambda>reader.
       and_then (next_tlv d ''tbsCertList'' reader) (\<lambda>(tbs, reader).
       and_then (next_tlv d ''CRL signatureAlgorithm'' reader) (\<lambda>(sig_alg_der, reader).
       and_then (crl_algorithm d sig_alg_der) (\<lambda>sig_oid.
       and_then (next_tlv d ''CRL signature'' reader) (\<lambda>(sig_der, reader).
       and_then (crl_signature d sig_der) (\<lambda>sig_bits.
       if reader \<noteq> [] then Err (UnexpectedStructure ''CRL trailing CertificateList fields'')
       else parse_tbs_cert_list d tbs der sig_alg_der sig_oid sig_bits))))))))"

definition OwnedCrl_from_der :: "'l crl_lib_scheme \<Rightarrow> bytes \<Rightarrow> (x509_error, bytes) res" where
  "OwnedCrl_from_der d der = and_then (Crl_parse d der) (\<lambda>_. Ok der)"

definition OwnedCrl_view :: "'l crl_lib_scheme \<Rightarrow> bytes \<Rightarrow> (x509_error, crl) res" where
  "OwnedCrl_view d der = (case Crl_parse d der of Ok c \<Rightarrow> Ok c | _ \<Rightarrow> Panic)"

subsection \<open>Revoked entries\<close>

record revoked_entry =
  entry_serial :: bytes
  entry_revocation_date :: date_time
  entry_reason :: "crl_reason option"

definition find_reason_code :: "'l der_lib_scheme \<Rightarrow> crl_extension list \<Rightarrow> crl_reason option" where
  "find_reason_code d exts =
     Option.bind (find (\<lambda>e. extn_id e = OID_CRL_REASONS) exts) (\<lambda>e.
     Option.bind (any_from_der d (extn_value e)) (\<lambda>(tag, val).
     if tag \<noteq> Enumerated then None
     else if length val = 1 then CrlReason_from_code (hd val) else None))"

definition to_entry :: "'l der_lib_scheme \<Rightarrow> revoked_cert \<Rightarrow> revoked_entry" where
  "to_entry d c =
     \<lparr>entry_serial = rc_serial_number c, entry_revocation_date = rc_revocation_date c,
      entry_reason = Option.bind (crl_entry_extensions c) (find_reason_code d)\<rparr>"

function revoked_iter :: "'l crl_lib_scheme \<Rightarrow> bytes \<Rightarrow> revoked_entry list" where
  "revoked_iter d bs =
     (if bs = [] then []
      else (case tlv_read d bs of
        None \<Rightarrow> []
      | Some (t, rest) \<Rightarrow>
          (case revoked_cert_from_der d t of
             None \<Rightarrow> []
           | Some c \<Rightarrow> to_entry d c # revoked_iter d rest)))"
  by pat_completeness auto
termination by (relation "measure (length \<circ> snd)") (auto dest: tlv_read_shorter)

declare revoked_iter.simps [simp del]

definition crl_entries :: "'l crl_lib_scheme \<Rightarrow> crl \<Rightarrow> revoked_entry list" where
  "crl_entries d c = (case revoked_seq_value c of
     None \<Rightarrow> [] | Some body \<Rightarrow> if slice_reader_ok d body then revoked_iter d body else [])"

definition crl_find_serial :: "'l crl_lib_scheme \<Rightarrow> crl \<Rightarrow> bytes \<Rightarrow> revoked_entry option" where
  "crl_find_serial d c serial = find (\<lambda>e. entry_serial e = serial) (crl_entries d c)"

subsection \<open>Verification\<close>

datatype crl_verify_error = IssuerNameMismatch | IssuerNotAuthorized | CrlSignature verify_error

definition crl_verify_signature :: "verifier \<Rightarrow> crl \<Rightarrow> bytes \<Rightarrow> (verify_error, unit) res" where
  "crl_verify_signature verify_tbs c issuer_spki_der =
     verify_tbs \<lparr>ts_tbs_der = crl_tbs_der c, ts_signature_alg_oid = crl_signature_alg_oid c,
                 ts_signature_bits = crl_signature_bits c, ts_issuer_spki_der = issuer_spki_der\<rparr>"

definition VerifiedCrl_verify :: "'l der_lib_scheme \<Rightarrow> verifier \<Rightarrow> crl \<Rightarrow> certificate \<Rightarrow> (crl_verify_error, crl) res" where
  "VerifiedCrl_verify d verify_tbs c iss =
     (if crl_issuer c \<noteq> subject iss then Err IssuerNameMismatch
      else if \<not> (case Option.bind (extensions iss) (extract_key_usage d) of None \<Rightarrow> False | Some usage \<Rightarrow> crl_sign usage)
      then Err IssuerNotAuthorized
      else and_then (map_err CrlSignature (crl_verify_signature verify_tbs c (spki iss))) (\<lambda>_. Ok c))"

subsection \<open>What the parser accepts\<close>

lemma reason_code_iff: "CrlReason_from_code b = Some r \<longleftrightarrow> b = CrlReason_code r"
  by (cases r) (auto simp: CrlReason_from_code_def)

definition extension_allowed :: "crl_extension_scope \<Rightarrow> crl_extension \<Rightarrow> bool" where
  "extension_allowed scope e \<longleftrightarrow>
     extn_id e \<notin> (case scope of CrlScope \<Rightarrow> {OID_DELTA_CRL_INDICATOR, OID_ISSUING_DISTRIBUTION_POINT}
                            | EntryScope \<Rightarrow> {OID_CERTIFICATE_ISSUER})
     \<and> (extn_critical e \<longrightarrow> recognized scope (extn_id e))"

lemma validate_loop_exact:
  "validate_loop scope seen es = Ok () \<longleftrightarrow>
     distinct (map extn_id es) \<and> set (map extn_id es) \<inter> set seen = {} \<and> list_all (extension_allowed scope) es"
  by (induction scope seen es rule: validate_loop.induct)
     (auto simp: extension_allowed_def split: crl_extension_scope.splits)

lemma validate_extensions_exact:
  "validate_extensions es scope = Ok () \<longleftrightarrow>
     es \<noteq> [] \<and> distinct (map extn_id es) \<and> list_all (extension_allowed scope) es"
  by (simp add: validate_extensions_def validate_loop_exact)

lemma validate_entries_exact:
  "validate_entries es = Ok () \<longleftrightarrow>
     list_all (\<lambda>e. \<forall>exts. crl_entry_extensions e = Some exts \<longrightarrow> validate_extensions exts EntryScope = Ok ()) es"
  by (induction es) (auto simp: res_simps split: option.splits)

definition crl_extensions_ok :: "certificate_list \<Rightarrow> bool" where
  "crl_extensions_ok l \<longleftrightarrow>
     cl_tbs_signature l = cl_signature_algorithm l
     \<and> (case cl_crl_extensions l of None \<Rightarrow> True
        | Some exts \<Rightarrow> cl_version l = V2 \<and> exts \<noteq> [] \<and> distinct (map extn_id exts)
                       \<and> list_all (extension_allowed CrlScope) exts)
     \<and> (case cl_revoked_certificates l of None \<Rightarrow> True
        | Some entries \<Rightarrow> list_all (\<lambda>e. case crl_entry_extensions e of None \<Rightarrow> True
            | Some exts \<Rightarrow> cl_version l = V2 \<and> exts \<noteq> [] \<and> distinct (map extn_id exts)
                           \<and> list_all (extension_allowed EntryScope) exts) entries)"

lemma validate_typed_crl_exact:
  "validate_typed_crl d der = Ok () \<longleftrightarrow> (\<exists>l. certificate_list_from_der d der = Some l \<and> crl_extensions_ok l)"
proof (cases "certificate_list_from_der d der")
  case (Some l)
  then show ?thesis
    by (cases "cl_crl_extensions l"; cases "cl_revoked_certificates l"; cases "cl_version l = V2")
       (auto simp: validate_typed_crl_def crl_extensions_ok_def res_simps validate_extensions_exact
          validate_entries_exact list_all_iff list_ex_iff split: option.splits)
qed (simp add: validate_typed_crl_def)

text \<open>The optional fields in their order, each at most once.\<close>

definition extensions_field :: "'l der_lib_scheme \<Rightarrow> bytes list \<Rightarrow> bool" where
  "extensions_field d fs \<longleftrightarrow> fs = [] \<or> (\<exists>f val. fs = [f] \<and> any_from_der d f = Some (ContextSpecific True 0, val))"

definition revoked_fields :: "'l der_lib_scheme \<Rightarrow> bytes option \<Rightarrow> bytes list \<Rightarrow> bool" where
  "revoked_fields d revoked fs \<longleftrightarrow>
     (case revoked of
        None \<Rightarrow> extensions_field d fs
      | Some body \<Rightarrow> \<exists>f es. fs = f # es \<and> any_from_der d f = Some (Sequence, body) \<and> extensions_field d es)"

definition tail_fields :: "'l der_lib_scheme \<Rightarrow> date_time option \<Rightarrow> bytes option \<Rightarrow> bytes list \<Rightarrow> bool" where
  "tail_fields d next revoked fs \<longleftrightarrow>
     (case next of
        None \<Rightarrow> revoked_fields d revoked fs
      | Some t \<Rightarrow> \<exists>f rs tag val. fs = f # rs \<and> any_from_der d f = Some (tag, val)
          \<and> tag \<in> {UtcTime, GeneralizedTime} \<and> time_from_der d f = Some t \<and> revoked_fields d revoked rs)"

lemma field_simps [simp]:
  "extensions_field d []"
  "extensions_field d (f # fs) \<longleftrightarrow> fs = [] \<and> (\<exists>val. any_from_der d f = Some (ContextSpecific True 0, val))"
  "revoked_fields d r [] \<longleftrightarrow> r = None"
  "revoked_fields d r (f # fs) \<longleftrightarrow>
     (case r of None \<Rightarrow> extensions_field d (f # fs)
      | Some body \<Rightarrow> any_from_der d f = Some (Sequence, body) \<and> extensions_field d fs)"
  "tail_fields d n r [] \<longleftrightarrow> n = None \<and> r = None"
  by (auto simp: extensions_field_def revoked_fields_def tail_fields_def split: option.splits)

lemma crl_tail_saw:
  "crl_tail d next revoked True bs = Ok r \<longleftrightarrow> bs = [] \<and> r = (next, revoked)"
  by (subst crl_tail.simps) (auto simp: res_simps split: prod.splits)

lemma crl_tail_revoked:
  "crl_tail d next (Some body) False bs = Ok r \<longleftrightarrow>
     r = (next, Some body) \<and> (\<exists>fs. tlv_all d bs = Some fs \<and> extensions_field d fs)"
  by (subst crl_tail.simps, subst ex_tlv_all)
     (auto simp: res_simps crl_tail_saw split: prod.splits if_splits)

lemma crl_tail_next:
  "crl_tail d (Some t) None False bs = Ok (n, r) \<longleftrightarrow>
     n = Some t \<and> (\<exists>fs. tlv_all d bs = Some fs \<and> revoked_fields d r fs)"
  by (subst crl_tail.simps, subst ex_tlv_all)
     (auto simp: res_simps crl_tail_saw crl_tail_revoked split: prod.splits if_splits option.splits)

lemma crl_tail_exact:
  "crl_tail d None None False bs = Ok (n, r) \<longleftrightarrow> (\<exists>fs. tlv_all d bs = Some fs \<and> tail_fields d n r fs)"
proof (cases "bs = []")
  case False
  show ?thesis
    by (subst crl_tail.simps, subst ex_tlv_all)
     (use False in \<open>cases n; auto simp: res_simps crl_tail_saw crl_tail_revoked crl_tail_next tail_fields_def
        split: prod.splits if_splits option.splits\<close>)
qed (subst crl_tail.simps, auto)

definition algorithm_grammar :: "'l der_lib_scheme \<Rightarrow> bytes \<Rightarrow> bytes \<Rightarrow> bool" where
  "algorithm_grammar d alg oid \<longleftrightarrow>
     (\<exists>body o1 ps. any_from_der d alg = Some (Sequence, body) \<and> slice_reader_ok d body
        \<and> tlv_all d body = Some (o1 # ps) \<and> length ps \<le> 1 \<and> any_from_der d o1 = Some (ObjectIdentifier, oid))"

lemma at_most_one_TLV:
  "(\<exists>ps. tlv_all d bs = Some ps \<and> length ps \<le> 1) \<longleftrightarrow> bs = [] \<or> (\<exists>t. tlv_read d bs = Some (t, []))"
  by (subst ex_tlv_all) (auto simp: res_simps le_Suc_eq)

lemma crl_algorithm_Ok: "crl_algorithm d alg = Ok oid \<longleftrightarrow> algorithm_grammar d alg oid"
proof -
  have "algorithm_grammar d alg oid \<longleftrightarrow>
      (\<exists>body o1 rest. any_from_der d alg = Some (Sequence, body) \<and> slice_reader_ok d body
        \<and> tlv_read d body = Some (o1, rest) \<and> any_from_der d o1 = Some (ObjectIdentifier, oid)
        \<and> (\<exists>ps. tlv_all d rest = Some ps \<and> length ps \<le> 1))"
    unfolding algorithm_grammar_def by (simp only: tlv_all_eq_Cons) blast
  then show ?thesis
    unfolding at_most_one_TLV by (auto simp: crl_algorithm_def res_simps split: prod.splits if_splits)
qed

lemma crl_signature_Ok: "crl_signature d sig = Ok bits \<longleftrightarrow> any_from_der d sig = Some (BitString, 0 # bits)"
  by (cases "any_from_der d sig")
     (auto simp: crl_signature_def any_value_def split: prod.splits list.splits if_splits)

definition version_field :: "'l der_lib_scheme \<Rightarrow> bytes list \<Rightarrow> bool" where
  "version_field d vs \<longleftrightarrow> vs = [] \<or> (\<exists>v. vs = [v] \<and> any_from_der d v = Some (Integer, [1]))"

definition tbs_grammar :: "'l der_lib_scheme \<Rightarrow> bytes \<Rightarrow> crl \<Rightarrow> bool" where
  "tbs_grammar d alg c \<longleftrightarrow>
     (\<exists>body vs this tail. any_from_der d (crl_tbs_der c) = Some (Sequence, body) \<and> slice_reader_ok d body
        \<and> tlv_all d body = Some (vs @ alg # crl_issuer c # this # tail) \<and> version_field d vs
        \<and> time_from_der d this = Some (crl_this_update c)
        \<and> tail_fields d (crl_next_update c) (revoked_seq_value c) tail)"

lemma parse_tbs_cert_list_Ok:
  assumes "any_from_der d alg = Some (Sequence, alg_body)"
  shows "parse_tbs_cert_list d tbs raw alg oid bits = Ok c \<longleftrightarrow>
     tbs_grammar d alg c \<and> crl_tbs_der c = tbs \<and> crl_raw_der c = raw \<and> crl_signature_alg_oid c = oid
     \<and> crl_signature_bits c = bits" (is "?parse \<longleftrightarrow> ?spec")
proof
  assume ?parse
  then show ?spec
    using assms by (auto simp: parse_tbs_cert_list_def tbs_grammar_def version_field_def res_simps crl_tail_exact
        split: prod.splits if_splits) (metis append_Cons append_Nil tlv_all_eq_Cons)+
next
  assume spec: ?spec
  then obtain body vs this tail where fields:
      "any_from_der d tbs = Some (Sequence, body)" "slice_reader_ok d body" "version_field d vs"
      "tlv_all d body = Some (vs @ alg # crl_issuer c # this # tail)" "time_from_der d this = Some (crl_this_update c)"
      "tail_fields d (crl_next_update c) (revoked_seq_value c) tail"
    by (auto simp: tbs_grammar_def)
  then have tail: "tlv_all d bs = Some tail \<Longrightarrow> crl_tail d None None False bs = Ok (crl_next_update c, revoked_seq_value c)" for bs
    by (auto simp: crl_tail_exact)
  from spec fields assms show ?parse
    by (cases c) (auto simp: parse_tbs_cert_list_def version_field_def tlv_all_eq_Cons next_tlv_def any_value_def
        open_reader_def tail)
qed

definition crl_grammar :: "'l der_lib_scheme \<Rightarrow> bytes \<Rightarrow> crl \<Rightarrow> bool" where
  "crl_grammar d der c \<longleftrightarrow>
     (\<exists>outer alg sig. any_from_der d der = Some (Sequence, outer) \<and> slice_reader_ok d outer
        \<and> tlv_all d outer = Some [crl_tbs_der c, alg, sig] \<and> algorithm_grammar d alg (crl_signature_alg_oid c)
        \<and> any_from_der d sig = Some (BitString, 0 # crl_signature_bits c) \<and> tbs_grammar d alg c)"

text \<open>C23. The parser of revocation lists accepts exactly the grammar of RFC 5280 with the restrictions of this
  program. A list is accepted iff the typed decoder accepts it, its extensions and those of every entry are not
  empty, not repeated, of version 2, none of them makes the list a delta, a scoped or an indirect one and every
  critical one is among the processed ones; and its bytes are a SEQUENCE of exactly three fields, the signed part,
  the algorithm and a BIT STRING without unused bits, where the signed part has an optional version 2, the same
  algorithm byte for byte, the issuer, \<open>thisUpdate\<close>, and then \<open>nextUpdate\<close>, the revoked entries and the extensions,
  each optional, at most once and in this order. The fields of the result are these parts of the input.\<close>

theorem crl_parse_exact:
  "Crl_parse d der = Ok c \<longleftrightarrow>
     (\<exists>l. certificate_list_from_der d der = Some l \<and> crl_extensions_ok l) \<and> crl_grammar d der c \<and> crl_raw_der c = der"
proof -
  have tbs: "algorithm_grammar d alg oid' \<Longrightarrow> parse_tbs_cert_list d tbs raw alg oid bits = Ok c \<longleftrightarrow>
      tbs_grammar d alg c \<and> crl_tbs_der c = tbs \<and> crl_raw_der c = raw \<and> crl_signature_alg_oid c = oid
      \<and> crl_signature_bits c = bits" for alg oid' tbs raw oid bits
    by (auto simp: algorithm_grammar_def parse_tbs_cert_list_Ok)
  have "Crl_parse d der = Ok c \<longleftrightarrow> validate_typed_crl d der = Ok () \<and> crl_grammar d der c \<and> crl_raw_der c = der"
    unfolding Crl_parse_def crl_grammar_def
    by (auto simp: res_simps crl_algorithm_Ok crl_signature_Ok tbs split: prod.splits if_splits)
  then show ?thesis by (simp only: validate_typed_crl_exact)
qed

subsection \<open>The entries of a list\<close>

lemma revoked_iter_complete:
  "tlv_all d bs = Some ts \<Longrightarrow> map (revoked_cert_from_der d) ts = map Some cs \<Longrightarrow> revoked_iter d bs = map (to_entry d) cs"
proof (induction ts arbitrary: bs cs)
  case (Cons t ts)
  then show ?case by (cases cs; subst revoked_iter.simps) (auto simp: res_simps)
qed (simp add: res_simps revoked_iter.simps)

text \<open>An entry that cannot be decoded ends the iteration: the entries after it are never reached.\<close>

lemma revoked_iter_stops:
  "tlv_all d bs = Some (ts @ bad # ts2) \<Longrightarrow> map (revoked_cert_from_der d) ts = map Some cs
     \<Longrightarrow> revoked_cert_from_der d bad = None \<Longrightarrow> revoked_iter d bs = map (to_entry d) cs"
proof (induction ts arbitrary: bs cs)
  case Nil
  then show ?case by (subst revoked_iter.simps) (auto simp: res_simps)
next
  case (Cons t ts)
  then show ?case by (cases cs; subst revoked_iter.simps) (auto simp: res_simps)
qed

text \<open>What the crate documents of its two decoders: the typed list holds the decoded elements of the SEQUENCE of
  revoked entries.\<close>

definition typed_decoder_agrees :: "'l crl_lib_scheme \<Rightarrow> crl \<Rightarrow> bool" where
  "typed_decoder_agrees d c \<longleftrightarrow>
     (\<forall>l. certificate_list_from_der d (crl_raw_der c) = Some l \<longrightarrow>
        (case cl_revoked_certificates l of
           None \<Rightarrow> revoked_seq_value c = None
         | Some cs \<Rightarrow> \<exists>body ts. revoked_seq_value c = Some body \<and> slice_reader_ok d body
             \<and> tlv_all d body = Some ts \<and> map (revoked_cert_from_der d) ts = map Some cs))"

definition typed_entries :: "certificate_list \<Rightarrow> revoked_cert list" where
  "typed_entries l = (case cl_revoked_certificates l of None \<Rightarrow> [] | Some cs \<Rightarrow> cs)"

lemma crl_entries_typed:
  assumes "certificate_list_from_der d (crl_raw_der c) = Some l" and "typed_decoder_agrees d c"
  shows "crl_entries d c = map (to_entry d) (typed_entries l)"
  using assms
  by (cases "cl_revoked_certificates l")
     (auto simp: typed_decoder_agrees_def typed_entries_def crl_entries_def revoked_iter_complete)

lemma VerifiedCrl_verify_Ok:
  "VerifiedCrl_verify d verify_tbs c iss = Ok v \<longleftrightarrow>
     v = c \<and> crl_issuer c = subject iss
     \<and> (\<exists>exts usage. extensions iss = Some exts \<and> extract_key_usage d exts = Some usage \<and> crl_sign usage)
     \<and> crl_verify_signature verify_tbs c (spki iss) = Ok ()"
  by (auto simp: VerifiedCrl_verify_def res_simps bind_eq_Some_conv split: option.splits if_splits)

end
