(* ===== verification/Ocsp.thy ===== *)
theory Ocsp
  imports Crl
begin

text \<open>
  The online certificate status protocol (\<open>ocsp.rs\<close>): the request, the parser of a response, and the verification of
  a response with the authorisation of its signer. The hash function SHA-1 and the signature verifier are
  arguments.
\<close>

subsection \<open>Requests\<close>

definition OID_SHA1 :: bytes where "OID_SHA1 = oid_dotted [1, 3, 14, 3, 2, 26]"
definition OID_OCSP_NONCE :: bytes where "OID_OCSP_NONCE = oid_dotted [1, 3, 6, 1, 5, 5, 7, 48, 1, 2]"
definition BASIC_OCSP_RESPONSE :: bytes where "BASIC_OCSP_RESPONSE = oid_dotted [1, 3, 6, 1, 5, 5, 7, 48, 1, 1]"

abbreviation TAG_BOOLEAN :: byte where "TAG_BOOLEAN \<equiv> 0x01"
abbreviation TAG_INTEGER :: byte where "TAG_INTEGER \<equiv> 0x02"
abbreviation TAG_OCTET_STRING :: byte where "TAG_OCTET_STRING \<equiv> 0x04"
abbreviation TAG_NULL :: byte where "TAG_NULL \<equiv> 0x05"
abbreviation TAG_OID :: byte where "TAG_OID \<equiv> 0x06"
abbreviation TAG_SEQUENCE :: byte where "TAG_SEQUENCE \<equiv> 0x30"
abbreviation TAG_CONTEXT_0_PRIMITIVE :: byte where "TAG_CONTEXT_0_PRIMITIVE \<equiv> 0x80"
abbreviation TAG_CONTEXT_2_PRIMITIVE :: byte where "TAG_CONTEXT_2_PRIMITIVE \<equiv> 0x82"
abbreviation TAG_CONTEXT_0 :: byte where "TAG_CONTEXT_0 \<equiv> 0xA0"
abbreviation TAG_CONTEXT_1 :: byte where "TAG_CONTEXT_1 \<equiv> 0xA1"
abbreviation TAG_CONTEXT_2 :: byte where "TAG_CONTEXT_2 \<equiv> 0xA2"

text \<open>The \<open>CertID\<close> of the request, and the request around it.\<close>

definition encode_cert_id :: "bytes \<Rightarrow> bytes \<Rightarrow> bytes \<Rightarrow> (x509_error, bytes) res" where
  "encode_cert_id issuer_name_sha1 issuer_key_sha1 serial =
     and_then (tlv TAG_OID OID_SHA1) (\<lambda>oid.
     and_then (tlv TAG_NULL []) (\<lambda>null.
     and_then (tlv TAG_SEQUENCE (oid @ null)) (\<lambda>algorithm.
     and_then (tlv TAG_OCTET_STRING issuer_name_sha1) (\<lambda>name_hash.
     and_then (tlv TAG_OCTET_STRING issuer_key_sha1) (\<lambda>key_hash.
     and_then (tlv TAG_INTEGER serial) (\<lambda>number.
     Ok (algorithm @ name_hash @ key_hash @ number)))))))"

definition encode_nonce :: "bytes \<Rightarrow> (x509_error, bytes) res" where
  "encode_nonce nonce =
     and_then (tlv TAG_OID OID_OCSP_NONCE) (\<lambda>oid.
     and_then (tlv TAG_OCTET_STRING nonce) (\<lambda>inner.
     and_then (tlv TAG_OCTET_STRING inner) (\<lambda>value.
     and_then (tlv TAG_SEQUENCE (oid @ value)) (\<lambda>extension.
     and_then (tlv TAG_SEQUENCE extension) (\<lambda>exts.
     tlv TAG_CONTEXT_2 exts)))))"

definition encode_request :: "bytes \<Rightarrow> bytes \<Rightarrow> bytes \<Rightarrow> bytes option \<Rightarrow> (x509_error, bytes) res" where
  "encode_request issuer_name_sha1 issuer_key_sha1 serial nonce =
     and_then (encode_cert_id issuer_name_sha1 issuer_key_sha1 serial) (\<lambda>cert_id.
     and_then (tlv TAG_SEQUENCE cert_id) (\<lambda>req_cert.
     and_then (tlv TAG_SEQUENCE req_cert) (\<lambda>request.
     and_then (tlv TAG_SEQUENCE request) (\<lambda>request_list.
     and_then (case nonce of None \<Rightarrow> Ok [] | Some n \<Rightarrow> encode_nonce n) (\<lambda>exts.
     and_then (tlv TAG_SEQUENCE (request_list @ exts)) (\<lambda>tbs_request.
     tlv TAG_SEQUENCE tbs_request))))))"

definition build_request :: "bytes \<Rightarrow> bytes \<Rightarrow> bytes \<Rightarrow> (x509_error, bytes) res" where
  "build_request issuer_name_sha1 issuer_key_sha1 serial = encode_request issuer_name_sha1 issuer_key_sha1 serial None"

definition build_request_with_nonce :: "bytes \<Rightarrow> bytes \<Rightarrow> bytes \<Rightarrow> bytes \<Rightarrow> (x509_error, bytes) res" where
  "build_request_with_nonce issuer_name_sha1 issuer_key_sha1 serial nonce =
     encode_request issuer_name_sha1 issuer_key_sha1 serial (Some nonce)"

subsection \<open>Response data\<close>

datatype responder_id = ByName bytes | ByKey bytes

record cert_id =
  hash_algorithm_oid :: bytes
  issuer_name_hash :: bytes
  issuer_key_hash :: bytes
  cid_serial :: bytes

datatype cert_status = Good | Revoked date_time "crl_reason option" | Unknown

record single_response =
  sr_cert_id :: cert_id
  sr_status :: cert_status
  sr_this_update :: date_time
  sr_next_update :: "date_time option"

definition first_is :: "bytes \<Rightarrow> byte \<Rightarrow> bool" where
  "first_is der tag = (case der of [] \<Rightarrow> False | b # _ \<Rightarrow> b = tag)"

definition value_of :: "'l der_lib_scheme \<Rightarrow> bytes \<Rightarrow> string \<Rightarrow> (x509_error, bytes) res" where
  "value_of d der what = and_then (any_value d what der) (\<lambda>(_, val). Ok val)"

definition sequence_reader :: "'l der_lib_scheme \<Rightarrow> bytes \<Rightarrow> string \<Rightarrow> (x509_error, bytes) res" where
  "sequence_reader d der what =
     (if \<not> first_is der TAG_SEQUENCE then Err (UnexpectedStructure what)
      else and_then (value_of d der what) (open_reader d what))"

definition octet_string :: "'l der_lib_scheme \<Rightarrow> bytes \<Rightarrow> string \<Rightarrow> (x509_error, bytes \<times> bytes) res" where
  "octet_string d reader what =
     and_then (next_tlv d what reader) (\<lambda>(t, reader).
     if \<not> first_is t TAG_OCTET_STRING then Err (UnexpectedStructure what)
     else and_then (value_of d t what) (\<lambda>val. Ok (val, reader)))"

definition generalized_time :: "'l der_lib_scheme \<Rightarrow> bytes \<Rightarrow> (x509_error, date_time) res" where
  "generalized_time d der = ok_or (generalized_time_from_der d der) InvalidTime"

definition parse_version :: "'l der_lib_scheme \<Rightarrow> bytes \<Rightarrow> (x509_error, unit) res" where
  "parse_version d der =
     and_then (value_of d der ''OCSP version'') (\<lambda>inner.
     and_then (any_value d ''OCSP version'' inner) (\<lambda>(tag, val).
     if tag \<noteq> Integer \<or> val \<noteq> [0] then Err (UnexpectedStructure ''unsupported OCSP version'') else Ok ()))"

definition parse_responder_id :: "'l der_lib_scheme \<Rightarrow> bytes \<Rightarrow> (x509_error, responder_id) res" where
  "parse_responder_id d der =
     (if first_is der TAG_CONTEXT_1 then
        and_then (value_of d der ''OCSP responderID byName'') (\<lambda>name_der.
        and_then (Name_try_from d name_der) (\<lambda>name. Ok (ByName name)))
      else if first_is der TAG_CONTEXT_2 then
        and_then (value_of d der ''OCSP responderID byKey'') (\<lambda>wrapped.
        and_then (any_value d ''OCSP responder keyHash'' wrapped) (\<lambda>(tag, val).
        if tag \<noteq> OctetString \<or> length val \<noteq> 20 then Err (UnexpectedStructure ''OCSP responder keyHash'')
        else Ok (ByKey val)))
      else Err (UnexpectedStructure ''OCSP responderID''))"

definition parse_hash_algorithm :: "'l der_lib_scheme \<Rightarrow> bytes \<Rightarrow> (x509_error, bytes) res" where
  "parse_hash_algorithm d algorithm =
     and_then (sequence_reader d algorithm ''CertID hashAlgorithm'') (\<lambda>algorithm_reader.
     and_then (next_tlv d ''CertID hashAlgorithm OID'' algorithm_reader) (\<lambda>(oid_tlv, algorithm_reader).
     if \<not> first_is oid_tlv TAG_OID then Err (UnexpectedStructure ''CertID hashAlgorithm OID'')
     else
       and_then (value_of d oid_tlv ''CertID hashAlgorithm OID'') (\<lambda>oid.
       if algorithm_reader = [] then Ok oid
       else
         and_then (next_tlv d ''CertID hashAlgorithm parameters'' algorithm_reader) (\<lambda>(parameters, algorithm_reader).
         if \<not> first_is parameters TAG_NULL then Err (UnexpectedStructure ''CertID hashAlgorithm parameters'')
         else
           and_then (value_of d parameters ''CertID hashAlgorithm parameters'') (\<lambda>val.
           if val \<noteq> [] \<or> algorithm_reader \<noteq> [] then Err (UnexpectedStructure ''CertID hashAlgorithm parameters'')
           else Ok oid)))))"

definition parse_cert_id :: "'l der_lib_scheme \<Rightarrow> bytes \<Rightarrow> (x509_error, cert_id) res" where
  "parse_cert_id d der =
     and_then (sequence_reader d der ''OCSP CertID'') (\<lambda>reader.
     and_then (next_tlv d ''CertID hashAlgorithm'' reader) (\<lambda>(algorithm, reader).
     and_then (parse_hash_algorithm d algorithm) (\<lambda>oid.
     and_then (octet_string d reader ''CertID issuerNameHash'') (\<lambda>(name_hash, reader).
     and_then (octet_string d reader ''CertID issuerKeyHash'') (\<lambda>(key_hash, reader).
     and_then (next_tlv d ''CertID serialNumber'' reader) (\<lambda>(serial_tlv, reader).
     if \<not> first_is serial_tlv TAG_INTEGER then Err (UnexpectedStructure ''CertID serialNumber'')
     else
       and_then (value_of d serial_tlv ''CertID serialNumber'') (\<lambda>serial.
       if reader \<noteq> [] then Err (UnexpectedStructure ''CertID trailing fields'')
       else Ok \<lparr>hash_algorithm_oid = oid, issuer_name_hash = name_hash, issuer_key_hash = key_hash,
                cid_serial = serial\<rparr>)))))))"

text \<open>The fields of \<open>RevokedInfo\<close> after the time: a loop that accepts one reason.\<close>

function revoked_info_tail :: "'l der_lib_scheme \<Rightarrow> crl_reason option \<Rightarrow> bool \<Rightarrow> bytes
    \<Rightarrow> (x509_error, crl_reason option) res" where
  "revoked_info_tail d reason saw_reason bs =
     (if bs = [] then Ok reason
      else
        and_then (next_tlv d ''OCSP RevokedInfo tail'' bs) (\<lambda>(field, rest).
        if \<not> first_is field TAG_CONTEXT_0 \<or> saw_reason then Err (UnexpectedStructure ''OCSP RevokedInfo tail'')
        else
          and_then (value_of d field ''revocationReason'') (\<lambda>inner.
          and_then (any_value d ''OCSP revocationReason'' inner) (\<lambda>(tag, val).
          if tag \<noteq> Enumerated \<or> length val \<noteq> 1 then Err (UnexpectedStructure ''OCSP revocationReason'')
          else revoked_info_tail d (CrlReason_from_code (hd val)) True rest))))"
  by pat_completeness auto
termination by (relation "measure (\<lambda>(d, r, s, bs). length bs)") (auto simp: res_simps dest: tlv_read_shorter)

declare revoked_info_tail.simps [simp del]

text \<open>The guarded alternatives fall through to the error when the value is not empty.\<close>

definition parse_cert_status :: "'l der_lib_scheme \<Rightarrow> bytes \<Rightarrow> (x509_error, cert_status) res" where
  "parse_cert_status d der =
     (if first_is der TAG_CONTEXT_0_PRIMITIVE then
        and_then (value_of d der ''OCSP good status'') (\<lambda>val.
        if val = [] then Ok Good else Err (UnexpectedStructure ''OCSP certStatus''))
      else if first_is der TAG_CONTEXT_1 then
        and_then (value_of d der ''OCSP RevokedInfo'') (\<lambda>body.
        and_then (open_reader d ''OCSP RevokedInfo body'' body) (\<lambda>reader.
        and_then (next_tlv d ''revocationTime'' reader) (\<lambda>(t, reader).
        and_then (generalized_time d t) (\<lambda>revoked_at.
        and_then (revoked_info_tail d None False reader) (\<lambda>reason.
        Ok (Revoked revoked_at reason))))))
      else if first_is der TAG_CONTEXT_2_PRIMITIVE then
        and_then (value_of d der ''OCSP unknown status'') (\<lambda>val.
        if val = [] then Ok Unknown else Err (UnexpectedStructure ''OCSP certStatus''))
      else Err (UnexpectedStructure ''OCSP certStatus''))"

subsection \<open>Extensions\<close>

datatype ocsp_extension_scope = ResponseScope | SingleScope

text \<open>The identifier, the flag and the value of one extension.\<close>

definition ocsp_extension_oid :: "'l der_lib_scheme \<Rightarrow> bytes \<Rightarrow> (x509_error, bytes \<times> bytes) res" where
  "ocsp_extension_oid d extension =
     and_then (sequence_reader d extension ''OCSP Extension body'') (\<lambda>flds.
     and_then (next_tlv d ''OCSP Extension OID'' flds) (\<lambda>(oid_tlv, flds).
     if \<not> first_is oid_tlv TAG_OID then Err (UnexpectedStructure ''OCSP Extension OID'')
     else and_then (value_of d oid_tlv ''OCSP Extension OID'') (\<lambda>oid. Ok (oid, flds))))"

definition ocsp_extension_value :: "'l der_lib_scheme \<Rightarrow> bytes \<Rightarrow> (x509_error, bool \<times> bytes) res" where
  "ocsp_extension_value d flds =
     and_then (next_tlv d ''OCSP extnValue'' flds) (\<lambda>(val, flds).
     and_then (if first_is val TAG_BOOLEAN then
                 and_then (value_of d val ''OCSP Extension critical'') (\<lambda>flag.
                 if flag \<noteq> [0xFF] then Err (UnexpectedStructure ''OCSP Extension critical BOOLEAN'')
                 else and_then (next_tlv d ''OCSP extnValue'' flds) (\<lambda>(val, flds). Ok (True, val, flds)))
               else Ok (False, val, flds)) (\<lambda>(critical, val, flds).
     if \<not> first_is val TAG_OCTET_STRING \<or> flds \<noteq> [] then Err (UnexpectedStructure ''OCSP extnValue'')
     else and_then (value_of d val ''OCSP extnValue'') (\<lambda>wrapped. Ok (critical, wrapped))))"

definition ocsp_extension_apply :: "'l der_lib_scheme \<Rightarrow> ocsp_extension_scope \<Rightarrow> bytes \<Rightarrow> bool \<Rightarrow> bytes
    \<Rightarrow> bytes option \<Rightarrow> (x509_error, bytes option) res" where
  "ocsp_extension_apply d scope oid critical wrapped_value nonce =
     (if scope = ResponseScope \<and> oid = OID_OCSP_NONCE then
        and_then (any_value d ''OCSP nonce'' wrapped_value) (\<lambda>(tag, val).
        if tag \<noteq> OctetString \<or> nonce \<noteq> None then Err (UnexpectedStructure ''OCSP nonce'') else Ok (Some val))
      else if critical then Err (UnexpectedStructure ''unsupported critical OCSP extension'')
      else Ok nonce)"

function ocsp_extensions_loop :: "'l der_lib_scheme \<Rightarrow> ocsp_extension_scope \<Rightarrow> bytes list \<Rightarrow> bytes option \<Rightarrow> bytes
    \<Rightarrow> (x509_error, bytes option) res" where
  "ocsp_extensions_loop d scope seen_oids nonce bs =
     (if bs = [] then Ok nonce
      else
        and_then (next_tlv d ''OCSP Extension'' bs) (\<lambda>(extension, rest).
        and_then (ocsp_extension_oid d extension) (\<lambda>(oid, flds).
        if oid \<in> set seen_oids then Err (UnexpectedStructure ''duplicate OCSP Extension OID'')
        else
          and_then (ocsp_extension_value d flds) (\<lambda>(critical, wrapped_value).
          and_then (ocsp_extension_apply d scope oid critical wrapped_value nonce) (\<lambda>nonce.
          ocsp_extensions_loop d scope (seen_oids @ [oid]) nonce rest)))))"
  by pat_completeness auto
termination by (relation "measure (\<lambda>(d, s, o1, n, bs). length bs)") (auto simp: res_simps dest: tlv_read_shorter)

declare ocsp_extensions_loop.simps [simp del]

definition parse_extensions :: "'l der_lib_scheme \<Rightarrow> bytes \<Rightarrow> ocsp_extension_scope \<Rightarrow> (x509_error, bytes option) res" where
  "parse_extensions d exts scope =
     and_then (sequence_reader d exts ''OCSP Extensions'') (\<lambda>reader.
     if reader = [] then Err (UnexpectedStructure ''OCSP Extensions empty'')
     else ocsp_extensions_loop d scope [] None reader)"

definition nonce_from_extensions :: "'l der_lib_scheme \<Rightarrow> bytes \<Rightarrow> (x509_error, bytes option) res" where
  "nonce_from_extensions d exts = parse_extensions d exts ResponseScope"

definition validate_single_extensions :: "'l der_lib_scheme \<Rightarrow> bytes \<Rightarrow> (x509_error, unit) res" where
  "validate_single_extensions d exts = and_then (parse_extensions d exts SingleScope) (\<lambda>_. Ok ())"

subsection \<open>Responses\<close>

function single_response_tail :: "'l der_lib_scheme \<Rightarrow> date_time option \<Rightarrow> bool \<Rightarrow> bytes
    \<Rightarrow> (x509_error, date_time option) res" where
  "single_response_tail d next saw_extensions bs =
     (if bs = [] then Ok next
      else
        and_then (next_tlv d ''OCSP SingleResponse tail'' bs) (\<lambda>(field, rest).
        if first_is field TAG_CONTEXT_0 \<and> next = None \<and> \<not> saw_extensions then
          and_then (value_of d field ''OCSP nextUpdate'') (\<lambda>inner.
          and_then (generalized_time d inner) (\<lambda>t. single_response_tail d (Some t) saw_extensions rest))
        else if first_is field TAG_CONTEXT_1 \<and> \<not> saw_extensions then
          and_then (value_of d field ''OCSP singleExtensions'') (\<lambda>inner.
          and_then (validate_single_extensions d inner) (\<lambda>_. single_response_tail d next True rest))
        else Err (UnexpectedStructure ''OCSP invalid SingleResponse tail'')))"
  by pat_completeness auto
termination by (relation "measure (\<lambda>(d, n, s, bs). length bs)") (auto simp: res_simps dest: tlv_read_shorter)

declare single_response_tail.simps [simp del]

definition parse_single_response :: "'l der_lib_scheme \<Rightarrow> bytes \<Rightarrow> (x509_error, single_response) res" where
  "parse_single_response d der =
     and_then (sequence_reader d der ''OCSP SingleResponse'') (\<lambda>reader.
     and_then (next_tlv d ''OCSP certID'' reader) (\<lambda>(t, reader).
     and_then (parse_cert_id d t) (\<lambda>cid.
     and_then (next_tlv d ''OCSP certStatus'' reader) (\<lambda>(t, reader).
     and_then (parse_cert_status d t) (\<lambda>status.
     and_then (next_tlv d ''OCSP thisUpdate'' reader) (\<lambda>(t, reader).
     and_then (generalized_time d t) (\<lambda>this.
     and_then (single_response_tail d None False reader) (\<lambda>next.
     Ok \<lparr>sr_cert_id = cid, sr_status = status, sr_this_update = this, sr_next_update = next\<rparr>))))))))"

function responses_loop :: "'l der_lib_scheme \<Rightarrow> cert_id list \<Rightarrow> bytes \<Rightarrow> (x509_error, single_response list) res" where
  "responses_loop d seen_cert_ids bs =
     (if bs = [] then Ok []
      else
        and_then (next_tlv d ''OCSP SingleResponse'' bs) (\<lambda>(entry, rest).
        and_then (parse_single_response d entry) (\<lambda>response.
        if sr_cert_id response \<in> set seen_cert_ids
        then Err (UnexpectedStructure ''duplicate OCSP SingleResponse CertID'')
        else
          and_then (responses_loop d (sr_cert_id response # seen_cert_ids) rest) (\<lambda>rs.
          Ok (response # rs)))))"
  by pat_completeness auto
termination by (relation "measure (\<lambda>(d, s, bs). length bs)") (auto simp: res_simps dest: tlv_read_shorter)

declare responses_loop.simps [simp del]

record response_data =
  rd_responder_id :: responder_id
  rd_produced_at :: date_time
  rd_responses :: "single_response list"
  rd_nonce :: "bytes option"

definition response_nonce :: "'l der_lib_scheme \<Rightarrow> bytes \<Rightarrow> (x509_error, bytes option) res" where
  "response_nonce d reader =
     (if reader = [] then Ok None
      else
        and_then (next_tlv d ''OCSP responseExtensions'' reader) (\<lambda>(exts, reader).
        if \<not> first_is exts TAG_CONTEXT_1 then Err (UnexpectedStructure ''OCSP unexpected ResponseData tail'')
        else
          and_then (value_of d exts ''OCSP extensions'') (\<lambda>inner.
          and_then (nonce_from_extensions d inner) (\<lambda>nonce.
          if reader \<noteq> [] then Err (UnexpectedStructure ''OCSP trailing ResponseData fields'') else Ok nonce))))"

definition parse_response_data :: "'l der_lib_scheme \<Rightarrow> bytes \<Rightarrow> (x509_error, response_data) res" where
  "parse_response_data d der =
     and_then (sequence_reader d der ''OCSP tbsResponseData'') (\<lambda>reader.
     and_then (next_tlv d ''OCSP responderID missing'' reader) (\<lambda>(first, reader).
     and_then (if first_is first TAG_CONTEXT_0
               then and_then (parse_version d first) (\<lambda>_. next_tlv d ''OCSP responderID missing'' reader)
               else Ok (first, reader)) (\<lambda>(first, reader).
     and_then (parse_responder_id d first) (\<lambda>rid.
     and_then (next_tlv d ''OCSP producedAt missing'' reader) (\<lambda>(t, reader).
     and_then (generalized_time d t) (\<lambda>produced.
     and_then (next_tlv d ''OCSP responses missing'' reader) (\<lambda>(responses_der, reader).
     and_then (sequence_reader d responses_der ''OCSP responses'') (\<lambda>list.
     and_then (responses_loop d [] list) (\<lambda>responses.
     if responses = [] then Err (UnexpectedStructure ''OCSP responses empty'')
     else
       and_then (response_nonce d reader) (\<lambda>nonce.
       Ok \<lparr>rd_responder_id = rid, rd_produced_at = produced, rd_responses = responses, rd_nonce = nonce\<rparr>))))))))))"

datatype ocsp_response_status = Successful | MalformedRequest | InternalError | TryLater | SigRequired | Unauthorized
  | OtherStatus byte

definition OcspResponseStatus_from_byte :: "byte \<Rightarrow> ocsp_response_status" where
  "OcspResponseStatus_from_byte b =
     (if b = 0 then Successful else if b = 1 then MalformedRequest else if b = 2 then InternalError
      else if b = 3 then TryLater else if b = 5 then SigRequired else if b = 6 then Unauthorized else OtherStatus b)"

record basic_ocsp_response =
  responder_id :: responder_id
  produced_at :: date_time
  responses :: "single_response list"
  tbs_response_data_der :: bytes
  basic_signature_alg_oid :: bytes
  basic_signature_bits :: bytes
  embedded_cert_ders :: "bytes list"
  basic_nonce :: "bytes option"

record ocsp_response =
  response_status :: ocsp_response_status
  basic :: "basic_ocsp_response option"

definition basic_algorithm :: "'l der_lib_scheme \<Rightarrow> bytes \<Rightarrow> (x509_error, bytes) res" where
  "basic_algorithm d alg_der =
     and_then (any_value d ''OCSP signatureAlgorithm'' alg_der) (\<lambda>(tag, body).
     if tag \<noteq> Sequence then Err (UnexpectedStructure ''OCSP signatureAlgorithm not SEQUENCE'')
     else
       and_then (open_reader d ''OCSP signatureAlgorithm body'' body) (\<lambda>alg_reader.
       and_then (next_tlv d ''OCSP signatureAlgorithm OID'' alg_reader) (\<lambda>(oid_der, alg_reader).
       and_then (any_value d ''OCSP signatureAlgorithm OID'' oid_der) (\<lambda>(tag, oid).
       if tag \<noteq> ObjectIdentifier then Err (UnexpectedStructure ''OCSP signatureAlgorithm OID'')
       else if alg_reader = [] then Ok oid
       else
         and_then (next_tlv d ''OCSP signatureAlgorithm parameters'' alg_reader) (\<lambda>(params_der, alg_reader).
         and_then (any_value d ''OCSP signatureAlgorithm parameters'' params_der) (\<lambda>(tag, val).
         if tag \<noteq> Null \<or> val \<noteq> [] \<or> alg_reader \<noteq> [] then Err (UnexpectedStructure ''OCSP signatureAlgorithm parameters'')
         else Ok oid))))))"

definition basic_signature :: "'l der_lib_scheme \<Rightarrow> bytes \<Rightarrow> (x509_error, bytes) res" where
  "basic_signature d sig_der =
     and_then (any_value d ''OCSP signature'' sig_der) (\<lambda>(tag, val).
     if tag \<noteq> BitString then Err (UnexpectedStructure ''OCSP signature not BIT STRING'')
     else (case val of
        [] \<Rightarrow> Err (UnexpectedStructure ''OCSP signature BIT STRING empty'')
      | unused_bits # bits \<Rightarrow>
          if unused_bits \<noteq> 0 then Err (UnexpectedStructure ''OCSP signature has unused bits'') else Ok bits))"

definition basic_certs :: "'l der_lib_scheme \<Rightarrow> bytes \<Rightarrow> (x509_error, bytes list \<times> bytes) res" where
  "basic_certs d reader =
     (if reader = [] then Ok ([], [])
      else
        and_then (next_tlv d ''OCSP certs field'' reader) (\<lambda>(certs_explicit_der, reader).
        and_then (any_value d ''OCSP certs field'' certs_explicit_der) (\<lambda>(_, inner).
        if \<not> first_is certs_explicit_der TAG_CONTEXT_0 then Err (UnexpectedStructure ''OCSP certs field'')
        else
          and_then (any_value d ''OCSP certs not SEQUENCE'' inner) (\<lambda>(tag, body).
          if tag \<noteq> Sequence then Err (UnexpectedStructure ''OCSP certs not SEQUENCE'')
          else
            and_then (open_reader d ''OCSP certs body'' body) (\<lambda>certs_reader.
            and_then (ok_or (tlv_all d certs_reader) (UnexpectedStructure ''OCSP embedded cert'')) (\<lambda>ders.
            Ok (ders, reader)))))))"

definition BasicOcspResponse_parse :: "'l der_lib_scheme \<Rightarrow> bytes \<Rightarrow> (x509_error, basic_ocsp_response) res" where
  "BasicOcspResponse_parse d der =
     and_then (any_value d ''BasicOCSPResponse not a TLV'' der) (\<lambda>(tag, outer).
     if tag \<noteq> Sequence then Err (UnexpectedStructure ''BasicOCSPResponse not SEQUENCE'')
     else
       and_then (open_reader d ''BasicOCSPResponse body'' outer) (\<lambda>reader.
       and_then (next_tlv d ''tbsResponseData'' reader) (\<lambda>(tbs, reader).
       and_then (next_tlv d ''OCSP signatureAlgorithm'' reader) (\<lambda>(alg_der, reader).
       and_then (basic_algorithm d alg_der) (\<lambda>oid.
       and_then (next_tlv d ''OCSP signature'' reader) (\<lambda>(sig_der, reader).
       and_then (basic_signature d sig_der) (\<lambda>bits.
       and_then (basic_certs d reader) (\<lambda>(certs, reader).
       if reader \<noteq> [] then Err (UnexpectedStructure ''OCSP trailing BasicOCSPResponse fields'')
       else
         and_then (parse_response_data d tbs) (\<lambda>rd.
         Ok \<lparr>responder_id = rd_responder_id rd, produced_at = rd_produced_at rd, responses = rd_responses rd,
             tbs_response_data_der = tbs, basic_signature_alg_oid = oid, basic_signature_bits = bits,
             embedded_cert_ders = certs, basic_nonce = rd_nonce rd\<rparr>)))))))))"

text \<open>The \<open>responseBytes\<close> of a successful response.\<close>

definition response_bytes :: "'l der_lib_scheme \<Rightarrow> bytes \<Rightarrow> (x509_error, basic_ocsp_response option) res" where
  "response_bytes d rb_explicit_der =
     and_then (any_value d ''OCSP responseBytes'' rb_explicit_der) (\<lambda>(_, inner).
     if \<not> first_is rb_explicit_der TAG_CONTEXT_0 then Err (UnexpectedStructure ''OCSP responseBytes'')
     else
       and_then (any_value d ''OCSP responseBytes not SEQUENCE'' inner) (\<lambda>(tag, body).
       if tag \<noteq> Sequence then Err (UnexpectedStructure ''OCSP responseBytes not SEQUENCE'')
       else
         and_then (open_reader d ''OCSP responseBytes body'' body) (\<lambda>rb_reader.
         and_then (next_tlv d ''missing responseType'' rb_reader) (\<lambda>(t, rb_reader).
         and_then (any_value d ''missing responseType'' t) (\<lambda>(tag, rtype).
         if tag \<noteq> ObjectIdentifier then Err (UnexpectedStructure ''malformed responseType'')
         else
           and_then (next_tlv d ''missing response octet'' rb_reader) (\<lambda>(t, rb_reader).
           and_then (any_value d ''missing response octet'' t) (\<lambda>(tag, octets).
           if tag \<noteq> OctetString \<or> rb_reader \<noteq> [] then Err (UnexpectedStructure ''malformed response OCTET STRING'')
           else if rtype = BASIC_OCSP_RESPONSE
           then and_then (BasicOcspResponse_parse d octets) (\<lambda>b. Ok (Some b))
           else Ok None)))))))"

definition OcspResponse_parse :: "'l der_lib_scheme \<Rightarrow> bytes \<Rightarrow> (x509_error, ocsp_response) res" where
  "OcspResponse_parse d der =
     and_then (any_value d ''OCSP not a TLV'' der) (\<lambda>(tag, outer).
     if tag \<noteq> Sequence then Err (UnexpectedStructure ''OCSP not SEQUENCE'')
     else
       and_then (open_reader d ''OCSP body'' outer) (\<lambda>reader.
       and_then (next_tlv d ''missing responseStatus'' reader) (\<lambda>(t, reader).
       and_then (any_value d ''missing responseStatus'' t) (\<lambda>(tag, val).
       if tag \<noteq> Enumerated \<or> length val \<noteq> 1 then Err (UnexpectedStructure ''malformed responseStatus'')
       else
         let status = OcspResponseStatus_from_byte (hd val) in
         and_then (if status = Successful
                   then and_then (next_tlv d ''OCSP responseBytes'' reader) (\<lambda>(rb, reader).
                        and_then (response_bytes d rb) (\<lambda>b. Ok (b, reader)))
                   else Ok (None, reader)) (\<lambda>(b, reader).
         if reader \<noteq> [] then Err (UnexpectedStructure ''OCSP trailing response fields'')
         else Ok \<lparr>response_status = status, basic = b\<rparr>)))))"

definition OwnedOcspResponse_from_der :: "'l der_lib_scheme \<Rightarrow> bytes \<Rightarrow> (x509_error, bytes) res" where
  "OwnedOcspResponse_from_der d der = and_then (OcspResponse_parse d der) (\<lambda>_. Ok der)"

definition OwnedOcspResponse_view :: "'l der_lib_scheme \<Rightarrow> bytes \<Rightarrow> (x509_error, ocsp_response) res" where
  "OwnedOcspResponse_view d der = (case OcspResponse_parse d der of Ok r \<Rightarrow> Ok r | _ \<Rightarrow> Panic)"

subsection \<open>Verification\<close>

datatype ocsp_verify_error = ResponderIdMismatch | OcspSignature verify_error | UnauthorizedResponder string
  | ResponderRevocationRequired | MalformedNoCheck

record verified_ocsp_response =
  v_basic :: basic_ocsp_response
  v_issuer_name_hash :: bytes
  v_issuer_key_hash :: bytes

fun matches_certificate :: "(bytes \<Rightarrow> bytes) \<Rightarrow> responder_id \<Rightarrow> certificate \<Rightarrow> bool" where
  "matches_certificate sha1 (ByName name) cert \<longleftrightarrow> name = subject cert"
| "matches_certificate sha1 (ByKey expected) cert \<longleftrightarrow> expected = sha1 (subject_public_key_bits cert)"

definition basic_verify_signature :: "verifier \<Rightarrow> basic_ocsp_response \<Rightarrow> bytes \<Rightarrow> (verify_error, unit) res" where
  "basic_verify_signature verify_tbs b signer_spki_der =
     verify_tbs \<lparr>ts_tbs_der = tbs_response_data_der b, ts_signature_alg_oid = basic_signature_alg_oid b,
                 ts_signature_bits = basic_signature_bits b, ts_issuer_spki_der = signer_spki_der\<rparr>"

fun profile_error :: "path_extension_error \<Rightarrow> ocsp_verify_error" where
  "profile_error InvalidOcspNoCheck = MalformedNoCheck"
| "profile_error _ = UnauthorizedResponder ''malformed or unsupported certificate extensions''"

definition authorize_responder_extensions :: "bytes \<Rightarrow> (ocsp_verify_error, unit) res" where
  "authorize_responder_extensions exts =
     and_then (map_err profile_error (path_extension_profile exts)) (\<lambda>profile.
     if ca (profile_basic_constraints profile) then Err (UnauthorizedResponder ''delegated responder is a CA'')
     else if name_constraints_present profile
     then Err (UnauthorizedResponder ''delegated responder carries CA-only Name Constraints'')
     else if \<not> extended_key_usage_present profile \<or> \<not> ocsp_signing_extended_key_usage profile
     then Err (UnauthorizedResponder ''certificate has no OCSP-signing EKU'')
     else if (case profile_key_usage profile of None \<Rightarrow> False | Some usage \<Rightarrow> \<not> digital_signature (kum_key_usage usage))
     then Err (UnauthorizedResponder ''certificate Key Usage forbids response signing'')
     else if \<not> ocsp_no_check_present profile then Err ResponderRevocationRequired
     else Ok ())"

definition authorize_signer :: "verifier \<Rightarrow> certificate \<Rightarrow> certificate \<Rightarrow> date_time \<Rightarrow> (ocsp_verify_error, unit) res" where
  "authorize_signer verify_tbs signer iss produced =
     (if raw_der signer = raw_der iss then Ok ()
      else if issuer signer \<noteq> subject iss
      then Err (UnauthorizedResponder ''certificate was not issued by the target issuer'')
      else if produced < not_before signer \<or> not_after signer < produced
      then Err (UnauthorizedResponder ''certificate was not valid at producedAt'')
      else
        and_then (map_err (\<lambda>_. UnauthorizedResponder ''certificate signature'') (verify_signed_by verify_tbs signer iss)) (\<lambda>_.
        case extensions signer of
          None \<Rightarrow> Err (UnauthorizedResponder ''certificate has no OCSP-signing EKU'')
        | Some exts \<Rightarrow> authorize_responder_extensions exts))"

definition VerifiedOcspResponse_verify :: "(bytes \<Rightarrow> bytes) \<Rightarrow> verifier \<Rightarrow> basic_ocsp_response \<Rightarrow> certificate \<Rightarrow> certificate
    \<Rightarrow> (ocsp_verify_error, verified_ocsp_response) res" where
  "VerifiedOcspResponse_verify sha1 verify_tbs b signer iss =
     (if \<not> matches_certificate sha1 (responder_id b) signer then Err ResponderIdMismatch
      else
        and_then (map_err OcspSignature (basic_verify_signature verify_tbs b (spki signer))) (\<lambda>_.
        and_then (authorize_signer verify_tbs signer iss (produced_at b)) (\<lambda>_.
        Ok \<lparr>v_basic = b, v_issuer_name_hash = sha1 (subject iss),
            v_issuer_key_hash = sha1 (subject_public_key_bits iss)\<rparr>)))"

definition matches_request :: "cert_id \<Rightarrow> bytes \<Rightarrow> bytes \<Rightarrow> bytes \<Rightarrow> bool" where
  "matches_request cid name_hash key_hash serial \<longleftrightarrow>
     hash_algorithm_oid cid = OID_SHA1 \<and> issuer_name_hash cid = name_hash \<and> issuer_key_hash cid = key_hash
     \<and> cid_serial cid = serial"

definition response_for :: "verified_ocsp_response \<Rightarrow> certificate \<Rightarrow> single_response option" where
  "response_for v cert =
     find (\<lambda>r. matches_request (sr_cert_id r) (v_issuer_name_hash v) (v_issuer_key_hash v) (serial_der cert))
       (responses (v_basic v))"

subsection \<open>One answer per certificate\<close>

lemma responses_loop_distinct:
  "responses_loop d seen bs = Ok rs \<Longrightarrow> distinct (map sr_cert_id rs) \<and> set (map sr_cert_id rs) \<inter> set seen = {}"
proof (induction d seen bs arbitrary: rs rule: responses_loop.induct)
  case (1 d seen bs)
  show ?case
  proof (cases "bs = []")
    case True
    then show ?thesis using "1.prems" by (subst (asm) responses_loop.simps) simp
  next
    case False
    then obtain t rest r rs' where r: "tlv_read d bs = Some (t, rest)" "parse_single_response d t = Ok r"
        "sr_cert_id r \<notin> set seen" "responses_loop d (sr_cert_id r # seen) rest = Ok rs'" "rs = r # rs'"
      using "1.prems" by (subst (asm) responses_loop.simps) (auto simp: res_simps split: if_splits)
    with "1.IH" [OF False _ refl r(2) r(3) r(4)] show ?thesis by (auto simp: res_simps)
  qed
qed

lemma BasicOcspResponse_parse_responses:
  assumes "BasicOcspResponse_parse d der = Ok b"
  shows "distinct (map sr_cert_id (responses b)) \<and> responses b \<noteq> []"
proof -
  from assms obtain tbs rd where "parse_response_data d tbs = Ok rd" "responses b = rd_responses rd"
    by (auto simp: BasicOcspResponse_parse_def res_simps split: prod.splits if_splits)
  then show ?thesis
    by (auto simp: parse_response_data_def res_simps split: prod.splits if_splits dest!: responses_loop_distinct)
qed

lemma find_by_key:
  assumes "distinct (map f xs)" and "\<And>x y. P x \<Longrightarrow> P y \<Longrightarrow> f x = f y"
  shows "find P xs = Some x \<longleftrightarrow> x \<in> set xs \<and> P x"
  using assms(1) by (induction xs) (auto dest: assms(2) simp: image_iff)

text \<open>The entry that answers for a certificate is the only one with the identity of the request.\<close>

lemma response_for_iff:
  assumes "distinct (map sr_cert_id (responses (v_basic v)))"
  shows "response_for v cert = Some r \<longleftrightarrow>
     r \<in> set (responses (v_basic v))
     \<and> sr_cert_id r = \<lparr>hash_algorithm_oid = OID_SHA1, issuer_name_hash = v_issuer_name_hash v,
                       issuer_key_hash = v_issuer_key_hash v, cid_serial = serial_der cert\<rparr>"
proof -
  have "matches_request cid n k s \<longleftrightarrow>
      cid = \<lparr>hash_algorithm_oid = OID_SHA1, issuer_name_hash = n, issuer_key_hash = k, cid_serial = s\<rparr>" for cid n k s
    by (cases cid) (auto simp: matches_request_def)
  then show ?thesis unfolding response_for_def by (subst find_by_key [OF assms]) auto
qed

subsection \<open>Extensions of a response\<close>

definition holds :: "'l der_lib_scheme \<Rightarrow> byte \<Rightarrow> bytes \<Rightarrow> bytes \<Rightarrow> bool" where
  "holds d tag val t \<longleftrightarrow> first_is t tag \<and> map_option snd (any_from_der d t) = Some val"

definition ocsp_extension_fields :: "'l der_lib_scheme \<Rightarrow> bool \<Rightarrow> bytes \<Rightarrow> bytes list \<Rightarrow> bool" where
  "ocsp_extension_fields d critical val fs \<longleftrightarrow>
     (if critical then \<exists>f v. fs = [f, v] \<and> holds d TAG_BOOLEAN [0xFF] f \<and> holds d TAG_OCTET_STRING val v
      else \<exists>v. fs = [v] \<and> holds d TAG_OCTET_STRING val v)"

definition ocsp_extension :: "'l der_lib_scheme \<Rightarrow> bytes \<Rightarrow> bytes \<times> bool \<times> bytes \<Rightarrow> bool" where
  "ocsp_extension d t e = (case e of (oid, critical, val) \<Rightarrow>
     \<exists>body o1 fs. holds d TAG_SEQUENCE body t \<and> slice_reader_ok d body \<and> tlv_all d body = Some (o1 # fs)
       \<and> holds d TAG_OID oid o1 \<and> ocsp_extension_fields d critical val fs)"

lemma value_of_Ok [res_simps]: "value_of d der what = Ok v \<longleftrightarrow> map_option snd (any_from_der d der) = Some v"
  by (auto simp: value_of_def res_simps)

lemma sequence_reader_Ok [res_simps]:
  "sequence_reader d der what = Ok body \<longleftrightarrow> holds d TAG_SEQUENCE body der \<and> slice_reader_ok d body"
  by (auto simp: sequence_reader_def holds_def res_simps split: if_splits)

lemma first_is_unique: "first_is t a \<Longrightarrow> first_is t b \<longleftrightarrow> a = b"
  by (cases t) (auto simp: first_is_def)

lemma ocsp_extension_value_unfold:
  "ocsp_extension_value d flds = Ok (critical, val) \<longleftrightarrow>
     (\<exists>t rest. tlv_read d flds = Some (t, rest) \<and>
        (if first_is t TAG_BOOLEAN
         then critical \<and> holds d TAG_BOOLEAN [0xFF] t \<and> (\<exists>v. tlv_read d rest = Some (v, []) \<and> holds d TAG_OCTET_STRING val v)
         else \<not> critical \<and> rest = [] \<and> holds d TAG_OCTET_STRING val t))"
proof (cases "tlv_read d flds")
  case (Some p)
  then show ?thesis
    by (cases p; cases "first_is (fst p) TAG_BOOLEAN")
       (auto simp: ocsp_extension_value_def next_tlv_def [of d _ flds] holds_def res_simps split: prod.splits if_splits)
qed (simp add: ocsp_extension_value_def next_tlv_def)

lemma ocsp_extension_value_Ok:
  "ocsp_extension_value d flds = Ok (critical, val) \<longleftrightarrow>
     (\<exists>fs. tlv_all d flds = Some fs \<and> ocsp_extension_fields d critical val fs)"
proof (cases critical)
  case True
  then have "(\<exists>fs. tlv_all d flds = Some fs \<and> ocsp_extension_fields d critical val fs) \<longleftrightarrow>
      (\<exists>f v. tlv_all d flds = Some [f, v] \<and> holds d TAG_BOOLEAN [0xFF] f \<and> holds d TAG_OCTET_STRING val v)"
    by (auto simp: ocsp_extension_fields_def)
  with True show ?thesis
    unfolding tlv_all_eq_Cons tlv_all_eq_Nil ocsp_extension_value_unfold by (auto simp: holds_def [of _ TAG_BOOLEAN])
next
  case False
  then have "(\<exists>fs. tlv_all d flds = Some fs \<and> ocsp_extension_fields d critical val fs) \<longleftrightarrow>
      (\<exists>v. tlv_all d flds = Some [v] \<and> holds d TAG_OCTET_STRING val v)"
    by (auto simp: ocsp_extension_fields_def)
  moreover have "\<not> first_is v TAG_BOOLEAN" if "holds d TAG_OCTET_STRING val v" for v
    using that first_is_unique [of v TAG_OCTET_STRING] by (auto simp: holds_def)
  ultimately show ?thesis
    using False unfolding tlv_all_eq_Cons tlv_all_eq_Nil ocsp_extension_value_unfold by auto
qed

lemma ocsp_extension_oid_Ok:
  "ocsp_extension_oid d t = Ok (oid, flds) \<longleftrightarrow>
     (\<exists>body o1. holds d TAG_SEQUENCE body t \<and> slice_reader_ok d body \<and> tlv_read d body = Some (o1, flds) \<and> holds d TAG_OID oid o1)"
  by (auto simp: ocsp_extension_oid_def holds_def [of _ TAG_OID] res_simps split: prod.splits if_splits)

lemma ocsp_extension_iff:
  "ocsp_extension d t (oid, critical, val) \<longleftrightarrow>
     (\<exists>flds. ocsp_extension_oid d t = Ok (oid, flds) \<and> ocsp_extension_value d flds = Ok (critical, val))"
  unfolding ocsp_extension_def prod.case ocsp_extension_value_Ok ocsp_extension_oid_Ok tlv_all_eq_Cons by blast

text \<open>The state of the loop after some extensions.\<close>

fun ocsp_applied :: "'l der_lib_scheme \<Rightarrow> ocsp_extension_scope \<Rightarrow> bytes option \<Rightarrow> (bytes \<times> bool \<times> bytes) list \<Rightarrow> bytes option \<Rightarrow> bool" where
  "ocsp_applied d scope n0 [] n \<longleftrightarrow> n = n0"
| "ocsp_applied d scope n0 ((oid, critical, val) # es) n \<longleftrightarrow>
     (\<exists>n1. ocsp_extension_apply d scope oid critical val n0 = Ok n1 \<and> ocsp_applied d scope n1 es n)"

lemma ocsp_extensions_loop_exact:
  "ocsp_extensions_loop d scope seen n0 bs = Ok n \<longleftrightarrow>
     (\<exists>ts. tlv_all d bs = Some ts \<and> (\<exists>es. list_all2 (ocsp_extension d) ts es \<and> distinct (map fst es)
        \<and> set (map fst es) \<inter> set seen = {} \<and> ocsp_applied d scope n0 es n))"
proof (induction d scope seen n0 bs rule: ocsp_extensions_loop.induct)
  case (1 d scope seen n0 bs)
  show ?case
  proof (cases "bs = []")
    case True
    then show ?thesis by (subst ocsp_extensions_loop.simps) (auto simp: eq_commute)
  next
    case False
    show ?thesis
    proof (cases "tlv_read d bs")
      case None
      then show ?thesis using False by (subst ocsp_extensions_loop.simps, subst ex_tlv_all) (simp add: next_tlv_def)
    next
      case (Some p)
      obtain t rest where p: "tlv_read d bs = Some (t, rest)" using Some by (cases p) auto
      have IH: "ocsp_extensions_loop d scope (seen @ [oid]) n1 rest = Ok n \<longleftrightarrow>
          (\<exists>ts. tlv_all d rest = Some ts \<and> (\<exists>es. list_all2 (ocsp_extension d) ts es \<and> distinct (map fst es)
             \<and> set (map fst es) \<inter> set (seen @ [oid]) = {} \<and> ocsp_applied d scope n1 es n))"
        if "ocsp_extension_oid d t = Ok (oid, flds)" "oid \<notin> set seen" "ocsp_extension_value d flds = Ok (critical, val)"
          "ocsp_extension_apply d scope oid critical val n0 = Ok n1" for oid flds critical val n1
        using "1.IH" [OF False _ refl that(1) refl that(2,3) refl that(4)] p by (auto simp: next_tlv_def)
      have "ocsp_extensions_loop d scope seen n0 bs = Ok n \<longleftrightarrow>
          (\<exists>oid flds critical val n1. ocsp_extension_oid d t = Ok (oid, flds) \<and> oid \<notin> set seen
             \<and> ocsp_extension_value d flds = Ok (critical, val) \<and> ocsp_extension_apply d scope oid critical val n0 = Ok n1
             \<and> ocsp_extensions_loop d scope (seen @ [oid]) n1 rest = Ok n)"
        using False p by (subst ocsp_extensions_loop.simps) (auto simp: res_simps split: prod.splits if_splits)
      also have "\<dots> \<longleftrightarrow> (\<exists>oid critical val n1 ts es. ocsp_extension d t (oid, critical, val) \<and> oid \<notin> set seen
             \<and> ocsp_extension_apply d scope oid critical val n0 = Ok n1 \<and> tlv_all d rest = Some ts
             \<and> list_all2 (ocsp_extension d) ts es \<and> distinct (map fst es)
             \<and> set (map fst es) \<inter> set (seen @ [oid]) = {} \<and> ocsp_applied d scope n1 es n)"
        using IH unfolding ocsp_extension_iff by blast
      also have "\<dots> \<longleftrightarrow> (\<exists>ts. tlv_all d rest = Some ts \<and> (\<exists>es. list_all2 (ocsp_extension d) (t # ts) es \<and> distinct (map fst es)
             \<and> set (map fst es) \<inter> set seen = {} \<and> ocsp_applied d scope n0 es n))" (is "?split \<longleftrightarrow> ?joined")
      proof
        assume ?split
        then obtain oid critical val n1 ts es where es: "ocsp_extension d t (oid, critical, val)" "oid \<notin> set seen"
            "ocsp_extension_apply d scope oid critical val n0 = Ok n1" "tlv_all d rest = Some ts"
            "list_all2 (ocsp_extension d) ts es" "distinct (map fst es)" "set (map fst es) \<inter> set (seen @ [oid]) = {}"
            "ocsp_applied d scope n1 es n" by blast
        then show ?joined by (intro exI [of _ ts] conjI exI [of _ "(oid, critical, val) # es"]) auto
      next
        assume ?joined
        then obtain ts es where es: "tlv_all d rest = Some ts" "list_all2 (ocsp_extension d) (t # ts) es"
            "distinct (map fst es)" "set (map fst es) \<inter> set seen = {}" "ocsp_applied d scope n0 es n" by blast
        then obtain oid critical val es' where "es = (oid, critical, val) # es'" by (cases es) auto
        with es show ?split by auto blast
      qed
      finally show ?thesis using False p by (subst ex_tlv_all) simp
    qed
  qed
qed

lemma ocsp_applied_single:
  "ocsp_applied d SingleScope n0 es n \<longleftrightarrow> n = n0 \<and> list_all (\<lambda>(oid, critical, val). \<not> critical) es"
  by (induction d SingleScope n0 es n rule: ocsp_applied.induct) (auto simp: ocsp_extension_apply_def)

definition nonce_field :: "'l der_lib_scheme \<Rightarrow> (bytes \<times> bool \<times> bytes) list \<Rightarrow> bytes option \<Rightarrow> bool" where
  "nonce_field d es n \<longleftrightarrow>
     (case map_of es OID_OCSP_NONCE of
        None \<Rightarrow> n = None
      | Some (critical, val) \<Rightarrow> \<exists>nonce. any_from_der d val = Some (OctetString, nonce) \<and> n = Some nonce)"

lemma ocsp_applied_response:
  "distinct (map fst es) \<Longrightarrow> ocsp_applied d ResponseScope n0 es n \<longleftrightarrow>
     list_all (\<lambda>(oid, critical, val). critical \<longrightarrow> oid = OID_OCSP_NONCE) es
     \<and> (if map_of es OID_OCSP_NONCE = None then n = n0 else n0 = None \<and> nonce_field d es n)"
proof (induction d ResponseScope n0 es n rule: ocsp_applied.induct)
  case (2 d n0 oid critical val es n)
  show ?case
  proof (cases "oid = OID_OCSP_NONCE")
    case True
    moreover from this have "map_of es OID_OCSP_NONCE = None" using "2.prems" by (simp add: map_of_eq_None_iff)
    ultimately show ?thesis using 2
      by (auto simp: ocsp_extension_apply_def nonce_field_def res_simps split: prod.splits if_splits)
  next
    case False
    then show ?thesis using 2
      by (auto simp: ocsp_extension_apply_def nonce_field_def)
  qed
qed simp

definition critical_oids :: "(bytes \<times> bool \<times> bytes) list \<Rightarrow> bytes list" where
  "critical_oids es = map fst (filter (\<lambda>(oid, critical, val). critical) es)"

lemma critical_oids_all:
  "list_all (\<lambda>(oid, critical, val). critical \<longrightarrow> oid = n) es \<longleftrightarrow> set (critical_oids es) \<subseteq> {n}"
  "list_all (\<lambda>(oid, critical, val). \<not> critical) es \<longleftrightarrow> critical_oids es = []"
  by (induction es) (auto simp: critical_oids_def)

text \<open>The extensions of an OCSP response are read exactly. The nonce n is returned if and only if the bytes are a
  SEQUENCE of at least one extension, each one an object identifier, a flag that is the canonical TRUE if it is
  there, and an OCTET STRING; the identifiers are pairwise distinct, no extension but the nonce of the response is
  critical, and n is the OCTET STRING inside the nonce extension, or nothing when there is none. In the extensions of
  a single answer no critical one is accepted at all.\<close>

theorem ocsp_extensions_exact:
  "parse_extensions d exts scope = Ok n \<longleftrightarrow>
     (\<exists>body ts es. holds d TAG_SEQUENCE body exts \<and> slice_reader_ok d body \<and> tlv_all d body = Some ts \<and> ts \<noteq> []
        \<and> list_all2 (ocsp_extension d) ts es \<and> distinct (map fst es)
        \<and> (case scope of
             ResponseScope \<Rightarrow> set (critical_oids es) \<subseteq> {OID_OCSP_NONCE} \<and> nonce_field d es n
           | SingleScope \<Rightarrow> critical_oids es = [] \<and> n = None))"
proof -
  have "parse_extensions d exts scope = Ok n \<longleftrightarrow>
     (\<exists>body ts es. holds d TAG_SEQUENCE body exts \<and> slice_reader_ok d body \<and> tlv_all d body = Some ts \<and> ts \<noteq> []
        \<and> list_all2 (ocsp_extension d) ts es \<and> distinct (map fst es) \<and> ocsp_applied d scope None es n)"
  proof -
    have empty: "tlv_all d body = Some ts \<Longrightarrow> body = [] \<longleftrightarrow> ts = []" for body ts
      by (cases ts) (auto simp: tlv_all_eq_Nil tlv_all_eq_Cons)
    have "parse_extensions d exts scope = Ok n \<longleftrightarrow>
       (\<exists>body. holds d TAG_SEQUENCE body exts \<and> slice_reader_ok d body \<and> body \<noteq> []
          \<and> ocsp_extensions_loop d scope [] None body = Ok n)"
      by (auto simp: parse_extensions_def and_then_eq_Ok sequence_reader_Ok)
    also have "\<dots> \<longleftrightarrow> (\<exists>body ts es. holds d TAG_SEQUENCE body exts \<and> slice_reader_ok d body \<and> body \<noteq> [] \<and> tlv_all d body = Some ts
          \<and> list_all2 (ocsp_extension d) ts es \<and> distinct (map fst es) \<and> ocsp_applied d scope None es n)"
      unfolding ocsp_extensions_loop_exact by simp
    finally show ?thesis using empty by blast
  qed
  moreover have "ocsp_applied d scope None es n \<longleftrightarrow>
      (case scope of
         ResponseScope \<Rightarrow> set (critical_oids es) \<subseteq> {OID_OCSP_NONCE} \<and> nonce_field d es n
       | SingleScope \<Rightarrow> critical_oids es = [] \<and> n = None)" if "distinct (map fst es)" for es
    using that by (cases scope) (auto simp: ocsp_applied_single ocsp_applied_response nonce_field_def critical_oids_all)
  ultimately show ?thesis by (simp cong: conj_cong)
qed

subsection \<open>The identity of the request comes back\<close>

text \<open>A reader decodes what the BER writer of the program wrote, for values of up to 65,535 bytes.\<close>

definition reads_back :: "'l der_lib_scheme \<Rightarrow> bool" where
  "reads_back d \<longleftrightarrow>
     (\<forall>tag val enc rest. single_tag tag \<and> length val < 65536 \<and> length rest < 65536 \<and> tlv tag val = (Ok enc :: (x509_error, bytes) res) \<longrightarrow>
        tlv_read d (enc @ rest) = Some (enc, rest) \<and> any_from_der d enc = Some (der_tag_of tag, val))
     \<and> (\<forall>body. length body < 65536 \<longrightarrow> slice_reader_ok d body)"

definition written :: "byte \<Rightarrow> bytes \<Rightarrow> bytes" where
  "written tag val = tag # length_octets (length val) @ val"

lemma tlv_written: "length val < 65536 \<Longrightarrow> tlv tag val = Ok (written tag val)"
  by (simp add: tlv_eq_Ok written_def)

lemma written_length: "length (written tag val) \<le> length val + 6"
  using length_octets_bound [of "length val"] by (simp add: written_def)

lemma first_is_written [simp]: "first_is (written tag val) t \<longleftrightarrow> tag = t"
  by (simp add: first_is_def written_def)

lemma written_not_Nil [simp]: "written tag val \<noteq> []"
  by (simp add: written_def)

lemma reads_written:
  assumes "reads_back d" and "single_tag tag" and "length val < 65536"
  shows "length rest < 65536 \<Longrightarrow> next_tlv d what (written tag val @ rest) = Ok (written tag val, rest)"
    and "next_tlv d what (written tag val) = Ok (written tag val, [])"
    and "value_of d (written tag val) what = Ok val"
proof -
  have read: "tlv_read d (written t v @ rest) = Some (written t v, rest) \<and> any_from_der d (written t v) = Some (der_tag_of t, v)"
    if "single_tag t" "length v < 65536" "length rest < 65536" for t v rest
    using assms(1) that tlv_written [of v t] unfolding reads_back_def by blast
  show "length rest < 65536 \<Longrightarrow> next_tlv d what (written tag val @ rest) = Ok (written tag val, rest)"
    using read [OF assms(2,3)] by (simp add: next_tlv_def)
  show "next_tlv d what (written tag val) = Ok (written tag val, [])" "value_of d (written tag val) what = Ok val"
    using read [OF assms(2,3), of "[]"] by (simp_all add: next_tlv_def value_of_def any_value_def)
qed

lemma request_tags: "single_tag 0x02" "single_tag 0x04" "single_tag 0x05" "single_tag 0x06" "single_tag 0x30"
  by (simp_all add: single_tag_def)

lemma sequence_written:
  assumes "reads_back d" and "length val < 65536"
  shows "sequence_reader d (written TAG_SEQUENCE val) what = Ok val"
proof -
  have "slice_reader_ok d val" using assms by (simp add: reads_back_def)
  with reads_written(3) [OF assms(1) _ assms(2)] show ?thesis
    by (simp add: sequence_reader_def request_tags open_reader_def)
qed

lemma OID_SHA1_length: "length OID_SHA1 = 5"
  unfolding OID_SHA1_def by code_simp

definition hash_algorithm_content :: bytes where
  "hash_algorithm_content = written TAG_OID OID_SHA1 @ written TAG_NULL []"

definition cert_id_content :: "bytes \<Rightarrow> bytes \<Rightarrow> bytes \<Rightarrow> bytes" where
  "cert_id_content name_hash key_hash serial =
     written TAG_SEQUENCE hash_algorithm_content @ written TAG_OCTET_STRING name_hash
     @ written TAG_OCTET_STRING key_hash @ written TAG_INTEGER serial"

lemma hash_algorithm_content_length: "length hash_algorithm_content \<le> 17"
  using written_length [of TAG_OID OID_SHA1] written_length [of TAG_NULL "[]"]
  by (simp add: hash_algorithm_content_def OID_SHA1_length)

lemma written_hash_algorithm:
  assumes "reads_back d"
  shows "parse_hash_algorithm d (written TAG_SEQUENCE hash_algorithm_content) = Ok OID_SHA1"
proof -
  have "next_tlv d w hash_algorithm_content = Ok (written TAG_OID OID_SHA1, written TAG_NULL [])" for w
    unfolding hash_algorithm_content_def
    using written_length [of TAG_NULL "[]"] by (intro reads_written assms request_tags) (simp_all add: OID_SHA1_length)
  then show ?thesis
    using hash_algorithm_content_length
    by (simp add: parse_hash_algorithm_def sequence_written [OF assms] reads_written [OF assms] request_tags OID_SHA1_length)
qed

lemma cert_id_read_back:
  assumes "reads_back d" and "length name_hash = 20" and "length key_hash = 20" and "length serial < 60000"
  shows "parse_cert_id d (written TAG_SEQUENCE (cert_id_content name_hash key_hash serial)) =
     Ok \<lparr>hash_algorithm_oid = OID_SHA1, issuer_name_hash = name_hash, issuer_key_hash = key_hash, cid_serial = serial\<rparr>"
proof -
  note len = written_length [of TAG_SEQUENCE hash_algorithm_content] hash_algorithm_content_length
    written_length [of TAG_OCTET_STRING name_hash] written_length [of TAG_OCTET_STRING key_hash]
    written_length [of TAG_INTEGER serial]
  show ?thesis
    using len assms(2-)
    by (simp add: parse_cert_id_def cert_id_content_def octet_string_def sequence_written [OF assms(1)] reads_written [OF assms(1)] request_tags
        written_hash_algorithm [OF assms(1)])
qed

lemma encode_cert_id_content:
  "length name_hash = 20 \<Longrightarrow> length key_hash = 20 \<Longrightarrow> length serial < 60000 \<Longrightarrow>
     encode_cert_id name_hash key_hash serial = Ok (cert_id_content name_hash key_hash serial)
     \<and> length (cert_id_content name_hash key_hash serial) < 60100"
  using hash_algorithm_content_length written_length [of TAG_SEQUENCE hash_algorithm_content]
    written_length [of TAG_OCTET_STRING name_hash] written_length [of TAG_OCTET_STRING key_hash]
    written_length [of TAG_INTEGER serial]
  by (simp add: encode_cert_id_def tlv_written OID_SHA1_length cert_id_content_def
      flip: hash_algorithm_content_def)

lemma encode_request_contains:
  assumes "length name_hash = 20" and "length key_hash = 20" and "length serial < 60000"
    and "case nonce of None \<Rightarrow> True | Some n \<Rightarrow> length n < 1000"
  shows "\<exists>pre post. encode_request name_hash key_hash serial nonce =
     Ok (pre @ written TAG_SEQUENCE (cert_id_content name_hash key_hash serial) @ post)"
proof -
  let ?c = "cert_id_content name_hash key_hash serial"
  note c = encode_cert_id_content [OF assms(1-3)]
  let ?r = "written TAG_SEQUENCE ?c" let ?l = "written TAG_SEQUENCE ?r"
  have exts: "\<exists>e. (case nonce of None \<Rightarrow> Ok [] | Some n \<Rightarrow> encode_nonce n) = Ok e \<and> length e < 2000"
  proof (cases nonce)
    case (Some n)
    let ?i = "written TAG_OCTET_STRING n"
    let ?v = "written TAG_OID OID_OCSP_NONCE @ written TAG_OCTET_STRING ?i"
    have "length OID_OCSP_NONCE = 9" unfolding OID_OCSP_NONCE_def by code_simp
    then show ?thesis
      using assms(4) Some written_length [of TAG_OCTET_STRING n] written_length [of TAG_OCTET_STRING ?i]
        written_length [of TAG_OID OID_OCSP_NONCE] written_length [of TAG_SEQUENCE ?v]
        written_length [of TAG_SEQUENCE "written TAG_SEQUENCE ?v"]
        written_length [of TAG_CONTEXT_2 "written TAG_SEQUENCE (written TAG_SEQUENCE ?v)"]
      by (simp add: encode_nonce_def tlv_written)
  qed simp
  then obtain e where e: "(case nonce of None \<Rightarrow> Ok [] | Some n \<Rightarrow> encode_nonce n) = Ok e" "length e < 2000" by blast
  have "encode_request name_hash key_hash serial nonce =
      Ok (written TAG_SEQUENCE (written TAG_SEQUENCE (written TAG_SEQUENCE ?l @ e)))"
    using c e written_length [of TAG_SEQUENCE ?c] written_length [of TAG_SEQUENCE ?r] written_length [of TAG_SEQUENCE ?l]
      written_length [of TAG_SEQUENCE "written TAG_SEQUENCE ?l @ e"]
    by (simp add: encode_request_def tlv_written)
  then show ?thesis
    by (simp add: written_def [of _ "written TAG_SEQUENCE _"] written_def [of _ "_ @ _"] written_def [of _ "0x30 # _"])
      (metis append.assoc append_Cons)
qed

text \<open>The reader made of the program's own BER parser has this property.\<close>

definition ber_lib :: der_lib where
  "ber_lib = short_der
     \<lparr>tlv_tail := (\<lambda>b bs. case ber_parse (b # bs) of Ok t \<Rightarrow> Some (tlv_size t - 1) | _ \<Rightarrow> None),
      any_from_der := (\<lambda>der. case ber_parse der of
         Ok t \<Rightarrow> if tlv_size t = length der then Some (der_tag_of (hd der), tlv_value t) else None | _ \<Rightarrow> None)\<rparr>"

lemma ber_lib_reads_back: "reads_back ber_lib"
proof -
  have parse: "ber_parse (written tag val @ rest) = Ok \<lparr>tlv_tag = ucast tag, tlv_value = val, tlv_size = length (written tag val)\<rparr>"
    if "single_tag tag" "length val < 65536" "length rest < 65536" for tag val rest
    using ber_parse_after_tag [of "[tag]" val rest "ucast tag"] that ber_tag_single [OF that(1)] length_octets_bound [of "length val"]
    by (simp add: written_def)
  show ?thesis
    unfolding reads_back_def
  proof (intro conjI allI impI)
    fix tag :: byte and val enc rest :: bytes
    assume *: "single_tag tag \<and> length val < 65536 \<and> length rest < 65536 \<and> tlv tag val = (Ok enc :: (x509_error, bytes) res)"
    then have enc: "enc = written tag val" by (auto simp: tlv_written)
    show "tlv_read ber_lib (enc @ rest) = Some (enc, rest)" "any_from_der ber_lib enc = Some (der_tag_of tag, val)"
      using * parse [of tag val rest] parse [of tag val "[]"] unfolding enc
      by (simp_all add: ber_lib_def short_der_def written_def)
  qed (simp add: ber_lib_def short_der_def)
qed



text \<open>An alternative of the status that the program does not know is an error, although the comment on the parser
  promises that it is read as unknown.\<close>

lemma unknown_alternative_is_an_error:
  assumes "\<not> first_is der TAG_CONTEXT_0_PRIMITIVE" "\<not> first_is der TAG_CONTEXT_1" "\<not> first_is der TAG_CONTEXT_2_PRIMITIVE"
  shows "parse_cert_status d der = Err (UnexpectedStructure ''OCSP certStatus'')"
  using assms by (simp add: parse_cert_status_def)

subsection \<open>Who may sign a response\<close>

definition delegated_responder :: "verifier \<Rightarrow> certificate \<Rightarrow> certificate \<Rightarrow> date_time \<Rightarrow> bool" where
  "delegated_responder verify_tbs signer iss produced \<longleftrightarrow>
     issuer signer = subject iss \<and> not_before signer \<le> produced \<and> produced \<le> not_after signer
     \<and> verify_signed_by verify_tbs signer iss = Ok ()
     \<and> (\<exists>exts p. extensions signer = Some exts \<and> path_extension_profile exts = Ok p
        \<and> \<not> ca (profile_basic_constraints p) \<and> \<not> name_constraints_present p
        \<and> extended_key_usage_present p \<and> ocsp_signing_extended_key_usage p
        \<and> (\<forall>usage. profile_key_usage p = Some usage \<longrightarrow> digital_signature (kum_key_usage usage))
        \<and> ocsp_no_check_present p)"

lemma authorize_signer_Ok:
  "authorize_signer verify_tbs signer iss produced = Ok () \<longleftrightarrow>
     raw_der signer = raw_der iss \<or> delegated_responder verify_tbs signer iss produced"
  by (auto simp: authorize_signer_def authorize_responder_extensions_def delegated_responder_def res_simps
      split: option.splits if_splits)

lemma VerifiedOcspResponse_verify_Ok:
  "VerifiedOcspResponse_verify sha1 verify_tbs b signer iss = Ok v \<longleftrightarrow>
     matches_certificate sha1 (responder_id b) signer \<and> basic_verify_signature verify_tbs b (spki signer) = Ok ()
     \<and> (raw_der signer = raw_der iss \<or> delegated_responder verify_tbs signer iss (produced_at b))
     \<and> v = \<lparr>v_basic = b, v_issuer_name_hash = sha1 (subject iss), v_issuer_key_hash = sha1 (subject_public_key_bits iss)\<rparr>"
  by (auto simp: VerifiedOcspResponse_verify_def authorize_signer_Ok res_simps)

end
