(* ===== verification/Revocation.thy ===== *)
theory Revocation
  imports Ocsp
begin

text \<open>
  Revocation verdicts (\<open>revocation.rs\<close>): the two checks against a verified list or response, the evidence made of a
  verdict, and the cache of evidence. The strict decoder of names, which the cache uses for its keys, is an
  argument.
\<close>

subsection \<open>Verdicts\<close>

datatype inapplicable_reason = CrlIssuerMismatch | OcspNoMatchingCertId

datatype revocation_status = RevGood | Inapplicable inapplicable_reason | RevRevoked date_time "crl_reason option"
  | Stale | RevUnknown

fun InapplicableReason_display :: "inapplicable_reason \<Rightarrow> string" where
  "InapplicableReason_display CrlIssuerMismatch = ''CRL issuer DN mismatch''"
| "InapplicableReason_display OcspNoMatchingCertId = ''OCSP response had no exact CertID entry''"

definition expired :: "date_time option \<Rightarrow> date_time \<Rightarrow> bool" where
  "expired next now = (case next of None \<Rightarrow> False | Some t \<Rightarrow> t < now)"

definition check_against_crl :: "'l crl_lib_scheme \<Rightarrow> certificate \<Rightarrow> crl \<Rightarrow> date_time \<Rightarrow> revocation_status" where
  "check_against_crl d cert c now =
     (if crl_issuer c \<noteq> issuer cert then Inapplicable CrlIssuerMismatch
      else if expired (crl_next_update c) now then Stale
      else (case crl_find_serial d c (serial_der cert) of
        None \<Rightarrow> RevGood
      | Some e \<Rightarrow> RevRevoked (entry_revocation_date e) (entry_reason e)))"

fun status_verdict :: "cert_status \<Rightarrow> revocation_status" where
  "status_verdict Good = RevGood"
| "status_verdict (Revoked at reason) = RevRevoked at reason"
| "status_verdict Unknown = RevUnknown"

definition check_against_ocsp_response :: "certificate \<Rightarrow> verified_ocsp_response \<Rightarrow> date_time \<Rightarrow> revocation_status" where
  "check_against_ocsp_response cert v now =
     (case response_for v cert of
        None \<Rightarrow> Inapplicable OcspNoMatchingCertId
      | Some single \<Rightarrow> if expired (sr_next_update single) now then Stale else status_verdict (sr_status single))"

subsection \<open>Evidence\<close>

datatype revocation_source = SourceOcsp | SourceCrl

record revocation_evidence =
  evidence_status :: revocation_status
  evidence_source :: revocation_source
  checked_at :: date_time
  valid_until :: "date_time option"

definition from_ocsp :: "certificate \<Rightarrow> verified_ocsp_response \<Rightarrow> date_time \<Rightarrow> revocation_evidence" where
  "from_ocsp cert v now =
     \<lparr>evidence_status = check_against_ocsp_response cert v now, evidence_source = SourceOcsp, checked_at = now,
      valid_until = Option.bind (response_for v cert) sr_next_update\<rparr>"

definition from_crl :: "'l crl_lib_scheme \<Rightarrow> certificate \<Rightarrow> crl \<Rightarrow> date_time \<Rightarrow> revocation_evidence" where
  "from_crl d cert c now =
     \<lparr>evidence_status = check_against_crl d cert c now, evidence_source = SourceCrl, checked_at = now,
      valid_until = crl_next_update c\<rparr>"

definition is_fresh :: "revocation_evidence \<Rightarrow> date_time \<Rightarrow> bool" where
  "is_fresh e now = (case valid_until e of None \<Rightarrow> False | Some t \<Rightarrow> now \<le> t)"

subsection \<open>The cache\<close>

type_synonym 'n cached_cert_id = "'n \<times> bytes"
type_synonym 'n revocation_cache = "('n cached_cert_id \<times> revocation_evidence) list"

definition for_cert :: "(bytes \<Rightarrow> 'n option) \<Rightarrow> certificate \<Rightarrow> 'n cached_cert_id option" where
  "for_cert name_from_der cert = Option.bind (name_from_der (issuer cert)) (\<lambda>n. Some (n, serial_der cert))"

fun put_evidence :: "'n cached_cert_id \<Rightarrow> revocation_evidence \<Rightarrow> 'n revocation_cache \<Rightarrow> 'n revocation_cache" where
  "put_evidence cid e [] = [(cid, e)]"
| "put_evidence cid e ((i, old) # entries) = (if i = cid then (i, e) # entries else (i, old) # put_evidence cid e entries)"

definition cache_insert :: "(bytes \<Rightarrow> 'n option) \<Rightarrow> 'n revocation_cache \<Rightarrow> certificate \<Rightarrow> revocation_evidence \<Rightarrow> 'n revocation_cache" where
  "cache_insert name_from_der entries cert e =
     (case for_cert name_from_der cert of None \<Rightarrow> entries | Some cid \<Rightarrow> put_evidence cid e entries)"

definition is_revoked :: "revocation_status \<Rightarrow> bool" where
  "is_revoked s = (case s of RevRevoked _ _ \<Rightarrow> True | _ \<Rightarrow> False)"

definition cache_get :: "(bytes \<Rightarrow> 'n option) \<Rightarrow> 'n revocation_cache \<Rightarrow> certificate \<Rightarrow> date_time \<Rightarrow> revocation_evidence option" where
  "cache_get name_from_der entries cert now =
     Option.bind (for_cert name_from_der cert) (\<lambda>cid.
     Option.bind (find (\<lambda>entry. fst entry = cid) entries) (\<lambda>(_, e).
     if is_revoked (evidence_status e) \<or> is_fresh e now then Some e else None))"

subsection \<open>The cache is a map\<close>

lemma map_of_put_evidence: "map_of (put_evidence cid e entries) = (map_of entries)(cid \<mapsto> e)"
  by (induction cid e entries rule: put_evidence.induct) (auto simp: fun_eq_iff)

lemma keys_put_evidence:
  "map fst (put_evidence cid e entries) = (if cid \<in> set (map fst entries) then map fst entries else map fst entries @ [cid])"
  by (induction cid e entries rule: put_evidence.induct) auto

lemma length_put_evidence: "length (put_evidence cid e entries) \<le> Suc (length entries)"
  by (induction cid e entries rule: put_evidence.induct) auto

lemma find_is_map_of: "find (\<lambda>entry. fst entry = cid) entries = map_option (Pair cid) (map_of entries cid)"
  by (induction entries) auto

text \<open>At most one entry per identity, and no more entries than insertions.\<close>

lemma cache_insert_inv:
  "distinct (map fst s) \<and> length s \<le> n \<Longrightarrow>
     distinct (map fst (cache_insert nf s cert e)) \<and> length (cache_insert nf s cert e) \<le> Suc n"
  by (auto simp: cache_insert_def keys_put_evidence intro: order_trans [OF length_put_evidence] split: option.splits)

interpretation evidence: op_system "\<lambda>s op. cache_insert nf s (fst op) (snd op)" "\<lambda>n s. distinct (map fst s) \<and> length s \<le> n" for nf
  by unfold_locales (rule cache_insert_inv)

definition evidence_map :: "(bytes \<Rightarrow> 'n option) \<Rightarrow> ('n cached_cert_id \<rightharpoonup> revocation_evidence)
    \<Rightarrow> certificate \<times> revocation_evidence \<Rightarrow> ('n cached_cert_id \<rightharpoonup> revocation_evidence)" where
  "evidence_map nf m op = (case for_cert nf (fst op) of None \<Rightarrow> m | Some cid \<Rightarrow> m(cid \<mapsto> snd op))"

lemma map_of_cache: "map_of (foldl (\<lambda>s op. cache_insert nf s (fst op) (snd op)) s ops) = foldl (evidence_map nf) (map_of s) ops"
  by (induction ops arbitrary: s) (auto simp: evidence_map_def cache_insert_def map_of_put_evidence split: option.splits)

definition cache_after :: "(bytes \<Rightarrow> 'n option) \<Rightarrow> (certificate \<times> revocation_evidence) list \<Rightarrow> 'n revocation_cache" where
  "cache_after nf ops = foldl (\<lambda>s op. cache_insert nf s (fst op) (snd op)) [] ops"

definition latest_evidence :: "(bytes \<Rightarrow> 'n option) \<Rightarrow> (certificate \<times> revocation_evidence) list
    \<Rightarrow> ('n cached_cert_id \<rightharpoonup> revocation_evidence)" where
  "latest_evidence nf ops = foldl (evidence_map nf) Map.empty ops"

text \<open>C22. The revocation cache refines a map from the issuer and serial number of a certificate to the evidence
  inserted last for it. After any history of insertions it holds at most one entry for an identity, and a lookup
  returns the evidence of the map if that says revoked or is still inside its validity window, and nothing
  otherwise: a stale verdict that is not a revocation is never served, evidence without a window only if it is a
  revocation, and a certificate whose issuer cannot be decoded is never cached. The map also shows that a
  revocation is only as sticky as the history: a later insertion for the same certificate replaces it.\<close>

theorem revocation_cache_refines_map:
  "distinct (map fst (cache_after nf ops)) \<and> length (cache_after nf ops) \<le> length ops
   \<and> cache_get nf (cache_after nf ops) cert now =
       (case for_cert nf cert of
          None \<Rightarrow> None
        | Some cid \<Rightarrow> (case latest_evidence nf ops cid of
            None \<Rightarrow> None
          | Some e \<Rightarrow> if is_revoked (evidence_status e) \<or> is_fresh e now then Some e else None))
   \<and> latest_evidence nf (ops @ [(cert, e)]) =
       (case for_cert nf cert of None \<Rightarrow> latest_evidence nf ops | Some cid \<Rightarrow> (latest_evidence nf ops)(cid \<mapsto> e))"
proof (intro conjI)
  have inv: "distinct (map fst (cache_after nf ops)) \<and> length (cache_after nf ops) \<le> length ops"
    unfolding cache_after_def by (rule evidence.run_inv_0) simp
  then show "distinct (map fst (cache_after nf ops))" "length (cache_after nf ops) \<le> length ops" by simp_all
  have "map_of (cache_after nf ops) = latest_evidence nf ops"
    unfolding cache_after_def latest_evidence_def by (simp add: map_of_cache)
  then show "cache_get nf (cache_after nf ops) cert now =
       (case for_cert nf cert of
          None \<Rightarrow> None
        | Some cid \<Rightarrow> (case latest_evidence nf ops cid of
            None \<Rightarrow> None
          | Some e \<Rightarrow> if is_revoked (evidence_status e) \<or> is_fresh e now then Some e else None))"
    by (auto simp: cache_get_def find_is_map_of split: option.splits)
qed (simp add: latest_evidence_def evidence_map_def split: option.splits)

subsection \<open>Verdicts are about the right certificate\<close>

text \<open>A small list and a small response for the evaluation of the parsers.\<close>

definition sample_list :: certificate_list where
  "sample_list = \<lparr>cl_tbs_signature = ([0x2A], None), cl_signature_algorithm = ([0x2A], None), cl_version = V2,
     cl_revoked_certificates = Some [\<lparr>rc_serial_number = [7], rc_revocation_date = 3, crl_entry_extensions = None\<rparr>],
     cl_crl_extensions = None\<rparr>"

definition sample_lib :: crl_lib where
  "sample_lib = der_lib.extend short_der
     \<lparr>certificate_list_from_der = (\<lambda>_. Some sample_list),
      revoked_cert_from_der = (\<lambda>der. if length der = 5 then Some \<lparr>rc_serial_number = [der ! 4], rc_revocation_date = 3, crl_entry_extensions = None\<rparr> else None)\<rparr>"

definition sample_crl_der :: bytes where
  "sample_crl_der = [0x30, 0x1F, 0x30, 0x14, 0x30, 0x03, 0x06, 0x01, 0x2A, 0x30, 0x00, 0x17, 0x01, 0x05, 0x17, 0x01, 0x09,
     0x30, 0x05, 0x30, 0x03, 0x02, 0x01, 0x07, 0x30, 0x03, 0x06, 0x01, 0x2A, 0x03, 0x02, 0x00, 0xAA]"

definition sample_crl :: crl where
  "sample_crl = \<lparr>crl_raw_der = sample_crl_der, crl_tbs_der = take 22 (drop 2 sample_crl_der), crl_issuer = [0x30, 0x00],
     crl_this_update = 5, crl_next_update = Some 9, revoked_seq_value = Some [0x30, 0x03, 0x02, 0x01, 0x07],
     crl_signature_alg_oid = [0x2A], crl_signature_bits = [0xAA]\<rparr>"

lemma sample_crl_parses: "Crl_parse sample_lib sample_crl_der = Ok sample_crl"
  by code_simp

definition sample_issuer :: certificate where
  "sample_issuer = \<lparr>raw_der = [1], tbs_der = [], serial_der = [1], issuer = [0x30, 0x00], subject = [0x30, 0x00],
     not_before = 0, not_after = 100, spki = [], subject_public_key_bits = [],
     extensions = Some [0x30, 0x0B, 0x06, 0x03, 0x55, 0x1D, 0x0F, 0x04, 0x04, 0x03, 0x02, 0x01, 0x02],
     signature_alg_oid = [0x2A], signature_bits = []\<rparr>"
lemma KEY_USAGE_bytes: "KEY_USAGE = [0x55, 0x1D, 0x0F]"
  unfolding KEY_USAGE_def by code_simp

lemma sample_key_usage_found: "find_extension_with_meta sample_lib [0x30, 0x0B, 0x06, 0x03, 0x55, 0x1D, 0x0F, 0x04, 0x04, 0x03, 0x02, 0x01, 0x02]
   [0x55, 0x1D, 0x0F] = Some \<lparr>meta_value = [0x03, 0x02, 0x01, 0x02], meta_critical = False\<rparr>"
  by code_simp
lemma sample_issuer_signs_lists: "\<exists>usage. extract_key_usage sample_lib [0x30, 0x0B, 0x06, 0x03, 0x55, 0x1D, 0x0F, 0x04, 0x04, 0x03, 0x02, 0x01, 0x02] = Some usage \<and> crl_sign usage"
  unfolding extract_key_usage_def KEY_USAGE_bytes sample_key_usage_found
  by (simp add: ber_parse_typed_def ber_parse_def ber_tag_def ber_length_def ber_next_def get_at_def slice_def ber_expect_def)
lemma sample_crl_verifies: "VerifiedCrl_verify sample_lib (\<lambda>_. Ok ()) sample_crl sample_issuer = Ok sample_crl"
  using sample_issuer_signs_lists by (simp add: VerifiedCrl_verify_Ok sample_issuer_def sample_crl_def crl_verify_signature_def)
lemma sample_decoders_agree: "typed_decoder_agrees sample_lib sample_crl"
proof -
  have "tlv_all sample_lib [0x30, 0x03, 0x02, 0x01, 0x07] = Some [[0x30, 0x03, 0x02, 0x01, 0x07]]" by code_simp
  then show ?thesis
    by (simp add: typed_decoder_agrees_def sample_crl_def sample_lib_def short_der_def sample_list_def der_lib.defs)
qed

definition sample_basic_der :: bytes where
  "sample_basic_der = [0x30, 0x34, 0x30, 0x29, 0xA1, 0x02, 0x30, 0x00, 0x18, 0x01, 0x05, 0x30, 0x20, 0x30, 0x1E,
     0x30, 0x12, 0x30, 0x07, 0x06, 0x05, 0x2B, 0x0E, 0x03, 0x02, 0x1A, 0x04, 0x01, 0x09, 0x04, 0x01, 0x09, 0x02, 0x01, 0x07,
     0x80, 0x00, 0x18, 0x01, 0x05, 0xA0, 0x03, 0x18, 0x01, 0x09, 0x30, 0x03, 0x06, 0x01, 0x2A, 0x03, 0x02, 0x00, 0xAA]"

definition sample_answer :: single_response where
  "sample_answer = \<lparr>sr_cert_id = \<lparr>hash_algorithm_oid = [0x2B, 0x0E, 0x03, 0x02, 0x1A], issuer_name_hash = [9],
       issuer_key_hash = [9], cid_serial = [7]\<rparr>, sr_status = Good, sr_this_update = 5, sr_next_update = Some 9\<rparr>"

definition sample_basic :: basic_ocsp_response where
  "sample_basic = \<lparr>responder_id = ByName [0x30, 0x00], produced_at = 5, responses = [sample_answer],
     tbs_response_data_der = take 43 (drop 2 sample_basic_der), basic_signature_alg_oid = [0x2A], basic_signature_bits = [0xAA],
     embedded_cert_ders = [], basic_nonce = None\<rparr>"

lemma sample_basic_parses: "BasicOcspResponse_parse short_der sample_basic_der = Ok sample_basic"
  by code_simp

lemma sample_basic_verifies: "VerifiedOcspResponse_verify (\<lambda>_. [9]) (\<lambda>_. Ok ()) sample_basic sample_issuer sample_issuer =
  Ok \<lparr>v_basic = sample_basic, v_issuer_name_hash = [9], v_issuer_key_hash = [9]\<rparr>"
  by (simp add: VerifiedOcspResponse_verify_Ok sample_basic_def sample_issuer_def basic_verify_signature_def)

text \<open>C20. The verdict from a revocation list is the one of its entries. For a list that was parsed, and verified
  against the certificate of its issuer, where the third-party decoder of the whole list and that of one entry agree,
  a certificate is judged: inapplicable iff its issuer is not the subject of that certificate, stale iff the time is
  past \<open>nextUpdate\<close>, and otherwise revoked with the date and reason of the first entry of the list with its serial
  number, or good iff there is none. The verification demands the issuer's name, its right to sign lists, and a
  signature over the signed part of exactly the parsed bytes.\<close>

theorem crl_verdict_exact:
  assumes "Crl_parse d der = Ok c" and "certificate_list_from_der d der = Some l" and "typed_decoder_agrees d c"
    and "VerifiedCrl_verify d verify_tbs c iss = Ok v"
  shows "check_against_crl d cert v now =
     (if issuer cert \<noteq> subject iss then Inapplicable CrlIssuerMismatch
      else if expired (crl_next_update c) now then Stale
      else (case find (\<lambda>e. rc_serial_number e = serial_der cert) (typed_entries l) of
        None \<Rightarrow> RevGood
      | Some e \<Rightarrow> RevRevoked (rc_revocation_date e) (Option.bind (crl_entry_extensions e) (find_reason_code d))))
     \<and> crl_verify_signature verify_tbs c (spki iss) = Ok () \<and> crl_raw_der v = der
     \<and> (\<exists>exts usage. extensions iss = Some exts \<and> extract_key_usage d exts = Some usage \<and> crl_sign usage)"
proof -
  from assms(4) have v: "v = c" "crl_issuer c = subject iss" "crl_verify_signature verify_tbs c (spki iss) = Ok ()"
      "\<exists>exts usage. extensions iss = Some exts \<and> extract_key_usage d exts = Some usage \<and> crl_sign usage"
    by (simp_all add: VerifiedCrl_verify_Ok)
  have raw: "crl_raw_der c = der"
    using assms(1) by (auto simp: Crl_parse_def parse_tbs_cert_list_def res_simps split: prod.splits if_splits)
  have "find (\<lambda>e. entry_serial e = serial) (map (to_entry d) cs) = map_option (to_entry d) (find (\<lambda>e. rc_serial_number e = serial) cs)"
    for serial cs by (induction cs) (auto simp: to_entry_def)
  then show ?thesis
    using v raw crl_entries_typed [of d c l] assms(2,3)
    by (auto simp: check_against_crl_def crl_find_serial_def to_entry_def split: option.splits)
qed

theorem crl_verdict_exact_witness:
  "check_against_crl sample_lib (sample_issuer\<lparr>serial_der := [7]\<rparr>) sample_crl 9 = RevRevoked 3 None
   \<and> check_against_crl sample_lib (sample_issuer\<lparr>serial_der := [8]\<rparr>) sample_crl 9 = RevGood
   \<and> check_against_crl sample_lib (sample_issuer\<lparr>serial_der := [8]\<rparr>) sample_crl 10 = Stale"
proof -
  have l: "certificate_list_from_der sample_lib sample_crl_der = Some sample_list"
    by (simp add: sample_lib_def short_der_def der_lib.defs)
  show ?thesis
    using crl_verdict_exact [OF sample_crl_parses l sample_decoders_agree sample_crl_verifies, of "sample_issuer\<lparr>serial_der := [7]\<rparr>" 9]
      crl_verdict_exact [OF sample_crl_parses l sample_decoders_agree sample_crl_verifies, of "sample_issuer\<lparr>serial_der := [8]\<rparr>" 9]
      crl_verdict_exact [OF sample_crl_parses l sample_decoders_agree sample_crl_verifies, of "sample_issuer\<lparr>serial_der := [8]\<rparr>" 10]
    by (simp add: sample_issuer_def sample_crl_def sample_list_def typed_entries_def expired_def)
qed

text \<open>C21. An OCSP response says good only with authority and only about the certificate that was asked for. For a
  parsed and verified response, the verdict on a certificate is good if and only if the response holds an answer
  with SHA-1, the hashes of the issuer's name and key, and the certificate's serial number, that answer is good, and
  its \<open>nextUpdate\<close>, if any, has not passed; there is never more than one such answer. The signer of the response is
  the one it names, its key verifies the signature, and it is the issuer itself or a certificate issued and signed
  by the issuer, valid when the response was produced, that is no CA, is entitled to sign OCSP responses, and is
  marked as needing no revocation check.\<close>

theorem ocsp_good_has_authority:
  assumes "BasicOcspResponse_parse d der = Ok b" and "VerifiedOcspResponse_verify sha1 verify_tbs b signer iss = Ok v"
  shows "(check_against_ocsp_response cert v now = RevGood \<longleftrightarrow>
       (\<exists>r \<in> set (responses b).
          sr_cert_id r = \<lparr>hash_algorithm_oid = OID_SHA1, issuer_name_hash = sha1 (subject iss),
                          issuer_key_hash = sha1 (subject_public_key_bits iss), cid_serial = serial_der cert\<rparr>
          \<and> sr_status r = Good \<and> \<not> expired (sr_next_update r) now))
     \<and> distinct (map sr_cert_id (responses b)) \<and> matches_certificate sha1 (responder_id b) signer
     \<and> basic_verify_signature verify_tbs b (spki signer) = Ok ()
     \<and> (raw_der signer = raw_der iss \<or> delegated_responder verify_tbs signer iss (produced_at b))"
proof -
  note ver = assms(2) [unfolded VerifiedOcspResponse_verify_Ok]
  have dist: "distinct (map sr_cert_id (responses b))" using BasicOcspResponse_parse_responses [OF assms(1)] ..
  have good: "status_verdict s = RevGood \<longleftrightarrow> s = Good" for s by (cases s) auto
  have iff: "response_for v cert = Some r \<longleftrightarrow> r \<in> set (responses b)
      \<and> sr_cert_id r = \<lparr>hash_algorithm_oid = OID_SHA1, issuer_name_hash = sha1 (subject iss),
                        issuer_key_hash = sha1 (subject_public_key_bits iss), cid_serial = serial_der cert\<rparr>" for r
    using ver dist response_for_iff [of v cert r] by simp
  have "check_against_ocsp_response cert v now = RevGood \<longleftrightarrow>
      (\<exists>r. response_for v cert = Some r \<and> sr_status r = Good \<and> \<not> expired (sr_next_update r) now)"
    by (auto simp: check_against_ocsp_response_def good split: option.splits)
  then show ?thesis using ver dist unfolding iff by blast
qed

theorem ocsp_good_has_authority_witness:
  "check_against_ocsp_response (sample_issuer\<lparr>serial_der := [7]\<rparr>)
     \<lparr>v_basic = sample_basic, v_issuer_name_hash = [9], v_issuer_key_hash = [9]\<rparr> 8 = RevGood
   \<and> check_against_ocsp_response (sample_issuer\<lparr>serial_der := [8]\<rparr>)
     \<lparr>v_basic = sample_basic, v_issuer_name_hash = [9], v_issuer_key_hash = [9]\<rparr> 8 \<noteq> RevGood"
proof -
  have oid: "OID_SHA1 = [0x2B, 0x0E, 0x03, 0x02, 0x1A]" unfolding OID_SHA1_def by code_simp
  have "responses sample_basic = [sample_answer]" by (simp add: sample_basic_def)
  with ocsp_good_has_authority [OF sample_basic_parses sample_basic_verifies, of "sample_issuer\<lparr>serial_der := [7]\<rparr>" 8, THEN conjunct1]
    ocsp_good_has_authority [OF sample_basic_parses sample_basic_verifies, of "sample_issuer\<lparr>serial_der := [8]\<rparr>" 8, THEN conjunct1]
  show ?thesis by (simp add: sample_answer_def expired_def oid)
qed

text \<open>A revocation is sticky against age only: it does not survive a later insertion for the same certificate.\<close>

lemma revocation_is_overwritten:
  assumes "for_cert nf cert = Some cid" and "is_fresh good now"
  shows "cache_get nf (cache_insert nf (cache_insert nf s cert revoked) cert good) cert now = Some good"
  using assms by (simp add: cache_insert_def cache_get_def find_is_map_of map_of_put_evidence)

end
