(* ===== verification/Uri.thy ===== *)
theory Uri
  imports Country Decimal
begin

text \<open>
  Refined strings and URLs (\<open>text.rs\<close>). Text is its UTF-8 encoding; the code only searches for ASCII characters,
  which never occur inside the encoding of another character, so a search for a character is one for a byte.
\<close>

subsection \<open>Charset strings\<close>

record charset_error =
  ce_position :: nat
  ce_byte :: byte

text \<open>\<open>0x{byte:02X}\<close> and \<open>{byte:#04X}\<close>: two uppercase hexadecimal digits after \<open>0x\<close>.\<close>

definition hex_upper_char :: "nat \<Rightarrow> char" where
  "hex_upper_char n = char_of (if n < 10 then 48 + n else 55 + n)"

definition hex_upper_04 :: "byte \<Rightarrow> string" where
  "hex_upper_04 b = ''0x'' @ [hex_upper_char (unat b div 16), hex_upper_char (unat b mod 16)]"

definition CharsetError_display :: "charset_error \<Rightarrow> string" where
  "CharsetError_display e = ''byte '' @ hex_upper_04 (ce_byte e) @ '' at position '' @ decimal (ce_position e)
     @ '' is outside the allowed charset''"

fun violation_from :: "nat \<Rightarrow> bytes \<Rightarrow> (byte \<Rightarrow> bool) \<Rightarrow> charset_error option" where
  "violation_from position [] allowed = None"
| "violation_from position (b # bs) allowed =
     (if allowed b then violation_from (Suc position) bs allowed else Some \<lparr>ce_position = position, ce_byte = b\<rparr>)"

definition first_violation :: "bytes \<Rightarrow> (byte \<Rightarrow> bool) \<Rightarrow> charset_error option" where
  "first_violation t allowed = violation_from 0 t allowed"

definition charset_string_parse :: "(byte \<Rightarrow> bool) \<Rightarrow> bytes \<Rightarrow> (charset_error, bytes) res" where
  "charset_string_parse allowed t = (case first_violation t allowed of Some e \<Rightarrow> Err e | None \<Rightarrow> Ok t)"

definition is_ascii_alphanumeric :: "byte \<Rightarrow> bool" where
  "is_ascii_alphanumeric b \<longleftrightarrow> is_ascii_alphabetic b \<or> is_ascii_digit b"

definition token_mark :: "byte \<Rightarrow> bool" where
  "token_mark b \<longleftrightarrow> b = 0x2E \<or> b = 0x5F \<or> b = 0x2D"

definition AlphaString_parse where "AlphaString_parse = charset_string_parse is_ascii_alphabetic"
definition LowerAlphaString_parse where "LowerAlphaString_parse = charset_string_parse is_ascii_lowercase"
definition AlphaNumString_parse where "AlphaNumString_parse = charset_string_parse is_ascii_alphanumeric"
definition LowerAlphaNumString_parse where
  "LowerAlphaNumString_parse = charset_string_parse (\<lambda>b. is_ascii_lowercase b \<or> is_ascii_digit b)"
definition TokenString_parse where
  "TokenString_parse = charset_string_parse (\<lambda>b. is_ascii_alphanumeric b \<or> token_mark b)"
definition LowerTokenString_parse where
  "LowerTokenString_parse = charset_string_parse (\<lambda>b. (is_ascii_lowercase b \<or> is_ascii_digit b) \<or> token_mark b)"

subsection \<open>Errors\<close>

abbreviation MAX_URI_LEN :: nat where "MAX_URI_LEN \<equiv> 8000"
abbreviation MAX_HOST_LEN :: nat where "MAX_HOST_LEN \<equiv> 253"
abbreviation MAX_LABEL_LEN :: nat where "MAX_LABEL_LEN \<equiv> 63"
abbreviation DEFAULT_HTTP_PORT :: u16 where "DEFAULT_HTTP_PORT \<equiv> 80"
abbreviation DEFAULT_HTTPS_PORT :: u16 where "DEFAULT_HTTPS_PORT \<equiv> 443"

datatype uri_char_error = IllegalByte nat byte | MalformedEscape nat

datatype host_error = HostEmpty | HostTooLong nat | EmptyLabel | LabelTooLong nat | LabelHyphenBoundary | HostByte byte

datatype uri_error = UriTooLong nat | UriScheme | Userinfo | BadPort | UriHost host_error | UriPath uri_char_error
  | UriQuery uri_char_error

fun UriCharError_display :: "uri_char_error \<Rightarrow> string" where
  "UriCharError_display (IllegalByte position b) =
     ''byte '' @ hex_upper_04 b @ '' at position '' @ decimal position @ '' is not a URI character''"
| "UriCharError_display (MalformedEscape position) = ''malformed percent-escape at position '' @ decimal position"

fun HostError_display :: "host_error \<Rightarrow> string" where
  "HostError_display HostEmpty = ''empty host''"
| "HostError_display (HostTooLong len) =
     ''host is '' @ decimal len @ '' octets, over the '' @ decimal MAX_HOST_LEN @ '' limit''"
| "HostError_display EmptyLabel = ''empty host label (leading, trailing, or double dot)''"
| "HostError_display (LabelTooLong len) =
     ''host label is '' @ decimal len @ '' octets, over the '' @ decimal MAX_LABEL_LEN @ '' limit''"
| "HostError_display LabelHyphenBoundary = ''host label begins or ends with a hyphen''"
| "HostError_display (HostByte b) = ''byte '' @ hex_upper_04 b @ '' is outside the host charset [a-z0-9.-]''"

fun UriError_display :: "uri_error \<Rightarrow> string" where
  "UriError_display (UriTooLong len) = ''URI is '' @ decimal len @ '' bytes, over the '' @ decimal MAX_URI_LEN @ '' limit''"
| "UriError_display UriScheme = ''URI scheme is not http:// or https://''"
| "UriError_display Userinfo = ''URI authority carries userinfo (user@host), not accepted''"
| "UriError_display BadPort = ''URI port is not a u16-range *DIGIT''"
| "UriError_display (UriHost e) = ''URI host: '' @ HostError_display e"
| "UriError_display (UriPath e) = ''URI path: '' @ UriCharError_display e"
| "UriError_display (UriQuery e) = ''URI query: '' @ UriCharError_display e"

subsection \<open>Components\<close>

datatype scheme = Http | Https

fun default_port :: "scheme \<Rightarrow> u16" where
  "default_port Http = DEFAULT_HTTP_PORT"
| "default_port Https = DEFAULT_HTTPS_PORT"

fun Scheme_display :: "scheme \<Rightarrow> bytes" where
  "Scheme_display Http = str_bytes ''http''"
| "Scheme_display Https = str_bytes ''https''"

definition is_pchar :: "byte \<Rightarrow> bool" where
  "is_pchar b \<longleftrightarrow> is_ascii_alphanumeric b \<or> b \<in> {0x2D, 0x2E, 0x5F, 0x7E} \<or>
     b \<in> {0x21, 0x24, 0x26, 0x27, 0x28, 0x29, 0x2A, 0x2B, 0x2C, 0x3B, 0x3D} \<or> b \<in> {0x3A, 0x40}"

definition is_ascii_hexdigit :: "byte \<Rightarrow> bool" where
  "is_ascii_hexdigit b \<longleftrightarrow> is_ascii_digit b \<or> (0x41 \<le> b \<and> b \<le> 0x46) \<or> (0x61 \<le> b \<and> b \<le> 0x66)"

text \<open>The scan of \<open>PctScan::first_error\<close> over the unread rest of a text of \<open>full\<close> bytes.\<close>

fun pct_scan :: "nat \<Rightarrow> bytes \<Rightarrow> (byte \<Rightarrow> bool) \<Rightarrow> uri_char_error option" where
  "pct_scan full [] allowed = None"
| "pct_scan full (first # tail) allowed =
     (let position = full - Suc (length tail) in
      if first = 0x25 then
        (case tail of
           hi # lo # rest \<Rightarrow>
             if is_ascii_hexdigit hi \<and> is_ascii_hexdigit lo then pct_scan full rest allowed
             else Some (MalformedEscape position)
         | _ \<Rightarrow> Some (MalformedEscape position))
      else if allowed first then pct_scan full tail allowed
      else Some (IllegalByte position first))"

definition pct_first_error :: "bytes \<Rightarrow> (byte \<Rightarrow> bool) \<Rightarrow> uri_char_error option" where
  "pct_first_error t allowed = pct_scan (length t) t allowed"

text \<open>\<open>str::split\<close>, \<open>split_once\<close> and \<open>rsplit_once\<close>.\<close>

fun str_split :: "byte \<Rightarrow> bytes \<Rightarrow> bytes list" where
  "str_split c [] = [[]]"
| "str_split c (b # bs) =
     (if b = c then [] # str_split c bs
      else (case str_split c bs of [] \<Rightarrow> [[b]] | part # parts \<Rightarrow> (b # part) # parts))"

definition split_once :: "byte \<Rightarrow> bytes \<Rightarrow> (bytes \<times> bytes) option" where
  "split_once c t =
     (case dropWhile (\<lambda>b. b \<noteq> c) t of [] \<Rightarrow> None | _ # rest \<Rightarrow> Some (takeWhile (\<lambda>b. b \<noteq> c) t, rest))"

definition rsplit_once :: "byte \<Rightarrow> bytes \<Rightarrow> (bytes \<times> bytes) option" where
  "rsplit_once c t = map_option (\<lambda>(post, pre). (rev pre, rev post)) (split_once c (rev t))"

definition make_ascii_lowercase :: "bytes \<Rightarrow> bytes" where
  "make_ascii_lowercase t = map (\<lambda>b. if is_ascii_uppercase b then b + 0x20 else b) t"

definition host_byte :: "byte \<Rightarrow> bool" where
  "host_byte b \<longleftrightarrow> is_ascii_lowercase b \<or> is_ascii_digit b \<or> b = 0x2D"

definition check_label :: "bytes \<Rightarrow> (host_error, unit) res" where
  "check_label label =
     (if label = [] then Err EmptyLabel
      else if MAX_LABEL_LEN < length label then Err (LabelTooLong (length label))
      else if hd label = 0x2D \<or> last label = 0x2D then Err LabelHyphenBoundary
      else (case find (\<lambda>b. \<not> host_byte b) label of Some b \<Rightarrow> Err (HostByte b) | None \<Rightarrow> Ok ()))"

definition Host_parse :: "bytes \<Rightarrow> (host_error, bytes) res" where
  "Host_parse t =
     (let t = make_ascii_lowercase t in
      if t = [] then Err HostEmpty
      else if MAX_HOST_LEN < length t then Err (HostTooLong (length t))
      else and_then (map_res check_label (str_split 0x2E t)) (\<lambda>_. Ok t))"

definition path_byte :: "byte \<Rightarrow> bool" where
  "path_byte b \<longleftrightarrow> is_pchar b \<or> b = 0x2F"

definition query_byte :: "byte \<Rightarrow> bool" where
  "query_byte b \<longleftrightarrow> is_pchar b \<or> b = 0x2F \<or> b = 0x3F"

definition Path_parse :: "bytes \<Rightarrow> (uri_char_error, bytes) res" where
  "Path_parse t =
     (case pct_first_error t path_byte of
        Some e \<Rightarrow> Err e
      | None \<Rightarrow> Ok (if t = [] then [0x2F] else t))"

definition Query_parse :: "bytes \<Rightarrow> (uri_char_error, bytes) res" where
  "Query_parse t = (case pct_first_error t query_byte of Some e \<Rightarrow> Err e | None \<Rightarrow> Ok t)"

subsection \<open>URLs\<close>

record uri =
  uri_scheme :: scheme
  uri_host :: bytes
  uri_port :: u16
  uri_path :: bytes
  uri_query :: bytes

definition split_scheme :: "bytes \<Rightarrow> (uri_error, scheme \<times> bytes) res" where
  "split_scheme t =
     (if 8 \<le> length t \<and> eq_ignore_ascii_case (take 8 t) (str_bytes ''https://'') then Ok (Https, drop 8 t)
      else if 7 \<le> length t \<and> eq_ignore_ascii_case (take 7 t) (str_bytes ''http://'') then Ok (Http, drop 7 t)
      else Err UriScheme)"

definition split_port :: "scheme \<Rightarrow> bytes \<Rightarrow> (uri_error, bytes \<times> u16) res" where
  "split_port sch authority =
     (case rsplit_once 0x3A authority of
        Some (host_raw, port_raw) \<Rightarrow>
          if port_raw = [] \<or> \<not> digits port_raw then Err BadPort
          else if 65536 \<le> dec_value port_raw then Err BadPort
          else let port = word_of_nat (dec_value port_raw) in
               if port = 0 then Err BadPort else Ok (host_raw, port)
      | None \<Rightarrow> Ok (authority, default_port sch))"

definition ends_authority :: "byte \<Rightarrow> bool" where
  "ends_authority b \<longleftrightarrow> b = 0x2F \<or> b = 0x3F \<or> b = 0x23"

text \<open>The fragment is dropped; the path ends at the first question mark.\<close>

definition parse_path_query :: "bytes \<Rightarrow> (uri_error, bytes \<times> bytes) res" where
  "parse_path_query after_authority =
     (let without_fragment = takeWhile (\<lambda>b. b \<noteq> 0x23) after_authority;
          (path_raw, query_raw) = (case split_once 0x3F without_fragment of Some p \<Rightarrow> p | None \<Rightarrow> (without_fragment, [])) in
      and_then (map_err UriPath (Path_parse path_raw)) (\<lambda>path.
      and_then (map_err UriQuery (Query_parse query_raw)) (\<lambda>query. Ok (path, query))))"

definition Uri_parse :: "bytes \<Rightarrow> (uri_error, uri) res" where
  "Uri_parse input =
     (if MAX_URI_LEN < length input then Err (UriTooLong (length input))
      else and_then (split_scheme input) (\<lambda>(sch, after_scheme).
        let authority = takeWhile (\<lambda>b. \<not> ends_authority b) after_scheme;
            after_authority = dropWhile (\<lambda>b. \<not> ends_authority b) after_scheme in
        if 0x40 \<in> set authority then Err Userinfo
        else and_then (split_port sch authority) (\<lambda>(host_raw, port).
          and_then (map_err UriHost (Host_parse host_raw)) (\<lambda>host.
          and_then (parse_path_query after_authority) (\<lambda>(path, query).
          Ok \<lparr>uri_scheme = sch, uri_host = host, uri_port = port, uri_path = path, uri_query = query\<rparr>)))))"

definition authority_string :: "uri \<Rightarrow> bytes" where
  "authority_string u =
     (if uri_port u = default_port (uri_scheme u) then uri_host u
      else uri_host u @ [0x3A] @ str_bytes (decimal (unat (uri_port u))))"

definition Uri_display :: "uri \<Rightarrow> bytes" where
  "Uri_display u =
     Scheme_display (uri_scheme u) @ str_bytes ''://'' @ authority_string u @ uri_path u
     @ (if uri_query u = [] then [] else [0x3F] @ uri_query u)"

definition starts_with :: "bytes \<Rightarrow> bytes \<Rightarrow> bool" where
  "starts_with t p \<longleftrightarrow> take (length p) t = p"

definition Uri_join :: "uri \<Rightarrow> bytes \<Rightarrow> (uri_error, uri) res" where
  "Uri_join u location =
     (if starts_with location (str_bytes ''http://'') \<or> starts_with location (str_bytes ''https://'') then Uri_parse location
      else if starts_with location (str_bytes ''//'')
      then Uri_parse (Scheme_display (uri_scheme u) @ str_bytes ''://'' @ drop 2 location)
      else if starts_with location (str_bytes ''/'')
      then Uri_parse (Scheme_display (uri_scheme u) @ str_bytes ''://'' @ authority_string u @ location)
      else let dir = rev (dropWhile (\<lambda>b. b \<noteq> 0x2F) (rev (uri_path u))) in
           Uri_parse (Scheme_display (uri_scheme u) @ str_bytes ''://'' @ authority_string u @ dir @ location))"

subsection \<open>What the scanners accept\<close>

lemma violation_from_None: "violation_from position t allowed = None \<longleftrightarrow> list_all allowed t"
  by (induction position t allowed rule: violation_from.induct) auto

lemma charset_string_parse_Ok: "charset_string_parse allowed t = Ok x \<longleftrightarrow> x = t \<and> list_all allowed t"
  using violation_from_None [of 0 t allowed]
  by (auto simp: charset_string_parse_def first_violation_def split: option.splits)

text \<open>A path or query is a sequence of allowed bytes and escapes.\<close>

definition pct_unit :: "(byte \<Rightarrow> bool) \<Rightarrow> bytes \<Rightarrow> bool" where
  "pct_unit allowed u \<longleftrightarrow> (\<exists>b. u = [b] \<and> b \<noteq> 0x25 \<and> allowed b)
     \<or> (\<exists>hi lo. u = [0x25, hi, lo] \<and> is_ascii_hexdigit hi \<and> is_ascii_hexdigit lo)"

definition pct_ok :: "(byte \<Rightarrow> bool) \<Rightarrow> bytes \<Rightarrow> bool" where
  "pct_ok allowed t \<longleftrightarrow> (\<exists>units. t = concat units \<and> list_all (pct_unit allowed) units)"

lemma pct_ok_Nil [simp]: "pct_ok allowed []"
  unfolding pct_ok_def by (rule exI [of _ "[]"]) simp

lemma pct_ok_unit: "pct_unit allowed u \<Longrightarrow> pct_ok allowed t \<Longrightarrow> pct_ok allowed (u @ t)"
  unfolding pct_ok_def by (elim exE conjE, rule_tac x = "u # units" in exI) simp

lemma pct_okE:
  assumes "pct_ok allowed t" and "t \<noteq> []"
  obtains u rest where "t = u @ rest" "pct_unit allowed u" "pct_ok allowed rest"
proof -
  from assms obtain units where units: "t = concat units" "list_all (pct_unit allowed) units" by (auto simp: pct_ok_def)
  with assms(2) obtain u us where us: "units = u # us" by (cases units) auto
  with units have "pct_unit allowed u" "pct_ok allowed (concat us)" by (auto simp: pct_ok_def)
  with units us that show ?thesis by simp
qed

lemma pct_ok_Cons:
  "pct_ok allowed (b # t) \<longleftrightarrow>
     (if b = 0x25 then (\<exists>hi lo rest. t = hi # lo # rest \<and> is_ascii_hexdigit hi \<and> is_ascii_hexdigit lo \<and> pct_ok allowed rest)
      else allowed b \<and> pct_ok allowed t)" (is "?l \<longleftrightarrow> ?r")
proof
  assume ?l
  then obtain u rest where "b # t = u @ rest" "pct_unit allowed u" "pct_ok allowed rest" by (rule pct_okE) simp
  then show ?r by (auto simp: pct_unit_def)
next
  assume ?r
  then show ?l
    using pct_ok_unit [of allowed "[b]"] pct_ok_unit [of allowed "[0x25, hi, lo]" for hi lo]
    by (fastforce simp: pct_unit_def split: if_splits)
qed

lemma pct_scan_None: "pct_scan full t allowed = None \<longleftrightarrow> pct_ok allowed t"
  by (induction full t allowed rule: pct_scan.induct) (auto simp: pct_ok_Cons Let_def split: list.splits)

lemma Path_parse_Ok: "Path_parse t = Ok p \<longleftrightarrow> pct_ok path_byte t \<and> p = (if t = [] then [0x2F] else t)"
  using pct_scan_None [of "length t" t path_byte] by (auto simp: Path_parse_def pct_first_error_def split: option.splits)

lemma Query_parse_Ok: "Query_parse t = Ok q \<longleftrightarrow> pct_ok query_byte t \<and> q = t"
  using pct_scan_None [of "length t" t query_byte] by (auto simp: Query_parse_def pct_first_error_def split: option.splits)

text \<open>The bytes of an accepted text are allowed bytes, percent signs or hexadecimal digits.\<close>

lemma pct_ok_bytes: "pct_ok allowed t \<Longrightarrow> b \<in> set t \<Longrightarrow> allowed b \<or> b = 0x25 \<or> is_ascii_hexdigit b"
  unfolding pct_ok_def by (fastforce simp: list_all_iff pct_unit_def)

lemma delimiters_excluded:
  "pct_ok path_byte t \<Longrightarrow> 0x3F \<notin> set t" "pct_ok path_byte t \<Longrightarrow> 0x23 \<notin> set t" "pct_ok query_byte t \<Longrightarrow> 0x23 \<notin> set t"
proof -
  have no: "\<not> path_byte 0x3F" "\<not> path_byte 0x23" "\<not> query_byte 0x23" "\<not> is_ascii_hexdigit 0x3F" "\<not> is_ascii_hexdigit 0x23"
    by code_simp+
  show "pct_ok path_byte t \<Longrightarrow> 0x3F \<notin> set t" "pct_ok path_byte t \<Longrightarrow> 0x23 \<notin> set t" "pct_ok query_byte t \<Longrightarrow> 0x23 \<notin> set t"
    using no by (auto dest: pct_ok_bytes)
qed

text \<open>Splitting inverts joining.\<close>

fun join_with :: "byte \<Rightarrow> bytes list \<Rightarrow> bytes" where
  "join_with c [] = []"
| "join_with c [p] = p"
| "join_with c (p # q # ps) = p @ c # join_with c (q # ps)"

lemma str_split_not_Nil [simp]: "str_split c t \<noteq> []"
  by (cases t) (auto split: list.splits)

lemma join_with_Cons: "ps \<noteq> [] \<Longrightarrow> join_with c (p # ps) = p @ c # join_with c ps"
  by (cases ps) auto

lemma join_str_split: "join_with c (str_split c t) = t"
proof (induction t)
  case (Cons b t)
  obtain part parts where p: "str_split c t = part # parts" using str_split_not_Nil [of c t] by (cases "str_split c t") auto
  then show ?case using Cons by (cases parts) (auto simp: join_with_Cons)
qed simp

lemma str_split_part: "p \<in> set (str_split c t) \<Longrightarrow> c \<notin> set p"
proof (induction t arbitrary: p)
  case (Cons b t)
  then show ?case by (auto split: if_splits list.splits)
qed simp

lemma str_split_append: "c \<notin> set p \<Longrightarrow> str_split c (p @ c # t) = p # str_split c t"
  by (induction p) auto

lemma str_split_single: "c \<notin> set p \<Longrightarrow> str_split c p = [p]"
  by (induction p) auto

lemma str_split_join: "ps \<noteq> [] \<Longrightarrow> (\<forall>p \<in> set ps. c \<notin> set p) \<Longrightarrow> str_split c (join_with c ps) = ps"
  by (induction ps rule: join_with.induct) (auto simp: str_split_append str_split_single)

lemma split_once_at: "c \<notin> set p \<Longrightarrow> split_once c (p @ c # t) = Some (p, t)"
  by (induction p) (auto simp: split_once_def split: list.splits)

lemma split_once_none: "c \<notin> set t \<Longrightarrow> split_once c t = None"
proof -
  assume "c \<notin> set t"
  then have "dropWhile (\<lambda>b. b \<noteq> c) t = []" by (auto simp: dropWhile_eq_Nil_conv)
  then show ?thesis by (simp only: split_once_def list.case)
qed

lemma split_once_Some: "split_once c t = Some (p, r) \<longleftrightarrow> t = p @ c # r \<and> c \<notin> set p"
proof
  assume "split_once c t = Some (p, r)"
  then obtain b where "dropWhile (\<lambda>b. b \<noteq> c) t = b # r" and p: "p = takeWhile (\<lambda>b. b \<noteq> c) t"
    by (auto simp: split_once_def split: list.splits)
  moreover from this have "b = c" using hd_dropWhile [of "\<lambda>b. b \<noteq> c" t] by fastforce
  ultimately show "t = p @ c # r \<and> c \<notin> set p" using takeWhile_dropWhile_id [of "\<lambda>b. b \<noteq> c" t] by (auto dest: set_takeWhileD)
qed (auto simp: split_once_at)

lemma rsplit_once_at: "c \<notin> set r \<Longrightarrow> rsplit_once c (p @ c # r) = Some (p, r)"
  using split_once_at [of c "rev r" "rev p"] by (simp add: rsplit_once_def)

lemma rsplit_once_none: "c \<notin> set t \<Longrightarrow> rsplit_once c t = None"
  by (simp add: rsplit_once_def split_once_none)

lemma rsplit_once_Some: "rsplit_once c t = Some (p, r) \<longleftrightarrow> t = p @ c # r \<and> c \<notin> set r"
proof
  assume "rsplit_once c t = Some (p, r)"
  then have "split_once c (rev t) = Some (rev r, rev p)" by (auto simp: rsplit_once_def)
  then have "rev t = rev r @ c # rev p" "c \<notin> set r" by (auto simp: split_once_Some)
  then show "t = p @ c # r \<and> c \<notin> set r" by (metis append.assoc append_Cons append_Nil rev.simps(2) rev_append rev_rev_ident)
qed (simp add: rsplit_once_at)

subsection \<open>Hosts\<close>

definition label_ok :: "bytes \<Rightarrow> bool" where
  "label_ok l \<longleftrightarrow> l \<noteq> [] \<and> length l \<le> MAX_LABEL_LEN \<and> hd l \<noteq> 0x2D \<and> last l \<noteq> 0x2D \<and> list_all host_byte l"

definition host_ok :: "bytes \<Rightarrow> bool" where
  "host_ok h \<longleftrightarrow> length h \<le> MAX_HOST_LEN \<and> (\<exists>labels. labels \<noteq> [] \<and> h = join_with 0x2E labels \<and> list_all label_ok labels)"

lemma check_label_Ok: "check_label l = Ok x \<longleftrightarrow> label_ok l"
  by (auto simp: check_label_def label_ok_def find_None_iff find_Some_iff list_all_iff split: option.splits)

lemma host_byte_not_dot: "\<not> host_byte 0x2E"
  by code_simp

lemma label_no_dot: "label_ok l \<Longrightarrow> 0x2E \<notin> set l"
  using host_byte_not_dot by (auto simp: label_ok_def list_all_iff)

lemma map_res_check_label: "(\<exists>us. map_res check_label ls = Ok us) \<longleftrightarrow> list_all label_ok ls"
  by (induction ls) (auto simp: and_then_eq_Ok check_label_Ok)

lemma host_ok_split: "host_ok h \<longleftrightarrow> length h \<le> MAX_HOST_LEN \<and> list_all label_ok (str_split 0x2E h)"
proof
  assume "host_ok h"
  then obtain labels where l: "labels \<noteq> []" "h = join_with 0x2E labels" "list_all label_ok labels" "length h \<le> MAX_HOST_LEN"
    by (auto simp: host_ok_def)
  then have "str_split 0x2E h = labels" using str_split_join label_no_dot by (auto simp: list_all_iff)
  with l show "length h \<le> MAX_HOST_LEN \<and> list_all label_ok (str_split 0x2E h)" by simp
next
  assume "length h \<le> MAX_HOST_LEN \<and> list_all label_ok (str_split 0x2E h)"
  then show "host_ok h" unfolding host_ok_def using join_str_split [of "0x2E" h, symmetric] str_split_not_Nil by blast
qed

lemma host_ok_not_Nil: "host_ok h \<Longrightarrow> h \<noteq> []"
  by (auto simp: host_ok_split label_ok_def)

lemma Host_parse_Ok: "Host_parse t = Ok h \<longleftrightarrow> h = make_ascii_lowercase t \<and> host_ok h"
  using map_res_check_label [of "str_split 0x2E (make_ascii_lowercase t)"] host_ok_not_Nil [of h]
  by (auto simp: Host_parse_def Let_def host_ok_split and_then_eq_Ok)

lemma join_with_set: "set (join_with c ps) \<subseteq> insert c (\<Union> (set ` set ps))"
  by (induction c ps rule: join_with.induct) auto

lemma host_ok_bytes: "host_ok h \<Longrightarrow> b \<in> set h \<Longrightarrow> host_byte b \<or> b = 0x2E"
  unfolding host_ok_def label_ok_def list_all_iff using join_with_set by blast

lemma host_ok_fixed: "host_ok h \<Longrightarrow> make_ascii_lowercase h = h"
proof -
  assume h: "host_ok h"
  have "\<not> is_ascii_uppercase b" if "host_byte b \<or> b = 0x2E" for b
  proof -
    have "\<not> is_ascii_uppercase 0x2E" "\<not> is_ascii_uppercase 0x2D" by code_simp+
    with that show ?thesis
      by (auto simp: host_byte_def is_ascii_lowercase_def is_ascii_uppercase_def is_ascii_digit_def word_le_nat_alt)
  qed
  then show ?thesis using host_ok_bytes [OF h] by (auto simp: make_ascii_lowercase_def map_idI)
qed

lemma Host_parse_fixed: "host_ok h \<Longrightarrow> Host_parse h = Ok h"
  by (simp add: Host_parse_Ok host_ok_fixed)


subsection \<open>URLs are read back\<close>

definition uri_ok :: "uri \<Rightarrow> bool" where
  "uri_ok u \<longleftrightarrow> host_ok (uri_host u) \<and> uri_port u \<noteq> 0 \<and> (\<exists>r. uri_path u = 0x2F # r) \<and> pct_ok path_byte (uri_path u)
     \<and> pct_ok query_byte (uri_query u)"

lemma str_bytes_marks [simp]: "str_bytes ''://'' = [0x3A, 0x2F, 0x2F]" "str_bytes ''/'' = [0x2F]" "str_bytes ''//'' = [0x2F, 0x2F]"
  "str_bytes ''http'' = [0x68, 0x74, 0x74, 0x70]" "str_bytes ''https'' = [0x68, 0x74, 0x74, 0x70, 0x73]"
  "str_bytes ''http://'' = [0x68, 0x74, 0x74, 0x70, 0x3A, 0x2F, 0x2F]"
  "str_bytes ''https://'' = [0x68, 0x74, 0x74, 0x70, 0x73, 0x3A, 0x2F, 0x2F]"
  by code_simp+

lemma split_scheme_rendered: "split_scheme (Scheme_display sch @ str_bytes ''://'' @ t) = Ok (sch, t)"
proof (cases sch)
  case Http
  have "\<not> eq_ignore_ascii_case [0x68, 0x74, 0x74, 0x70, 0x3A, 0x2F, 0x2F, b] [0x68, 0x74, 0x74, 0x70, 0x73, 0x3A, 0x2F, 0x2F]" for b
    by (simp add: eq_ignore_ascii_case_def to_ascii_uppercase_def is_ascii_lowercase_def)
  then show ?thesis using Http by (cases t) (auto simp: split_scheme_def eq_ignore_ascii_case_def)
next
  case Https
  then show ?thesis by (simp add: split_scheme_def eq_ignore_ascii_case_def)
qed

lemma split_scheme_length: "split_scheme t = Ok (sch, r) \<Longrightarrow> length t = length (Scheme_display sch) + 3 + length r"
  by (auto simp: split_scheme_def split: if_splits)

definition authority_byte :: "byte \<Rightarrow> bool" where
  "authority_byte b \<longleftrightarrow> host_byte b \<or> b = 0x2E \<or> b = 0x3A"

lemma authority_byte_excludes: "authority_byte b \<Longrightarrow> \<not> ends_authority b \<and> b \<noteq> 0x40"
proof -
  have "\<not> authority_byte 0x2F" "\<not> authority_byte 0x3F" "\<not> authority_byte 0x23" "\<not> authority_byte 0x40" by code_simp+
  then show "authority_byte b \<Longrightarrow> \<not> ends_authority b \<and> b \<noteq> 0x40" by (auto simp: ends_authority_def)
qed

lemma host_no_colon: "host_ok h \<Longrightarrow> 0x3A \<notin> set h"
proof -
  have "\<not> host_byte 0x3A" by code_simp
  then show "host_ok h \<Longrightarrow> 0x3A \<notin> set h" using host_ok_bytes by fastforce
qed

lemma digits_no_colon: "digits t \<Longrightarrow> 0x3A \<notin> set t"
proof -
  have "\<not> is_ascii_digit 0x3A" by code_simp
  then show "digits t \<Longrightarrow> 0x3A \<notin> set t" by (auto simp: digits_def list_all_iff)
qed

lemma authority_bytes: "host_ok (uri_host u) \<Longrightarrow> b \<in> set (authority_string u) \<Longrightarrow> authority_byte b"
  using host_ok_bytes [of "uri_host u" b] digits_decimal [of "unat (uri_port u)"]
  by (auto simp: authority_string_def authority_byte_def host_byte_def digits_def list_all_iff split: if_splits)

lemma decimal_not_Nil [simp]: "decimal n \<noteq> []"
  by (subst decimal.simps) simp

lemma split_port_rendered:
  assumes "host_ok (uri_host u)" and "uri_port u \<noteq> 0"
  shows "split_port (uri_scheme u) (authority_string u) = Ok (uri_host u, uri_port u)"
proof (cases "uri_port u = default_port (uri_scheme u)")
  case True
  then show ?thesis using host_no_colon [OF assms(1)] by (simp add: authority_string_def split_port_def rsplit_once_none)
next
  case False
  have "rsplit_once 0x3A (authority_string u) = Some (uri_host u, str_bytes (decimal (unat (uri_port u))))"
    using False digits_no_colon [OF digits_decimal] by (simp add: authority_string_def rsplit_once_at)
  moreover have "unat (uri_port u) < 65536" using unsigned_less [of "uri_port u", where ?'a = nat] by simp
  ultimately show ?thesis using assms(2) by (simp add: split_port_def)
qed

text \<open>Parsing anything that starts with the rendered scheme and authority of a URL gives that scheme and authority.\<close>

lemma Uri_parse_rendered:
  assumes "host_ok (uri_host u)" and "uri_port u \<noteq> 0" and "ends_authority b"
  shows "Uri_parse (Scheme_display (uri_scheme u) @ str_bytes ''://'' @ authority_string u @ b # t) =
    (let len = length (Scheme_display (uri_scheme u)) + 3 + length (authority_string u) + Suc (length t) in
     if MAX_URI_LEN < len then Err (UriTooLong len)
     else and_then (parse_path_query (b # t)) (\<lambda>(path, query). Ok (u\<lparr>uri_path := path, uri_query := query\<rparr>)))"
proof -
  have auth: "\<not> ends_authority c \<and> c \<noteq> 0x40" if "c \<in> set (authority_string u)" for c
    using authority_byte_excludes authority_bytes [OF assms(1) that] by blast
  then have "takeWhile (\<lambda>b. \<not> ends_authority b) (authority_string u @ b # t) = authority_string u"
      "dropWhile (\<lambda>b. \<not> ends_authority b) (authority_string u @ b # t) = b # t"
    using assms(3) by (simp_all add: takeWhile_append2 dropWhile_append2)
  moreover have "0x40 \<notin> set (authority_string u)" using auth by blast
  ultimately show ?thesis
    unfolding Uri_parse_def
    using split_scheme_rendered [of "uri_scheme u" "authority_string u @ b # t"] split_port_rendered [OF assms(1,2)]
      Host_parse_fixed [OF assms(1)]
    by (auto simp: Let_def simp del: str_bytes_marks) (auto intro!: arg_cong [of _ _ "and_then (parse_path_query (b # t))"])
qed

lemma takeWhile_none: "c \<notin> set t \<Longrightarrow> takeWhile (\<lambda>b. b \<noteq> c) t = t"
  by (auto simp: takeWhile_eq_all_conv)

lemma parse_path_query_rendered:
  assumes "pct_ok path_byte path" and "path \<noteq> []" and "pct_ok query_byte query"
  shows "parse_path_query (path @ (if query = [] then [] else [0x3F] @ query)) = Ok (path, query)"
proof -
  have no: "0x23 \<notin> set path" "0x3F \<notin> set path" "0x23 \<notin> set query" using delimiters_excluded assms by auto
  from no(1) have "takeWhile (\<lambda>b. b \<noteq> 0x23) (path @ t) = path @ takeWhile (\<lambda>b. b \<noteq> 0x23) t" for t
    by (induction path) auto
  then show ?thesis
    using assms no
    by (simp add: parse_path_query_def Path_parse_Ok [THEN iffD2] Query_parse_Ok [THEN iffD2] split_once_at split_once_none takeWhile_none)
qed

lemma Uri_parse_display:
  assumes "uri_ok u"
  shows "Uri_parse (Uri_display u) =
    (if length (Uri_display u) \<le> MAX_URI_LEN then Ok u else Err (UriTooLong (length (Uri_display u))))"
proof -
  from assms obtain r where r: "uri_path u = 0x2F # r" and u: "host_ok (uri_host u)" "uri_port u \<noteq> 0"
      "pct_ok path_byte (uri_path u)" "pct_ok query_byte (uri_query u)" by (auto simp: uri_ok_def)
  have end1: "ends_authority 0x2F" by code_simp
  show ?thesis
    using Uri_parse_rendered [OF u(1,2) end1, of "r @ (if uri_query u = [] then [] else [0x3F] @ uri_query u)"]
      parse_path_query_rendered [OF u(3) _ u(4)] r
    by (simp add: Uri_display_def Let_def)
qed


text \<open>The parser only returns well-formed URLs, whose rendering is at most one byte longer than the input.\<close>

lemma length_decimal_value: "t \<noteq> [] \<Longrightarrow> digits t \<Longrightarrow> length (decimal (dec_value t)) \<le> length t"
  using dec_value_bound [of t] by (auto intro: length_decimal_le)

lemma split_port_Ok:
  assumes "split_port sch authority = Ok (host_raw, port)"
  shows "port \<noteq> 0" and "port = default_port sch \<Longrightarrow> length host_raw \<le> length authority"
    and "port \<noteq> default_port sch \<Longrightarrow> length host_raw + 1 + length (decimal (unat port)) \<le> length authority"
proof -
  have "default_port sch \<noteq> 0" by (cases sch) simp_all
  moreover have "unat (word_of_nat n :: u16) = n" if "n < 65536" for n using that by (simp add: unat_of_nat)
  moreover note length_decimal_value
  ultimately show "port \<noteq> 0" "port = default_port sch \<Longrightarrow> length host_raw \<le> length authority"
      "port \<noteq> default_port sch \<Longrightarrow> length host_raw + 1 + length (decimal (unat port)) \<le> length authority"
    using assms by (auto simp: split_port_def rsplit_once_Some Let_def split: option.splits if_splits)
qed

lemma parse_path_query_Ok:
  assumes "parse_path_query t = Ok (path, query)" and "t = [] \<or> ends_authority (hd t)"
  shows "\<exists>r. path = 0x2F # r" and "pct_ok path_byte path" and "pct_ok query_byte query"
    and "length path + (if query = [] then 0 else Suc (length query)) \<le> Suc (length t)"
proof -
  define w where "w = takeWhile (\<lambda>b. b \<noteq> 0x23) t"
  obtain path_raw query_raw where split: "(case split_once 0x3F w of Some p \<Rightarrow> p | None \<Rightarrow> (w, [])) = (path_raw, query_raw)"
    by fastforce
  with assms(1) have raw: "pct_ok path_byte path_raw" "path = (if path_raw = [] then [0x2F] else path_raw)"
      "pct_ok query_byte query_raw" "query = query_raw"
    by (auto simp: parse_path_query_def w_def [symmetric] Let_def and_then_eq_Ok map_err_eq_Ok Path_parse_Ok Query_parse_Ok)
  have slash: "path_byte 0x2F" "\<not> path_byte 0x23" "\<not> path_byte 0x3F" by code_simp+
  show "pct_ok query_byte query" using raw by simp
  show "pct_ok path_byte path" using raw slash by (auto simp: pct_ok_Cons)
  have w: "w = path_raw @ (if query_raw = [] then [] else 0x3F # query_raw) \<or> query_raw = [] \<and> w = path_raw @ [0x3F]"
    using split by (auto simp: split_once_Some split: option.splits)
  have len: "length w \<le> length t" by (simp add: w_def length_takeWhile_le)
  show "length path + (if query = [] then 0 else Suc (length query)) \<le> Suc (length t)" using w len raw by (auto split: if_splits)
  show "\<exists>r. path = 0x2F # r"
  proof (cases path_raw)
    case (Cons b r)
    then have "w \<noteq> []" "hd w = b" using w by auto
    then have "hd t = b" "t \<noteq> []" unfolding w_def by (cases t; simp split: if_splits)+
    moreover have "path_byte b \<or> b = 0x25" using raw(1) Cons by (auto simp: pct_ok_Cons split: if_splits)
    ultimately have "b = 0x2F" using assms(2) slash by (auto simp: ends_authority_def)
    then show ?thesis using Cons raw by simp
  qed (use raw in simp)
qed

lemma Uri_parse_Ok:
  assumes "Uri_parse t = Ok u"
  shows "uri_ok u" and "length t \<le> MAX_URI_LEN" and "length (Uri_display u) \<le> Suc (length t)"
proof -
  from assms obtain after host_raw where len: "length t \<le> MAX_URI_LEN" and sch: "split_scheme t = Ok (uri_scheme u, after)"
    and port: "split_port (uri_scheme u) (takeWhile (\<lambda>b. \<not> ends_authority b) after) = Ok (host_raw, uri_port u)"
    and host: "Host_parse host_raw = Ok (uri_host u)"
    and pq: "parse_path_query (dropWhile (\<lambda>b. \<not> ends_authority b) after) = Ok (uri_path u, uri_query u)"
    by (auto simp: Uri_parse_def Let_def and_then_eq_Ok map_err_eq_Ok split: if_splits prod.splits)
  show "length t \<le> MAX_URI_LEN" by (fact len)
  have "dropWhile (\<lambda>b. \<not> ends_authority b) after = [] \<or> ends_authority (hd (dropWhile (\<lambda>b. \<not> ends_authority b) after))"
    using hd_dropWhile by blast
  note rest = parse_path_query_Ok [OF pq this]
  have h: "host_ok (uri_host u)" "length (uri_host u) = length host_raw"
    using host by (auto simp: Host_parse_Ok make_ascii_lowercase_def)
  show "uri_ok u" using rest h split_port_Ok(1) [OF port] by (simp add: uri_ok_def)
  have "length (authority_string u) \<le> length (takeWhile (\<lambda>b. \<not> ends_authority b) after)"
    using split_port_Ok(2,3) [OF port] h by (auto simp: authority_string_def)
  moreover have "length after = length (takeWhile (\<lambda>b. \<not> ends_authority b) after) + length (dropWhile (\<lambda>b. \<not> ends_authority b) after)"
    by (metis length_append takeWhile_dropWhile_id)
  ultimately show "length (Uri_display u) \<le> Suc (length t)"
    using rest(4) split_scheme_length [OF sch] by (auto simp: Uri_display_def split: if_splits)
qed

text \<open>C27. URLs are read back from their rendering. Whatever the parser accepts is a well-formed URL: a host of DNS
  labels in lower case, a port other than zero, a path that starts with a slash, and a path and query made of allowed
  bytes and complete escapes. Rendering it gives at most one byte more than the input had, and parsing the rendering
  gives the same URL, except that the extra byte can push a URL of 8,000 bytes without a path over the limit.\<close>

theorem uri_round_trip:
  assumes "Uri_parse t = Ok u"
  shows "uri_ok u \<and> length (Uri_display u) \<le> Suc (length t)
    \<and> Uri_parse (Uri_display u) = (if length (Uri_display u) \<le> MAX_URI_LEN then Ok u else Err (UriTooLong 8001))"
  using Uri_parse_Ok [OF assms] Uri_parse_display [of u] by auto

lemma sample_uri: "Uri_parse (str_bytes ''HTTP://CRL.fineid.fi:080?x=%2F#top'') =
    Ok \<lparr>uri_scheme = Http, uri_host = str_bytes ''crl.fineid.fi'', uri_port = 80, uri_path = str_bytes ''/'', uri_query = str_bytes ''x=%2F''\<rparr>"
proof -
  have "split_scheme (str_bytes ''HTTP://CRL.fineid.fi:080?x=%2F#top'') = Ok (Http, str_bytes ''CRL.fineid.fi:080?x=%2F#top'')"
    by code_simp
  moreover have "takeWhile (\<lambda>b. \<not> ends_authority b) (str_bytes ''CRL.fineid.fi:080?x=%2F#top'') = str_bytes ''CRL.fineid.fi:080''"
    "dropWhile (\<lambda>b. \<not> ends_authority b) (str_bytes ''CRL.fineid.fi:080?x=%2F#top'') = str_bytes ''?x=%2F#top''"
    "0x40 \<notin> set (str_bytes ''CRL.fineid.fi:080'')"
    by code_simp+
  moreover have "rsplit_once 0x3A (str_bytes ''CRL.fineid.fi:080'') = Some (str_bytes ''CRL.fineid.fi'', str_bytes ''080'')"
    "digits (str_bytes ''080'')" by code_simp+
  moreover have "dec_value (str_bytes ''080'') = 80" by (simp add: dec_value_def digit_value_def str_bytes_def)
  moreover have "Host_parse (str_bytes ''CRL.fineid.fi'') = Ok (str_bytes ''crl.fineid.fi'')" by code_simp
  moreover have "parse_path_query (str_bytes ''?x=%2F#top'') = Ok (str_bytes ''/'', str_bytes ''x=%2F'')" by code_simp
  ultimately show ?thesis
    by (simp add: Uri_parse_def split_port_def del: str_bytes_marks)
qed

theorem uri_round_trip_witness:
  "Uri_parse (str_bytes ''http://crl.fineid.fi/?x=%2F'') =
     Ok \<lparr>uri_scheme = Http, uri_host = str_bytes ''crl.fineid.fi'', uri_port = 80, uri_path = str_bytes ''/'', uri_query = str_bytes ''x=%2F''\<rparr>"
  using uri_round_trip [OF sample_uri] by (simp add: Uri_display_def authority_string_def str_bytes_def)

text \<open>C28. A redirect that does not name another authority stays on the same one. Resolving a location that does not
  start with a scheme or with two slashes gives, if it is accepted, a URL with the scheme, host and port of the URL
  it was resolved against.\<close>

theorem join_keeps_authority:
  assumes "uri_ok u" and "Uri_join u location = Ok v" and "\<not> starts_with location (str_bytes ''http://'')"
    and "\<not> starts_with location (str_bytes ''https://'')" and "\<not> starts_with location (str_bytes ''//'')"
  shows "uri_scheme v = uri_scheme u \<and> uri_host v = uri_host u \<and> uri_port v = uri_port u \<and> uri_ok v"
proof -
  from assms(1) obtain r where r: "uri_path u = 0x2F # r" and u: "host_ok (uri_host u)" "uri_port u \<noteq> 0"
    by (auto simp: uri_ok_def)
  have end1: "ends_authority 0x2F" by code_simp
  have "\<exists>t'. Uri_join u location = Uri_parse (Scheme_display (uri_scheme u) @ str_bytes ''://'' @ authority_string u @ 0x2F # t')"
  proof (cases "starts_with location (str_bytes ''/'')")
    case True
    then obtain t' where "location = 0x2F # t'" by (cases location) (auto simp: starts_with_def)
    with True assms(3-5) show ?thesis by (auto simp: Uri_join_def)
  next
    case False
    obtain t' where "rev (dropWhile (\<lambda>b. b \<noteq> 0x2F) (rev (uri_path u))) = 0x2F # t'"
    proof -
      have "dropWhile (\<lambda>b. b \<noteq> 0x2F) (rev r @ [0x2F]) \<noteq> []" "last (dropWhile (\<lambda>b. b \<noteq> 0x2F) (rev r @ [0x2F])) = 0x2F"
        by (auto simp: dropWhile_append)
      then have "rev (dropWhile (\<lambda>b. b \<noteq> 0x2F) (rev (uri_path u))) = 0x2F # tl (rev (dropWhile (\<lambda>b. b \<noteq> 0x2F) (rev (uri_path u))))"
        using r by (metis hd_Cons_tl hd_rev rev.simps(2) rev_is_Nil_conv)
      then show ?thesis by (rule that)
    qed
    with False assms(3-5) show ?thesis by (auto simp: Uri_join_def Let_def)
  qed
  with assms(2) obtain t' where
    "Uri_parse (Scheme_display (uri_scheme u) @ str_bytes ''://'' @ authority_string u @ 0x2F # t') = Ok v" by auto
  from this Uri_parse_Ok(1) [OF this] show ?thesis
    unfolding Uri_parse_rendered [OF u end1] by (auto simp: Let_def and_then_eq_Ok split: if_splits)
qed

theorem join_keeps_authority_witness:
  "\<exists>v. Uri_join \<lparr>uri_scheme = Http, uri_host = str_bytes ''crl.fineid.fi'', uri_port = 80, uri_path = str_bytes ''/'', uri_query = str_bytes ''x=%2F''\<rparr>
      (str_bytes ''@x.fi/HTTPS://c'') = Ok v \<and> uri_host v = str_bytes ''crl.fineid.fi''"
proof -
  let ?u = "\<lparr>uri_scheme = Http, uri_host = str_bytes ''crl.fineid.fi'', uri_port = 80, uri_path = str_bytes ''/'', uri_query = str_bytes ''x=%2F''\<rparr>"
  have ok: "uri_ok ?u" by (rule Uri_parse_Ok(1) [OF sample_uri])
  then have u: "host_ok (uri_host ?u)" "uri_port ?u \<noteq> 0" by (simp_all add: uri_ok_def)
  have end1: "ends_authority 0x2F" by code_simp
  have rest: "parse_path_query (0x2F # str_bytes ''@x.fi/HTTPS://c'') = Ok (0x2F # str_bytes ''@x.fi/HTTPS://c'', [])" by code_simp
  have loc: "\<not> starts_with (str_bytes ''@x.fi/HTTPS://c'') (str_bytes ''http://'')"
    "\<not> starts_with (str_bytes ''@x.fi/HTTPS://c'') (str_bytes ''https://'')"
    "\<not> starts_with (str_bytes ''@x.fi/HTTPS://c'') (str_bytes ''//'')"
    "\<not> starts_with (str_bytes ''@x.fi/HTTPS://c'') (str_bytes ''/'')" by code_simp+
  have "Uri_join ?u (str_bytes ''@x.fi/HTTPS://c'') = Ok (?u\<lparr>uri_path := 0x2F # str_bytes ''@x.fi/HTTPS://c'', uri_query := []\<rparr>)"
    using Uri_parse_rendered [OF u end1, of "str_bytes ''@x.fi/HTTPS://c''"] rest loc
    by (simp add: Uri_join_def authority_string_def)
  from this join_keeps_authority [OF ok this loc(1-3)] show ?thesis by auto
qed

end
