(* ===== verification/X509_Cert.thy ===== *)
theory X509_Cert
  imports Revocation Uri
begin

text \<open>
  The parser of certificates (\<open>x509.rs\<close>): the signed part, the public key with its algorithm, and the addresses in
  the extensions. The typed decoders of validity and public key from the crates \<open>x509-cert\<close> and \<open>spki\<close> extend the
  parameter of \<open>Crl\<close>.
\<close>

subsection \<open>Public keys\<close>

record spki_info =
  info_algorithm_oid :: bytes
  info_parameters :: "(der_tag \<times> bytes) option"
  info_raw_bytes :: bytes
  info_unused_bits :: nat

record cert_lib = crl_lib +
  validity_from_der :: "bytes \<Rightarrow> (date_time \<times> date_time) option"
  spki_from_der :: "bytes \<Rightarrow> spki_info option"
  oid_from_any :: "der_tag \<times> bytes \<Rightarrow> bytes option"

text \<open>\<open>BitStringRef::as_bytes\<close>: the bytes of a bit string without unused bits.\<close>

definition info_as_bytes :: "spki_info \<Rightarrow> bytes option" where
  "info_as_bytes info = (if info_unused_bits info = 0 then Some (info_raw_bytes info) else None)"

definition RSA_ENCRYPTION :: bytes where "RSA_ENCRYPTION = oid_dotted [1, 2, 840, 113549, 1, 1, 1]"
definition EC_PUBLIC_KEY :: bytes where "EC_PUBLIC_KEY = oid_dotted [1, 2, 840, 10045, 2, 1]"
definition SECP256R1 :: bytes where "SECP256R1 = oid_dotted [1, 2, 840, 10045, 3, 1, 7]"
definition SECP384R1 :: bytes where "SECP384R1 = oid_dotted [1, 3, 132, 0, 34]"
definition BRAINPOOL_P256R1 :: bytes where "BRAINPOOL_P256R1 = oid_dotted [1, 3, 36, 3, 3, 2, 8, 1, 1, 7]"
definition BRAINPOOL_P384R1 :: bytes where "BRAINPOOL_P384R1 = oid_dotted [1, 3, 36, 3, 3, 2, 8, 1, 1, 11]"

datatype ec_curve = Secp256r1 | Secp384r1 | BrainpoolP256r1 | BrainpoolP384r1 | OtherCurve

fun EcCurve_label :: "ec_curve \<Rightarrow> string" where
  "EcCurve_label Secp256r1 = ''secp256r1 (P-256)''"
| "EcCurve_label Secp384r1 = ''secp384r1 (P-384)''"
| "EcCurve_label BrainpoolP256r1 = ''brainpoolP256r1''"
| "EcCurve_label BrainpoolP384r1 = ''brainpoolP384r1''"
| "EcCurve_label OtherCurve = ''unrecognised curve''"

fun EcCurve_bits :: "ec_curve \<Rightarrow> nat" where
  "EcCurve_bits Secp256r1 = 256"
| "EcCurve_bits BrainpoolP256r1 = 256"
| "EcCurve_bits Secp384r1 = 384"
| "EcCurve_bits BrainpoolP384r1 = 384"
| "EcCurve_bits OtherCurve = 0"

datatype public_key_algorithm = RsaKey nat | Ec ec_curve | EcExplicit nat | OtherKey

fun PublicKeyAlgorithm_label :: "public_key_algorithm \<Rightarrow> string" where
  "PublicKeyAlgorithm_label (RsaKey modulus_bits) = ''RSA, '' @ decimal modulus_bits @ ''-bit modulus''"
| "PublicKeyAlgorithm_label (Ec curve) = ''EC on '' @ EcCurve_label curve"
| "PublicKeyAlgorithm_label (EcExplicit bits) = ''EC with explicit parameters ('' @ decimal bits @ ''-bit field)''"
| "PublicKeyAlgorithm_label OtherKey = ''unrecognised algorithm''"

definition leading_zeros :: "byte \<Rightarrow> nat" where
  "leading_zeros b = length (takeWhile Not (map (bit b) [7, 6, 5, 4, 3, 2, 1, 0]))"

text \<open>\<open>len().checked_mul(8)?.checked_sub(leading_zeros)\<close> on a 64-bit \<open>usize\<close>.\<close>

definition magnitude_bits :: "bytes \<Rightarrow> nat option" where
  "magnitude_bits m =
     (case m of
        [] \<Rightarrow> None
      | first # _ \<Rightarrow> if 8 * length m < 2 ^ 64 then Some (8 * length m - leading_zeros first) else None)"

definition magnitude :: "'l der_lib_scheme \<Rightarrow> bytes \<Rightarrow> (bytes \<times> bytes) option" where
  "magnitude d reader =
     Option.bind (tlv_read d reader) (\<lambda>(t, reader).
     Option.bind (any_from_der d t) (\<lambda>(tag, val).
     if tag \<noteq> Integer then None
     else (case val of
        [] \<Rightarrow> None
      | first # rest \<Rightarrow>
          if first = 0 then
            (case rest of
               [] \<Rightarrow> None
             | second # _ \<Rightarrow> if second AND 0x80 \<noteq> 0 then Some (rest, reader) else None)
          else if first AND 0x80 = 0 then Some (val, reader) else None)))"

definition rsa_public_key_parts :: "'l der_lib_scheme \<Rightarrow> bytes \<Rightarrow> (bytes \<times> bytes) option" where
  "rsa_public_key_parts d der =
     Option.bind (any_from_der d der) (\<lambda>(tag, body).
     if tag \<noteq> Sequence \<or> \<not> slice_reader_ok d body then None
     else
       Option.bind (magnitude d body) (\<lambda>(modulus, reader).
       Option.bind (magnitude d reader) (\<lambda>(exponent, reader).
       if reader = [] then Some (modulus, exponent) else None)))"

definition explicit_curve_field_bits :: "bytes \<Rightarrow> nat option" where
  "explicit_curve_field_bits seq_value =
     (case ber_children seq_value of
        Ok version # Ok field_id # _ \<Rightarrow>
          if tlv_tag field_id \<noteq> 0x30 then None
          else (case ber_children (tlv_value field_id) of
            Ok field_type # Ok prime # _ \<Rightarrow>
              if tlv_tag prime \<noteq> 0x02 then None
              else magnitude_bits (case tlv_value prime of b # rest \<Rightarrow> if b = 0 then rest else b # rest | [] \<Rightarrow> [])
          | _ \<Rightarrow> None)
      | _ \<Rightarrow> None)"

definition from_spki :: "'l cert_lib_scheme \<Rightarrow> spki_info \<Rightarrow> public_key_algorithm option" where
  "from_spki d info =
     (if info_algorithm_oid info = RSA_ENCRYPTION
      then Option.bind (rsa_public_key_parts d (info_raw_bytes info)) (\<lambda>(m, _).
           map_option RsaKey (magnitude_bits m))
      else if info_algorithm_oid info = EC_PUBLIC_KEY
      then Option.bind (info_parameters info) (\<lambda>params.
           case oid_from_any d params of
             Some curve_oid \<Rightarrow>
               Some (Ec (if curve_oid = SECP256R1 then Secp256r1 else if curve_oid = SECP384R1 then Secp384r1
                         else if curve_oid = BRAINPOOL_P256R1 then BrainpoolP256r1
                         else if curve_oid = BRAINPOOL_P384R1 then BrainpoolP384r1 else OtherCurve))
           | None \<Rightarrow>
               Some (EcExplicit (case explicit_curve_field_bits (snd params) of Some bits \<Rightarrow> bits | None \<Rightarrow> 0)))
      else Some OtherKey)"

definition parse_subject_public_key_info :: "'l cert_lib_scheme \<Rightarrow> bytes \<Rightarrow> public_key_algorithm option" where
  "parse_subject_public_key_info d spki_bytes = Option.bind (spki_from_der d spki_bytes) (from_spki d)"

record spki_der =
  spki_bytes :: bytes
  spki_algorithm :: public_key_algorithm
  spki_key_bits :: bytes

definition SpkiDer_try_from :: "'l cert_lib_scheme \<Rightarrow> bytes \<Rightarrow> (x509_error, spki_der) res" where
  "SpkiDer_try_from d der =
     and_then (ok_or (spki_from_der d der) (UnexpectedStructure ''malformed SubjectPublicKeyInfo'')) (\<lambda>info.
     and_then (ok_or (info_as_bytes info) (UnexpectedStructure ''non-octet-aligned SubjectPublicKeyInfo'')) (\<lambda>key_bits.
     and_then (ok_or (from_spki d info) (UnexpectedStructure ''malformed SubjectPublicKeyInfo'')) (\<lambda>algorithm.
     Ok \<lparr>spki_bytes = der, spki_algorithm = algorithm, spki_key_bits = key_bits\<rparr>)))"

subsection \<open>Certificates\<close>

abbreviation VERSION_TAG :: der_tag where "VERSION_TAG \<equiv> ContextSpecific True 0"
abbreviation EXTENSIONS_TAG :: der_tag where "EXTENSIONS_TAG \<equiv> ContextSpecific True 3"

text \<open>The optional fields after the public key; the last \<open>[3]\<close> wins.\<close>

function tbs_trailing :: "'l der_lib_scheme \<Rightarrow> bytes option \<Rightarrow> bytes \<Rightarrow> (x509_error, bytes option) res" where
  "tbs_trailing d exts reader =
     (if reader = [] then Ok exts
      else
        and_then (next_tlv d ''TBS trailing field'' reader) (\<lambda>(t, reader).
        and_then (any_value d ''TBS trailing field'' t) (\<lambda>(tag, val).
        and_then (if tag = EXTENSIONS_TAG
                  then and_then (any_value d ''extensions not SEQUENCE'' val) (\<lambda>(_, inner). Ok (Some inner))
                  else Ok exts) (\<lambda>exts. tbs_trailing d exts reader))))"
  by pat_completeness auto
termination by (relation "measure (length \<circ> snd \<circ> snd)") (auto simp: res_simps dest: tlv_read_shorter)

declare tbs_trailing.simps [simp del]

text \<open>The optional version, and the serial number.\<close>

definition tbs_serial :: "'l der_lib_scheme \<Rightarrow> bytes \<Rightarrow> (x509_error, bytes \<times> bytes) res" where
  "tbs_serial d reader =
     and_then (next_tlv d ''TBS first field'' reader) (\<lambda>(t, reader).
     and_then (any_value d ''TBS first field'' t) (\<lambda>(tag, val).
     if tag = VERSION_TAG
     then and_then (next_tlv d ''serialNumber'' reader) (\<lambda>(t, reader).
          and_then (any_value d ''serialNumber'' t) (\<lambda>(_, val). Ok (val, reader)))
     else Ok (val, reader)))"

definition parse_tbs :: "'l cert_lib_scheme \<Rightarrow> bytes \<Rightarrow> bytes \<Rightarrow> bytes \<Rightarrow> bytes \<Rightarrow> (x509_error, certificate) res" where
  "parse_tbs d tbs raw sig_oid sig_bits =
     and_then (any_value d ''tbsCertificate not a TLV'' tbs) (\<lambda>(tag, body).
     if tag \<noteq> Sequence then Err (UnexpectedStructure ''tbsCertificate not SEQUENCE'')
     else
       and_then (open_reader d ''tbsCertificate body'' body) (\<lambda>reader.
       and_then (tbs_serial d reader) (\<lambda>(serial, reader).
       and_then (next_tlv d ''TBS signature alg'' reader) (\<lambda>(_, reader).
       and_then (next_tlv d ''issuer'' reader) (\<lambda>(iss, reader).
       and_then (next_tlv d ''validity'' reader) (\<lambda>(validity_tlv, reader).
       and_then (ok_or (validity_from_der d validity_tlv) InvalidTime) (\<lambda>(nb, na).
       and_then (next_tlv d ''subject'' reader) (\<lambda>(subj, reader).
       and_then (next_tlv d ''subjectPublicKeyInfo'' reader) (\<lambda>(spki_tlv, reader).
       and_then (SpkiDer_try_from d spki_tlv) (\<lambda>key.
       and_then (tbs_trailing d None reader) (\<lambda>exts.
       Ok \<lparr>raw_der = raw, tbs_der = tbs, serial_der = serial, issuer = iss, subject = subj, not_before = nb, not_after = na,
           spki = spki_bytes key, subject_public_key_bits = spki_key_bits key, extensions = exts,
           signature_alg_oid = sig_oid, signature_bits = sig_bits\<rparr>)))))))))))"

definition cert_algorithm :: "'l der_lib_scheme \<Rightarrow> bytes \<Rightarrow> (x509_error, bytes) res" where
  "cert_algorithm d alg =
     and_then (any_value d ''signatureAlgorithm not SEQUENCE'' alg) (\<lambda>(_, body).
     and_then (open_reader d ''signatureAlgorithm body'' body) (\<lambda>reader.
     and_then (next_tlv d ''signatureAlgorithm OID missing'' reader) (\<lambda>(t, _).
     and_then (any_value d ''signatureAlgorithm OID malformed'' t) (\<lambda>(_, val).
     map_err (\<lambda>_. UnexpectedStructure ''signatureAlgorithm OID malformed'') (Oid_new val)))))"

definition cert_signature :: "'l der_lib_scheme \<Rightarrow> bytes \<Rightarrow> (x509_error, bytes) res" where
  "cert_signature d sig =
     and_then (any_value d ''signature not a TLV'' sig) (\<lambda>(_, val).
     case val of [] \<Rightarrow> Err (UnexpectedStructure ''signature BIT STRING missing'') | _ # bits \<Rightarrow> Ok bits)"

definition Certificate_from_der :: "'l cert_lib_scheme \<Rightarrow> bytes \<Rightarrow> (x509_error, certificate) res" where
  "Certificate_from_der d der =
     and_then (any_value d ''Certificate not a TLV'' der) (\<lambda>(tag, body).
     if tag \<noteq> Sequence then Err (UnexpectedStructure ''Certificate not SEQUENCE'')
     else
       and_then (open_reader d ''Certificate body'' body) (\<lambda>reader.
       and_then (next_tlv d ''tbsCertificate'' reader) (\<lambda>(tbs, reader).
       and_then (next_tlv d ''signatureAlgorithm'' reader) (\<lambda>(alg, reader).
       and_then (next_tlv d ''signature'' reader) (\<lambda>(sig, _).
       and_then (cert_algorithm d alg) (\<lambda>oid.
       and_then (cert_signature d sig) (\<lambda>bits.
       parse_tbs d tbs der oid bits)))))))"

definition OwnedCert_from_der :: "'l cert_lib_scheme \<Rightarrow> bytes \<Rightarrow> (x509_error, bytes) res" where
  "OwnedCert_from_der d der = and_then (Certificate_from_der d der) (\<lambda>_. Ok der)"

definition OwnedCert_view :: "'l cert_lib_scheme \<Rightarrow> bytes \<Rightarrow> (x509_error, certificate) res" where
  "OwnedCert_view d der = (case Certificate_from_der d der of Ok c \<Rightarrow> Ok c | _ \<Rightarrow> Panic)"

subsection \<open>Addresses\<close>

definition AUTHORITY_INFO_ACCESS :: bytes where "AUTHORITY_INFO_ACCESS = oid_dotted [1, 3, 6, 1, 5, 5, 7, 1, 1]"
definition AD_OCSP :: bytes where "AD_OCSP = oid_dotted [1, 3, 6, 1, 5, 5, 7, 48, 1]"
definition AD_CA_ISSUERS :: bytes where "AD_CA_ISSUERS = oid_dotted [1, 3, 6, 1, 5, 5, 7, 48, 2]"
definition CRL_DISTRIBUTION_POINTS :: bytes where "CRL_DISTRIBUTION_POINTS = oid_dotted [2, 5, 29, 31]"

definition find_extension :: "'l der_lib_scheme \<Rightarrow> bytes \<Rightarrow> bytes \<Rightarrow> bytes option" where
  "find_extension d exts oid_value = map_option meta_value (find_extension_with_meta d exts oid_value)"

definition uri_of_bytes :: "bytes \<Rightarrow> uri option" where
  "uri_of_bytes val = (if utf8_valid val then (case Uri_parse val of Ok u \<Rightarrow> Some u | _ \<Rightarrow> None) else None)"

definition access_url :: "'l der_lib_scheme \<Rightarrow> bytes \<Rightarrow> bytes \<Rightarrow> uri option" where
  "access_url d access_method ad_bytes =
     Option.bind (any_from_der d ad_bytes) (\<lambda>(tag, body).
     if tag \<noteq> Sequence \<or> \<not> slice_reader_ok d body then None
     else
       Option.bind (tlv_read d body) (\<lambda>(t, flds).
       Option.bind (any_from_der d t) (\<lambda>(tag, oid).
       if tag \<noteq> ObjectIdentifier \<or> oid \<noteq> access_method then None
       else
         Option.bind (tlv_read d flds) (\<lambda>(t, _).
         Option.bind (any_from_der d t) (\<lambda>(tag, loc).
         if tag = ContextSpecific False 6 then uri_of_bytes loc else None)))))"

function aia_loop :: "'l der_lib_scheme \<Rightarrow> bytes \<Rightarrow> bytes \<Rightarrow> uri list" where
  "aia_loop d access_method reader =
     (if reader = [] then []
      else (case tlv_read d reader of
        None \<Rightarrow> []
      | Some (ad_bytes, reader) \<Rightarrow>
          (case access_url d access_method ad_bytes of None \<Rightarrow> [] | Some u \<Rightarrow> [u]) @ aia_loop d access_method reader))"
  by pat_completeness auto
termination by (relation "measure (length \<circ> snd \<circ> snd)") (auto dest: tlv_read_shorter)

declare aia_loop.simps [simp del]

definition aia_urls_for :: "'l der_lib_scheme \<Rightarrow> bytes \<Rightarrow> bytes \<Rightarrow> uri list" where
  "aia_urls_for d exts access_method =
     (case find_extension d exts AUTHORITY_INFO_ACCESS of
        None \<Rightarrow> []
      | Some extn \<Rightarrow>
          (case any_from_der d extn of
             None \<Rightarrow> []
           | Some (tag, body) \<Rightarrow>
               if tag \<noteq> Sequence \<or> \<not> slice_reader_ok d body then [] else aia_loop d access_method body))"

definition extract_ocsp_urls :: "'l der_lib_scheme \<Rightarrow> bytes \<Rightarrow> uri list" where
  "extract_ocsp_urls d exts = aia_urls_for d exts AD_OCSP"

definition extract_ca_issuers_urls :: "'l der_lib_scheme \<Rightarrow> bytes \<Rightarrow> uri list" where
  "extract_ca_issuers_urls d exts = aia_urls_for d exts AD_CA_ISSUERS"

text \<open>The items of \<open>BerTlvIter\<close> that parse; the loops skip the others.\<close>

definition ok_children :: "bytes \<Rightarrow> ber_tlv_any list" where
  "ok_children bs = List.map_filter (\<lambda>item. case item of Ok t \<Rightarrow> Some t | _ \<Rightarrow> None) (ber_children bs)"

definition full_name_urls :: "ber_tlv_any \<Rightarrow> uri list" where
  "full_name_urls gn_wrap =
     (if tlv_tag gn_wrap \<noteq> 0xA0 then []
      else List.map_filter (\<lambda>gn. if tlv_tag gn = 0x86 then uri_of_bytes (tlv_value gn) else None)
             (ok_children (tlv_value gn_wrap)))"

definition distribution_point_urls :: "ber_tlv_any \<Rightarrow> uri list" where
  "distribution_point_urls dp =
     (if tlv_tag dp \<noteq> 0x30 then []
      else concat (map (\<lambda>field. if tlv_tag field \<noteq> 0xA0 then []
                           else concat (map full_name_urls (ok_children (tlv_value field))))
                     (ok_children (tlv_value dp))))"

definition extract_crl_distribution_urls :: "'l der_lib_scheme \<Rightarrow> bytes \<Rightarrow> uri list" where
  "extract_crl_distribution_urls d exts =
     (case find_extension d exts CRL_DISTRIBUTION_POINTS of
        None \<Rightarrow> []
      | Some extn \<Rightarrow>
          (case ber_parse_typed 0x30 extn of
             Ok outer \<Rightarrow> concat (map distribution_point_urls (ok_children (typed_value outer)))
           | _ \<Rightarrow> []))"

subsection \<open>The grammar of a certificate\<close>

text \<open>The extensions among the trailing fields: every \<open>[3]\<close> wraps one TLV, and the last one counts.\<close>

definition trailing_extensions :: "'l der_lib_scheme \<Rightarrow> bytes option \<Rightarrow> (der_tag \<times> bytes) list \<Rightarrow> bytes option \<Rightarrow> bool" where
  "trailing_extensions d e0 fs e \<longleftrightarrow>
     (\<exists>inners. map (any_from_der d) (map snd (filter (\<lambda>f. fst f = EXTENSIONS_TAG) fs)) = map Some inners
        \<and> e = (if inners = [] then e0 else Some (snd (last inners))))"

lemma trailing_extensions_Nil [simp]: "trailing_extensions d e0 [] e \<longleftrightarrow> e = e0"
  by (auto simp: trailing_extensions_def)

lemma trailing_extensions_Cons:
  "trailing_extensions d e0 ((tag, val) # fs) e \<longleftrightarrow>
     (if tag = EXTENSIONS_TAG
      then \<exists>t inner. any_from_der d val = Some (t, inner) \<and> trailing_extensions d (Some inner) fs e
      else trailing_extensions d e0 fs e)"
proof (cases "tag = EXTENSIONS_TAG")
  case True
  have "trailing_extensions d e0 ((tag, val) # fs) e \<longleftrightarrow>
      (\<exists>i inners. any_from_der d val = Some i
         \<and> map (any_from_der d) (map snd (filter (\<lambda>f. fst f = EXTENSIONS_TAG) fs)) = map Some inners
         \<and> e = Some (snd (last (i # inners))))"
    using True unfolding trailing_extensions_def by (auto simp: Cons_eq_map_conv)
  also have "\<dots> \<longleftrightarrow> (\<exists>t inner. any_from_der d val = Some (t, inner) \<and> trailing_extensions d (Some inner) fs e)"
    by (auto simp: trailing_extensions_def)
  finally show ?thesis using True by simp
qed (simp add: trailing_extensions_def)

lemma tbs_trailing_exact:
  "tbs_trailing d e0 bs = Ok e \<longleftrightarrow>
     (\<exists>ts. tlv_all d bs = Some ts \<and> (\<exists>fs. map (any_from_der d) ts = map Some fs \<and> trailing_extensions d e0 fs e))"
proof (induction d e0 bs rule: tbs_trailing.induct)
  case (1 d e0 bs)
  show ?case
  proof (cases "bs = []")
    case True
    then show ?thesis by (subst tbs_trailing.simps) auto
  next
    case False
    show ?thesis
    proof (cases "tlv_read d bs")
      case None
      then show ?thesis using False by (subst tbs_trailing.simps, subst ex_tlv_all) (simp add: next_tlv_def)
    next
      case (Some p)
      obtain t rest where p: "tlv_read d bs = Some (t, rest)" using Some by (cases p) auto
      have IH: "tbs_trailing d e1 rest = Ok e \<longleftrightarrow>
          (\<exists>ts. tlv_all d rest = Some ts \<and> (\<exists>fs. map (any_from_der d) ts = map Some fs \<and> trailing_extensions d e1 fs e))"
        if "any_from_der d t = Some (tag, val)"
          "(if tag = EXTENSIONS_TAG then and_then (any_value d ''extensions not SEQUENCE'' val) (\<lambda>(_, inner). Ok (Some inner))
            else Ok e0) = (Ok e1 :: (x509_error, bytes option) res)" for tag val e1
        using "1.IH" [OF False _ refl _ refl that(2)] p that(1) by (auto simp: res_simps)
      have step: "tbs_trailing d e0 bs = Ok e \<longleftrightarrow>
          (\<exists>tag val e1. any_from_der d t = Some (tag, val)
             \<and> (if tag = EXTENSIONS_TAG then \<exists>t' inner. any_from_der d val = Some (t', inner) \<and> e1 = Some inner else e1 = e0)
             \<and> tbs_trailing d e1 rest = Ok e)"
        using False p
        by (subst tbs_trailing.simps, cases "any_from_der d t")
           (auto simp: next_tlv_def any_value_def res_simps split: prod.splits if_splits)
      have "tbs_trailing d e0 bs = Ok e \<longleftrightarrow>
          (\<exists>tag val e1. any_from_der d t = Some (tag, val)
             \<and> (if tag = EXTENSIONS_TAG then \<exists>t' inner. any_from_der d val = Some (t', inner) \<and> e1 = Some inner else e1 = e0)
             \<and> (\<exists>ts. tlv_all d rest = Some ts \<and> (\<exists>fs. map (any_from_der d) ts = map Some fs \<and> trailing_extensions d e1 fs e)))"
        unfolding step using IH by (intro ex_cong1 conj_cong refl) (auto simp: res_simps split: if_splits)
      also have "\<dots> \<longleftrightarrow> (\<exists>ts. tlv_all d rest = Some ts
             \<and> (\<exists>fs. map (any_from_der d) (t # ts) = map Some fs \<and> trailing_extensions d e0 fs e))"
        by (auto simp: Cons_eq_map_conv trailing_extensions_Cons split: if_splits)
      finally show ?thesis using False p by (subst ex_tlv_all) simp
    qed
  qed
qed


text \<open>The first fields of the signed part: an optional version, and any TLV that is not a version as the serial
  number (\<open>der\<close> does not see its tag).\<close>

definition serial_fields :: "'l der_lib_scheme \<Rightarrow> bytes list \<Rightarrow> bytes \<Rightarrow> bool" where
  "serial_fields d ts serial \<longleftrightarrow>
     (\<exists>t tag. ts = [t] \<and> any_from_der d t = Some (tag, serial) \<and> tag \<noteq> VERSION_TAG)
     \<or> (\<exists>v val t tag. ts = [v, t] \<and> any_from_der d v = Some (VERSION_TAG, val) \<and> any_from_der d t = Some (tag, serial))"

definition key_field :: "'l cert_lib_scheme \<Rightarrow> bytes \<Rightarrow> bytes \<Rightarrow> bool" where
  "key_field d key bits \<longleftrightarrow>
     (\<exists>info alg. spki_from_der d key = Some info \<and> info_as_bytes info = Some bits \<and> from_spki d info = Some alg)"

definition tbs_grammar :: "'l cert_lib_scheme \<Rightarrow> certificate \<Rightarrow> bool" where
  "tbs_grammar d c \<longleftrightarrow>
     (\<exists>body ss inner_alg validity trailing fs.
        any_from_der d (tbs_der c) = Some (Sequence, body) \<and> slice_reader_ok d body
        \<and> tlv_all d body = Some (ss @ inner_alg # issuer c # validity # subject c # spki c # trailing)
        \<and> serial_fields d ss (serial_der c)
        \<and> validity_from_der d validity = Some (not_before c, not_after c)
        \<and> key_field d (spki c) (subject_public_key_bits c)
        \<and> map (any_from_der d) trailing = map Some fs \<and> trailing_extensions d None fs (extensions c))"

definition first_oid :: "'l der_lib_scheme \<Rightarrow> bytes \<Rightarrow> bytes \<Rightarrow> bool" where
  "first_oid d alg oid \<longleftrightarrow>
     (\<exists>tag body t rest tag'. any_from_der d alg = Some (tag, body) \<and> slice_reader_ok d body
        \<and> tlv_read d body = Some (t, rest) \<and> any_from_der d t = Some (tag', oid) \<and> Oid_new oid = Ok oid)"

lemma Oid_new_same: "Oid_new v = Ok oid \<Longrightarrow> oid = v"
  by (auto simp: Oid_new_def split: if_splits)

lemma cert_algorithm_Ok: "cert_algorithm d alg = Ok oid \<longleftrightarrow> first_oid d alg oid"
  by (auto simp: cert_algorithm_def first_oid_def res_simps split: prod.splits) (metis Oid_new_same)+

lemma cert_signature_Ok: "cert_signature d sig = Ok bits \<longleftrightarrow> (\<exists>tag unused. any_from_der d sig = Some (tag, unused # bits))"
  by (auto simp: cert_signature_def res_simps split: prod.splits list.splits) (metis neq_Nil_conv)

lemma SpkiDer_try_from_Ok:
  "SpkiDer_try_from d der = Ok k \<longleftrightarrow> spki_bytes k = der \<and> (\<exists>info. spki_from_der d der = Some info
     \<and> info_as_bytes info = Some (spki_key_bits k) \<and> from_spki d info = Some (spki_algorithm k))"
  by (cases k) (auto simp: SpkiDer_try_from_def res_simps)

lemma tbs_serial_Ok:
  "tbs_serial d bs = Ok (serial, rest) \<longleftrightarrow>
     (\<exists>t tag. tlv_read d bs = Some (t, rest) \<and> any_from_der d t = Some (tag, serial) \<and> tag \<noteq> VERSION_TAG)
     \<or> (\<exists>v val r t tag. tlv_read d bs = Some (v, r) \<and> any_from_der d v = Some (VERSION_TAG, val)
          \<and> tlv_read d r = Some (t, rest) \<and> any_from_der d t = Some (tag, serial))"
  by (auto simp: tbs_serial_def res_simps split: prod.splits if_splits)

lemma tbs_serial_all:
  "(\<exists>rest. tbs_serial d bs = Ok (serial, rest) \<and> tlv_all d rest = Some us) \<longleftrightarrow>
     (\<exists>ss. tlv_all d bs = Some (ss @ us) \<and> serial_fields d ss serial)"
  (is "?l \<longleftrightarrow> ?r")
proof
  assume ?l
  then consider t tag rest where "tlv_read d bs = Some (t, rest)" "any_from_der d t = Some (tag, serial)" "tag \<noteq> VERSION_TAG"
      "tlv_all d rest = Some us"
    | v val r t tag rest where "tlv_read d bs = Some (v, r)" "any_from_der d v = Some (VERSION_TAG, val)"
      "tlv_read d r = Some (t, rest)" "any_from_der d t = Some (tag, serial)" "tlv_all d rest = Some us"
    unfolding tbs_serial_Ok by blast
  then show ?r
  proof cases
    case 1
    then show ?thesis by (intro exI [of _ "[t]"]) (auto simp: tlv_all_eq_Cons serial_fields_def)
  next
    case 2
    then show ?thesis by (intro exI [of _ "[v, t]"]) (auto simp: tlv_all_eq_Cons serial_fields_def)
  qed
next
  assume ?r
  then show ?l unfolding tbs_serial_Ok serial_fields_def by (auto simp: tlv_all_eq_Cons)
qed

lemma parse_tbs_Ok:
  "parse_tbs d tbs raw oid bits = Ok c \<longleftrightarrow>
     tbs_der c = tbs \<and> raw_der c = raw \<and> signature_alg_oid c = oid \<and> signature_bits c = bits \<and> tbs_grammar d c"
  (is "?l \<longleftrightarrow> ?r")
proof
  assume ?l
  then obtain body reader r1 r2 r3 r4 r5 r6 inner_alg validity key where
      tbs: "any_from_der d tbs = Some (Sequence, body)" "slice_reader_ok d body"
    and serial: "tbs_serial d body = Ok (serial_der c, r1)"
    and reads: "tlv_read d r1 = Some (inner_alg, r2)" "tlv_read d r2 = Some (issuer c, r3)" "tlv_read d r3 = Some (validity, r4)"
      "tlv_read d r4 = Some (subject c, r5)" "tlv_read d r5 = Some (spki c, r6)"
    and val: "validity_from_der d validity = Some (not_before c, not_after c)"
    and key: "SpkiDer_try_from d (spki c) = Ok key" "subject_public_key_bits c = spki_key_bits key"
    and trailing: "tbs_trailing d None r6 = Ok (extensions c)"
    and same: "tbs_der c = tbs" "raw_der c = raw" "signature_alg_oid c = oid" "signature_bits c = bits"
    by (auto simp: parse_tbs_def res_simps SpkiDer_try_from_Ok split: prod.splits if_splits)
  from trailing obtain ts fs where ts: "tlv_all d r6 = Some ts" "map (any_from_der d) ts = map Some fs"
      "trailing_extensions d None fs (extensions c)" by (auto simp: tbs_trailing_exact)
  have "tlv_all d r1 = Some (inner_alg # issuer c # validity # subject c # spki c # ts)"
    using reads ts(1) by (simp add: tlv_all_eq_Cons)
  with serial obtain ss where "tlv_all d body = Some (ss @ inner_alg # issuer c # validity # subject c # spki c # ts)"
      "serial_fields d ss (serial_der c)" using tbs_serial_all by blast
  moreover have "key_field d (spki c) (subject_public_key_bits c)" using key by (auto simp: key_field_def SpkiDer_try_from_Ok)
  ultimately show ?r using tbs [folded same(1)] val ts same unfolding tbs_grammar_def by blast
next
  assume r: ?r
  then obtain body ss inner_alg validity trailing fs info alg where
      tbs: "any_from_der d tbs = Some (Sequence, body)" "slice_reader_ok d body"
    and all: "tlv_all d body = Some (ss @ inner_alg # issuer c # validity # subject c # spki c # trailing)"
    and serial: "serial_fields d ss (serial_der c)" and val: "validity_from_der d validity = Some (not_before c, not_after c)"
    and key: "spki_from_der d (spki c) = Some info" "info_as_bytes info = Some (subject_public_key_bits c)" "from_spki d info = Some alg"
    and ts: "map (any_from_der d) trailing = map Some fs" "trailing_extensions d None fs (extensions c)"
    unfolding tbs_grammar_def key_field_def by blast
  from all serial obtain r1 where r1: "tbs_serial d body = Ok (serial_der c, r1)"
      "tlv_all d r1 = Some (inner_alg # issuer c # validity # subject c # spki c # trailing)" using tbs_serial_all by blast
  then obtain r2 r3 r4 r5 r6 where reads: "tlv_read d r1 = Some (inner_alg, r2)" "tlv_read d r2 = Some (issuer c, r3)"
      "tlv_read d r3 = Some (validity, r4)" "tlv_read d r4 = Some (subject c, r5)" "tlv_read d r5 = Some (spki c, r6)"
      "tlv_all d r6 = Some trailing" by (auto simp: tlv_all_eq_Cons)
  have "tbs_trailing d None r6 = Ok (extensions c)" using reads ts tbs_trailing_exact by blast
  moreover have "SpkiDer_try_from d (spki c) =
      Ok \<lparr>spki_bytes = spki c, spki_algorithm = alg, spki_key_bits = subject_public_key_bits c\<rparr>"
    using key by (simp add: SpkiDer_try_from_Ok)
  ultimately show ?l
    using r tbs r1 reads val by (cases c) (simp add: parse_tbs_def next_tlv_def any_value_def open_reader_def)
qed


text \<open>The encoded identifiers, for evaluation.\<close>

lemma RSA_ENCRYPTION_code [code]: "RSA_ENCRYPTION = [0x2A, 0x86, 0x48, 0x86, 0xF7, 0x0D, 0x01, 0x01, 0x01]"
  by (simp add: RSA_ENCRYPTION_def oid_dotted.simps base128_def continuation.simps)

lemma EC_PUBLIC_KEY_code [code]: "EC_PUBLIC_KEY = [0x2A, 0x86, 0x48, 0xCE, 0x3D, 0x02, 0x01]"
  by (simp add: EC_PUBLIC_KEY_def oid_dotted.simps base128_def continuation.simps)

end
