(* ===== verification/Pem.thy ===== *)
theory Pem
  imports Prelude
begin

text \<open>
  Certificates in PEM or DER (\<open>text.rs\<close> of the client crate): the detection of the form, and the decoder of padded
  base64. Text is its UTF-8 encoding; white space outside ASCII is recognised by its encoding.
\<close>

definition pem_val :: "byte \<Rightarrow> byte option" where
  "pem_val b =
     (if 0x41 \<le> b \<and> b \<le> 0x5A then Some (b - 0x41)
      else if 0x61 \<le> b \<and> b \<le> 0x7A then Some (b - 0x61 + 26)
      else if 0x30 \<le> b \<and> b \<le> 0x39 then Some (b - 0x30 + 52)
      else if b = 0x2B then Some 62 else if b = 0x2F then Some 63 else None)"

definition pad_val :: "byte \<Rightarrow> byte option" where
  "pad_val b = (if b = 0x3D then Some 0 else pem_val b)"

fun base64_quanta :: "bytes \<Rightarrow> bytes \<Rightarrow> bytes option" where
  "base64_quanta (q0 # q1 # q2 # q3 # rest) out =
     Option.bind (pem_val q0) (\<lambda>v0.
     Option.bind (pem_val q1) (\<lambda>v1.
     Option.bind (pad_val q2) (\<lambda>v2.
     Option.bind (pad_val q3) (\<lambda>v3.
     base64_quanta rest
       (out @ [push_bit 2 v0 OR drop_bit 4 v1]
        @ (if q2 \<noteq> 0x3D then [push_bit 4 v1 OR drop_bit 2 v2] else [])
        @ (if q3 \<noteq> 0x3D then [push_bit 6 v2 OR v3] else []))))))"
| "base64_quanta [] out = Some out"
| "base64_quanta _ out = None"

definition pem_base64_decode :: "bytes \<Rightarrow> bytes option" where
  "pem_base64_decode s = (if length s mod 4 \<noteq> 0 then None else base64_quanta s [])"

text \<open>\<open>str::find\<close>\<close>

fun find_sub :: "bytes \<Rightarrow> bytes \<Rightarrow> nat option" where
  "find_sub p [] = (if p = [] then Some 0 else None)"
| "find_sub p (b # t) = (if take (length p) (b # t) = p then Some 0 else map_option Suc (find_sub p t))"

text \<open>The encodings of the characters with the property \<open>White_Space\<close>.\<close>

definition white_space :: "bytes list" where
  "white_space = [[0x09], [0x0A], [0x0B], [0x0C], [0x0D], [0x20], [0xC2, 0x85], [0xC2, 0xA0], [0xE1, 0x9A, 0x80]]
     @ map (\<lambda>b. [0xE2, 0x80, b]) [0x80, 0x81, 0x82, 0x83, 0x84, 0x85, 0x86, 0x87, 0x88, 0x89, 0x8A, 0xA8, 0xA9, 0xAF]
     @ [[0xE2, 0x81, 0x9F], [0xE3, 0x80, 0x80]]"

fun strip_white_space :: "bytes \<Rightarrow> bytes" where
  "strip_white_space [] = []"
| "strip_white_space (b # t) =
     (if [b] \<in> set white_space then strip_white_space t
      else if take 2 (b # t) \<in> set white_space then strip_white_space (drop 1 t)
      else if take 3 (b # t) \<in> set white_space then strip_white_space (drop 2 t)
      else b # strip_white_space t)"

definition BEGIN_MARKER :: bytes where "BEGIN_MARKER = str_bytes ''-----BEGIN CERTIFICATE-----''"
definition END_MARKER :: bytes where "END_MARKER = str_bytes ''-----END CERTIFICATE-----''"

definition decode_cert_pem_or_der :: "bytes \<Rightarrow> bytes option" where
  "decode_cert_pem_or_der bs =
     (if bs \<noteq> [] \<and> hd bs = 0x30 then Some bs
      else if \<not> utf8_valid bs then None
      else
        Option.bind (find_sub BEGIN_MARKER bs) (\<lambda>begin.
        let body_start = begin + length BEGIN_MARKER in
        Option.bind (find_sub END_MARKER (drop begin bs)) (\<lambda>end_offset.
        let body_end = begin + end_offset in
        if body_end < body_start then None
        else pem_base64_decode (strip_white_space (drop body_start (take body_end bs))))))"

text \<open>Padding is accepted in every group of four, not only in the last one.\<close>

lemma padding_inside_accepted: "pem_base64_decode (str_bytes ''Zg==Zg=='') = Some [0x66, 0x66]"
  by code_simp

text \<open>A certificate between its markers is decoded after white space is removed.\<close>

lemma pem_block_decoded:
  "decode_cert_pem_or_der (BEGIN_MARKER @ [0x0A] @ str_bytes ''MAMC'' @ [0x0D, 0x0A] @ str_bytes ''AQU='' @ [0x0A] @ END_MARKER)
     = Some [0x30, 0x03, 0x02, 0x01, 0x05]"
  by code_simp

end
