(* ===== verification/Validation_Material.thy ===== *)
theory Validation_Material
  imports X509_Cert Pem
begin

text \<open>
  Certificate paths and the evidence of a long-term signature (\<open>validation_material.rs\<close> of the client crate). The
  path builder starts at a leaf and looks for an issuer among the approved anchors, the candidates at hand and the
  addresses in the certificate, until it reaches an approved anchor; the collector also obtains a status for every
  link. The network and the random source are parameters over a state of the world that every call may change, so
  the results hold for every behaviour of the servers. Messages keep their arguments (\<open>detail\<close>) instead of being
  formatted.
\<close>

subsection \<open>Outcomes over a state\<close>

definition io_then :: "('e, 'a) res \<times> 's \<Rightarrow> ('a \<Rightarrow> 's \<Rightarrow> ('e, 'b) res \<times> 's) \<Rightarrow> ('e, 'b) res \<times> 's" where
  "io_then m f = (case fst m of Ok a \<Rightarrow> f a (snd m) | Err e \<Rightarrow> (Err e, snd m) | Panic \<Rightarrow> (Panic, snd m))"

lemma io_then_cong [fundef_cong]:
  "m = m' \<Longrightarrow> (\<And>a s. m' = (Ok a, s) \<Longrightarrow> f a s = g a s) \<Longrightarrow> io_then m f = io_then m' g"
  by (cases m') (auto simp: io_then_def split: res.splits)

lemma io_then_Ok [res_simps]: "io_then m f = (Ok b, s') \<longleftrightarrow> (\<exists>a s. m = (Ok a, s) \<and> f a s = (Ok b, s'))"
  by (cases m) (auto simp: io_then_def split: res.splits)

text \<open>\<open>Result::ok\<close>: an error becomes nothing, a panic stays.\<close>

fun attempt :: "('e, 'a) res \<Rightarrow> ('d, 'a option) res" where
  "attempt (Ok a) = Ok (Some a)"
| "attempt (Err e) = Ok None"
| "attempt Panic = Panic"

lemma attempt_Ok [res_simps]: "attempt r = Ok (Some a) \<longleftrightarrow> r = Ok a" "attempt r = Ok None \<longleftrightarrow> (\<exists>e. r = Err e)"
  by (cases r; simp)+

subsection \<open>Errors, policies and material\<close>

datatype material_error = NoChain | NoTrustAnchor | BadCertificate detail | InvalidIssuer detail | NoIssuer detail
  | ChainCycle | ChainTooDeep | RngFailure detail | RevocationFailure detail | CertificateRevoked detail
and detail = Text string | ParseError string x509_error | NotValidBefore date_time | ExpiredAt date_time
  | SignatureError verify_error | PathLengthExceeded u32 u32 | Shown material_error | ExtensionProblem path_extension_error
  | At uri detail | Joined "detail list" | VerifyCrlError crl_verify_error | UnusableList revocation_status
  | RevokedAt date_time | RevokedByList date_time "crl_reason option" | ResponderReturned ocsp_response_status
  | ProducedAhead date_time

datatype nonce_policy = RequireEcho | AllowMissingEcho

record chain_start =
  leaf_der :: bytes
  reference_time :: date_time
  approved_anchor_ders :: "bytes list"
  start_nonce_policy :: nonce_policy
  include_leaf :: bool
  include_anchor :: bool

record validation_material =
  certificates :: "bytes list"
  ocsp_responses :: "bytes list"
  crls :: "bytes list"

record collection =
  material :: validation_material
  candidates :: "bytes list"

definition Collection_default :: collection where
  "Collection_default = \<lparr>material = \<lparr>certificates = [], ocsp_responses = [], crls = []\<rparr>, candidates = []\<rparr>"

datatype status_evidence = OcspEvidence bytes | CrlEvidence bytes

record 'w evidence_provider =
  fetch_issuer :: "uri \<Rightarrow> 'w \<Rightarrow> (detail, bytes) res \<times> 'w"
  provider_status :: "nonce_policy \<Rightarrow> certificate \<Rightarrow> certificate \<Rightarrow> date_time \<Rightarrow> 'w \<Rightarrow> (material_error, status_evidence) res \<times> 'w"

abbreviation MAX_FETCH_BYTES :: nat where "MAX_FETCH_BYTES \<equiv> 65536"
abbreviation MAX_CRL_BYTES :: nat where "MAX_CRL_BYTES \<equiv> 1048576"
abbreviation MAX_CLOCK_SKEW :: nat where "MAX_CLOCK_SKEW \<equiv> 300"
abbreviation MAX_OCSP_AGE_WITHOUT_NEXT_UPDATE :: nat where "MAX_OCSP_AGE_WITHOUT_NEXT_UPDATE \<equiv> 604800"
abbreviation MAX_DEPTH :: nat where "MAX_DEPTH \<equiv> 8"
abbreviation MAX_CERTIFICATE_ADDRESSES :: nat where "MAX_CERTIFICATE_ADDRESSES \<equiv> 3"

subsection \<open>Checks on one link\<close>

definition validate_certificate_time :: "certificate \<Rightarrow> date_time \<Rightarrow> (material_error, unit) res" where
  "validate_certificate_time cert ref =
     (if ref < not_before cert then Err (BadCertificate (NotValidBefore (not_before cert)))
      else if not_after cert < ref then Err (BadCertificate (ExpiredAt (not_after cert)))
      else Ok ())"

definition enforce_non_anchor_extension_policy :: "path_extension_profile \<Rightarrow> (detail, unit) res" where
  "enforce_non_anchor_extension_policy profile =
     (if name_constraints_present profile
      then Err (Text ''non-anchor certificate carries Name Constraints, which this path builder cannot enforce'')
      else if ca (profile_basic_constraints profile) \<and> extended_key_usage_present profile
      then Err (Text ''non-anchor CA carries Extended Key Usage, whose purpose constraints this generic path builder cannot enforce'')
      else Ok ())"

definition validate_path_extensions :: "certificate \<Rightarrow> (detail, path_extension_profile) res" where
  "validate_path_extensions cert =
     and_then (map_err ExtensionProblem (path_extension_profile (case extensions cert of None \<Rightarrow> [] | Some exts \<Rightarrow> exts))) (\<lambda>profile.
     and_then (enforce_non_anchor_extension_policy profile) (\<lambda>_. Ok profile))"

definition validate_non_anchor_extensions :: "certificate \<Rightarrow> (material_error, path_extension_profile) res" where
  "validate_non_anchor_extensions cert = map_err BadCertificate (validate_path_extensions cert)"

definition enforce_path_length :: "u32 option \<Rightarrow> u32 \<Rightarrow> (material_error, unit) res" where
  "enforce_path_length permitted subordinate_ca_count =
     (case permitted of
        Some limit \<Rightarrow>
          if limit < subordinate_ca_count then Err (InvalidIssuer (PathLengthExceeded limit subordinate_ca_count)) else Ok ()
      | None \<Rightarrow> Ok ())"

definition validate_issuing_certificate :: "certificate \<Rightarrow> date_time \<Rightarrow> u32 \<Rightarrow> (material_error, unit) res" where
  "validate_issuing_certificate iss ref subordinate_ca_count =
     and_then (map_err (\<lambda>e. InvalidIssuer (Shown e)) (validate_certificate_time iss ref)) (\<lambda>_.
     and_then (map_err InvalidIssuer (validate_path_extensions iss)) (\<lambda>profile.
     let constraints = profile_basic_constraints profile in
     if \<not> present constraints \<or> \<not> ca constraints then Err (InvalidIssuer (Text ''issuer is not a CA''))
     else if \<not> bc_critical constraints then Err (InvalidIssuer (Text ''issuer Basic Constraints is not critical''))
     else
       and_then (enforce_path_length (path_len constraints) subordinate_ca_count) (\<lambda>_.
       if \<not> (case profile_key_usage profile of None \<Rightarrow> False | Some usage \<Rightarrow> key_cert_sign (kum_key_usage usage))
       then Err (InvalidIssuer (Text ''issuer has no Key Usage permitting certificate signing''))
       else Ok ())))"

definition validate_direct_issuer_for_path ::
    "verifier \<Rightarrow> certificate \<Rightarrow> certificate \<Rightarrow> date_time \<Rightarrow> u32 \<Rightarrow> bool \<Rightarrow> (material_error, unit) res" where
  "validate_direct_issuer_for_path verify_tbs subj iss ref subordinate_ca_count issuer_is_anchor =
     (if issuer subj \<noteq> subject iss
      then Err (InvalidIssuer (Text ''subject issuer name does not equal candidate subject name''))
      else
        and_then (if issuer_is_anchor
                  then map_err (\<lambda>e. InvalidIssuer (Shown e)) (validate_certificate_time iss ref)
                  else validate_issuing_certificate iss ref subordinate_ca_count) (\<lambda>_.
        map_err (\<lambda>e. InvalidIssuer (SignatureError e)) (verify_signed_by verify_tbs subj iss)))"

definition is_approved_anchor :: "bytes \<Rightarrow> bytes list \<Rightarrow> bool" where
  "is_approved_anchor der anchors \<longleftrightarrow> der \<in> set anchors"

subsection \<open>Collections\<close>

definition push_new :: "bytes list \<Rightarrow> bytes \<Rightarrow> bytes list" where
  "push_new held der = (if der \<in> set held then held else held @ [der])"

definition push_candidate :: "collection \<Rightarrow> bytes \<Rightarrow> collection" where
  "push_candidate c der = c\<lparr>candidates := push_new (candidates c) der\<rparr>"

definition push_status :: "validation_material \<Rightarrow> status_evidence \<Rightarrow> validation_material" where
  "push_status m e =
     (case e of
        OcspEvidence der \<Rightarrow> m\<lparr>ocsp_responses := push_new (ocsp_responses m) der\<rparr>
      | CrlEvidence der \<Rightarrow> m\<lparr>crls := push_new (crls m) der\<rparr>)"

definition push_certificate :: "validation_material \<Rightarrow> bytes \<Rightarrow> validation_material" where
  "push_certificate m der = m\<lparr>certificates := push_new (certificates m) der\<rparr>"

fun select_addresses :: "uri list \<Rightarrow> uri list \<Rightarrow> uri list" where
  "select_addresses selected [] = selected"
| "select_addresses selected (a # as) =
     (if a \<in> set selected then select_addresses selected as
      else let selected = selected @ [a] in
           if length selected = MAX_CERTIFICATE_ADDRESSES then selected else select_addresses selected as)"

definition bounded_certificate_addresses :: "uri list \<Rightarrow> uri list" where
  "bounded_certificate_addresses addresses = select_addresses [] addresses"

subsection \<open>Finding an issuer\<close>

text \<open>\<open>OwnedCert::from_der\<close> followed by \<open>view\<close>.\<close>

definition owned_view :: "'l cert_lib_scheme \<Rightarrow> bytes \<Rightarrow> (x509_error, certificate) res" where
  "owned_view d der = and_then (OwnedCert_from_der d der) (OwnedCert_view d)"

definition usable_issuer :: "'l cert_lib_scheme \<Rightarrow> verifier \<Rightarrow> certificate \<Rightarrow> date_time \<Rightarrow> u32 \<Rightarrow> bytes list \<Rightarrow> bytes
    \<Rightarrow> (material_error, unit) res" where
  "usable_issuer d verify_tbs subj ref count anchors candidate_der =
     and_then (map_err (\<lambda>e. InvalidIssuer (ParseError ''parse'' e)) (owned_view d candidate_der)) (\<lambda>candidate.
     validate_direct_issuer_for_path verify_tbs subj candidate ref count (is_approved_anchor candidate_der anchors))"

fun find_local :: "'l cert_lib_scheme \<Rightarrow> verifier \<Rightarrow> certificate \<Rightarrow> date_time \<Rightarrow> u32 \<Rightarrow> bytes list \<Rightarrow> bytes list
    \<Rightarrow> (material_error, bytes option) res" where
  "find_local d verify_tbs subj ref count anchors [] = Ok None"
| "find_local d verify_tbs subj ref count anchors (candidate_der # rest) =
     (if candidate_der = raw_der subj then find_local d verify_tbs subj ref count anchors rest
      else
        and_then (attempt (usable_issuer d verify_tbs subj ref count anchors candidate_der)) (\<lambda>usable.
        case usable of
          Some _ \<Rightarrow> Ok (Some candidate_der)
        | None \<Rightarrow> find_local d verify_tbs subj ref count anchors rest))"

fun fetch_loop :: "'l cert_lib_scheme \<Rightarrow> verifier \<Rightarrow> 'w evidence_provider \<Rightarrow> certificate \<Rightarrow> date_time \<Rightarrow> u32 \<Rightarrow> bytes list
    \<Rightarrow> detail list \<Rightarrow> uri list \<Rightarrow> 'w \<Rightarrow> (material_error, bytes) res \<times> 'w" where
  "fetch_loop d verify_tbs prov subj ref count anchors failures [] w = (Err (NoIssuer (Joined failures)), w)"
| "fetch_loop d verify_tbs prov subj ref count anchors failures (url # urls) w =
     (case fetch_issuer prov url w of
        (Err why, w) \<Rightarrow> fetch_loop d verify_tbs prov subj ref count anchors (failures @ [At url why]) urls w
      | (Ok candidate_der, w) \<Rightarrow>
          (case owned_view d candidate_der of
             Err why \<Rightarrow> fetch_loop d verify_tbs prov subj ref count anchors (failures @ [At url (ParseError ''parse'' why)]) urls w
           | Ok candidate \<Rightarrow>
               (case validate_direct_issuer_for_path verify_tbs subj candidate ref count (is_approved_anchor candidate_der anchors) of
                  Ok _ \<Rightarrow> (Ok candidate_der, w)
                | Err why \<Rightarrow> fetch_loop d verify_tbs prov subj ref count anchors (failures @ [At url (Shown why)]) urls w
                | Panic \<Rightarrow> (Panic, w))
           | Panic \<Rightarrow> (Panic, w))
      | (Panic, w) \<Rightarrow> (Panic, w))"

definition find_issuer :: "'l cert_lib_scheme \<Rightarrow> verifier \<Rightarrow> 'w evidence_provider \<Rightarrow> certificate \<Rightarrow> date_time \<Rightarrow> u32
    \<Rightarrow> bytes list \<Rightarrow> bytes list \<Rightarrow> 'w \<Rightarrow> (material_error, bytes) res \<times> 'w" where
  "find_issuer d verify_tbs prov subj ref count anchors cands w =
     io_then (find_local d verify_tbs subj ref count anchors (anchors @ cands), w) (\<lambda>found w.
     case found of
       Some der \<Rightarrow> (Ok der, w)
     | None \<Rightarrow>
         (case extensions subj of
            None \<Rightarrow> (Err (NoIssuer (Text ''certificate has no extensions and is not an approved anchor'')), w)
          | Some exts \<Rightarrow>
              let urls = bounded_certificate_addresses (extract_ca_issuers_urls d exts) in
              if urls = []
              then (Err (NoIssuer (Text ''certificate has no CA Issuers address and is not an approved anchor'')), w)
              else fetch_loop d verify_tbs prov subj ref count anchors [] urls w))"


subsection \<open>Walking a path\<close>

definition WalkGuard_enter :: "bytes list \<Rightarrow> bytes \<Rightarrow> (material_error, bytes list) res" where
  "WalkGuard_enter visited der =
     (if der \<in> set visited then Err ChainCycle
      else if MAX_DEPTH \<le> length visited then Err ChainTooDeep
      else Ok (visited @ [der]))"

text \<open>The head of both loops: parse, check the time, enter the guard.\<close>

definition enter_certificate :: "'l cert_lib_scheme \<Rightarrow> date_time \<Rightarrow> bytes list \<Rightarrow> bytes
    \<Rightarrow> (material_error, certificate \<times> bytes list) res" where
  "enter_certificate d ref visited current_der =
     and_then (map_err (\<lambda>e. BadCertificate (ParseError ''path certificate parse'' e)) (owned_view d current_der)) (\<lambda>view.
     and_then (validate_certificate_time view ref) (\<lambda>_.
     and_then (WalkGuard_enter visited current_der) (\<lambda>visited. Ok (view, visited))))"

definition saturating_inc :: "u32 \<Rightarrow> u32" where
  "saturating_inc n = (if n = - 1 then n else n + 1)"

definition count_subordinate :: "certificate \<Rightarrow> u32 \<Rightarrow> (material_error, u32) res" where
  "count_subordinate view count =
     and_then (validate_non_anchor_extensions view) (\<lambda>profile.
     Ok (if ca (profile_basic_constraints profile) \<and> issuer view \<noteq> subject view then saturating_inc count else count))"

text \<open>The common middle: find an issuer, parse it, and check the link again.\<close>

definition next_issuer :: "'l cert_lib_scheme \<Rightarrow> verifier \<Rightarrow> 'w evidence_provider \<Rightarrow> certificate \<Rightarrow> date_time \<Rightarrow> u32
    \<Rightarrow> bytes list \<Rightarrow> bytes list \<Rightarrow> 'w \<Rightarrow> (material_error, bytes \<times> certificate) res \<times> 'w" where
  "next_issuer d verify_tbs prov view ref count anchors cands w =
     io_then (find_issuer d verify_tbs prov view ref count anchors cands w) (\<lambda>issuer_der w.
     (and_then (map_err (\<lambda>e. InvalidIssuer (ParseError ''parse'' e)) (owned_view d issuer_der)) (\<lambda>iss.
      and_then (validate_direct_issuer_for_path verify_tbs view iss ref count (is_approved_anchor issuer_der anchors)) (\<lambda>_.
      Ok (issuer_der, iss))), w))"

type_synonym 'w walk_state = "collection \<times> 'w"

text \<open>A call of the provider inside a walk leaves the collection as it is.\<close>

definition with_world :: "('w \<Rightarrow> ('e, 'a) res \<times> 'w) \<Rightarrow> 'w walk_state \<Rightarrow> ('e, 'a) res \<times> 'w walk_state" where
  "with_world call s = (case call (snd s) of (r, w) \<Rightarrow> (r, fst s, w))"

lemma enter_certificate_deeper:
  "enter_certificate d ref visited der = Ok (view, visited') \<Longrightarrow> MAX_DEPTH - length visited' < MAX_DEPTH - length visited"
  by (auto simp: enter_certificate_def WalkGuard_enter_def res_simps split: if_splits)

function verify_chain_loop :: "'l cert_lib_scheme \<Rightarrow> verifier \<Rightarrow> 'w evidence_provider \<Rightarrow> date_time \<Rightarrow> bytes list
    \<Rightarrow> bytes list \<Rightarrow> bytes list \<Rightarrow> u32 \<Rightarrow> bytes \<Rightarrow> 'w walk_state \<Rightarrow> (material_error, bytes list) res \<times> 'w walk_state" where
  "verify_chain_loop d verify_tbs prov ref anchors visited path count current_der s =
     io_then (enter_certificate d ref visited current_der, s) (\<lambda>(view, visited) s.
     let path = path @ [current_der] in
     if is_approved_anchor current_der anchors then (Ok path, s)
     else
       io_then (count_subordinate view count, s) (\<lambda>count s.
       io_then (with_world (next_issuer d verify_tbs prov view ref count anchors (candidates (fst s))) s) (\<lambda>(issuer_der, _) s.
       verify_chain_loop d verify_tbs prov ref anchors visited path count issuer_der
         (push_candidate (fst s) issuer_der, snd s))))"
  by pat_completeness auto
termination
  by (relation "measure (\<lambda>(_, _, _, _, _, visited, _). MAX_DEPTH - length visited)") (auto dest: enter_certificate_deeper)

declare verify_chain_loop.simps [simp del]

definition verify_chain_with :: "'l cert_lib_scheme \<Rightarrow> verifier \<Rightarrow> 'w evidence_provider \<Rightarrow> bytes \<Rightarrow> date_time \<Rightarrow> bytes list
    \<Rightarrow> 'w walk_state \<Rightarrow> (material_error, bytes list) res \<times> 'w walk_state" where
  "verify_chain_with d verify_tbs prov leaf ref anchors s =
     (if anchors = [] then (Err NoTrustAnchor, s)
      else verify_chain_loop d verify_tbs prov ref anchors [] [] 0 leaf s)"

text \<open>The collection after one link.\<close>

definition link_collected :: "chain_start \<Rightarrow> collection \<Rightarrow> status_evidence \<Rightarrow> bytes \<Rightarrow> collection" where
  "link_collected start c evidence issuer_der =
     (let c = c\<lparr>material := push_status (material c) evidence\<rparr>;
          c = push_candidate c issuer_der in
      if \<not> is_approved_anchor issuer_der (approved_anchor_ders start) \<or> include_anchor start
      then c\<lparr>material := push_certificate (material c) issuer_der\<rparr> else c)"

function walk_loop :: "'l cert_lib_scheme \<Rightarrow> verifier \<Rightarrow> 'w evidence_provider \<Rightarrow> chain_start \<Rightarrow> date_time
    \<Rightarrow> bytes list \<Rightarrow> u32 \<Rightarrow> bytes \<Rightarrow> 'w walk_state \<Rightarrow> (material_error, unit) res \<times> 'w walk_state" where
  "walk_loop d verify_tbs prov start evidence_time visited count current_der s =
     io_then (enter_certificate d (reference_time start) visited current_der, s) (\<lambda>(view, visited) s.
     if is_approved_anchor current_der (approved_anchor_ders start)
     then (Ok (), if include_anchor start
                  then ((fst s)\<lparr>material := push_certificate (material (fst s)) current_der\<rparr>, snd s) else s)
     else
       io_then (count_subordinate view count, s) (\<lambda>count s.
       io_then (with_world (next_issuer d verify_tbs prov view (reference_time start) count (approved_anchor_ders start)
                              (candidates (fst s))) s) (\<lambda>(issuer_der, iss) s.
       io_then (with_world (provider_status prov (start_nonce_policy start) view iss evidence_time) s) (\<lambda>evidence s.
       walk_loop d verify_tbs prov start evidence_time visited count issuer_der
         (link_collected start (fst s) evidence issuer_der, snd s)))))"
  by pat_completeness auto
termination
  by (relation "measure (\<lambda>(_, _, _, _, _, visited, _). MAX_DEPTH - length visited)") (auto dest: enter_certificate_deeper)

declare walk_loop.simps [simp del]

definition walk :: "'l cert_lib_scheme \<Rightarrow> verifier \<Rightarrow> 'w evidence_provider \<Rightarrow> chain_start \<Rightarrow> date_time
    \<Rightarrow> 'w walk_state \<Rightarrow> (material_error, unit) res \<times> 'w walk_state" where
  "walk d verify_tbs prov start evidence_time s =
     (if approved_anchor_ders start = [] then (Err NoTrustAnchor, s)
      else walk_loop d verify_tbs prov start evidence_time [] 0 (leaf_der start)
             (if include_leaf start
              then ((fst s)\<lparr>material := push_certificate (material (fst s)) (leaf_der start)\<rparr>, snd s) else s))"

fun walk_all :: "'l cert_lib_scheme \<Rightarrow> verifier \<Rightarrow> 'w evidence_provider \<Rightarrow> date_time \<Rightarrow> chain_start list
    \<Rightarrow> 'w walk_state \<Rightarrow> (material_error, unit) res \<times> 'w walk_state" where
  "walk_all d verify_tbs prov evidence_time [] s = (Ok (), s)"
| "walk_all d verify_tbs prov evidence_time (start # starts) s =
     io_then (walk d verify_tbs prov start evidence_time s) (\<lambda>_ s. walk_all d verify_tbs prov evidence_time starts s)"

definition collect_chains_seeded_with :: "'l cert_lib_scheme \<Rightarrow> verifier \<Rightarrow> 'w evidence_provider \<Rightarrow> chain_start list
    \<Rightarrow> bytes list \<Rightarrow> date_time \<Rightarrow> 'w \<Rightarrow> (material_error, validation_material) res \<times> 'w" where
  "collect_chains_seeded_with d verify_tbs prov starts candidate_ders evidence_time w =
     (if starts = [] then (Err NoChain, w)
      else
        let c = foldl push_candidate Collection_default (map leaf_der starts);
            c = foldl push_candidate c candidate_ders;
            (r, c, w) = walk_all d verify_tbs prov evidence_time starts (c, w) in
        (and_then r (\<lambda>_. Ok (material c)), w))"

definition collect_chains_with :: "'l cert_lib_scheme \<Rightarrow> verifier \<Rightarrow> 'w evidence_provider \<Rightarrow> chain_start list
    \<Rightarrow> date_time \<Rightarrow> 'w \<Rightarrow> (material_error, validation_material) res \<times> 'w" where
  "collect_chains_with d verify_tbs prov starts evidence_time w =
     collect_chains_seeded_with d verify_tbs prov starts [] evidence_time w"

subsection \<open>Times\<close>

definition check_crl_times :: "date_time \<Rightarrow> date_time option \<Rightarrow> date_time \<Rightarrow> (detail, unit) res" where
  "check_crl_times this_update next_update ref =
     (if ref + MAX_CLOCK_SKEW < this_update then Err (Text ''CRL thisUpdate is in the future'')
      else (case next_update of
        None \<Rightarrow> Err (Text ''CRL has no nextUpdate'')
      | Some next_update \<Rightarrow>
          if next_update \<le> this_update then Err (Text ''CRL nextUpdate is not after thisUpdate'')
          else if next_update + MAX_CLOCK_SKEW < ref then Err (Text ''CRL is past nextUpdate'')
          else Ok ()))"

definition check_ocsp_times :: "date_time \<Rightarrow> date_time \<Rightarrow> date_time option \<Rightarrow> date_time \<Rightarrow> (material_error, unit) res" where
  "check_ocsp_times produced this_update next_update now =
     (if now + MAX_CLOCK_SKEW < produced then Err (RevocationFailure (ProducedAhead produced))
      else if now + MAX_CLOCK_SKEW < this_update
      then Err (RevocationFailure (Text ''response thisUpdate is further ahead than clock skew explains''))
      else if produced + MAX_CLOCK_SKEW < this_update
      then Err (RevocationFailure (Text ''response thisUpdate is later than producedAt''))
      else (case next_update of
        Some next_update \<Rightarrow>
          if next_update \<le> this_update then Err (RevocationFailure (Text ''response nextUpdate is not after thisUpdate''))
          else if next_update + MAX_CLOCK_SKEW < now then Err (RevocationFailure (Text ''response is past its nextUpdate''))
          else Ok ()
      | None \<Rightarrow>
          if this_update + MAX_OCSP_AGE_WITHOUT_NEXT_UPDATE + MAX_CLOCK_SKEW < now
          then Err (RevocationFailure (Text ''response without nextUpdate is too old''))
          else Ok ()))"

subsection \<open>Status over the network\<close>

record 'w network =
  http_get :: "uri \<Rightarrow> nat \<Rightarrow> 'w \<Rightarrow> (string, bytes) res \<times> 'w"
  http_post :: "uri \<Rightarrow> string \<Rightarrow> bytes \<Rightarrow> nat \<Rightarrow> 'w \<Rightarrow> (string, bytes) res \<times> 'w"
  random_nonce :: "'w \<Rightarrow> (string, bytes) res \<times> 'w"

fun embedded_responder :: "'l cert_lib_scheme \<Rightarrow> (bytes \<Rightarrow> bytes) \<Rightarrow> verifier \<Rightarrow> basic_ocsp_response \<Rightarrow> certificate \<Rightarrow> bytes list
    \<Rightarrow> (material_error, verified_ocsp_response option) res" where
  "embedded_responder d sha1 verify_tbs b iss [] = Ok None"
| "embedded_responder d sha1 verify_tbs b iss (embedded # rest) =
     and_then (attempt (owned_view d embedded)) (\<lambda>responder.
     and_then (case responder of
                 None \<Rightarrow> Ok None
               | Some responder \<Rightarrow> attempt (VerifiedOcspResponse_verify sha1 verify_tbs b responder iss)) (\<lambda>verified.
     case verified of
       Some v \<Rightarrow> Ok (Some v)
     | None \<Rightarrow> embedded_responder d sha1 verify_tbs b iss rest))"

text \<open>Signed by the issuer, or by the first embedded responder that the issuer authorised.\<close>

definition verify_response :: "'l cert_lib_scheme \<Rightarrow> (bytes \<Rightarrow> bytes) \<Rightarrow> verifier \<Rightarrow> basic_ocsp_response \<Rightarrow> certificate
    \<Rightarrow> (material_error, verified_ocsp_response) res" where
  "verify_response d sha1 verify_tbs b iss =
     and_then (attempt (VerifiedOcspResponse_verify sha1 verify_tbs b iss iss)) (\<lambda>direct.
     and_then (case direct of
                 Some v \<Rightarrow> Ok (Some v)
               | None \<Rightarrow> embedded_responder d sha1 verify_tbs b iss (embedded_cert_ders b)) (\<lambda>verified.
     ok_or verified (RevocationFailure (Text ''signature verifies against neither the issuer nor an embedded responder''))))"

definition check_nonce :: "nonce_policy \<Rightarrow> bytes option \<Rightarrow> bytes \<Rightarrow> (material_error, unit) res" where
  "check_nonce policy echoed nonce =
     (case echoed of
        Some e \<Rightarrow> if e = nonce then Ok () else Err (RevocationFailure (Text ''nonce came back changed''))
      | None \<Rightarrow>
          if policy = RequireEcho
          then Err (RevocationFailure (Text ''responder echoed no nonce, so the answer cannot be tied to this request''))
          else Ok ())"

definition check_response :: "'l cert_lib_scheme \<Rightarrow> (bytes \<Rightarrow> bytes) \<Rightarrow> verifier \<Rightarrow> nonce_policy \<Rightarrow> bytes \<Rightarrow> certificate
    \<Rightarrow> certificate \<Rightarrow> bytes \<Rightarrow> bytes \<Rightarrow> bytes \<Rightarrow> date_time \<Rightarrow> (material_error, unit) res" where
  "check_response d sha1 verify_tbs policy der subj iss name_hash key_hash nonce now =
     and_then (map_err (\<lambda>e. RevocationFailure (ParseError ''parse'' e))
                (and_then (OwnedOcspResponse_from_der d der) (OwnedOcspResponse_view d))) (\<lambda>response.
     if response_status response \<noteq> Successful
     then Err (RevocationFailure (ResponderReturned (response_status response)))
     else
       and_then (ok_or (basic response) (RevocationFailure (Text ''no basic response''))) (\<lambda>b.
       and_then (verify_response d sha1 verify_tbs b iss) (\<lambda>verified.
       and_then (check_nonce policy (basic_nonce b) nonce) (\<lambda>_.
       and_then (ok_or (find (\<lambda>entry. matches_request (sr_cert_id entry) name_hash key_hash (serial_der subj))
                          (responses (v_basic verified)))
                  (RevocationFailure (Text ''response carries no SingleResponse for this request's CertID''))) (\<lambda>answer.
       and_then (check_ocsp_times (produced_at b) (sr_this_update answer) (sr_next_update answer) now) (\<lambda>_.
       case sr_status answer of
         Good \<Rightarrow> Ok ()
       | Revoked revoked_at reason \<Rightarrow> Err (CertificateRevoked (RevokedAt revoked_at))
       | Unknown \<Rightarrow> Err (RevocationFailure (Text ''responder does not know this certificate''))))))))"

fun ocsp_loop :: "'l cert_lib_scheme \<Rightarrow> (bytes \<Rightarrow> bytes) \<Rightarrow> verifier \<Rightarrow> 'w network \<Rightarrow> nonce_policy \<Rightarrow> certificate \<Rightarrow> certificate
    \<Rightarrow> bytes \<Rightarrow> bytes \<Rightarrow> date_time \<Rightarrow> detail list \<Rightarrow> uri list \<Rightarrow> 'w
    \<Rightarrow> (material_error, bytes option \<times> string option \<times> detail list) res \<times> 'w" where
  "ocsp_loop d sha1 verify_tbs net policy subj iss name_hash key_hash now failures [] w = (Ok (None, None, failures), w)"
| "ocsp_loop d sha1 verify_tbs net policy subj iss name_hash key_hash now failures (url # urls) w =
     (case random_nonce net w of
        (Err why, w) \<Rightarrow> (Ok (None, Some why, failures), w)
      | (Ok nonce, w) \<Rightarrow>
          (case build_request_with_nonce name_hash key_hash (serial_der subj) nonce of
             Ok request \<Rightarrow>
               (case http_post net url ''application/ocsp-request'' request MAX_FETCH_BYTES w of
                  (Err why, w) \<Rightarrow>
                    ocsp_loop d sha1 verify_tbs net policy subj iss name_hash key_hash now (failures @ [At url (Text why)]) urls w
                | (Ok response, w) \<Rightarrow>
                    (case check_response d sha1 verify_tbs policy response subj iss name_hash key_hash nonce now of
                       Ok _ \<Rightarrow> (Ok (Some response, None, failures), w)
                     | Err (CertificateRevoked why) \<Rightarrow> (Err (CertificateRevoked why), w)
                     | Err why \<Rightarrow>
                         ocsp_loop d sha1 verify_tbs net policy subj iss name_hash key_hash now (failures @ [At url (Shown why)]) urls w
                     | Panic \<Rightarrow> (Panic, w))
                | (Panic, w) \<Rightarrow> (Panic, w))
           | _ \<Rightarrow> (Panic, w))
      | (Panic, w) \<Rightarrow> (Panic, w))"

definition collect_ocsp_status :: "'l cert_lib_scheme \<Rightarrow> (bytes \<Rightarrow> bytes) \<Rightarrow> verifier \<Rightarrow> 'w network \<Rightarrow> nonce_policy \<Rightarrow> certificate
    \<Rightarrow> certificate \<Rightarrow> date_time \<Rightarrow> bytes \<Rightarrow> 'w \<Rightarrow> (material_error, bytes option \<times> string option \<times> detail list) res \<times> 'w" where
  "collect_ocsp_status d sha1 verify_tbs net policy subj iss now exts w =
     ocsp_loop d sha1 verify_tbs net policy subj iss (sha1 (issuer subj)) (sha1 (subject_public_key_bits iss)) now []
       (bounded_certificate_addresses (extract_ocsp_urls d exts)) w"

definition check_list :: "'l cert_lib_scheme \<Rightarrow> verifier \<Rightarrow> certificate \<Rightarrow> certificate \<Rightarrow> date_time \<Rightarrow> bytes \<Rightarrow> (material_error, unit) res" where
  "check_list d verify_tbs subj iss now der =
     and_then (map_err (\<lambda>e. RevocationFailure (ParseError ''parse'' e)) (and_then (OwnedCrl_from_der d der) (OwnedCrl_view d))) (\<lambda>view.
     and_then (map_err RevocationFailure (check_crl_times (crl_this_update view) (crl_next_update view) now)) (\<lambda>_.
     and_then (map_err (\<lambda>e. RevocationFailure (VerifyCrlError e)) (VerifiedCrl_verify d verify_tbs view iss)) (\<lambda>verified.
     case check_against_crl d subj verified now of
       RevGood \<Rightarrow> Ok ()
     | RevRevoked at reason \<Rightarrow> Err (CertificateRevoked (RevokedByList at reason))
     | other \<Rightarrow> Err (RevocationFailure (UnusableList other)))))"

fun list_failure :: "material_error \<Rightarrow> detail" where
  "list_failure (RevocationFailure why) = why"
| "list_failure e = Shown e"

fun crl_loop :: "'l cert_lib_scheme \<Rightarrow> verifier \<Rightarrow> 'w network \<Rightarrow> bool \<Rightarrow> certificate \<Rightarrow> certificate \<Rightarrow> date_time
    \<Rightarrow> detail list \<Rightarrow> uri list \<Rightarrow> 'w \<Rightarrow> (material_error, bytes option \<times> detail list) res \<times> 'w" where
  "crl_loop d verify_tbs net may_sign subj iss now failures [] w = (Ok (None, failures), w)"
| "crl_loop d verify_tbs net may_sign subj iss now failures (url # urls) w =
     (if \<not> may_sign then (Ok (None, failures @ [At url (Text ''issuer Key Usage does not permit CRL signing'')]), w)
      else
        (case http_get net url MAX_CRL_BYTES w of
           (Err why, w) \<Rightarrow> crl_loop d verify_tbs net may_sign subj iss now (failures @ [At url (Text why)]) urls w
         | (Ok der, w) \<Rightarrow>
             (case check_list d verify_tbs subj iss now der of
                Ok _ \<Rightarrow> (Ok (Some der, failures), w)
              | Err (CertificateRevoked why) \<Rightarrow> (Err (CertificateRevoked (At url why)), w)
              | Err why \<Rightarrow> crl_loop d verify_tbs net may_sign subj iss now (failures @ [At url (list_failure why)]) urls w
              | Panic \<Rightarrow> (Panic, w))
         | (Panic, w) \<Rightarrow> (Panic, w)))"

definition collect_crl_status :: "'l cert_lib_scheme \<Rightarrow> verifier \<Rightarrow> 'w network \<Rightarrow> certificate \<Rightarrow> certificate \<Rightarrow> date_time \<Rightarrow> bytes
    \<Rightarrow> detail list \<Rightarrow> 'w \<Rightarrow> (material_error, bytes option \<times> detail list) res \<times> 'w" where
  "collect_crl_status d verify_tbs net subj iss now exts failures w =
     (let may_sign = (case Option.bind (extensions iss) (extract_key_usage d) of None \<Rightarrow> False | Some usage \<Rightarrow> crl_sign usage) in
      crl_loop d verify_tbs net may_sign subj iss now failures (bounded_certificate_addresses (extract_crl_distribution_urls d exts)) w)"

definition collect_status :: "'l cert_lib_scheme \<Rightarrow> (bytes \<Rightarrow> bytes) \<Rightarrow> verifier \<Rightarrow> 'w network \<Rightarrow> nonce_policy \<Rightarrow> certificate
    \<Rightarrow> certificate \<Rightarrow> date_time \<Rightarrow> 'w \<Rightarrow> (material_error, status_evidence) res \<times> 'w" where
  "collect_status d sha1 verify_tbs net policy subj iss now w =
     io_then (ok_or (extensions subj) (RevocationFailure (Text ''certificate has no revocation extensions'')), w) (\<lambda>exts w.
     io_then (collect_ocsp_status d sha1 verify_tbs net policy subj iss now exts w) (\<lambda>(response, random_failure, failures) w.
     case response of
       Some der \<Rightarrow> (Ok (OcspEvidence der), w)
     | None \<Rightarrow>
         io_then (collect_crl_status d verify_tbs net subj iss now exts failures w) (\<lambda>(lst, failures) w.
         case lst of
           Some der \<Rightarrow> (Ok (CrlEvidence der), w)
         | None \<Rightarrow>
             (case random_failure of
                Some why \<Rightarrow> (Err (RngFailure (Text why)), w)
              | None \<Rightarrow>
                  if failures = []
                  then (Err (RevocationFailure (Text ''certificate advertises neither OCSP nor a CRL distribution point'')), w)
                  else (Err (RevocationFailure (Joined failures)), w)))))"

definition http_fetch_issuer :: "'w network \<Rightarrow> uri \<Rightarrow> 'w \<Rightarrow> (detail, bytes) res \<times> 'w" where
  "http_fetch_issuer net url w =
     (case http_get net url MAX_FETCH_BYTES w of (r, w) \<Rightarrow>
        (and_then (map_err Text r) (\<lambda>fetched.
         ok_or (decode_cert_pem_or_der fetched) (Text ''response is neither one DER nor one PEM certificate'')), w))"

definition HttpEvidenceProvider :: "'l cert_lib_scheme \<Rightarrow> (bytes \<Rightarrow> bytes) \<Rightarrow> verifier \<Rightarrow> 'w network \<Rightarrow> 'w evidence_provider" where
  "HttpEvidenceProvider d sha1 verify_tbs net =
     \<lparr>fetch_issuer = http_fetch_issuer net, provider_status = collect_status d sha1 verify_tbs net\<rparr>"

subsection \<open>Entry points\<close>

text \<open>The clock reading and the network are arguments.\<close>

definition collect_chains where
  "collect_chains d sha1 verify_tbs net starts now w =
     collect_chains_with d verify_tbs (HttpEvidenceProvider d sha1 verify_tbs net) starts now w"

definition collect_chains_with_candidates where
  "collect_chains_with_candidates d sha1 verify_tbs net starts candidate_ders now w =
     collect_chains_seeded_with d verify_tbs (HttpEvidenceProvider d sha1 verify_tbs net) starts candidate_ders now w"

definition verify_chain_to_approved_anchor where
  "verify_chain_to_approved_anchor d sha1 verify_tbs net leaf ref anchors candidate_ders w =
     (let c = foldl push_candidate (push_candidate Collection_default leaf) candidate_ders;
          (r, c, w) = verify_chain_with d verify_tbs (HttpEvidenceProvider d sha1 verify_tbs net) leaf ref anchors (c, w) in
      (r, w))"


subsection \<open>What a certified path is\<close>

lemma owned_view_eq: "owned_view d der = Certificate_from_der d der"
  by (cases "Certificate_from_der d der") (auto simp: owned_view_def OwnedCert_from_der_def OwnedCert_view_def)

definition valid_at :: "certificate \<Rightarrow> date_time \<Rightarrow> bool" where
  "valid_at c t \<longleftrightarrow> not_before c \<le> t \<and> t \<le> not_after c"

definition extension_bytes :: "certificate \<Rightarrow> bytes" where
  "extension_bytes c = (case extensions c of None \<Rightarrow> [] | Some exts \<Rightarrow> exts)"

text \<open>The profile of a certificate below the anchor: no constraint that the builder cannot apply.\<close>

definition path_profile :: "certificate \<Rightarrow> path_extension_profile \<Rightarrow> bool" where
  "path_profile c p \<longleftrightarrow> path_extension_profile (extension_bytes c) = Ok p \<and> \<not> name_constraints_present p
     \<and> \<not> (ca (profile_basic_constraints p) \<and> extended_key_usage_present p)"

definition within_limit :: "nat \<Rightarrow> u32 option \<Rightarrow> bool" where
  "within_limit n permitted = (case permitted of None \<Rightarrow> True | Some limit \<Rightarrow> n \<le> unat limit)"

text \<open>An intermediate CA that may issue with \<open>n\<close> CAs below it.\<close>

definition may_issue :: "nat \<Rightarrow> certificate \<Rightarrow> bool" where
  "may_issue n c \<longleftrightarrow> (\<exists>p usage. path_profile c p \<and> present (profile_basic_constraints p) \<and> ca (profile_basic_constraints p)
     \<and> bc_critical (profile_basic_constraints p)
     \<and> within_limit n (path_len (profile_basic_constraints p))
     \<and> profile_key_usage p = Some usage \<and> key_cert_sign (kum_key_usage usage))"

definition issued_by :: "verifier \<Rightarrow> date_time \<Rightarrow> bytes list \<Rightarrow> nat \<Rightarrow> certificate \<Rightarrow> bytes \<Rightarrow> certificate \<Rightarrow> bool" where
  "issued_by verify_tbs ref anchors n subj iss_der iss \<longleftrightarrow>
     issuer subj = subject iss \<and> verify_signed_by verify_tbs subj iss = Ok () \<and> valid_at iss ref
     \<and> (iss_der \<in> set anchors \<or> may_issue n iss)"

text \<open>The CAs that are not self-issued are counted towards the path length of the issuers above.\<close>

definition subordinates :: "nat \<Rightarrow> certificate \<Rightarrow> path_extension_profile \<Rightarrow> nat" where
  "subordinates n c p = (if ca (profile_basic_constraints p) \<and> issuer c \<noteq> subject c then Suc n else n)"

inductive certified :: "'l cert_lib_scheme \<Rightarrow> verifier \<Rightarrow> date_time \<Rightarrow> bytes list \<Rightarrow> nat \<Rightarrow> bytes list \<Rightarrow> bool"
  for d verify_tbs ref anchors where
  Anchor: "certified d verify_tbs ref anchors n [der]"
    if "Certificate_from_der d der = Ok c" "valid_at c ref" "der \<in> set anchors"
| Link: "certified d verify_tbs ref anchors n (der # iss_der # rest)"
    if "Certificate_from_der d der = Ok c" "valid_at c ref" "der \<notin> set anchors" "path_profile c p"
      "Certificate_from_der d iss_der = Ok iss" "issued_by verify_tbs ref anchors (subordinates n c p) c iss_der iss"
      "certified d verify_tbs ref anchors (subordinates n c p) (iss_der # rest)"

inductive_cases certified_ConsE: "certified d verify_tbs ref anchors n (der # rest)"

lemma certified_not_Nil: "certified d verify_tbs ref anchors n path \<Longrightarrow> path \<noteq> []"
  by (induction rule: certified.induct) auto

lemma certified_last: "certified d verify_tbs ref anchors n path \<Longrightarrow> last path \<in> set anchors"
  by (induction rule: certified.induct) auto

subsection \<open>The checks decide it\<close>

lemma validate_certificate_time_Ok [res_simps]: "validate_certificate_time c ref = Ok x \<longleftrightarrow> valid_at c ref"
  by (auto simp: validate_certificate_time_def valid_at_def)

lemma validate_path_extensions_Ok [res_simps]: "validate_path_extensions c = Ok p \<longleftrightarrow> path_profile c p"
  by (auto simp: validate_path_extensions_def enforce_non_anchor_extension_policy_def path_profile_def extension_bytes_def res_simps
      split: if_splits)

lemma enforce_path_length_Ok [res_simps]:
  "enforce_path_length permitted n = Ok x \<longleftrightarrow> within_limit (unat n) permitted"
  by (auto simp: enforce_path_length_def within_limit_def word_le_nat_alt word_less_nat_alt split: option.splits)

lemma if_Err_Ok_iff: "(if b then Err e else r) = Ok x \<longleftrightarrow> \<not> b \<and> r = Ok x"
  by simp

lemma case_option_Ex: "(case x of None \<Rightarrow> False | Some u \<Rightarrow> P u) \<longleftrightarrow> (\<exists>u. x = Some u \<and> P u)"
  by (cases x) auto

lemma validate_issuing_certificate_Ok [res_simps]:
  "validate_issuing_certificate c ref n = Ok x \<longleftrightarrow> valid_at c ref \<and> may_issue (unat n) c"
  unfolding validate_issuing_certificate_def may_issue_def Let_def case_option_Ex
  by (simp add: res_simps if_Err_Ok_iff)

lemma validate_direct_issuer_for_path_Ok [res_simps]:
  "validate_direct_issuer_for_path verify_tbs subj iss ref n (is_approved_anchor iss_der anchors) = Ok x \<longleftrightarrow>
     issued_by verify_tbs ref anchors (unat n) subj iss_der iss"
  by (auto simp: validate_direct_issuer_for_path_def issued_by_def is_approved_anchor_def res_simps)

lemma enter_certificate_Ok:
  "enter_certificate d ref visited der = Ok (c, visited') \<longleftrightarrow>
     Certificate_from_der d der = Ok c \<and> valid_at c ref \<and> der \<notin> set visited \<and> length visited < MAX_DEPTH
     \<and> visited' = visited @ [der]"
  by (auto simp: enter_certificate_def WalkGuard_enter_def owned_view_eq res_simps)

lemma count_subordinate_Ok:
  assumes "count_subordinate c n = Ok n'" and "unat n < 8"
  shows "\<exists>p. path_profile c p \<and> unat n' = subordinates (unat n) c p"
proof -
  have "n \<noteq> - 1" using assms(2) by (auto simp: unsigned_minus_1_eq_mask mask_eq_exp_minus_1)
  moreover have "unat (n + 1) = Suc (unat n)" using assms(2) by (simp add: unat_word_ariths)
  ultimately show ?thesis using assms(1)
    by (auto simp: count_subordinate_def validate_non_anchor_extensions_def saturating_inc_def subordinates_def res_simps split: if_splits)
qed

lemma find_local_Some:
  "find_local d verify_tbs subj ref n anchors ders = Ok (Some der) \<Longrightarrow> \<exists>iss. Certificate_from_der d der = Ok iss
     \<and> issued_by verify_tbs ref anchors (unat n) subj der iss"
  by (induction ders) (auto simp: usable_issuer_def owned_view_eq res_simps split: if_splits option.splits)

lemma next_issuer_Ok:
  "next_issuer d verify_tbs prov subj ref n anchors cands w = (Ok (der, iss), w') \<Longrightarrow>
     Certificate_from_der d der = Ok iss \<and> issued_by verify_tbs ref anchors (unat n) subj der iss"
  by (auto simp: next_issuer_def owned_view_eq res_simps)

lemma with_world_Ok: "with_world call s = (Ok a, s') \<longleftrightarrow> call (snd s) = (Ok a, snd s') \<and> fst s' = fst s"
  by (cases s') (auto simp: with_world_def split: prod.splits)


subsection \<open>Verified paths\<close>

text \<open>The rest of a path from a certificate on: what the loop has still to do after visiting \<open>visited\<close>.\<close>

definition path_from :: "'l cert_lib_scheme \<Rightarrow> verifier \<Rightarrow> date_time \<Rightarrow> bytes list \<Rightarrow> bytes list \<Rightarrow> nat \<Rightarrow> bytes \<Rightarrow> bytes list \<Rightarrow> bool" where
  "path_from d verify_tbs ref anchors visited n der path \<longleftrightarrow>
     certified d verify_tbs ref anchors n path \<and> hd path = der \<and> distinct path \<and> set path \<inter> set visited = {}
     \<and> length visited + length path \<le> MAX_DEPTH"

lemma path_from_anchor:
  assumes "enter_certificate d ref visited der = Ok (c, visited')" and "is_approved_anchor der anchors"
  shows "path_from d verify_tbs ref anchors visited n der [der]"
  using assms by (auto simp: path_from_def enter_certificate_Ok is_approved_anchor_def intro: certified.Anchor)

lemma count_within:
  assumes "enter_certificate d ref visited der = Ok (c, visited')" and "count_subordinate c n = Ok n'" and "unat n \<le> length visited"
  shows "unat n' \<le> length visited'" and "\<exists>p. path_profile c p \<and> unat n' = subordinates (unat n) c p"
proof -
  from assms(1) have e: "length visited < MAX_DEPTH" "visited' = visited @ [der]" by (simp_all add: enter_certificate_Ok)
  then show "\<exists>p. path_profile c p \<and> unat n' = subordinates (unat n) c p" using count_subordinate_Ok [OF assms(2)] assms(3) by simp
  then show "unat n' \<le> length visited'" using e assms(3) by (auto simp: subordinates_def)
qed

lemma path_from_link:
  assumes enter: "enter_certificate d ref visited der = Ok (c, visited')" and "\<not> is_approved_anchor der anchors"
    and count: "count_subordinate c n = Ok n'" and n: "unat n \<le> length visited"
    and nxt: "next_issuer d verify_tbs prov c ref n' anchors cands w = (Ok (iss_der, iss), w')"
    and rest: "path_from d verify_tbs ref anchors visited' (unat n') iss_der path"
  shows "path_from d verify_tbs ref anchors visited (unat n) der (der # path) \<and> (\<exists>r. path = iss_der # r)"
proof -
  from enter have e: "Certificate_from_der d der = Ok c" "valid_at c ref" "der \<notin> set visited" "visited' = visited @ [der]"
    by (simp_all add: enter_certificate_Ok)
  from count_within [OF enter count n] obtain p where p: "path_profile c p" "unat n' = subordinates (unat n) c p" by blast
  note r = rest [unfolded path_from_def]
  from r certified_not_Nil [of d verify_tbs ref anchors "unat n'" path] obtain tl where path: "path = iss_der # tl" by (cases path) auto
  have "certified d verify_tbs ref anchors (unat n) (der # iss_der # tl)"
    using e(1,2) assms(2) p next_issuer_Ok [OF nxt] r path by (intro certified.Link) (auto simp: is_approved_anchor_def)
  with r path e show ?thesis by (auto simp: path_from_def)
qed

lemma verify_chain_loop_Ok:
  "verify_chain_loop d verify_tbs prov ref anchors visited path n der s = (Ok result, s') \<Longrightarrow> unat n \<le> length visited \<Longrightarrow>
     \<exists>rest. result = path @ rest \<and> path_from d verify_tbs ref anchors visited (unat n) der rest"
proof (induction d verify_tbs prov ref anchors visited path n der s rule: verify_chain_loop.induct)
  case (1 d verify_tbs prov ref anchors visited path n der s)
  from "1.prems"(1) obtain c visited' where enter: "enter_certificate d ref visited der = Ok (c, visited')"
    by (subst (asm) verify_chain_loop.simps) (auto simp: res_simps)
  show ?case
  proof (cases "is_approved_anchor der anchors")
    case True
    then have "result = path @ [der]"
      using "1.prems"(1) enter by (subst (asm) verify_chain_loop.simps) (auto simp: res_simps Let_def)
    then show ?thesis using path_from_anchor [OF enter True] by blast
  next
    case False
    with "1.prems"(1) enter obtain n' iss_der iss s1 where
        count: "count_subordinate c n = Ok n'"
      and nxt: "with_world (next_issuer d verify_tbs prov c ref n' anchors (candidates (fst s))) s = (Ok (iss_der, iss), s1)"
      and rec: "verify_chain_loop d verify_tbs prov ref anchors visited' (path @ [der]) n' iss_der
         (push_candidate (fst s1) iss_der, snd s1) = (Ok result, s')"
      by (subst (asm) verify_chain_loop.simps) (auto simp: res_simps Let_def)
    have "\<exists>rest. result = (path @ [der]) @ rest \<and> path_from d verify_tbs ref anchors visited' (unat n') iss_der rest"
      using enter count
      by (intro "1.IH" [OF _ refl refl False _ nxt refl rec count_within(1) [OF enter count "1.prems"(2)]]) simp_all
    with path_from_link [OF enter False count "1.prems"(2)] nxt [unfolded with_world_Ok] show ?thesis by fastforce
  qed
qed

subsection \<open>Collected material\<close>

definition material_le :: "validation_material \<Rightarrow> validation_material \<Rightarrow> bool" where
  "material_le m m' \<longleftrightarrow> set (certificates m) \<subseteq> set (certificates m') \<and> set (ocsp_responses m) \<subseteq> set (ocsp_responses m')
     \<and> set (crls m) \<subseteq> set (crls m')"

definition no_duplicates :: "validation_material \<Rightarrow> bool" where
  "no_duplicates m \<longleftrightarrow> distinct (certificates m) \<and> distinct (ocsp_responses m) \<and> distinct (crls m)"

definition holds_status :: "validation_material \<Rightarrow> status_evidence \<Rightarrow> bool" where
  "holds_status m e = (case e of OcspEvidence der \<Rightarrow> der \<in> set (ocsp_responses m) | CrlEvidence der \<Rightarrow> der \<in> set (crls m))"

text \<open>What the material holds for one link: a status that the provider returned for it, and the issuer's certificate
  unless that is an anchor which the caller did not ask for.\<close>

definition link_held :: "'l cert_lib_scheme \<Rightarrow> 'w evidence_provider \<Rightarrow> chain_start \<Rightarrow> date_time \<Rightarrow> validation_material
    \<Rightarrow> bytes \<times> bytes \<Rightarrow> bool" where
  "link_held d prov start t m l \<longleftrightarrow>
     (\<exists>subj iss e w w'. Certificate_from_der d (fst l) = Ok subj \<and> Certificate_from_der d (snd l) = Ok iss
        \<and> provider_status prov (start_nonce_policy start) subj iss t w = (Ok e, w') \<and> holds_status m e)
     \<and> (snd l \<in> set (certificates m) \<or> snd l \<in> set (approved_anchor_ders start) \<and> \<not> include_anchor start)"

lemma set_push_new [simp]: "set (push_new held der) = insert der (set held)"
  by (auto simp: push_new_def)

lemma distinct_push_new [simp]: "distinct (push_new held der) \<longleftrightarrow> distinct held"
  by (auto simp: push_new_def)

lemma material_le_refl [simp]: "material_le m m"
  by (simp add: material_le_def)

lemma material_le_trans: "material_le a b \<Longrightarrow> material_le b c \<Longrightarrow> material_le a c"
  by (auto simp: material_le_def)

lemma material_push [simp]:
  "material_le m (push_status m e)" "material_le m (push_certificate m der)"
  "no_duplicates (push_status m e) = no_duplicates m" "no_duplicates (push_certificate m der) = no_duplicates m"
  "holds_status (push_status m e) e" "der \<in> set (certificates (push_certificate m der))"
  "certificates (push_status m e) = certificates m" "holds_status (push_certificate m der) e = holds_status m e"
  by (auto simp: push_status_def push_certificate_def material_le_def no_duplicates_def holds_status_def split: status_evidence.splits)

lemma material_push_candidate [simp]: "material (push_candidate c der) = material c"
  by (simp add: push_candidate_def)

lemma holds_status_mono: "material_le m m' \<Longrightarrow> holds_status m e \<Longrightarrow> holds_status m' e"
  by (auto simp: material_le_def holds_status_def split: status_evidence.splits)

lemma link_held_mono: "material_le m m' \<Longrightarrow> link_held d prov start t m l \<Longrightarrow> link_held d prov start t m' l"
  unfolding link_held_def using holds_status_mono [of m m'] by (auto simp: material_le_def) blast+

lemma link_collected_material:
  "material_le (material c) (material (link_collected start c e der))"
  "no_duplicates (material (link_collected start c e der)) = no_duplicates (material c)"
  "holds_status (material (link_collected start c e der)) e"
  "der \<in> set (certificates (material (link_collected start c e der))) \<or> der \<in> set (approved_anchor_ders start) \<and> \<not> include_anchor start"
  by (auto simp: link_collected_def Let_def is_approved_anchor_def intro: material_le_trans [OF material_push(1) material_push(2)])

definition walked :: "'l cert_lib_scheme \<Rightarrow> verifier \<Rightarrow> 'w evidence_provider \<Rightarrow> chain_start \<Rightarrow> date_time \<Rightarrow> bytes list \<Rightarrow> nat \<Rightarrow> bytes
    \<Rightarrow> validation_material \<Rightarrow> validation_material \<Rightarrow> bool" where
  "walked d verify_tbs prov start t visited n der m m' \<longleftrightarrow>
     material_le m m' \<and> (no_duplicates m' \<longleftrightarrow> no_duplicates m)
     \<and> (\<exists>path. path_from d verify_tbs (reference_time start) (approved_anchor_ders start) visited n der path
          \<and> list_all (link_held d prov start t m') (zip path (tl path)))"

lemma walk_loop_Ok:
  "walk_loop d verify_tbs prov start t visited n der s = (Ok u, s') \<Longrightarrow> unat n \<le> length visited \<Longrightarrow>
     walked d verify_tbs prov start t visited (unat n) der (material (fst s)) (material (fst s'))"
proof (induction d verify_tbs prov start t visited n der s rule: walk_loop.induct)
  case (1 d verify_tbs prov start t visited n der s)
  from "1.prems"(1) obtain c visited' where enter: "enter_certificate d (reference_time start) visited der = Ok (c, visited')"
    by (subst (asm) walk_loop.simps) (auto simp: res_simps)
  show ?case
  proof (cases "is_approved_anchor der (approved_anchor_ders start)")
    case True
    have "s' = (if include_anchor start then ((fst s)\<lparr>material := push_certificate (material (fst s)) der\<rparr>, snd s) else s)"
      using "1.prems"(1) enter True by (subst (asm) walk_loop.simps) (auto simp: res_simps)
    then show ?thesis using path_from_anchor [OF enter True] unfolding walked_def by (auto intro!: exI [of _ "[der]"])
  next
    case False
    with "1.prems"(1) enter obtain n' iss_der iss s1 e s2 where
        count: "count_subordinate c n = Ok n'"
      and nxt: "with_world (next_issuer d verify_tbs prov c (reference_time start) n' (approved_anchor_ders start)
          (candidates (fst s))) s = (Ok (iss_der, iss), s1)"
      and st: "with_world (provider_status prov (start_nonce_policy start) c iss t) s1 = (Ok e, s2)"
      and rec: "walk_loop d verify_tbs prov start t visited' n' iss_der (link_collected start (fst s2) e iss_der, snd s2) = (Ok u, s')"
      by (subst (asm) walk_loop.simps) (auto simp: res_simps Let_def link_collected_def)
    let ?m = "material (link_collected start (fst s) e iss_der)"
    have s2: "fst s2 = fst s" using nxt st by (simp add: with_world_Ok)
    have "walked d verify_tbs prov start t visited' (unat n') iss_der ?m (material (fst s'))"
      using enter count s2 "1.IH" [OF _ refl False _ nxt refl st rec count_within(1) [OF enter count "1.prems"(2)]] by simp
    then obtain path where w: "material_le ?m (material (fst s'))" "no_duplicates (material (fst s')) \<longleftrightarrow> no_duplicates ?m"
        "path_from d verify_tbs (reference_time start) (approved_anchor_ders start) visited' (unat n') iss_der path"
        "list_all (link_held d prov start t (material (fst s'))) (zip path (tl path))"
      by (auto simp: walked_def)
    have p: "path_from d verify_tbs (reference_time start) (approved_anchor_ders start) visited (unat n) der (der # path)"
        "\<exists>r. path = iss_der # r"
      using path_from_link [OF enter False count "1.prems"(2) nxt [unfolded with_world_Ok, THEN conjunct1] w(3)] by simp_all
    have "link_held d prov start t ?m (der, iss_der)"
      using enter st next_issuer_Ok nxt link_collected_material(3,4) [where c = "fst s"]
      by (fastforce simp: link_held_def with_world_Ok enter_certificate_Ok)
    moreover have "material_le (material (fst s)) (material (fst s'))"
      by (rule material_le_trans [OF link_collected_material(1) w(1)])
    ultimately show ?thesis
      unfolding walked_def using w p link_held_mono [OF w(1)] link_collected_material(2)
      by (intro conjI exI [of _ "der # path"]) auto
  qed
qed


text \<open>What the material holds for one start.\<close>

definition chain_held :: "'l cert_lib_scheme \<Rightarrow> verifier \<Rightarrow> 'w evidence_provider \<Rightarrow> date_time \<Rightarrow> validation_material \<Rightarrow> chain_start \<Rightarrow> bool" where
  "chain_held d verify_tbs prov t m start \<longleftrightarrow>
     (\<exists>path. path_from d verify_tbs (reference_time start) (approved_anchor_ders start) [] 0 (leaf_der start) path
        \<and> list_all (link_held d prov start t m) (zip path (tl path)))
     \<and> (if include_leaf start then leaf_der start \<in> set (certificates m) else True)"

lemma chain_held_mono: "material_le m m' \<Longrightarrow> chain_held d verify_tbs prov t m start \<Longrightarrow> chain_held d verify_tbs prov t m' start"
  unfolding chain_held_def using link_held_mono [of m m' d prov start t]
  by (auto simp: list_all_iff material_le_def split: if_splits)

lemma walk_Ok:
  assumes "walk d verify_tbs prov start t s = (Ok u, s')"
  shows "material_le (material (fst s)) (material (fst s'))" and "no_duplicates (material (fst s')) \<longleftrightarrow> no_duplicates (material (fst s))"
    and "chain_held d verify_tbs prov t (material (fst s')) start"
proof -
  define s0 where "s0 = (if include_leaf start
      then ((fst s)\<lparr>material := push_certificate (material (fst s)) (leaf_der start)\<rparr>, snd s) else s)"
  have "walk_loop d verify_tbs prov start t [] 0 (leaf_der start) s0 = (Ok u, s')"
    using assms by (auto simp: walk_def s0_def split: if_splits)
  from walk_loop_Ok [OF this] have w: "walked d verify_tbs prov start t [] 0 (leaf_der start) (material (fst s0)) (material (fst s'))"
    by simp
  have s0: "material_le (material (fst s)) (material (fst s0))" "no_duplicates (material (fst s0)) \<longleftrightarrow> no_duplicates (material (fst s))"
      "include_leaf start \<Longrightarrow> leaf_der start \<in> set (certificates (material (fst s0)))"
    by (simp_all add: s0_def)
  show "material_le (material (fst s)) (material (fst s'))" using w s0(1) material_le_trans unfolding walked_def by blast
  show "no_duplicates (material (fst s')) \<longleftrightarrow> no_duplicates (material (fst s))" using w s0 unfolding walked_def by blast
  show "chain_held d verify_tbs prov t (material (fst s')) start"
    using w s0(3) unfolding walked_def chain_held_def by (auto simp: material_le_def)
qed

lemma walk_all_Ok:
  "walk_all d verify_tbs prov t starts s = (Ok u, s') \<Longrightarrow>
     material_le (material (fst s)) (material (fst s')) \<and> (no_duplicates (material (fst s')) \<longleftrightarrow> no_duplicates (material (fst s)))
     \<and> list_all (chain_held d verify_tbs prov t (material (fst s'))) starts"
proof (induction starts arbitrary: s)
  case (Cons start starts)
  then obtain v s1 where w: "walk d verify_tbs prov start t s = (Ok v, s1)" "walk_all d verify_tbs prov t starts s1 = (Ok u, s')"
    by (auto simp: res_simps)
  note one = walk_Ok [OF w(1)] and rest = Cons.IH [OF w(2)]
  have "chain_held d verify_tbs prov t (material (fst s')) start" using chain_held_mono one(3) rest by blast
  then show ?case using one rest material_le_trans by fastforce
qed simp

lemma material_foldl_candidates [simp]: "material (foldl push_candidate c ders) = material c"
  by (induction ders arbitrary: c) simp_all

lemma collect_chains_seeded_with_Ok:
  assumes "collect_chains_seeded_with d verify_tbs prov starts cands t w = (Ok m, w')"
  shows "starts \<noteq> [] \<and> no_duplicates m \<and> list_all (chain_held d verify_tbs prov t m) starts"
proof -
  let ?c = "foldl push_candidate (foldl push_candidate Collection_default (map leaf_der starts)) cands"
  from assms obtain u c' where ne: "starts \<noteq> []" and run: "walk_all d verify_tbs prov t starts (?c, w) = (Ok u, c', w')" and m: "m = material c'"
    by (auto simp: collect_chains_seeded_with_def res_simps split: prod.splits if_splits)
  have "no_duplicates (material ?c)" by (simp add: Collection_default_def no_duplicates_def)
  with walk_all_Ok [OF run] ne m show ?thesis by simp
qed

subsection \<open>Authentic status\<close>

text \<open>An OCSP response that speaks for one certificate: successful, signed by the issuer or an embedded responder the
  issuer authorised, tied to the nonce as the policy demands, with a good answer for exactly this certificate, whose
  times fit the clock.\<close>

definition good_response :: "'l cert_lib_scheme \<Rightarrow> (bytes \<Rightarrow> bytes) \<Rightarrow> verifier \<Rightarrow> nonce_policy \<Rightarrow> certificate \<Rightarrow> certificate
    \<Rightarrow> date_time \<Rightarrow> bytes \<Rightarrow> bytes \<Rightarrow> bool" where
  "good_response d sha1 verify_tbs policy subj iss now nonce der \<longleftrightarrow>
     (\<exists>b signer v answer. OcspResponse_parse d der = Ok \<lparr>response_status = Successful, basic = Some b\<rparr>
        \<and> (signer = iss \<or> (\<exists>e \<in> set (embedded_cert_ders b). Certificate_from_der d e = Ok signer))
        \<and> VerifiedOcspResponse_verify sha1 verify_tbs b signer iss = Ok v
        \<and> (basic_nonce b = Some nonce \<or> basic_nonce b = None \<and> policy = AllowMissingEcho)
        \<and> answer \<in> set (responses b)
        \<and> sr_cert_id answer = \<lparr>hash_algorithm_oid = OID_SHA1, issuer_name_hash = sha1 (issuer subj),
                                issuer_key_hash = sha1 (subject_public_key_bits iss), cid_serial = serial_der subj\<rparr>
        \<and> sr_status answer = Good
        \<and> produced_at b \<le> now + MAX_CLOCK_SKEW \<and> sr_this_update answer \<le> now + MAX_CLOCK_SKEW
        \<and> sr_this_update answer \<le> produced_at b + MAX_CLOCK_SKEW
        \<and> (case sr_next_update answer of
             Some nxt \<Rightarrow> sr_this_update answer < nxt \<and> now \<le> nxt + MAX_CLOCK_SKEW
           | None \<Rightarrow> now \<le> sr_this_update answer + MAX_OCSP_AGE_WITHOUT_NEXT_UPDATE + MAX_CLOCK_SKEW))"

text \<open>A revocation list that does: verified for the issuer, current, and without the certificate's serial number.\<close>

definition good_list :: "'l cert_lib_scheme \<Rightarrow> verifier \<Rightarrow> certificate \<Rightarrow> certificate \<Rightarrow> date_time \<Rightarrow> bytes \<Rightarrow> bool" where
  "good_list d verify_tbs subj iss now der \<longleftrightarrow>
     (\<exists>c nxt. Crl_parse d der = Ok c \<and> VerifiedCrl_verify d verify_tbs c iss = Ok c \<and> crl_issuer c = issuer subj
        \<and> crl_find_serial d c (serial_der subj) = None \<and> crl_next_update c = Some nxt
        \<and> crl_this_update c \<le> now + MAX_CLOCK_SKEW \<and> crl_this_update c < nxt \<and> now \<le> nxt)"

fun authentic :: "'l cert_lib_scheme \<Rightarrow> (bytes \<Rightarrow> bytes) \<Rightarrow> verifier \<Rightarrow> nonce_policy \<Rightarrow> certificate \<Rightarrow> certificate \<Rightarrow> date_time
    \<Rightarrow> status_evidence \<Rightarrow> bool" where
  "authentic d sha1 verify_tbs policy subj iss now (OcspEvidence der) \<longleftrightarrow>
     (\<exists>nonce. good_response d sha1 verify_tbs policy subj iss now nonce der)"
| "authentic d sha1 verify_tbs policy subj iss now (CrlEvidence der) \<longleftrightarrow> good_list d verify_tbs subj iss now der"

lemma check_ocsp_times_Ok:
  "check_ocsp_times produced this nxt now = Ok x \<longleftrightarrow>
     produced \<le> now + MAX_CLOCK_SKEW \<and> this \<le> now + MAX_CLOCK_SKEW \<and> this \<le> produced + MAX_CLOCK_SKEW
     \<and> (case nxt of Some nu \<Rightarrow> this < nu \<and> now \<le> nu + MAX_CLOCK_SKEW
        | None \<Rightarrow> now \<le> this + MAX_OCSP_AGE_WITHOUT_NEXT_UPDATE + MAX_CLOCK_SKEW)"
  by (cases nxt) (auto simp: check_ocsp_times_def not_less)

lemma check_nonce_Ok: "check_nonce policy echoed nonce = Ok x \<longleftrightarrow> echoed = Some nonce \<or> echoed = None \<and> policy = AllowMissingEcho"
  by (cases policy) (auto simp: check_nonce_def split: option.splits)

lemma embedded_responder_Some:
  "embedded_responder d sha1 verify_tbs b iss ders = Ok (Some v) \<Longrightarrow>
     \<exists>signer. (\<exists>e \<in> set ders. Certificate_from_der d e = Ok signer) \<and> VerifiedOcspResponse_verify sha1 verify_tbs b signer iss = Ok v"
  by (induction ders) (auto simp: owned_view_eq res_simps split: option.splits)

lemma verify_response_Ok:
  "verify_response d sha1 verify_tbs b iss = Ok v \<Longrightarrow>
     \<exists>signer. (signer = iss \<or> (\<exists>e \<in> set (embedded_cert_ders b). Certificate_from_der d e = Ok signer))
        \<and> VerifiedOcspResponse_verify sha1 verify_tbs b signer iss = Ok v"
  by (auto simp: verify_response_def res_simps split: option.splits dest!: embedded_responder_Some)


lemma owned_ocsp_view: "and_then (OwnedOcspResponse_from_der d der) (OwnedOcspResponse_view d) = OcspResponse_parse d der"
  by (cases "OcspResponse_parse d der") (auto simp: OwnedOcspResponse_from_der_def OwnedOcspResponse_view_def)

lemma owned_crl_view: "and_then (OwnedCrl_from_der d der) (OwnedCrl_view d) = Crl_parse d der"
  by (cases "Crl_parse d der") (auto simp: OwnedCrl_from_der_def OwnedCrl_view_def)

lemma status_case_Ok [res_simps]:
  "(case st of Good \<Rightarrow> Ok () | Revoked at reason \<Rightarrow> Err (f at reason) | Unknown \<Rightarrow> Err e) = Ok x \<longleftrightarrow> st = Good"
  "(case v of RevGood \<Rightarrow> Ok () | Inapplicable i \<Rightarrow> Err (g i) | RevRevoked at reason \<Rightarrow> Err (f at reason) | Stale \<Rightarrow> Err e1
     | RevUnknown \<Rightarrow> Err e2) = Ok x \<longleftrightarrow> v = RevGood"
  by (cases st; simp) (cases v; simp)

lemma check_response_Ok:
  assumes "check_response d sha1 verify_tbs policy der subj iss (sha1 (issuer subj)) (sha1 (subject_public_key_bits iss)) nonce now = Ok x"
  shows "good_response d sha1 verify_tbs policy subj iss now nonce der"
proof -
  from assms obtain r b v answer where r: "OcspResponse_parse d der = Ok r" "response_status r = Successful" "basic r = Some b"
    and v: "verify_response d sha1 verify_tbs b iss = Ok v" and nonce: "check_nonce policy (basic_nonce b) nonce = Ok ()"
    and answer: "find (\<lambda>entry. matches_request (sr_cert_id entry) (sha1 (issuer subj)) (sha1 (subject_public_key_bits iss)) (serial_der subj))
        (responses (v_basic v)) = Some answer"
    and times: "check_ocsp_times (produced_at b) (sr_this_update answer) (sr_next_update answer) now = Ok ()"
    and good: "sr_status answer = Good"
    unfolding check_response_def owned_ocsp_view by (auto simp: res_simps split: if_splits)
  from verify_response_Ok [OF v] obtain signer where
      signer: "signer = iss \<or> (\<exists>e \<in> set (embedded_cert_ders b). Certificate_from_der d e = Ok signer)"
    and ver: "VerifiedOcspResponse_verify sha1 verify_tbs b signer iss = Ok v" by blast
  have "v_basic v = b" using ver by (simp add: VerifiedOcspResponse_verify_Ok)
  with answer have a: "answer \<in> set (responses b)"
      "matches_request (sr_cert_id answer) (sha1 (issuer subj)) (sha1 (subject_public_key_bits iss)) (serial_der subj)"
    by (auto simp: find_Some_iff)
  then have "sr_cert_id answer = \<lparr>hash_algorithm_oid = OID_SHA1, issuer_name_hash = sha1 (issuer subj),
      issuer_key_hash = sha1 (subject_public_key_bits iss), cid_serial = serial_der subj\<rparr>"
    by (cases "sr_cert_id answer") (simp add: matches_request_def)
  moreover have "OcspResponse_parse d der = Ok \<lparr>response_status = Successful, basic = Some b\<rparr>" using r by (cases r) simp
  ultimately show ?thesis
    unfolding good_response_def using signer ver nonce a(1) times good by (auto simp: check_nonce_Ok check_ocsp_times_Ok)
qed

lemma check_crl_times_Ok:
  "check_crl_times this nxt now = Ok x \<longleftrightarrow>
     (\<exists>nu. nxt = Some nu \<and> this \<le> now + MAX_CLOCK_SKEW \<and> this < nu \<and> now \<le> nu + MAX_CLOCK_SKEW)"
  by (auto simp: check_crl_times_def not_less not_le split: option.splits)

lemma check_against_crl_good:
  "check_against_crl d subj c now = RevGood \<longleftrightarrow>
     crl_issuer c = issuer subj \<and> \<not> expired (crl_next_update c) now \<and> crl_find_serial d c (serial_der subj) = None"
  by (auto simp: check_against_crl_def split: option.splits)

lemma check_list_Ok: "check_list d verify_tbs subj iss now der = Ok x \<longleftrightarrow> good_list d verify_tbs subj iss now der"
proof -
  have "check_list d verify_tbs subj iss now der = Ok x \<longleftrightarrow>
      (\<exists>c. Crl_parse d der = Ok c \<and> check_crl_times (crl_this_update c) (crl_next_update c) now = Ok ()
         \<and> VerifiedCrl_verify d verify_tbs c iss = Ok c \<and> check_against_crl d subj c now = RevGood)"
    unfolding check_list_def owned_crl_view
    by (auto simp: res_simps VerifiedCrl_verify_Ok)
  then show ?thesis
    by (auto simp: good_list_def check_crl_times_Ok check_against_crl_good expired_def not_less)
qed

lemma ocsp_loop_Some:
  "ocsp_loop d sha1 verify_tbs net policy subj iss (sha1 (issuer subj)) (sha1 (subject_public_key_bits iss)) now failures urls w =
     (Ok (Some der, r, fs), w') \<Longrightarrow> \<exists>nonce. good_response d sha1 verify_tbs policy subj iss now nonce der"
  by (induction urls arbitrary: failures w)
     (auto split: prod.splits res.splits material_error.splits dest: check_response_Ok)

lemma crl_loop_Some:
  "crl_loop d verify_tbs net may_sign subj iss now failures urls w = (Ok (Some der, fs), w') \<Longrightarrow> good_list d verify_tbs subj iss now der"
  by (induction urls arbitrary: failures w)
     (auto simp: check_list_Ok split: prod.splits res.splits material_error.splits if_splits)

lemma collect_status_Ok:
  assumes "collect_status d sha1 verify_tbs net policy subj iss now w = (Ok e, w')"
  shows "authentic d sha1 verify_tbs policy subj iss now e"
proof -
  from assms obtain exts response random_failure failures w1 where
      ocsp: "collect_ocsp_status d sha1 verify_tbs net policy subj iss now exts w = (Ok (response, random_failure, failures), w1)"
    and rest: "(case response of
       Some der \<Rightarrow> (Ok (OcspEvidence der), w1)
     | None \<Rightarrow>
         io_then (collect_crl_status d verify_tbs net subj iss now exts failures w1) (\<lambda>(lst, failures) w.
         case lst of
           Some der \<Rightarrow> (Ok (CrlEvidence der), w)
         | None \<Rightarrow>
             (case random_failure of
                Some why \<Rightarrow> (Err (RngFailure (Text why)), w)
              | None \<Rightarrow>
                  if failures = []
                  then (Err (RevocationFailure (Text ''certificate advertises neither OCSP nor a CRL distribution point'')), w)
                  else (Err (RevocationFailure (Joined failures)), w)))) = (Ok e, w')"
    unfolding collect_status_def io_then_Ok by auto
  show ?thesis
  proof (cases response)
    case (Some der)
    then show ?thesis using ocsp rest ocsp_loop_Some unfolding collect_ocsp_status_def by fastforce
  next
    case None
    with rest obtain lst fs w2 where lst: "collect_crl_status d verify_tbs net subj iss now exts failures w1 = (Ok (lst, fs), w2)"
      and e: "\<exists>der. lst = Some der \<and> e = CrlEvidence der"
      by (auto simp: res_simps split: option.splits if_splits)
    then show ?thesis using crl_loop_Some unfolding collect_crl_status_def Let_def by fastforce
  qed
qed

end
