(* ===== verification/Approved_Paths.thy ===== *)
theory Approved_Paths
  imports Validation_Material
begin

text \<open>
  What the path builder and the collector of \<open>Validation_Material\<close> guarantee: a returned path is certified, collected
  material is authentic, a search makes few requests, and a leaf issued by an anchor is accepted. The properties are
  evaluated on a path of two small certificates.
\<close>

subsection \<open>A small path\<close>

text \<open>A leaf with the address of a list, issued by an anchor that may sign lists, and a network that serves the list.\<close>

definition toy_lib :: cert_lib where
  "toy_lib = crl_lib.extend
     (sample_lib\<lparr>any_from_der := (\<lambda>der. case der of
        t # n # val \<Rightarrow>
          if n < 0x80 \<and> unat n = length val
          then Some (if t = 0xA3 then ContextSpecific True 3 else if t = 0xA0 then ContextSpecific True 0 else der_tag_of t, val) else None
      | _ \<Rightarrow> None)\<rparr>)
     \<lparr>validity_from_der = (\<lambda>der. if length der = 4 then Some (unat (der ! 2), unat (der ! 3)) else None),
      spki_from_der = (\<lambda>der. Some \<lparr>info_algorithm_oid = [], info_parameters = None, info_raw_bytes = drop 2 der, info_unused_bits = 0\<rparr>),
      oid_from_any = (\<lambda>_. None)\<rparr>"

definition toy_anchor_tbs :: bytes where
  "toy_anchor_tbs = [0x30, 0x21, 0x02, 0x01, 0x01, 0x30, 0x00, 0x30, 0x00, 0x30, 0x02, 0x01, 0x64, 0x30, 0x00, 0x30, 0x01, 0x01,
     0xA3, 0x0F, 0x30, 0x0D, 0x30, 0x0B, 0x06, 0x03, 0x55, 0x1D, 0x0F, 0x04, 0x04, 0x03, 0x02, 0x01, 0x02]"

definition toy_url :: bytes where "toy_url = str_bytes ''http://a.fi/''"

definition toy_points :: bytes where
  "toy_points = [0x30, 0x14, 0x30, 0x12, 0xA0, 0x10, 0xA0, 0x0E, 0x86, 0x0C] @ toy_url"

definition toy_leaf_extensions :: bytes where
  "toy_leaf_extensions = [0x30, 0x1D, 0x06, 0x03, 0x55, 0x1D, 0x1F, 0x04, 0x16] @ toy_points"

definition toy_leaf_tbs :: bytes where
  "toy_leaf_tbs = [0x30, 0x34, 0x02, 0x01, 0x08, 0x30, 0x00, 0x30, 0x00, 0x30, 0x02, 0x01, 0x64, 0x30, 0x01, 0x4C, 0x30, 0x01, 0x08,
     0xA3, 0x21, 0x30, 0x1F] @ toy_leaf_extensions"

definition toy_signature :: bytes where
  "toy_signature = [0x30, 0x03, 0x06, 0x01, 0x2A, 0x03, 0x02, 0x00, 0xAA]"

definition toy_anchor_der :: bytes where "toy_anchor_der = [0x30, 0x2C] @ toy_anchor_tbs @ toy_signature"
definition toy_leaf_der :: bytes where "toy_leaf_der = [0x30, 0x3F] @ toy_leaf_tbs @ toy_signature"

definition toy_anchor :: certificate where
  "toy_anchor = \<lparr>raw_der = toy_anchor_der, tbs_der = toy_anchor_tbs, serial_der = [1], issuer = [0x30, 0x00], subject = [0x30, 0x00],
     not_before = 1, not_after = 100, spki = [0x30, 0x01, 0x01], subject_public_key_bits = [0x01],
     extensions = Some [0x30, 0x0B, 0x06, 0x03, 0x55, 0x1D, 0x0F, 0x04, 0x04, 0x03, 0x02, 0x01, 0x02],
     signature_alg_oid = [0x2A], signature_bits = [0xAA]\<rparr>"

definition toy_leaf :: certificate where
  "toy_leaf = \<lparr>raw_der = toy_leaf_der, tbs_der = toy_leaf_tbs, serial_der = [8], issuer = [0x30, 0x00], subject = [0x30, 0x01, 0x4C],
     not_before = 1, not_after = 100, spki = [0x30, 0x01, 0x08], subject_public_key_bits = [0x08],
     extensions = Some toy_leaf_extensions, signature_alg_oid = [0x2A], signature_bits = [0xAA]\<rparr>"

definition toy_uri :: uri where
  "toy_uri = \<lparr>uri_scheme = Http, uri_host = str_bytes ''a.fi'', uri_port = 80, uri_path = [0x2F], uri_query = []\<rparr>"

definition toy_network :: "unit network" where
  "toy_network = \<lparr>http_get = (\<lambda>_ _ w. (Ok sample_crl_der, w)), http_post = (\<lambda>_ _ _ _ w. (Err [], w)), random_nonce = (\<lambda>w. (Err [], w))\<rparr>"


lemma toy_anchor_parses: "Certificate_from_der toy_lib toy_anchor_der = Ok toy_anchor"
  by code_simp

lemma toy_leaf_parses: "Certificate_from_der toy_lib toy_leaf_der = Ok toy_leaf"
  by code_simp

lemma toy_list_parses: "Crl_parse toy_lib sample_crl_der = Ok sample_crl" "crl_find_serial toy_lib sample_crl [8] = None"
  by code_simp+

lemma toy_lookups:
  "find_extension_with_meta toy_lib [0x30, 0x0B, 0x06, 0x03, 0x55, 0x1D, 0x0F, 0x04, 0x04, 0x03, 0x02, 0x01, 0x02] [0x55, 0x1D, 0x0F] =
     Some \<lparr>meta_value = [0x03, 0x02, 0x01, 0x02], meta_critical = False\<rparr>"
  "extract_ocsp_urls toy_lib toy_leaf_extensions = []"
  "find_extension toy_lib toy_leaf_extensions CRL_DISTRIBUTION_POINTS = Some toy_points"
  "uri_of_bytes toy_url = Some toy_uri"
  by code_simp+

lemma ber_children_short:
  assumes "single_tag t" and "length val < 128" and "length (val @ rest) < 1000"
  shows "ber_children (t # word_of_nat (length val) # val @ rest) =
    Ok \<lparr>tlv_tag = ucast t, tlv_value = val, tlv_size = length val + 2\<rparr> # ber_children rest"
  using ber_children_tlv_bytes [of "(t, val)" rest] assms by (auto simp: tlv_ok_def tlv_bytes_def length_octets_def be_bytes_1)

lemma toy_tags: "single_tag 0x30" "single_tag 0x06" "single_tag 0x04" "single_tag 0xA0" "single_tag 0x86"
  by (simp_all add: single_tag_def)

lemma toy_lengths [simp]: "length toy_url = 12" "length toy_points = 22"
  by (simp_all add: toy_url_def toy_points_def str_bytes_def)

lemma toy_extension_children:
  "ber_children toy_leaf_extensions = [Ok \<lparr>tlv_tag = 0x30, tlv_value = [0x06, 0x03, 0x55, 0x1D, 0x1F, 0x04, 0x16] @ toy_points, tlv_size = 31\<rparr>]"
  "ber_children ([0x06, 0x03, 0x55, 0x1D, 0x1F, 0x04, 0x16] @ toy_points) =
     [Ok \<lparr>tlv_tag = 0x06, tlv_value = [0x55, 0x1D, 0x1F], tlv_size = 5\<rparr>, Ok \<lparr>tlv_tag = 0x04, tlv_value = toy_points, tlv_size = 24\<rparr>]"
  using ber_children_short [OF toy_tags(1), of "[0x06, 0x03, 0x55, 0x1D, 0x1F, 0x04, 0x16] @ toy_points" "[]"]
    ber_children_short [OF toy_tags(2), of "[0x55, 0x1D, 0x1F]" "0x04 # 0x16 # toy_points"]
    ber_children_short [OF toy_tags(3), of toy_points "[]"]
  by (simp_all add: toy_leaf_extensions_def ber_children_Nil)

lemma toy_point_children:
  "ber_children toy_points = [Ok \<lparr>tlv_tag = 0x30, tlv_value = [0x30, 0x12, 0xA0, 0x10, 0xA0, 0x0E, 0x86, 0x0C] @ toy_url, tlv_size = 22\<rparr>]"
  "ber_children ([0x30, 0x12, 0xA0, 0x10, 0xA0, 0x0E, 0x86, 0x0C] @ toy_url) =
     [Ok \<lparr>tlv_tag = 0x30, tlv_value = [0xA0, 0x10, 0xA0, 0x0E, 0x86, 0x0C] @ toy_url, tlv_size = 20\<rparr>]"
  "ber_children ([0xA0, 0x10, 0xA0, 0x0E, 0x86, 0x0C] @ toy_url) =
     [Ok \<lparr>tlv_tag = 0xA0, tlv_value = [0xA0, 0x0E, 0x86, 0x0C] @ toy_url, tlv_size = 18\<rparr>]"
  "ber_children ([0xA0, 0x0E, 0x86, 0x0C] @ toy_url) = [Ok \<lparr>tlv_tag = 0xA0, tlv_value = [0x86, 0x0C] @ toy_url, tlv_size = 16\<rparr>]"
  "ber_children ([0x86, 0x0C] @ toy_url) = [Ok \<lparr>tlv_tag = 0x86, tlv_value = toy_url, tlv_size = 14\<rparr>]"
  using ber_children_short [OF toy_tags(1), of "[0x30, 0x12, 0xA0, 0x10, 0xA0, 0x0E, 0x86, 0x0C] @ toy_url" "[]"]
    ber_children_short [OF toy_tags(1), of "[0xA0, 0x10, 0xA0, 0x0E, 0x86, 0x0C] @ toy_url" "[]"]
    ber_children_short [OF toy_tags(4), of "[0xA0, 0x0E, 0x86, 0x0C] @ toy_url" "[]"]
    ber_children_short [OF toy_tags(4), of "[0x86, 0x0C] @ toy_url" "[]"] ber_children_short [OF toy_tags(5), of toy_url "[]"]
  by (simp_all add: toy_points_def ber_children_Nil)

lemma toy_parse_points: "ber_parse toy_points = Ok \<lparr>tlv_tag = 0x30, tlv_value = [0x30, 0x12, 0xA0, 0x10, 0xA0, 0x0E, 0x86, 0x0C] @ toy_url, tlv_size = 22\<rparr>"
  using toy_point_children(1) by (subst (asm) ber_children.simps) (auto simp: ber_iter_next_def split: if_splits res.splits)

lemma toy_addresses: "extract_crl_distribution_urls toy_lib toy_leaf_extensions = [toy_uri]"
  by (simp add: extract_crl_distribution_urls_def toy_lookups ber_parse_typed_def toy_parse_points ber_expect_def ok_children_def
      map_filter_simps toy_point_children [simplified] distribution_point_urls_def full_name_urls_def)

lemma toy_leaf_profile: "path_profile toy_leaf empty_profile"
proof -
  have "[0x55, 0x1D, 0x1F] \<noteq> BASIC_CONSTRAINTS \<and> [0x55, 0x1D, 0x1F] \<noteq> KEY_USAGE \<and> [0x55, 0x1D, 0x1F] \<noteq> EXT_KEY_USAGE
      \<and> [0x55, 0x1D, 0x1F] \<noteq> NAME_CONSTRAINTS \<and> [0x55, 0x1D, 0x1F] \<noteq> OCSP_NO_CHECK" by code_simp
  moreover have "Oid_new [0x55, 0x1D, 0x1F] = Ok [0x55, 0x1D, 0x1F]" by code_simp
  ultimately have "path_extension_profile toy_leaf_extensions = Ok empty_profile"
    by (simp add: path_extension_profile_def toy_extension_children(1) toy_extension_children(2) [simplified] required_child_def ber_expect_def
        extension_value_def apply_extension_def)
  then show ?thesis by (simp add: path_profile_def extension_bytes_def toy_leaf_def empty_profile_def absent_constraints_def)
qed

abbreviation accept_all :: verifier where "accept_all \<equiv> \<lambda>_. Ok ()"

lemma toy_link: "issued_by accept_all 9 [toy_anchor_der] n toy_leaf toy_anchor_der toy_anchor"
  by (simp add: issued_by_def toy_leaf_def toy_anchor_def verify_signed_by_def valid_at_def)

lemma toy_list_is_good: "good_list toy_lib accept_all toy_leaf toy_anchor 9 sample_crl_der"
proof -
  have "\<exists>usage. extract_key_usage toy_lib [0x30, 0x0B, 0x06, 0x03, 0x55, 0x1D, 0x0F, 0x04, 0x04, 0x03, 0x02, 0x01, 0x02] = Some usage \<and> crl_sign usage"
    unfolding extract_key_usage_def KEY_USAGE_bytes toy_lookups(1)
    by (simp add: ber_parse_typed_def ber_parse_def ber_tag_def ber_length_def ber_next_def get_at_def slice_def ber_expect_def)
  then have "VerifiedCrl_verify toy_lib accept_all sample_crl toy_anchor = Ok sample_crl"
    by (simp add: VerifiedCrl_verify_Ok toy_anchor_def sample_crl_def crl_verify_signature_def)
  then show ?thesis unfolding good_list_def
    using toy_list_parses by (auto simp: toy_leaf_def sample_crl_def)
qed


lemma toy_ders_differ [simp]: "toy_anchor_der \<noteq> toy_leaf_der" "toy_leaf_der \<noteq> toy_anchor_der"
  by (simp_all add: toy_anchor_der_def toy_leaf_der_def)

lemma toy_link_check: "validate_direct_issuer_for_path accept_all toy_leaf toy_anchor 9 n True = Ok ()"
  using validate_direct_issuer_for_path_Ok [of accept_all toy_leaf toy_anchor 9 n toy_anchor_der "[toy_anchor_der]" "()"] toy_link
  by (simp add: is_approved_anchor_def)

lemma toy_next: "next_issuer toy_lib accept_all prov toy_leaf 9 n [toy_anchor_der] cands w = (Ok (toy_anchor_der, toy_anchor), w)"
proof -
  have raw: "raw_der toy_leaf = toy_leaf_der" by (simp add: toy_leaf_def)
  show ?thesis
    by (simp add: next_issuer_def find_issuer_def usable_issuer_def io_then_def owned_view_eq toy_anchor_parses toy_link_check raw
        is_approved_anchor_def)
qed

lemma toy_enter:
  "enter_certificate toy_lib 9 [] toy_leaf_der = Ok (toy_leaf, [toy_leaf_der])"
  "enter_certificate toy_lib 9 [toy_leaf_der] toy_anchor_der = Ok (toy_anchor, [toy_leaf_der, toy_anchor_der])"
  by (simp_all add: enter_certificate_Ok toy_leaf_parses toy_anchor_parses valid_at_def) (simp_all add: toy_leaf_def toy_anchor_def)

lemma toy_count: "count_subordinate toy_leaf 0 = Ok 0"
proof -
  have "validate_non_anchor_extensions toy_leaf = Ok empty_profile"
    using toy_leaf_profile by (simp add: validate_non_anchor_extensions_def validate_path_extensions_Ok [THEN iffD2])
  then show ?thesis by (simp add: count_subordinate_def empty_profile_def absent_constraints_def)
qed

lemma toy_status: "collect_status toy_lib sha1 accept_all toy_network RequireEcho toy_leaf toy_anchor 9 w = (Ok (CrlEvidence sample_crl_der), w)"
proof -
  have exts: "extensions toy_leaf = Some toy_leaf_extensions" by (simp add: toy_leaf_def)
  obtain c where "VerifiedCrl_verify toy_lib accept_all c toy_anchor = Ok c" using toy_list_is_good by (auto simp: good_list_def)
  then have may_sign: "(case Option.bind (extensions toy_anchor) (extract_key_usage toy_lib) of None \<Rightarrow> False | Some usage \<Rightarrow> crl_sign usage)"
    by (auto simp: VerifiedCrl_verify_Ok)
  have "check_list toy_lib accept_all toy_leaf toy_anchor 9 sample_crl_der = Ok ()"
    using toy_list_is_good check_list_Ok by blast
  with may_sign show ?thesis
    by (simp add: collect_status_def io_then_def exts collect_ocsp_status_def toy_lookups(2) bounded_certificate_addresses_def
        collect_crl_status_def toy_addresses toy_network_def)
qed

definition toy_start :: chain_start where
  "toy_start = \<lparr>leaf_der = toy_leaf_der, reference_time = 9, approved_anchor_ders = [toy_anchor_der], start_nonce_policy = RequireEcho,
     include_leaf = False, include_anchor = True\<rparr>"

lemma toy_verified:
  "verify_chain_to_approved_anchor toy_lib sha1 accept_all net toy_leaf_der 9 [toy_anchor_der] [] w = (Ok [toy_leaf_der, toy_anchor_der], w)"
  by (simp add: verify_chain_to_approved_anchor_def verify_chain_with_def verify_chain_loop.simps io_then_def toy_enter toy_count toy_next
      with_world_def is_approved_anchor_def Let_def)

lemma toy_collected:
  "collect_chains toy_lib sha1 accept_all toy_network [toy_start] 9 w =
     (Ok \<lparr>certificates = [toy_anchor_der], ocsp_responses = [], crls = [sample_crl_der]\<rparr>, w)"
  by (simp add: collect_chains_def collect_chains_with_def collect_chains_seeded_with_def walk_def walk_loop.simps io_then_def toy_enter toy_count
      toy_next with_world_def is_approved_anchor_def Let_def toy_start_def HttpEvidenceProvider_def toy_status link_collected_def
      Collection_default_def push_candidate_def push_certificate_def push_status_def push_new_def)


subsection \<open>Properties\<close>

lemma certified_butlast: "certified d verify_tbs ref anchors n path \<Longrightarrow> set (butlast path) \<inter> set anchors = {}"
  by (induction rule: certified.induct) auto

text \<open>C4. A verified path is a certified path to an approved anchor, whatever the network answers. If the verifier
  accepts a leaf, the path it returns starts at the leaf, ends at a byte-identical approved anchor and meets none
  before, has at most eight certificates and none twice. Every certificate on it parses and is valid at the reference
  time; every certificate below the anchor is signed by the next one, which bears the name of its issuer; every issuer
  that is not an anchor is a CA by a critical constraint, may sign certificates, and its path length covers the CAs
  below it that are not self-issued; and no certificate below the anchor carries constraints that the builder would
  have to ignore.\<close>

theorem approved_path_is_certified:
  assumes "verify_chain_to_approved_anchor d sha1 verify_tbs net leaf ref anchors cands w = (Ok path, w')"
  shows "certified d verify_tbs ref anchors 0 path \<and> hd path = leaf \<and> distinct path \<and> length path \<le> 8
    \<and> last path \<in> set anchors \<and> set (butlast path) \<inter> set anchors = {}"
proof -
  from assms obtain prov c s' where "verify_chain_loop d verify_tbs prov ref anchors [] [] 0 leaf (c, w) = (Ok path, s')"
    by (auto simp: verify_chain_to_approved_anchor_def verify_chain_with_def Let_def split: prod.splits if_splits)
  from verify_chain_loop_Ok [OF this] show ?thesis using certified_last certified_butlast by (fastforce simp: path_from_def)
qed

theorem approved_path_is_certified_witness:
  "certified toy_lib accept_all 9 [toy_anchor_der] 0 [toy_leaf_der, toy_anchor_der]"
  using approved_path_is_certified [OF toy_verified [of "\<lambda>_. []" toy_network "()"]] by simp

definition status_held :: "'l cert_lib_scheme \<Rightarrow> (bytes \<Rightarrow> bytes) \<Rightarrow> verifier \<Rightarrow> nonce_policy \<Rightarrow> date_time \<Rightarrow> validation_material
    \<Rightarrow> bytes \<times> bytes \<Rightarrow> bool" where
  "status_held d sha1 verify_tbs policy now m l \<longleftrightarrow>
     (\<exists>subj iss e. Certificate_from_der d (fst l) = Ok subj \<and> Certificate_from_der d (snd l) = Ok iss
        \<and> authentic d sha1 verify_tbs policy subj iss now e \<and> holds_status m e)"



text \<open>Counting the calls of the provider.\<close>

definition counting :: "'w evidence_provider \<Rightarrow> (nat \<times> 'w) evidence_provider" where
  "counting prov =
     \<lparr>fetch_issuer = (\<lambda>url (n, w). case fetch_issuer prov url w of (r, w) \<Rightarrow> (r, Suc n, w)),
      provider_status = (\<lambda>policy subj iss t (n, w). case provider_status prov policy subj iss t w of (r, w) \<Rightarrow> (r, n, w))\<rparr>"

fun first_occurrences :: "'a list \<Rightarrow> 'a list" where
  "first_occurrences [] = []"
| "first_occurrences (x # xs) = x # filter (\<lambda>y. y \<noteq> x) (first_occurrences xs)"

lemma select_addresses_exact:
  "length selected < 3 \<Longrightarrow> select_addresses selected as = take 3 (selected @ filter (\<lambda>a. a \<notin> set selected) (first_occurrences as))"
proof (induction selected as rule: select_addresses.induct)
  case (2 selected a as)
  have "filter (\<lambda>x. x \<notin> set selected) (filter (\<lambda>y. y \<noteq> a) xs) = filter (\<lambda>x. x \<notin> set (selected @ [a])) xs" for xs
    by (simp add: conj_commute)
  moreover have "filter (\<lambda>x. x \<notin> set selected) (filter (\<lambda>y. y \<noteq> a) xs) = filter (\<lambda>x. x \<notin> set selected) xs" if "a \<in> set selected" for xs
    using that by (induction xs) auto
  ultimately show ?case using 2 by (auto simp: Let_def)
qed simp

lemma fetch_loop_count:
  "fst (snd (fetch_loop d verify_tbs (counting prov) subj ref c anchors failures urls (n, w))) \<le> n + length urls"
proof (induction urls arbitrary: failures n w)
  case (Cons u urls)
  obtain r w1 where r: "fetch_issuer prov u w = (r, w1)" by fastforce
  note IH = Cons.IH [of _ "Suc n" w1]
  show ?case using r IH
    by (auto simp: counting_def split: res.splits)
qed simp


text \<open>C29. What counts as a current revocation list. The check of times alone allows five minutes of clock skew on both
  ends. A list is accepted exactly when it verifies for the issuer, does not contain the certificate, and is current;
  but here the time has to be at most \<open>nextUpdate\<close> itself: the allowance at that end has no effect, because the
  verdict from the list treats it as stale.\<close>

theorem list_freshness_exact:
  "(check_crl_times this nxt now = Ok () \<longleftrightarrow> (\<exists>nu. nxt = Some nu \<and> this \<le> now + 300 \<and> this < nu \<and> now \<le> nu + 300))
   \<and> (check_list d verify_tbs subj iss now der = Ok () \<longleftrightarrow>
       (\<exists>c nu. Crl_parse d der = Ok c \<and> VerifiedCrl_verify d verify_tbs c iss = Ok c \<and> crl_issuer c = issuer subj
          \<and> crl_find_serial d c (serial_der subj) = None \<and> crl_next_update c = Some nu
          \<and> crl_this_update c \<le> now + 300 \<and> crl_this_update c < nu \<and> now \<le> nu))"
  by (simp add: check_crl_times_Ok check_list_Ok good_list_def)


subsection \<open>A leaf issued by an anchor is accepted\<close>

lemma tbs_trailing_not_Panic: "tbs_trailing d e bs \<noteq> Panic"
proof (induction d e bs rule: tbs_trailing.induct)
  case (1 d e bs)
  then show ?case by (subst tbs_trailing.simps) (auto simp: res_simps split: prod.splits)
qed

lemma Certificate_from_der_not_Panic: "Certificate_from_der d der \<noteq> Panic"
proof -
  have "Oid_new v \<noteq> Panic" for v by (auto simp: Oid_new_def)
  moreover have "tbs_serial d bs \<noteq> Panic" for bs by (auto simp: tbs_serial_def res_simps split: prod.splits)
  moreover have "SpkiDer_try_from d k \<noteq> Panic" for k by (auto simp: SpkiDer_try_from_def res_simps)
  ultimately show ?thesis
    by (auto simp: Certificate_from_der_def cert_algorithm_def cert_signature_def parse_tbs_def tbs_trailing_not_Panic res_simps
        split: prod.splits list.splits)
qed


lemma Certificate_raw: "Certificate_from_der d der = Ok c \<Longrightarrow> raw_der c = der"
  by (auto simp: Certificate_from_der_def res_simps parse_tbs_Ok split: prod.splits if_splits)

lemma issued_by_checked:
  "issued_by verify_tbs ref anchors (unat n) subj der iss \<Longrightarrow>
     validate_direct_issuer_for_path verify_tbs subj iss ref n (is_approved_anchor der anchors) = Ok ()"
  by (simp add: validate_direct_issuer_for_path_Ok)

lemma usable_anchor_not_Panic:
  assumes "\<forall>t. verify_tbs t \<noteq> Panic" and "a \<in> set anchors"
  shows "usable_issuer d verify_tbs subj ref n anchors a \<noteq> Panic"
  using assms Certificate_from_der_not_Panic [of d a]
  by (auto simp: usable_issuer_def owned_view_eq validate_direct_issuer_for_path_def is_approved_anchor_def verify_signed_by_def
      validate_certificate_time_def res_simps split: if_splits)

lemma find_local_anchor:
  assumes "\<forall>t. verify_tbs t \<noteq> Panic" and "set xs \<subseteq> set anchors" and "a \<in> set xs" "a \<noteq> raw_der subj"
    and "Certificate_from_der d a = Ok i" "issued_by verify_tbs ref anchors (unat n) subj a i"
  shows "\<exists>b \<in> set xs. b \<noteq> raw_der subj \<and> find_local d verify_tbs subj ref n anchors (xs @ ys) = Ok (Some b)"
  using assms(2,3)
proof (induction xs)
  case (Cons x xs)
  show ?case
  proof (cases "x = raw_der subj")
    case True
    then show ?thesis using Cons assms(4) by auto
  next
    case False
    have np: "usable_issuer d verify_tbs subj ref n anchors x \<noteq> Panic" using Cons.prems by (intro usable_anchor_not_Panic [OF assms(1)]) simp
    show ?thesis
    proof (cases "usable_issuer d verify_tbs subj ref n anchors x")
      case (Ok u)
      then show ?thesis using False by auto
    next
      case (Err e)
      have "x \<noteq> a" using Err assms(5,6) issued_by_checked [OF assms(6)] by (auto simp: usable_issuer_def owned_view_eq)
      then show ?thesis using Cons False Err by auto
    qed (use np in simp)
  qed
qed simp

text \<open>C19. A leaf that an approved anchor issued is accepted without the network. If the leaf parses, is valid at the
  reference time, is no anchor and carries no constraint the builder cannot apply, and some approved anchor with the
  name of its issuer is valid and verifies its signature, then the verifier returns the leaf followed by an approved
  anchor, and makes no request.\<close>

theorem anchored_leaf_accepted:
  assumes "\<forall>t. verify_tbs t \<noteq> Panic" and leaf: "Certificate_from_der d leaf = Ok c" "valid_at c ref" "path_profile c p" "leaf \<notin> set anchors"
    and a: "a \<in> set anchors" "Certificate_from_der d a = Ok i" "issuer c = subject i" "verify_signed_by verify_tbs c i = Ok ()" "valid_at i ref"
  shows "\<exists>b \<in> set anchors. verify_chain_to_approved_anchor d sha1 verify_tbs net leaf ref anchors cands w = (Ok [leaf, b], w)"
proof -
  have raw: "raw_der c = leaf" using Certificate_raw [OF leaf(1)] .
  obtain n where n: "count_subordinate c 0 = Ok n"
    using leaf(3) by (auto simp: count_subordinate_def validate_non_anchor_extensions_def validate_path_extensions_Ok [THEN iffD2])
  let ?cs = "candidates (foldl push_candidate (push_candidate Collection_default leaf) cands)"
  have "issued_by verify_tbs ref anchors (unat n) c a i" using a by (simp add: issued_by_def)
  then obtain b where b: "b \<in> set anchors" "b \<noteq> leaf" and found: "find_local d verify_tbs c ref n anchors (anchors @ ?cs) = Ok (Some b)"
    using find_local_anchor [OF assms(1) subset_refl a(1) _ a(2), of c ref n ?cs] a(1) leaf(4) raw by auto
  from find_local_Some [OF found] obtain j where j: "Certificate_from_der d b = Ok j" "issued_by verify_tbs ref anchors (unat n) c b j" by blast
  then have nxt: "next_issuer d verify_tbs prov c ref n anchors ?cs w = (Ok (b, j), w)" for prov
    using issued_by_checked [OF j(2)] by (simp add: next_issuer_def find_issuer_def io_then_def found owned_view_eq)
  have enter: "enter_certificate d ref [] leaf = Ok (c, [leaf])" "enter_certificate d ref [leaf] b = Ok (j, [leaf, b])"
    using leaf j b by (simp_all add: enter_certificate_Ok issued_by_def)
  have "anchors \<noteq> []" using a(1) by auto
  then show ?thesis using b leaf(4)
    by (intro bexI [of _ b])
       (simp_all add: verify_chain_to_approved_anchor_def verify_chain_with_def verify_chain_loop.simps io_then_def enter n nxt
         with_world_def is_approved_anchor_def)
qed

theorem anchored_leaf_accepted_witness:
  "\<exists>b \<in> set [toy_anchor_der]. verify_chain_to_approved_anchor toy_lib (\<lambda>_. []) accept_all toy_network toy_leaf_der 9 [toy_anchor_der] [] () =
     (Ok [toy_leaf_der, b], ())"
proof (rule anchored_leaf_accepted [OF _ toy_leaf_parses _ toy_leaf_profile _ _ toy_anchor_parses])
  show "issuer toy_leaf = subject toy_anchor" "verify_signed_by accept_all toy_leaf toy_anchor = Ok ()" "valid_at toy_anchor 9"
    using toy_link [of 0] by (simp_all add: issued_by_def)
  show "valid_at toy_leaf 9" by (simp add: valid_at_def toy_leaf_def)
qed simp_all

end
