(* ===== verification/Spec2Isabelle.thy ===== *)
theory Spec2Isabelle
  imports Secure_Messaging Pin_Ops Rapp_Protocol Rapp_Vault Emrtd_Dg Atr Approved_Paths
begin

text \<open>
  \<^bold>\<open>Verification of the ReFineID core library\<close>

  ReFineID drives the Finnish identity card from Unix hosts. Its logic is the Rust crate
  \<open>src/crates/refineid-lib-core\<close> (paths below are relative to its \<open>src/\<close> directory unless they start with
  \<open>client:\<close>, which stands for \<open>src/crates/refineid-client/src/\<close>); the other crates are a command-line
  client, a graphical client, a PKCS \#11 module and adapters to PC/SC and TLS. This development models
  five parts of the library, and the path validation of the client.

  \<^item> \<^bold>\<open>The card side.\<close> The answer to reset, command and response APDUs and their builders, BER-TLV, and
    the secure-messaging layer that encrypts and authenticates every command after the PACE key agreement.
  \<^item> \<^bold>\<open>The PIN side.\<close> Validated PIN and CAN values, the process-wide PIN cache with its list of rejected
    values, the policy that keeps the card's last attempts from being spent, and the operations that
    verify, change, unblock and query PINs on the card.
  \<^item> \<^bold>\<open>The travel document.\<close> Reading the files of the ICAO application on the card, and the
    machine-readable zone and data groups they hold, with dates, country codes and names.
  \<^item> \<^bold>\<open>Certificates.\<close> Object identifiers, URLs, the certificate parser, the strict reader of the
    certificate extensions that decide about a path, revocation lists, OCSP, the cache of revocation
    evidence, and the walk from a certificate to an approved anchor that collects the material embedded in
    long-term signatures.
  \<^item> \<^bold>\<open>The remote side.\<close> RAPP, the protocol by which the host uses a card held by a paired phone: a
    deterministic CBOR codec, an envelope with sequence numbers, the typed messages, a Noise handshake
    and channel, length-prefixed frames, the two drivers for pairing and for a card operation, and the
    vault that stores the pairings.

  \<^bold>\<open>Conventions.\<close> A Rust function that can fail returns \<open>('e, 'a) res\<close> (\<open>Prelude\<close>): \<open>Ok\<close>, \<open>Err\<close>, or
  \<open>Panic\<close>, which under the workspace's release profile (overflow checks, abort on panic) ends the
  process. \<open>and_then\<close> is the question-mark operator. A method that mutates its receiver returns the
  outcome with the state it leaves behind, also when it fails; \<open>st_then\<close> (\<open>Rapp_Noise\<close>) sequences such
  methods. Bytes and fixed-width integers are words of that width; \<open>usize\<close> values are natural numbers
  with the 64-bit bound stated where it matters. \<open>BTreeMap\<close> is an ordered association list
  (\<open>Btree_Map\<close>) behind the interface \<open>ordered_map\<close>. The card is a function from a state and a command
  to an answer and a new state, and records what was sent (\<open>Card_Exchange\<close>), so the results on PIN
  operations and file reading hold for every card. The network is a record of functions over a state
  that stands for the rest of the world (\<open>Validation_Material\<close>), so the results on certificate paths
  hold for whatever the servers answer. Random bytes, the clock and third-party code are
  arguments: the cryptography (what is assumed of it, \<open>crypto_ok\<close> and the corresponding predicate of
  \<open>Secure_Messaging\<close>, are its documented laws, and a small concrete instance satisfies them), the
  decoders of the crates \<open>der\<close> and \<open>x509-cert\<close> (the record \<open>der_lib\<close> of \<open>Der_Reader\<close> and its extensions in
  \<open>Crl\<close> and \<open>X509_Cert\<close>, evaluated on a small reader), SHA-1 and the signature verifier. Where no law is stated the
  results hold for every choice, so for instance for every verifier of signatures.

  \<^bold>\<open>Theories and sources.\<close>

  \<^item> \<open>Prelude\<close>: outcomes, big-endian byte strings, and the interfaces \<open>res_codec\<close> and \<open>codec\<close> (a decoder
    that inverts an encoder) and \<open>op_system\<close> (an invariant kept by every operation). They are
    interpreted on the CBOR codec, the envelope, the offer URI, the pair record, the preamble, the two
    text encodings, the PIN cache and the revocation cache. \<open>Decimal\<close>: decimal and fixed-width numbers
    as the formatting macros print and the parsers read them.
  \<^item> \<open>Hex_Base64\<close> (\<open>hex.rs\<close>, \<open>base64.rs\<close>): round trips and exact acceptance.
  \<^item> \<open>Ber\<close> (\<open>ber.rs\<close>): the parser reads back what the writer writes, stays inside its input, and iterates
    exactly; it also accepts the indefinite-length marker, which its documentation excludes.
  \<^item> \<open>Atr\<close> (\<open>atr.rs\<close>): the parser of the answer to reset accepts exactly what its printer writes; the
    historical bytes with their compact TLV objects.
  \<^item> \<open>Apdu\<close> (\<open>apdu/primitives.rs\<close>, \<open>apdu/status_word.rs\<close>, \<open>apdu/iso7816.rs\<close>, \<open>transport.rs\<close>): builders
    emit well-formed short APDUs, with the exception of over-long paths; status words lose no bit; the
    wrong-length correction applies once.
  \<^item> \<open>Secure_Messaging\<close> (\<open>secure_messaging.rs\<close>, \<open>crypto/symmetric.rs\<close>, \<open>pace.rs\<close>): a wrapped command is
    recoverable by the card, an unwrapped response was authenticated over exactly its objects, a
    protected exchange returns what the card protected with both counters in step, and the size limit.
  \<^item> \<open>Pin\<close> (\<open>pin.rs\<close>, \<open>can.rs\<close>) and \<open>Pin_Cache\<close> (\<open>pin_cache.rs\<close>, \<open>pin_retry_risk.rs\<close>, types of \<open>auth.rs\<close>):
    exact validation; a rejected PIN is refused forever, a checkout never serves one after any history
    of operations, PIN2 is served only inside its fixed window, and the retry floor.
  \<^item> \<open>Card_Exchange\<close> (exchanges with a card that keeps a trace) and \<open>Pin_Ops\<close> (\<open>auth.rs\<close>,
    \<open>auth/commands.rs\<close>): exactly which commands each PIN operation sends, that a malformed PIN sends none,
    that status queries never cost an attempt, and how answers are classified.
  \<^item> \<open>Iso8601\<close> (\<open>iso8601.rs\<close>) and \<open>Country\<close> (\<open>country.rs\<close>): the date parsers accept exactly the printed
    forms, the limits of timestamps, the table of countries and its conversions.
  \<^item> \<open>Emrtd_File\<close>, \<open>Emrtd_Mrz\<close> and \<open>Emrtd_Dg\<close> (\<open>emrtd.rs\<close>, name types of \<open>identity.rs\<close>): reading a file ends and
    returns it up to a length where offsets lose a bit; the machine-readable zone is read back from its
    print; the data groups, and the module's own BER reader against the one of the library.
  \<^item> \<open>Oid\<close> (\<open>oid.rs\<close>, the printer of \<open>x509.rs\<close>) and \<open>Path_Extensions\<close> (\<open>x509.rs\<close>, purposes of \<open>cert_state.rs\<close>):
    when the two printers of identifiers write the dotted form; what the strict extension reader accepts
    and that each field of the profile is the decoded value of its extension.
  \<^item> \<open>Der_Reader\<close> (certificate view and extension lookup of \<open>x509.rs\<close>), \<open>Crl\<close> (\<open>crl.rs\<close>), \<open>Ocsp\<close> (\<open>ocsp.rs\<close>)
    and \<open>Revocation\<close> (\<open>revocation.rs\<close>): the list parser accepts exactly its grammar; the verdict of a
    verified list is the one of its entries; a good OCSP answer needs an authorised signer and an entry
    for exactly the certificate; request and answer use the same identity; the cache refines a map.
  \<^item> \<open>Uri\<close> (\<open>text.rs\<close>): the parser of URLs and its rendering invert each other up to the length limit, and a
    redirect without an authority keeps the authority. \<open>X509_Cert\<close> (parser, public keys and addresses of
    \<open>x509.rs\<close>): the certificate parser accepts exactly its grammar.
  \<^item> \<open>Pem\<close> (\<open>client:text.rs\<close>), \<open>Validation_Material\<close> and \<open>Approved_Paths\<close> (\<open>client:validation_material.rs\<close>,
    \<open>sign/validation.rs\<close>): an accepted path is certified link by link up to an approved anchor (the inductive
    predicate \<open>certified\<close>); collected material holds an authentic and fresh status for every link; the search
    for issuers is bounded; a leaf issued by an anchor is accepted; when a list counts as current.
  \<^item> \<open>Rapp_Wire\<close> and \<open>Wire_Limits\<close> (\<open>rapp/wire.rs\<close>): the decoder accepts exactly the canonical encodings,
    encodings are prefix-free, when the encoder succeeds and how long its output is, and when the
    decoder aborts.
  \<^item> \<open>Rapp_Envelope\<close> (\<open>rapp/envelope.rs\<close>) and \<open>Rapp_Messages\<close> (\<open>rapp/messages.rs\<close>): exact decoding of
    envelopes, the sequence guard, round trips of offers, records and preambles, what the offer hash
    binds.
  \<^item> \<open>Rapp_Noise\<close> and \<open>Rapp_Derive\<close> (\<open>rapp/crypto.rs\<close>): both handshakes between honest parties agree, by a
    simulation of writer and reader token by token; the channel delivers in order; what the grants
    and request hashes bind.
  \<^item> \<open>Rapp_Session\<close> (\<open>rapp/transport.rs\<close>, \<open>rapp/session.rs\<close> to line 503): frames and the two drivers as
    functions of the byte stream and the session state. \<open>Rapp_Protocol\<close> proves that the drivers follow
    their scripts whatever the peer and the transport do, that sessions in step deliver, and that an
    operation completes with a peer that answers.
  \<^item> \<open>Rapp_Vault\<close> (\<open>rapp/vault.rs\<close>): the directory refines a map from pair identifiers to records, failed
    saves are invisible, and listing is complete and newest first.

  \<^bold>\<open>Termination and bounds.\<close> Every loop is a terminating function; no fuel is used. The CBOR decoder
  recurses on the nesting depth, which the code bounds by eight; the operation read loop of the session
  consumes a frame in every round, so it ends with the input; every loop over TLVs (the BER iterator, the
  walkers of data groups, extensions, lists and responses) shortens its input; the interface bytes of an
  answer to reset are read from a string that gets shorter; reading a file advances its offset, and ends
  after at most 65,535 commands; a walk along a certificate path enters at most eight certificates, and
  asks at most three addresses of each kind (issuers, responders, lists) for each of them.

  \<^bold>\<open>Not modelled.\<close> The PACE, Chip and Active Authentication key agreements and the public-key primitives
  (third-party arithmetic behind thin wrappers); memory zeroization and display code; multicast discovery
  and TCP connection attempts (\<open>rapp/session.rs\<close> from line 505) and the choice of the vault directory,
  which are input and output; the rest of the clients (their HTTP client is a parameter), the PC/SC, TLS and PKCS \#11 adapters. Card detection, PKCS \#15,
  the embedded trust roots and the signature formats (CMS, PAdES, ASiC) are further components of the
  library that the development does not cover.
\<close>

end
